(* ===== verification/Refine.thy ===== *)
theory Refine
  imports Main
begin

text \<open>
  The two ways components are run, and what carries an invariant or a refinement from one step to a
  whole run.

  Threads that meet in shared variables take steps; \<open>reaches\<close> closes any step relation, and the
  contract \<open>step_invariant\<close> turns a property every step keeps into one of every reachable state.

  Components that answer. An operation takes a state to an answer and a new state;
  \<open>run_ops\<close> performs a list of operations and collects the answers. The contract \<open>simulation\<close> says
  that one component (\<open>step\<close>) answers every operation its clients may use (\<open>legal\<close>, a condition on the
  abstract state) like another, simpler one (\<open>astep\<close>) does on the abstraction of its state, and keeps
  an invariant; the lemmas carry this over to whole runs. A component's contract with its clients is an
  interpretation.
\<close>

section \<open>Steps\<close>

inductive reaches :: "('s \<Rightarrow> 's \<Rightarrow> bool) \<Rightarrow> 's \<Rightarrow> 's \<Rightarrow> bool" for step s0 where
  reaches_start: "reaches step s0 s0"
| reaches_next: "reaches step s0 s \<Longrightarrow> step s s' \<Longrightarrow> reaches step s0 s'"

lemma reaches_trans: "reaches step s1 s2 \<Longrightarrow> reaches step s0 s1 \<Longrightarrow> reaches step s0 s2"
  by (induction rule: reaches.induct) (auto intro: reaches_next)

locale step_invariant =
  fixes step :: "'s \<Rightarrow> 's \<Rightarrow> bool"
    and invar :: "'s \<Rightarrow> bool"
  assumes step_keeps: "step s s' \<Longrightarrow> invar s \<Longrightarrow> invar s'"
begin

lemma reaches_keeps: "reaches step s0 s \<Longrightarrow> invar s0 \<Longrightarrow> invar s"
  by (induction rule: reaches.induct) (auto intro: step_keeps)

end

section \<open>Operations\<close>

fun run_ops :: "('op \<Rightarrow> 's \<Rightarrow> 'r \<times> 's) \<Rightarrow> 'op list \<Rightarrow> 's \<Rightarrow> 'r list \<times> 's" where
  "run_ops f [] s = ([], s)"
| "run_ops f (a # as) s = (let (r, s) = f a s; (rs, s) = run_ops f as s in (r # rs, s))"

lemma length_run_ops [simp]: "length (fst (run_ops f as s)) = length as"
proof (induction as arbitrary: s)
  case (Cons a as)
  then show ?case by (metis (no_types, lifting) case_prod_unfold fst_conv length_Cons run_ops.simps(2))
qed simp

fun legal_run :: "('op \<Rightarrow> 'a \<Rightarrow> 'r \<times> 'a) \<Rightarrow> ('op \<Rightarrow> 'a \<Rightarrow> bool) \<Rightarrow> 'op list \<Rightarrow> 'a \<Rightarrow> bool" where
  "legal_run f legal [] a = True"
| "legal_run f legal (op # ops) a = (legal op a \<and> legal_run f legal ops (snd (f op a)))"

lemma legal_run_op [simp]: "legal_run f (\<lambda>op a. P op) ops a = list_all P ops"
  by (induction ops arbitrary: a) simp_all

lemma list_all_True [simp]: "list_all (\<lambda>x. True) xs"
  by (simp add: list_all_iff)

locale simulation =
  fixes step :: "'op \<Rightarrow> 's \<Rightarrow> 'r \<times> 's"
    and astep :: "'op \<Rightarrow> 'a \<Rightarrow> 'r \<times> 'a"
    and abs :: "'s \<Rightarrow> 'a"
    and invar :: "'s \<Rightarrow> bool"
    and legal :: "'op \<Rightarrow> 'a \<Rightarrow> bool"
  assumes step_refines:
    "invar s \<Longrightarrow> legal op (abs s) \<Longrightarrow> step op s = (r, s') \<Longrightarrow> invar s' \<and> astep op (abs s) = (r, abs s')"
begin

lemma run_refines:
  assumes "invar s" "legal_run astep legal ops (abs s)" "run_ops step ops s = (rs, s')"
  shows "invar s' \<and> run_ops astep ops (abs s) = (rs, abs s')"
  using assms
proof (induction ops arbitrary: s rs)
  case (Cons a ops)
  obtain r s1 rs1 where "step a s = (r, s1)" "run_ops step ops s1 = (rs1, s')" "rs = r # rs1"
    using Cons.prems(3) by (auto split: prod.splits)
  with step_refines [of s a r s1] Cons.IH [of s1 rs1] Cons.prems(1,2) show ?case by simp
qed auto

lemma run_invar: "invar s \<Longrightarrow> legal_run astep legal ops (abs s) \<Longrightarrow> invar (snd (run_ops step ops s))"
  using run_refines by (metis prod.collapse)

lemma run_answers:
  "invar s \<Longrightarrow> legal_run astep legal ops (abs s) \<Longrightarrow> fst (run_ops step ops s) = fst (run_ops astep ops (abs s))"
  using run_refines [of s ops] by (metis fst_conv prod.collapse)

lemma run_state:
  "invar s \<Longrightarrow> legal_run astep legal ops (abs s) \<Longrightarrow> abs (snd (run_ops step ops s)) = snd (run_ops astep ops (abs s))"
  using run_refines [of s ops] by (metis snd_conv prod.collapse)

end

end
