(* ===== verification/Prelude.thy ===== *)
theory Prelude
  imports Main Refine "HOL-Library.Word"
begin

text \<open>
  Shared vocabulary of the development.

  \<^item> Machine integers: \<open>uint8_t\<close> .. \<open>uint64_t\<close> are words of their width, so \<open>+\<close>,
    \<open>-\<close> and \<open>*\<close> wrap exactly as in C++.
  \<^item> Byte images: little-endian encoding of integers, as \<open>memcpy\<close> of an integer produces it
    on the x86-64 targets the repository builds for, and its inverse.
  \<^item> FNV-1a, which the sources spell out wherever a checksum is stored.
  \<^item> Circular buffers: the abstract contents of an array that is used as a ring.
  \<^item> Association lists for \<open>std::unordered_map\<close>; iteration order is the list's order, and no
    property of the development depends on it.
\<close>

unbundle bit_operations_syntax

named_theorems codec_simps "length and round-trip equations of the byte encodings"
named_theorems frame_simps "fields an operation leaves alone"
named_theorems invariant_intros "operations preserve their component's invariant"

type_synonym u8 = "8 word"
type_synonym u16 = "16 word"
type_synonym u32 = "32 word"
type_synonym u64 = "64 word"
type_synonym bytes = "u8 list"
type_synonym ('k, 'v) alist = "('k \<times> 'v) list"

section \<open>Little-endian images of integers\<close>

fun le_nat :: "nat \<Rightarrow> nat \<Rightarrow> bytes" where
  "le_nat 0 n = []"
| "le_nat (Suc k) n = of_nat (n mod 256) # le_nat k (n div 256)"

fun nat_le :: "bytes \<Rightarrow> nat" where
  "nat_le [] = 0"
| "nat_le (b # bs) = unat b + 256 * nat_le bs"

definition le32 :: "u32 \<Rightarrow> bytes" where
  "le32 w = le_nat 4 (unat w)"

definition le64 :: "u64 \<Rightarrow> bytes" where
  "le64 w = le_nat 8 (unat w)"

definition of_le16 :: "bytes \<Rightarrow> u16" where
  "of_le16 bs = of_nat (nat_le (take 2 bs))"

definition of_le32 :: "bytes \<Rightarrow> u32" where
  "of_le32 bs = of_nat (nat_le (take 4 bs))"

definition of_le64 :: "bytes \<Rightarrow> u64" where
  "of_le64 bs = of_nat (nat_le (take 8 bs))"

section \<open>FNV-1a\<close>

definition fnv1a :: "bytes \<Rightarrow> u32" where
  "fnv1a bs = foldl (\<lambda>h b. (h XOR ucast b) * 16777619) 2166136261 bs"

section \<open>Rings and maps\<close>

definition circ :: "'a list \<Rightarrow> nat \<Rightarrow> nat \<Rightarrow> 'a list" where
  "circ buf t n = map (\<lambda>i. buf ! ((t + i) mod length buf)) [0..<n]"

fun al_lookup :: "('k, 'v) alist \<Rightarrow> 'k \<Rightarrow> 'v option" where
  "al_lookup [] k = None"
| "al_lookup ((k', v) # m) k = (if k' = k then Some v else al_lookup m k)"

fun al_update :: "'k \<Rightarrow> 'v \<Rightarrow> ('k, 'v) alist \<Rightarrow> ('k, 'v) alist" where
  "al_update k v [] = [(k, v)]"
| "al_update k v ((k', v') # m) = (if k' = k then (k, v) # m else (k', v') # al_update k v m)"

definition al_delete :: "'k \<Rightarrow> ('k, 'v) alist \<Rightarrow> ('k, 'v) alist" where
  "al_delete k m = filter (\<lambda>e. fst e \<noteq> k) m"

section \<open>Lemmas on encodings\<close>

lemma length_le_nat [simp]: "length (le_nat k n) = k"
  by (induction k arbitrary: n) simp_all

lemma nat_le_le_nat [simp]: "nat_le (le_nat k n) = n mod 256 ^ k"
proof (induction k arbitrary: n)
  case 0
  then show ?case by simp
next
  case (Suc k)
  have "unat (of_nat (n mod 256) :: u8) = n mod 256"
    by (simp add: unat_of_nat)
  then show ?case
    by (simp add: Suc mod_mult2_eq)
qed

lemma nat_le_bound: "nat_le bs < 256 ^ length bs"
proof (induction bs)
  case Nil
  then show ?case by simp
next
  case (Cons b bs)
  have "unat b < 256" using unsigned_less [of b] by simp
  with Cons show ?case by simp
qed

lemma length_le32 [simp, codec_simps]: "length (le32 w) = 4"
  by (simp add: le32_def)

lemma length_le64 [simp, codec_simps]: "length (le64 w) = 8"
  by (simp add: le64_def)

lemma of_le32_le32 [simp, codec_simps]: "of_le32 (le32 w @ bs) = w"
proof -
  have "unat w < 256 ^ 4" using unsigned_less [of w] by simp
  then show ?thesis by (simp add: of_le32_def le32_def)
qed

lemma of_le64_le64 [simp, codec_simps]: "of_le64 (le64 w @ bs) = w"
proof -
  have "unat w < 256 ^ 8" using unsigned_less [of w] by simp
  then show ?thesis by (simp add: of_le64_def le64_def)
qed

lemma of_le32_le32_only [simp, codec_simps]: "of_le32 (le32 w) = w"
  using of_le32_le32 [of w "[]"] by simp

lemma of_le64_le64_only [simp, codec_simps]: "of_le64 (le64 w) = w"
  using of_le64_le64 [of w "[]"] by simp

section \<open>Lemmas on words used as ring indices\<close>

lemma unat_lt_64 [simp]: "unat (w :: u64) < 18446744073709551616"
  using unsigned_less [of w] by simp

lemma unat_lt_32 [simp]: "unat (w :: u32) < 4294967296"
  using unsigned_less [of w] by simp

lemma mask_mod_1024: "unat ((w :: u64) AND 1023) = unat w mod 1024"
proof -
  have "w AND 1023 = take_bit 10 w"
    by (simp add: take_bit_eq_mask mask_eq_exp_minus_1)
  then have "unat (w AND 1023) = take_bit 10 (unat w)"
    by (simp only: unsigned_take_bit_eq)
  then show ?thesis by (simp add: take_bit_eq_mod)
qed

lemma unat_next_1024:
  assumes "unat (h :: u64) < 1024"
  shows "unat ((h + 1) AND 1023) = (unat h + 1) mod 1024"
proof -
  have "unat (h + 1) = unat h + 1"
    using assms by (subst unat_add_lem [THEN iffD1]) simp_all
  then show ?thesis by (simp only: mask_mod_1024)
qed

section \<open>Lemmas on rings and association lists\<close>

lemma length_circ [simp]: "length (circ buf t n) = n"
  by (simp add: circ_def)

lemma circ_0 [simp]: "circ buf t 0 = []"
  by (simp add: circ_def)

lemma circ_Suc_last: "circ buf t (Suc n) = circ buf t n @ [buf ! ((t + n) mod length buf)]"
  by (simp add: circ_def)

lemma circ_Suc_first:
  "circ buf t (Suc n) = buf ! (t mod length buf) # circ buf ((t + 1) mod length buf) n"
proof -
  have "[0..<Suc n] = 0 # map Suc [0..<n]"
    by (rule upt_conv_Cons [THEN trans]) (simp_all add: map_Suc_upt)
  then show ?thesis
    by (simp add: circ_def o_def mod_add_left_eq)
qed

lemma circ_update:
  assumes "n < length buf" "t < length buf"
  shows "circ (buf[(t + n) mod length buf := x]) t n = circ buf t n"
proof -
  have "(t + i) mod length buf \<noteq> (t + n) mod length buf" if "i < n" for i
  proof
    assume eq: "(t + i) mod length buf = (t + n) mod length buf"
    then have "length buf dvd (t + n) - (t + i)"
      using that mod_eq_dvd_iff_nat [of "t + i" "t + n" "length buf"] by simp
    with that assms show False by (auto dest!: dvd_imp_le)
  qed
  then have "buf[(t + n) mod length buf := x] ! ((t + i) mod length buf) = buf ! ((t + i) mod length buf)"
    if "i < n" for i
    using that by (metis nth_list_update_neq)
  then show ?thesis by (simp add: circ_def)
qed

lemma al_lookup_update [simp]: "al_lookup (al_update k v m) k' = (if k' = k then Some v else al_lookup m k')"
  by (induction k v m rule: al_update.induct) auto

lemma al_lookup_delete [simp]: "al_lookup (al_delete k m) k' = (if k' = k then None else al_lookup m k')"
  by (induction m) (auto simp: al_delete_def)

lemma values_al_update: "snd ` set (al_update k v m) \<subseteq> insert v (snd ` set m)"
  by (induction k v m rule: al_update.induct) auto

lemma keys_al_update: "fst ` set (al_update k v m) = insert k (fst ` set m)"
  by (induction k v m rule: al_update.induct) auto

lemma distinct_al_update [simp]:
  "distinct (map fst m) \<Longrightarrow> distinct (map fst (al_update k v m))"
  by (induction k v m rule: al_update.induct) (auto simp: keys_al_update image_iff)

lemma distinct_al_delete [simp]:
  "distinct (map fst m) \<Longrightarrow> distinct (map fst (al_delete k m))"
  by (induction m) (auto simp: al_delete_def)

lemma al_lookup_None: "al_lookup m k = None \<longleftrightarrow> k \<notin> fst ` set m"
  by (induction m k rule: al_lookup.induct) auto

lemma al_lookup_SomeD: "al_lookup m k = Some v \<Longrightarrow> (k, v) \<in> set m"
  by (induction m) (auto split: if_splits)

lemma al_lookup_Some: "distinct (map fst m) \<Longrightarrow> al_lookup m k = Some v \<longleftrightarrow> (k, v) \<in> set m"
  by (induction m k rule: al_lookup.induct) (auto simp: image_iff)

end
