(* ===== verification/AtomicState.thy ===== *)
theory AtomicState
  imports Prelude
begin

text \<open>
  The shim's lifecycle state machine, \<open>src/synapse/atomic/atomic_state.h\<close>.

  \<open>transition\<close> is modelled twice: as one function (a call that runs alone), and as the sequence of
  its shared-memory accesses (load, compare-exchange, locked push to the audit log, counter
  increment), so that calls of several threads interleave. The clock and the thread id, which the
  code reads from the platform, are arguments. A \<open>Transition\<close> keeps the codes of the states, as in
  the source.
\<close>

section \<open>Data\<close>

datatype ShimState = Uninitialized | Initializing | Active | Degraded | Suspended | ShuttingDown | Crashed

fun shim_code :: "ShimState \<Rightarrow> u32" where
  "shim_code Uninitialized = 0"
| "shim_code Initializing = 1"
| "shim_code Active = 2"
| "shim_code Degraded = 3"
| "shim_code Suspended = 4"
| "shim_code ShuttingDown = 5"
| "shim_code Crashed = 6"

record Transition =
  from_state :: u32
  to_state :: u32
  timestamp_ns :: u64
  thread_id :: u32
  reason :: string
  error_code :: u32

record state_machine =
  current_state :: ShimState
  transition_count :: u64
  history :: "Transition list"

section \<open>Operations\<close>

definition state_machine_init :: "ShimState \<Rightarrow> state_machine" where
  "state_machine_init s = \<lparr>current_state = s, transition_count = 0, history = []\<rparr>"

fun is_valid_transition :: "ShimState \<Rightarrow> ShimState \<Rightarrow> bool" where
  "is_valid_transition Uninitialized to = (to = Initializing)"
| "is_valid_transition Initializing to = (to = Active \<or> to = Crashed)"
| "is_valid_transition Active to = (to = Degraded \<or> to = Suspended \<or> to = ShuttingDown \<or> to = Crashed)"
| "is_valid_transition Degraded to = (to = Active \<or> to = Suspended \<or> to = Crashed)"
| "is_valid_transition Suspended to = (to = Active \<or> to = Crashed)"
| "is_valid_transition ShuttingDown to = (to = Uninitialized)"
| "is_valid_transition Crashed to = (to = Uninitialized)"

fun state_name :: "ShimState \<Rightarrow> string" where
  "state_name Uninitialized = ''Uninitialized''"
| "state_name Initializing = ''Initializing''"
| "state_name Active = ''Active''"
| "state_name Degraded = ''Degraded''"
| "state_name Suspended = ''Suspended''"
| "state_name ShuttingDown = ''ShuttingDown''"
| "state_name Crashed = ''Crashed''"

definition log_transition ::
  "ShimState \<Rightarrow> ShimState \<Rightarrow> string \<Rightarrow> u32 \<Rightarrow> u64 \<Rightarrow> u32 \<Rightarrow> state_machine \<Rightarrow> state_machine" where
  "log_transition src tgt why err now tid m =
     m\<lparr>history := history m @
        [\<lparr>from_state = shim_code src, to_state = shim_code tgt, timestamp_ns = now,
          thread_id = tid, reason = why, error_code = err\<rparr>]\<rparr>"

definition compare_exchange :: "ShimState \<Rightarrow> ShimState \<Rightarrow> state_machine \<Rightarrow> bool \<times> state_machine" where
  "compare_exchange expected target m =
     (if current_state m = expected then (True, m\<lparr>current_state := target\<rparr>) else (False, m))"

definition transition ::
  "ShimState \<Rightarrow> string \<Rightarrow> u32 \<Rightarrow> u64 \<Rightarrow> u32 \<Rightarrow> state_machine \<Rightarrow> bool \<times> state_machine" where
  "transition target why err now tid m =
     (let expected = current_state m
      in if \<not> is_valid_transition expected target then (False, m)
         else let (won, m') = compare_exchange expected target m
              in if \<not> won then (False, m')
                 else let m'' = log_transition expected target why err now tid m'
                      in (True, m''\<lparr>transition_count := transition_count m'' + 1\<rparr>))"

text \<open>A sequence of calls made by one thread at a time.\<close>

record call =
  c_target :: ShimState
  c_reason :: string
  c_error :: u32
  c_now :: u64
  c_tid :: u32

definition run_call :: "call \<Rightarrow> state_machine \<Rightarrow> state_machine" where
  "run_call c m = snd (transition (c_target c) (c_reason c) (c_error c) (c_now c) (c_tid c) m)"

fun run_calls :: "call list \<Rightarrow> state_machine \<Rightarrow> state_machine" where
  "run_calls [] m = m"
| "run_calls (c # cs) m = run_calls cs (run_call c m)"

section \<open>Interleaved threads\<close>

text \<open>Where a thread is inside \<open>transition\<close>: it has loaded \<open>expected\<close> and passed the guard, it has
  won the exchange, or it has appended its audit record and not yet counted it.\<close>

datatype pc =
    Idle
  | Loaded ShimState ShimState string u32
  | Swapped ShimState ShimState string u32
  | Logged

record sys =
  machine :: state_machine
  pcs :: "pc list"

inductive sm_step :: "sys \<Rightarrow> sys \<Rightarrow> bool" where
  load_refused: "\<lbrakk>i < length (pcs s); pcs s ! i = Idle;
      \<not> is_valid_transition (current_state (machine s)) tgt\<rbrakk> \<Longrightarrow> sm_step s s"
| load_ok: "\<lbrakk>i < length (pcs s); pcs s ! i = Idle;
      is_valid_transition (current_state (machine s)) tgt\<rbrakk> \<Longrightarrow>
      sm_step s (s\<lparr>pcs := (pcs s)[i := Loaded (current_state (machine s)) tgt why err]\<rparr>)"
| cas_won: "\<lbrakk>i < length (pcs s); pcs s ! i = Loaded expected tgt why err;
      compare_exchange expected tgt (machine s) = (True, m')\<rbrakk> \<Longrightarrow>
      sm_step s (s\<lparr>machine := m', pcs := (pcs s)[i := Swapped expected tgt why err]\<rparr>)"
| cas_lost: "\<lbrakk>i < length (pcs s); pcs s ! i = Loaded expected tgt why err;
      compare_exchange expected tgt (machine s) = (False, m')\<rbrakk> \<Longrightarrow>
      sm_step s (s\<lparr>machine := m', pcs := (pcs s)[i := Idle]\<rparr>)"
| push_log: "\<lbrakk>i < length (pcs s); pcs s ! i = Swapped expected tgt why err\<rbrakk> \<Longrightarrow>
      sm_step s (s\<lparr>machine := log_transition expected tgt why err now tid (machine s),
                   pcs := (pcs s)[i := Logged]\<rparr>)"
| count: "\<lbrakk>i < length (pcs s); pcs s ! i = Logged\<rbrakk> \<Longrightarrow>
      sm_step s (s\<lparr>machine := (machine s)\<lparr>transition_count := transition_count (machine s) + 1\<rparr>,
                   pcs := (pcs s)[i := Idle]\<rparr>)"

definition sys_init :: "ShimState \<Rightarrow> nat \<Rightarrow> sys" where
  "sys_init s0 n = \<lparr>machine = state_machine_init s0, pcs = replicate n Idle\<rparr>"

abbreviation sm_reachable :: "ShimState \<Rightarrow> nat \<Rightarrow> sys \<Rightarrow> bool" where
  "sm_reachable s0 n \<equiv> reaches sm_step (sys_init s0 n)"

inductive_cases sm_stepE: "sm_step s s'"

section \<open>What an audit log says\<close>

fun chain :: "ShimState \<Rightarrow> Transition list \<Rightarrow> ShimState \<Rightarrow> bool" where
  "chain a [] b = (a = b)"
| "chain a (t # ts) b =
     (\<exists>c \<in> {Uninitialized, Initializing, Active, Degraded, Suspended, ShuttingDown, Crashed}.
        from_state t = shim_code a \<and> to_state t = shim_code c \<and> is_valid_transition a c \<and> chain c ts b)"

definition valid_record :: "Transition \<Rightarrow> bool" where
  "valid_record t \<longleftrightarrow>
     (\<exists>a \<in> {Uninitialized, Initializing, Active, Degraded, Suspended, ShuttingDown, Crashed}.
      \<exists>b \<in> {Uninitialized, Initializing, Active, Degraded, Suspended, ShuttingDown, Crashed}.
        from_state t = shim_code a \<and> to_state t = shim_code b \<and> is_valid_transition a b)"

text \<open>Net number of records that enter a state: entries minus exits.\<close>

definition net :: "u32 \<Rightarrow> Transition list \<Rightarrow> int" where
  "net c ts = (\<Sum>t\<leftarrow>ts. of_bool (to_state t = c) - of_bool (from_state t = c))"

fun pending_net :: "u32 \<Rightarrow> pc \<Rightarrow> int" where
  "pending_net c (Swapped a b why err) = of_bool (shim_code b = c) - of_bool (shim_code a = c)"
| "pending_net c p = 0"

definition logged_threads :: "pc list \<Rightarrow> nat" where
  "logged_threads ps = length (filter (\<lambda>p. p = Logged) ps)"

fun pc_ok :: "pc \<Rightarrow> bool" where
  "pc_ok (Loaded a b why err) = is_valid_transition a b"
| "pc_ok (Swapped a b why err) = is_valid_transition a b"
| "pc_ok p = True"

definition sm_inv :: "ShimState \<Rightarrow> sys \<Rightarrow> bool" where
  "sm_inv s0 s \<longleftrightarrow>
     (\<forall>p \<in> set (pcs s). pc_ok p) \<and> (\<forall>t \<in> set (history (machine s)). valid_record t) \<and>
     (\<forall>c. net c (history (machine s)) + (\<Sum>p\<leftarrow>pcs s. pending_net c p)
        = of_bool (shim_code (current_state (machine s)) = c) - of_bool (shim_code s0 = c)) \<and>
     (of_nat (length (history (machine s))) :: u64)
        = transition_count (machine s) + of_nat (logged_threads (pcs s))"

text \<open>Two threads, the first of which is overtaken between its exchange and its log entry.\<close>

definition racing_log :: "Transition list" where
  "racing_log =
     [\<lparr>from_state = 1, to_state = 2, timestamp_ns = 5, thread_id = 2, reason = ''up'', error_code = 0\<rparr>,
      \<lparr>from_state = 0, to_state = 1, timestamp_ns = 6, thread_id = 1, reason = ''init'', error_code = 0\<rparr>]"

definition racing_end :: sys where
  "racing_end = \<lparr>machine = \<lparr>current_state = Active, transition_count = 2, history = racing_log\<rparr>,
                 pcs = [Idle, Idle]\<rparr>"

definition mk_sys :: "ShimState \<Rightarrow> u64 \<Rightarrow> Transition list \<Rightarrow> pc \<Rightarrow> pc \<Rightarrow> sys" where
  "mk_sys st n h p q = \<lparr>machine = \<lparr>current_state = st, transition_count = n, history = h\<rparr>, pcs = [p, q]\<rparr>"

section \<open>Sequential behaviour\<close>

lemma shim_code_inj [simp]: "shim_code a = shim_code b \<longleftrightarrow> a = b"
  by (cases a; cases b) simp_all

lemma in_all_states [simp]:
  "s \<in> {Uninitialized, Initializing, Active, Degraded, Suspended, ShuttingDown, Crashed}"
  by (cases s) simp_all

lemma state_name_inj: "state_name a = state_name b \<longleftrightarrow> a = b"
  by (cases a; cases b) simp_all

lemma transition_ok:
  "is_valid_transition (current_state m) tgt \<Longrightarrow>
   transition tgt why err now tid m =
     (True, (log_transition (current_state m) tgt why err now tid m)
        \<lparr>current_state := tgt, transition_count := transition_count m + 1\<rparr>)"
  by (simp add: transition_def compare_exchange_def log_transition_def Let_def)

lemma transition_refused:
  "\<not> is_valid_transition (current_state m) tgt \<Longrightarrow> transition tgt why err now tid m = (False, m)"
  by (simp add: transition_def)

lemma chain_append:
  "chain a ts b \<Longrightarrow> is_valid_transition b c \<Longrightarrow> from_state t = shim_code b \<Longrightarrow> to_state t = shim_code c
   \<Longrightarrow> chain a (ts @ [t]) c"
proof (induction a ts b rule: chain.induct)
  case (1 a b)
  then show ?case by (cases c) auto
next
  case (2 a t' ts b)
  then show ?case by (simp del: insert_iff) blast
qed

lemma run_call_chain:
  assumes "chain s0 (history m) (current_state m)"
  shows "chain s0 (history (run_call c m)) (current_state (run_call c m))"
proof (cases "is_valid_transition (current_state m) (c_target c)")
  case True
  then show ?thesis
    using assms by (auto simp: run_call_def transition_ok log_transition_def intro!: chain_append)
next
  case False
  then show ?thesis using assms by (simp add: run_call_def transition_refused)
qed

lemma run_call_count:
  "transition_count m = of_nat (length (history m)) \<Longrightarrow>
   transition_count (run_call c m) = of_nat (length (history (run_call c m)))"
  by (cases "is_valid_transition (current_state m) (c_target c)")
    (simp_all add: run_call_def transition_ok transition_refused log_transition_def)

lemma run_calls_invariant:
  assumes "chain s0 (history m) (current_state m)" "transition_count m = of_nat (length (history m))"
  shows "chain s0 (history (run_calls cs m)) (current_state (run_calls cs m))
       \<and> transition_count (run_calls cs m) = of_nat (length (history (run_calls cs m)))"
  using assms by (induction cs m rule: run_calls.induct) (simp_all add: run_call_chain run_call_count)

section \<open>Interleaved behaviour\<close>

lemma net_append [simp]: "net c (xs @ ys) = net c xs + net c ys"
  by (simp add: net_def)

lemma net_single [simp]: "net c [t] = of_bool (to_state t = c) - of_bool (from_state t = c)"
  by (simp add: net_def)

lemma pending_sum_update:
  "i < length ps \<Longrightarrow>
   (\<Sum>p\<leftarrow>ps[i := q]. pending_net c p) = (\<Sum>p\<leftarrow>ps. pending_net c p) - pending_net c (ps ! i) + pending_net c q"
proof (induction ps arbitrary: i)
  case (Cons p ps)
  then show ?case by (cases i) auto
qed simp

lemma logged_update:
  "i < length ps \<Longrightarrow>
   int (logged_threads (ps[i := q]))
     = int (logged_threads ps) - of_bool (ps ! i = Logged) + of_bool (q = Logged)"
proof (induction ps arbitrary: i)
  case (Cons p ps)
  then show ?case by (cases i) (auto simp: logged_threads_def)
qed (simp add: logged_threads_def)

lemma pcs_update_ok:
  "p \<in> set (ps[i := q]) \<Longrightarrow> (\<forall>p \<in> set ps. pc_ok p) \<Longrightarrow> pc_ok q \<Longrightarrow> pc_ok p"
  using set_update_subset_insert [of ps i q] by auto

lemma logged_word_update:
  assumes "i < length ps"
  shows "(of_nat (logged_threads (ps[i := q])) :: u64)
     = of_nat (logged_threads ps) - of_bool (ps ! i = Logged) + of_bool (q = Logged)"
proof -
  have "(of_int (int (logged_threads (ps[i := q]))) :: u64)
     = of_int (int (logged_threads ps) - of_bool (ps ! i = Logged) + of_bool (q = Logged))"
    by (simp only: logged_update [OF assms])
  then show ?thesis by (simp del: of_bool_eq_iff)
qed

lemma sm_inv_step:
  assumes "sm_step s s'" "sm_inv s0 s"
  shows "sm_inv s0 s'"
  using assms
proof (induction rule: sm_step.induct)
  case (load_refused i s tgt)
  then show ?case by simp
next
  case (load_ok i s tgt why err)
  then show ?case
    unfolding sm_inv_def by (auto simp: pending_sum_update logged_word_update dest!: pcs_update_ok)
next
  case (cas_won i s expected tgt why err m')
  from cas_won.prems cas_won.hyps have "is_valid_transition expected tgt"
    unfolding sm_inv_def by (metis nth_mem pc_ok.simps(1))
  moreover have m': "m' = (machine s)\<lparr>current_state := tgt\<rparr>" "current_state (machine s) = expected"
    using cas_won.hyps by (auto simp: compare_exchange_def split: if_splits)
  moreover have "net c (history (machine s)) + (\<Sum>p\<leftarrow>(pcs s)[i := Swapped expected tgt why err]. pending_net c p)
      = of_bool (shim_code tgt = c) - of_bool (shim_code s0 = c)" for c
  proof -
    have "net c (history (machine s)) + (\<Sum>p\<leftarrow>pcs s. pending_net c p)
        = of_bool (shim_code expected = c) - of_bool (shim_code s0 = c)"
      using cas_won.prems m' by (simp add: sm_inv_def)
    then show ?thesis
      unfolding pending_sum_update [OF cas_won.hyps(1)] cas_won.hyps(2) pending_net.simps by linarith
  qed
  ultimately show ?case
    using cas_won unfolding sm_inv_def by (auto simp: logged_word_update dest!: pcs_update_ok)
next
  case (cas_lost i s expected tgt why err m')
  then show ?case
    unfolding sm_inv_def
    by (auto simp: pending_sum_update logged_word_update compare_exchange_def
        split: if_splits dest!: pcs_update_ok)
next
  case (push_log i s expected tgt why err now tid)
  from push_log.prems push_log.hyps have "is_valid_transition expected tgt"
    unfolding sm_inv_def by (metis nth_mem pc_ok.simps(2))
  then have "valid_record \<lparr>from_state = shim_code expected, to_state = shim_code tgt,
      timestamp_ns = now, thread_id = tid, reason = why, error_code = err\<rparr>"
    unfolding valid_record_def by (intro bexI [of _ expected] bexI [of _ tgt]) (simp_all del: insert_iff)
  with push_log show ?case
    unfolding sm_inv_def
    by (auto simp: pending_sum_update logged_word_update log_transition_def dest!: pcs_update_ok)
next
  case (count i s)
  then show ?case
    unfolding sm_inv_def
    by (auto simp: pending_sum_update logged_word_update dest!: pcs_update_ok)
qed

lemma sm_inv_init: "sm_inv s0 (sys_init s0 n)"
  by (simp add: sm_inv_def sys_init_def state_machine_init_def net_def logged_threads_def
      sum_list_replicate)

interpretation transitions: step_invariant sm_step "sm_inv s0" for s0
  by unfold_locales (rule sm_inv_step)

lemma sm_inv_reachable: "sm_reachable s0 n s \<Longrightarrow> sm_inv s0 s"
  by (erule transitions.reaches_keeps) (rule sm_inv_init)

lemma pending_net_quiescent: "\<forall>p \<in> set ps. p = Idle \<Longrightarrow> (\<Sum>p\<leftarrow>ps. pending_net c p) = 0"
  by (induction ps) simp_all

lemma logged_quiescent: "\<forall>p \<in> set ps. p = Idle \<Longrightarrow> logged_threads ps = 0"
  by (induction ps) (simp_all add: logged_threads_def)

section \<open>Properties\<close>

text \<open>When calls to \<open>transition\<close> do not overlap, the audit log is, whatever the calls were, a path
  of valid transitions that leads from the initial state to the current one, and the transition
  counter is the length of the log (as a 64-bit counter).\<close>
theorem audit_log_is_path:
  "chain s0 (history (run_calls cs (state_machine_init s0)))
      (current_state (run_calls cs (state_machine_init s0)))
   \<and> transition_count (run_calls cs (state_machine_init s0))
      = of_nat (length (history (run_calls cs (state_machine_init s0))))"
  by (rule run_calls_invariant) (simp_all add: state_machine_init_def)

text \<open>C4: With any number of threads inside \<open>transition\<close> at once, every record in the audit log is a
  valid transition, and whenever no call is in flight the log balances: it enters each state as
  often as it leaves it, except for the initial and the current state, and the counter equals the
  log's length. So no won compare-exchange is lost from the log, and none is logged twice.\<close>
theorem audit_log_balanced:
  assumes "sm_reachable s0 n s"
  shows "(\<forall>t \<in> set (history (machine s)). valid_record t) \<and>
    ((\<forall>p \<in> set (pcs s). p = Idle) \<longrightarrow>
       (\<forall>c. net c (history (machine s))
           = of_bool (shim_code (current_state (machine s)) = c) - of_bool (shim_code s0 = c)) \<and>
       transition_count (machine s) = of_nat (length (history (machine s))))"
proof (intro conjI impI allI)
  have inv: "sm_inv s0 s" by (rule sm_inv_reachable [OF assms])
  then show "\<forall>t \<in> set (history (machine s)). valid_record t" by (simp add: sm_inv_def)
  assume idle: "\<forall>p \<in> set (pcs s). p = Idle"
  show "net c (history (machine s))
      = of_bool (shim_code (current_state (machine s)) = c) - of_bool (shim_code s0 = c)" for c
    using inv pending_net_quiescent [OF idle, of c] unfolding sm_inv_def by (metis add_0_right)
  show "transition_count (machine s) = of_nat (length (history (machine s)))"
    using inv logged_quiescent [OF idle] by (simp add: sm_inv_def)
qed

lemma mk_step1:
  "is_valid_transition st tgt \<Longrightarrow> sm_step (mk_sys st n h Idle q) (mk_sys st n h (Loaded st tgt why err) q)"
  "sm_step (mk_sys st n h (Loaded st tgt why err) q) (mk_sys tgt n h (Swapped st tgt why err) q)"
  "sm_step (mk_sys c n h (Swapped st tgt why err) q)
     (mk_sys c n (h @ [\<lparr>from_state = shim_code st, to_state = shim_code tgt, timestamp_ns = now,
        thread_id = tid, reason = why, error_code = err\<rparr>]) Logged q)"
  "sm_step (mk_sys c n h Logged q) (mk_sys c (n + 1) h Idle q)"
  using load_ok [of 0 "mk_sys st n h Idle q" tgt why err]
    cas_won [of 0 "mk_sys st n h (Loaded st tgt why err) q" st tgt why err]
    push_log [of 0 "mk_sys c n h (Swapped st tgt why err) q" st tgt why err now tid]
    count [of 0 "mk_sys c n h Logged q"]
  by (simp_all add: mk_sys_def compare_exchange_def log_transition_def)

lemma mk_step2:
  "is_valid_transition st tgt \<Longrightarrow> sm_step (mk_sys st n h p Idle) (mk_sys st n h p (Loaded st tgt why err))"
  "sm_step (mk_sys st n h p (Loaded st tgt why err)) (mk_sys tgt n h p (Swapped st tgt why err))"
  "sm_step (mk_sys c n h p (Swapped st tgt why err))
     (mk_sys c n (h @ [\<lparr>from_state = shim_code st, to_state = shim_code tgt, timestamp_ns = now,
        thread_id = tid, reason = why, error_code = err\<rparr>]) p Logged)"
  "sm_step (mk_sys c n h p Logged) (mk_sys c (n + 1) h p Idle)"
  using load_ok [of 1 "mk_sys st n h p Idle" tgt why err]
    cas_won [of 1 "mk_sys st n h p (Loaded st tgt why err)" st tgt why err]
    push_log [of 1 "mk_sys c n h p (Swapped st tgt why err)" st tgt why err now tid]
    count [of 1 "mk_sys c n h p Logged"]
  by (simp_all add: mk_sys_def compare_exchange_def log_transition_def)

lemma racing_end_reachable: "sm_reachable Uninitialized 2 racing_end"
proof -
  have "sm_reachable Uninitialized 2 (mk_sys Uninitialized 0 [] Idle Idle)"
    using reaches_start [of sm_step "sys_init Uninitialized 2"]
    by (simp add: sys_init_def state_machine_init_def mk_sys_def numeral_2_eq_2)
  then have "sm_reachable Uninitialized 2
      (mk_sys Uninitialized 0 [] (Loaded Uninitialized Initializing ''init'' 0) Idle)"
    by (rule reaches_next) (rule mk_step1, simp)
  then have "sm_reachable Uninitialized 2
      (mk_sys Initializing 0 [] (Swapped Uninitialized Initializing ''init'' 0) Idle)"
    by (rule reaches_next) (rule mk_step1)
  then have "sm_reachable Uninitialized 2 (mk_sys Initializing 0 []
      (Swapped Uninitialized Initializing ''init'' 0) (Loaded Initializing Active ''up'' 0))"
    by (rule reaches_next) (rule mk_step2, simp)
  then have "sm_reachable Uninitialized 2 (mk_sys Active 0 []
      (Swapped Uninitialized Initializing ''init'' 0) (Swapped Initializing Active ''up'' 0))"
    by (rule reaches_next) (rule mk_step2)
  from reaches_next [OF this mk_step2(3) [where now = 5 and tid = 2]]
  have "sm_reachable Uninitialized 2 (mk_sys Active 0 (take 1 racing_log)
      (Swapped Uninitialized Initializing ''init'' 0) Logged)"
    by (simp add: racing_log_def)
  from reaches_next [OF this mk_step1(3) [where now = 6 and tid = 1]]
  have "sm_reachable Uninitialized 2 (mk_sys Active 0 racing_log Logged Logged)"
    by (simp add: racing_log_def)
  from reaches_next [OF reaches_next [OF this mk_step1(4)] mk_step2(4)]
  show ?thesis by (simp add: racing_end_def mk_sys_def)
qed

theorem audit_log_balanced_witness:
  "sm_reachable Uninitialized 2 racing_end \<and>
   list_all valid_record (history (machine racing_end)) \<and>
   transition_count (machine racing_end) = of_nat (length (history (machine racing_end)))"
  using racing_end_reachable audit_log_balanced [OF racing_end_reachable]
  by (simp add: racing_end_def list_all_iff)

text \<open>The order of the audit log is not the order of the transitions: two threads can leave a log
  whose first record starts in a state the machine had not reached, although each record is valid
  and nothing is in flight. The header's promise of an auditable trail holds for the set of records
  only.\<close>
theorem audit_log_order_can_differ:
  "\<exists>s. sm_reachable Uninitialized 2 s \<and> (\<forall>p \<in> set (pcs s). p = Idle)
     \<and> \<not> chain Uninitialized (history (machine s)) (current_state (machine s))"
proof (intro exI conjI)
  show "sm_reachable Uninitialized 2 racing_end" by (rule racing_end_reachable)
qed (simp_all add: racing_end_def racing_log_def)

end
