(* ===== verification/Degradation.thy ===== *)
theory Degradation
  imports Prelude
begin

text \<open>
  Feature flags with automatic degradation, \<open>src/synapse/atomic/graceful_degradation.h\<close>. The two
  hash maps are association lists with distinct keys; \<open>m[k]\<close> inserts \<open>FeatureState(0)\<close>, which is
  \<open>Enabled\<close>, when the key is missing.
\<close>

datatype FeatureState = Feat_Enabled | Feat_Degraded | Feat_Disabled | Feat_Fallback

record GracefulDegradation =
  features :: "(string, FeatureState) alist"
  initial_states :: "(string, FeatureState) alist"

definition degradation_init :: GracefulDegradation where
  "degradation_init = \<lparr>features = [], initial_states = []\<rparr>"

definition register_feature :: "string \<Rightarrow> FeatureState \<Rightarrow> GracefulDegradation \<Rightarrow> GracefulDegradation" where
  "register_feature name initial g =
     g\<lparr>features := al_update name initial (features g),
       initial_states := al_update name initial (initial_states g)\<rparr>"

definition feature_state :: "string \<Rightarrow> GracefulDegradation \<Rightarrow> FeatureState" where
  "feature_state name g = (case al_lookup (features g) name of None \<Rightarrow> Feat_Disabled | Some s \<Rightarrow> s)"

definition is_available :: "string \<Rightarrow> GracefulDegradation \<Rightarrow> bool" where
  "is_available name g = (let s = feature_state name g in s = Feat_Enabled \<or> s = Feat_Degraded)"

definition error_target :: "FeatureState option \<Rightarrow> u32 \<Rightarrow> FeatureState" where
  "error_target initial code =
     (if code = 0 then (case initial of Some s \<Rightarrow> s | None \<Rightarrow> Feat_Enabled)
      else if code = 1 then Feat_Degraded
      else if code = 2 then Feat_Disabled
      else if code = 3 then Feat_Fallback
      else Feat_Disabled)"

definition handle_error :: "string \<Rightarrow> u32 \<Rightarrow> GracefulDegradation \<Rightarrow> GracefulDegradation" where
  "handle_error name code g =
     g\<lparr>features := al_update name (error_target (al_lookup (initial_states g) name) code) (features g)\<rparr>"

definition reset_all :: "GracefulDegradation \<Rightarrow> GracefulDegradation" where
  "reset_all g = g\<lparr>features := fold (\<lambda>(name, initial). al_update name initial) (initial_states g) (features g)\<rparr>"

record Summary =
  enabled :: u32
  degraded :: u32
  disabled :: u32
  fallback :: u32

fun count_state :: "FeatureState \<Rightarrow> Summary \<Rightarrow> Summary" where
  "count_state Feat_Enabled s = s\<lparr>enabled := enabled s + 1\<rparr>"
| "count_state Feat_Degraded s = s\<lparr>degraded := degraded s + 1\<rparr>"
| "count_state Feat_Disabled s = s\<lparr>disabled := disabled s + 1\<rparr>"
| "count_state Feat_Fallback s = s\<lparr>fallback := fallback s + 1\<rparr>"

definition summary :: "GracefulDegradation \<Rightarrow> Summary" where
  "summary g = fold (\<lambda>(name, st). count_state st) (features g)
     \<lparr>enabled = 0, degraded = 0, disabled = 0, fallback = 0\<rparr>"

definition feature_count :: "GracefulDegradation \<Rightarrow> nat" where
  "feature_count g = length (features g)"

text \<open>A sequence of operations.\<close>

datatype feature_op = Register string FeatureState | Error string u32 | Reset

fun feature_step :: "feature_op \<Rightarrow> GracefulDegradation \<Rightarrow> GracefulDegradation" where
  "feature_step (Register n s) g = register_feature n s g"
| "feature_step (Error n c) g = handle_error n c g"
| "feature_step Reset g = reset_all g"

fun reregisters :: "string \<Rightarrow> feature_op \<Rightarrow> bool" where
  "reregisters n (Register m s) = (m = n)"
| "reregisters n op = False"

definition degradation_inv :: "GracefulDegradation \<Rightarrow> bool" where
  "degradation_inv g \<longleftrightarrow> distinct (map fst (features g)) \<and> distinct (map fst (initial_states g)) \<and>
     fst ` set (initial_states g) \<subseteq> fst ` set (features g)"

section \<open>Lemmas\<close>

lemma fold_al_update_keys:
  "fst ` set (fold (\<lambda>(k, v). al_update k v) kvs m) = fst ` set kvs \<union> fst ` set m"
  by (induction kvs arbitrary: m) (simp_all add: case_prod_beta keys_al_update)

lemma fold_al_update_distinct:
  "distinct (map fst m) \<Longrightarrow> distinct (map fst (fold (\<lambda>(k, v). al_update k v) kvs m))"
  by (induction kvs arbitrary: m) auto

lemma fold_al_update_lookup:
  "distinct (map fst kvs) \<Longrightarrow>
   al_lookup (fold (\<lambda>(k, v). al_update k v) kvs m) k
     = (case al_lookup kvs k of Some v \<Rightarrow> Some v | None \<Rightarrow> al_lookup m k)"
proof (induction kvs arbitrary: m)
  case (Cons kv kvs)
  then show ?case
    by (cases kv) (auto simp: al_lookup_None [THEN iffD2] split: option.splits)
qed simp

lemma degradation_inv_step: "degradation_inv g \<Longrightarrow> degradation_inv (feature_step op g)"
  by (cases op)
    (auto simp: degradation_inv_def register_feature_def handle_error_def reset_all_def
      keys_al_update fold_al_update_keys fold_al_update_distinct)

lemma degradation_inv_run: "degradation_inv g \<Longrightarrow> degradation_inv (fold feature_step ops g)"
  by (induction ops arbitrary: g) (simp_all add: degradation_inv_step)

lemma degradation_inv_init: "degradation_inv degradation_init"
  by (simp add: degradation_inv_def degradation_init_def)

lemma initial_kept:
  "\<forall>op \<in> set ops. \<not> reregisters n op \<Longrightarrow>
   al_lookup (initial_states (fold feature_step ops g)) n = al_lookup (initial_states g) n"
proof (induction ops arbitrary: g)
  case (Cons op ops)
  have "al_lookup (initial_states (feature_step op g)) n = al_lookup (initial_states g) n"
    using Cons.prems by (cases op) (auto simp: register_feature_def handle_error_def reset_all_def)
  with Cons show ?case by simp
qed simp

lemma summary_total_fold:
  "let s = fold (\<lambda>(n, st). count_state st) fs s0
   in enabled s + degraded s + disabled s + fallback s
      = enabled s0 + degraded s0 + disabled s0 + fallback s0 + of_nat (length fs)"
proof (induction fs arbitrary: s0)
  case (Cons f fs)
  obtain n st where f: "f = (n, st)" by (cases f)
  from Cons [of "count_state st s0"] show ?case
    by (cases st) (simp_all add: f Let_def algebra_simps)
qed simp

lemma feature_state_handle:
  "feature_state m (handle_error n c g)
     = (if m = n then error_target (al_lookup (initial_states g) n) c else feature_state m g)"
  by (simp add: feature_state_def handle_error_def)

section \<open>Properties\<close>

text \<open>Recovery undoes every degradation. Once a feature has been registered, no sequence of errors,
  resets and registrations of other features keeps error code 0, or \<open>reset_all\<close>, from bringing it
  back to its registered state.\<close>
theorem feature_recovers:
  assumes "degradation_inv g" "\<forall>op \<in> set ops. \<not> reregisters n op"
    and "g' = fold feature_step ops (register_feature n s g)"
  shows "feature_state n (handle_error n 0 g') = s \<and> feature_state n (reset_all g') = s"
proof -
  have "degradation_inv (register_feature n s g)"
    using degradation_inv_step [OF assms(1), of "Register n s"] by simp
  then have "degradation_inv g'" unfolding assms(3) by (rule degradation_inv_run)
  moreover have "al_lookup (initial_states g') n = Some s"
    using initial_kept [OF assms(2)] by (simp add: assms(3) register_feature_def)
  ultimately show ?thesis
    by (simp add: feature_state_handle error_target_def)
      (simp add: feature_state_def reset_all_def fold_al_update_lookup degradation_inv_def)
qed

theorem feature_recovers_witness:
  "let g' = fold feature_step [Error ''jit'' 2, Register ''hai'' Feat_Enabled, Error ''hai'' 7]
       (register_feature ''jit'' Feat_Degraded degradation_init)
   in feature_state ''jit'' (handle_error ''jit'' 0 g') = Feat_Degraded
      \<and> feature_state ''jit'' (reset_all g') = Feat_Degraded"
  unfolding Let_def by (rule feature_recovers [OF degradation_inv_init _ refl]) simp

text \<open>The summary accounts for every feature: after any operations its four counters add up to the
  number of features (modulo 2^32, the width of the counters), and a feature is available exactly
  when it is present and enabled or degraded.\<close>
theorem summary_total:
  "let g = fold feature_step ops degradation_init; s = summary g
   in enabled s + degraded s + disabled s + fallback s = of_nat (feature_count g)
      \<and> feature_count g = card (fst ` set (features g))
      \<and> is_available n g = (al_lookup (features g) n \<in> {Some Feat_Enabled, Some Feat_Degraded})"
proof -
  let ?g = "fold feature_step ops degradation_init"
  have "distinct (map fst (features ?g))"
    using degradation_inv_run [OF degradation_inv_init] by (simp add: degradation_inv_def)
  then have "feature_count ?g = card (fst ` set (features ?g))"
    using distinct_card by (fastforce simp: feature_count_def)
  moreover have "is_available n ?g = (al_lookup (features ?g) n \<in> {Some Feat_Enabled, Some Feat_Degraded})"
    by (simp add: is_available_def feature_state_def split: option.splits)
  ultimately show ?thesis
    using summary_total_fold [of "features ?g" "\<lparr>enabled = 0, degraded = 0, disabled = 0, fallback = 0\<rparr>"]
    by (simp add: summary_def feature_count_def Let_def)
qed

end
