(* ===== verification/Ring.thy ===== *)
theory Ring
  imports Prelude
begin

text \<open>
  Bounded FIFO queues. The repository has two single-producer single-consumer rings of 1024 slots
  with masked indices (\<open>TelemetryRing\<close> in \<open>atomic_telemetry.h\<close> and \<open>TelemetryRingBuffer\<close> in
  \<open>synapse_umd.h\<close>). This theory holds what they share: the queue an index pair stands for, the
  index lemmas, and the contract \<open>bounded_fifo\<close> with the lemmas its clients use. Each ring
  interprets the contract in its own theory.
\<close>

section \<open>The queue a pair of indices stands for\<close>

definition ring_ok :: "u64 \<Rightarrow> u64 \<Rightarrow> 'a list \<Rightarrow> bool" where
  "ring_ok h t buf \<longleftrightarrow> length buf = 1024 \<and> unat h < 1024 \<and> unat t < 1024"

definition ring_len :: "u64 \<Rightarrow> u64 \<Rightarrow> nat" where
  "ring_len h t = (unat h + 1024 - unat t) mod 1024"

definition ring_contents :: "u64 \<Rightarrow> u64 \<Rightarrow> 'a list \<Rightarrow> 'a list" where
  "ring_contents h t buf = circ buf (unat t) (ring_len h t)"

section \<open>The contract\<close>

datatype 'a fifo_op = Push 'a | Pop

text \<open>An operation's answer: whether a push was accepted, and what a pop returned.\<close>

fun fifo_step :: "('a \<Rightarrow> 's \<Rightarrow> bool \<times> 's) \<Rightarrow> ('s \<Rightarrow> 'a option \<times> 's) \<Rightarrow> 'a fifo_op \<Rightarrow> 's
    \<Rightarrow> (bool + 'a option) \<times> 's" where
  "fifo_step ph pp (Push x) s = (let (b, s) = ph x s in (Inl b, s))"
| "fifo_step ph pp Pop s = (let (r, s) = pp s in (Inr r, s))"

definition queue_push :: "nat \<Rightarrow> 'a \<Rightarrow> 'a list \<Rightarrow> bool \<times> 'a list" where
  "queue_push cap x q = (if length q < cap then (True, q @ [x]) else (False, q))"

fun queue_pop :: "'a list \<Rightarrow> 'a option \<times> 'a list" where
  "queue_pop [] = (None, [])"
| "queue_pop (x # q) = (Some x, q)"

locale bounded_fifo =
  fixes ph :: "'a \<Rightarrow> 's \<Rightarrow> bool \<times> 's"
    and pp :: "'s \<Rightarrow> 'a option \<times> 's"
    and contents :: "'s \<Rightarrow> 'a list"
    and invar :: "'s \<Rightarrow> bool"
    and cap :: nat
  assumes push_refines: "invar s \<Longrightarrow> ph x s = (b, s') \<Longrightarrow> invar s' \<and> queue_push cap x (contents s) = (b, contents s')"
    and pop_refines: "invar s \<Longrightarrow> pp s = (r, s') \<Longrightarrow> invar s' \<and> queue_pop (contents s) = (r, contents s')"
    and bounded: "invar s \<Longrightarrow> length (contents s) \<le> cap"
begin

lemma fifo_step_refines:
  assumes "invar s" "fifo_step ph pp op s = (r, s')"
  shows "invar s' \<and> fifo_step (queue_push cap) queue_pop op (contents s) = (r, contents s')"
proof (cases op)
  case (Push x)
  obtain b where "ph x s = (b, s')" "r = Inl b" using assms(2) Push by (auto split: prod.splits)
  then show ?thesis using push_refines [OF assms(1)] Push by simp
next
  case Pop
  obtain q where "pp s = (q, s')" "r = Inr q" using assms(2) Pop by (auto split: prod.splits)
  then show ?thesis using pop_refines [OF assms(1)] Pop by simp
qed

lemma push_all:
  assumes "invar s"
  shows "invar (fold (\<lambda>x s. snd (ph x s)) xs s) \<and>
    contents (fold (\<lambda>x s. snd (ph x s)) xs s) = take cap (contents s @ xs)"
  using assms
proof (induction xs arbitrary: s)
  case Nil
  then show ?case using bounded by simp
next
  case (Cons x xs)
  obtain b s1 where p: "ph x s = (b, s1)" by fastforce
  have s1: "invar s1" "queue_push cap x (contents s) = (b, contents s1)"
    using push_refines [OF Cons.prems p] by auto
  have "contents s1 = (if length (contents s) < cap then contents s @ [x] else contents s)"
    using s1(2) by (auto simp: queue_push_def split: if_splits)
  moreover have "length (contents s) \<le> cap" by (rule bounded [OF Cons.prems])
  ultimately show ?case
    using Cons.IH [OF s1(1)] by (simp add: p take_Cons')
qed

end

text \<open>A ring that keeps the contract answers whole runs of calls like the bounded queue.\<close>

sublocale bounded_fifo \<subseteq> simulation "fifo_step ph pp" "fifo_step (queue_push cap) queue_pop" contents invar "\<lambda>_ _. True"
  by unfold_locales (rule fifo_step_refines)

section \<open>Index lemmas\<close>

lemma ring_len_less: "ring_len h t < 1024"
  by (simp add: ring_len_def)

lemma ring_len_cases:
  "ring_ok h t buf \<Longrightarrow>
   ring_len h t = (if unat t \<le> unat h then unat h - unat t else unat h + 1024 - unat t)"
proof (cases "unat t \<le> unat h")
  case True
  then have eq: "unat h + 1024 - unat t = (unat h - unat t) + 1024" by simp
  assume "ring_ok h t buf"
  then have "unat h - unat t < 1024" by (auto simp: ring_ok_def)
  then show ?thesis unfolding ring_len_def eq by (simp only: mod_add_self2 mod_less True if_True)
next
  case False
  moreover assume "ring_ok h t buf"
  ultimately show ?thesis by (simp add: ring_ok_def ring_len_def)
qed

lemma ring_next_unat:
  "unat (h :: u64) < 1024 \<Longrightarrow> unat ((h + 1) AND 1023) = (if unat h = 1023 then 0 else unat h + 1)"
  by (subst unat_next_1024) auto

lemma ring_len_size:
  assumes ok: "ring_ok h t buf"
  shows "unat ((h - t) AND 1023) = ring_len h t"
proof (cases "t \<le> h")
  case True
  then have le: "unat t \<le> unat h" by (simp add: word_le_nat_alt)
  have "unat (h - t) = unat h - unat t" by (rule unat_sub [OF True])
  moreover have "unat h - unat t < 1024" using ok by (auto simp: ring_ok_def)
  ultimately show ?thesis using le by (simp add: mask_mod_1024 ring_len_cases [OF ok])
next
  case False
  then have lt: "unat h < unat t" by (simp add: word_le_nat_alt)
  then have "unat (h - t) = 2 ^ 64 - (unat t - unat h)"
    using unat_sub_if_size [of h t] by (simp add: word_size)
  also have "\<dots> = (1024 - (unat t - unat h)) + 1024 * (2 ^ 54 - 1)"
    using lt ok by (simp add: ring_ok_def)
  finally have "unat (h - t) mod 1024 = (1024 - (unat t - unat h)) mod 1024"
    by (simp only: mod_mult_self2)
  with lt ok show ?thesis by (simp add: mask_mod_1024 ring_len_cases [OF ok])
qed

lemma ring_empty_iff: "ring_ok h t buf \<Longrightarrow> t = h \<longleftrightarrow> ring_len h t = 0"
  by (auto simp: ring_len_cases ring_ok_def word_unat_eq_iff split: if_splits)

lemma ring_next_ok: "ring_ok h t buf \<Longrightarrow> ring_ok ((h + 1) AND 1023) t buf \<and> ring_ok h ((t + 1) AND 1023) buf"
  by (simp add: ring_ok_def mask_mod_1024)

lemma ring_full_iff:
  assumes ok: "ring_ok h t buf"
  shows "(h + 1) AND 1023 = t \<longleftrightarrow> ring_len h t = 1023"
proof -
  have "unat ((h + 1) AND 1023) = (if unat h = 1023 then 0 else unat h + 1)"
    using ok by (intro ring_next_unat) (simp add: ring_ok_def)
  then show ?thesis
    using ok by (auto simp: ring_len_cases [OF ok] word_unat_eq_iff ring_ok_def)
qed

lemma ring_len_next_head:
  assumes ok: "ring_ok h t buf" and free: "(h + 1) AND 1023 \<noteq> t"
  shows "ring_len ((h + 1) AND 1023) t = Suc (ring_len h t)"
proof -
  have "unat ((h + 1) AND 1023) = (if unat h = 1023 then 0 else unat h + 1)"
    using ok by (intro ring_next_unat) (simp add: ring_ok_def)
  moreover have "ring_ok ((h + 1) AND 1023) t buf" by (simp add: ring_next_ok [OF ok])
  ultimately show ?thesis
    using ok free by (auto simp: ring_len_cases word_unat_eq_iff ring_ok_def)
qed

lemma ring_len_next_tail:
  assumes ok: "ring_ok h t buf" and ne: "t \<noteq> h"
  shows "ring_len h t = Suc (ring_len h ((t + 1) AND 1023))"
proof -
  have "unat ((t + 1) AND 1023) = (if unat t = 1023 then 0 else unat t + 1)"
    using ok by (intro ring_next_unat) (simp add: ring_ok_def)
  moreover have "ring_ok h ((t + 1) AND 1023) buf" by (simp add: ring_next_ok [OF ok])
  ultimately show ?thesis
    using ok ne by (auto simp: ring_len_cases word_unat_eq_iff ring_ok_def)
qed

lemma ring_slot: "ring_ok h t buf \<Longrightarrow> (unat t + ring_len h t) mod 1024 = unat h"
  by (auto simp: ring_len_cases ring_ok_def)

lemma length_ring_contents [simp]: "length (ring_contents h t buf) = ring_len h t"
  by (simp add: ring_contents_def)

lemma ring_write_free:
  "ring_ok h t buf \<Longrightarrow> ring_contents h t (buf[unat h := x]) = ring_contents h t buf"
  using circ_update [of "ring_len h t" buf "unat t" x] ring_len_less [of h t] ring_slot [of h t buf]
  by (simp add: ring_contents_def ring_ok_def)

lemma ring_publish:
  assumes ok: "ring_ok h t buf" and free: "(h + 1) AND 1023 \<noteq> t"
  shows "ring_contents ((h + 1) AND 1023) t buf = ring_contents h t buf @ [buf ! unat h]"
proof -
  have "(unat t + ring_len h t) mod length buf = unat h"
    using ring_slot [OF ok] ok by (simp add: ring_ok_def)
  then show ?thesis
    by (simp add: ring_contents_def circ_Suc_last ring_len_next_head [OF ok free])
qed

lemma ring_push:
  assumes ok: "ring_ok h t buf" and free: "(h + 1) AND 1023 \<noteq> t"
  shows "ring_contents ((h + 1) AND 1023) t (buf[unat h := x]) = ring_contents h t buf @ [x]"
proof -
  have "ring_ok h t (buf[unat h := x])" using ok by (simp add: ring_ok_def)
  from ring_publish [OF this free] show ?thesis
    using ok ring_write_free [OF ok] by (simp add: ring_ok_def)
qed

lemma ring_pop:
  assumes ok: "ring_ok h t buf" and ne: "t \<noteq> h"
  shows "ring_contents h t buf = buf ! unat t # ring_contents h ((t + 1) AND 1023) buf"
proof -
  have "unat ((t + 1) AND 1023) = (unat t + 1) mod length buf" "unat t mod length buf = unat t"
    using ok unat_next_1024 [of t] by (simp_all add: ring_ok_def)
  then show ?thesis
    by (simp add: ring_contents_def ring_len_next_tail [OF ok ne] circ_Suc_first)
qed

end
