(* ===== verification/Wal.thy ===== *)
theory Wal
  imports Ring
begin

text \<open>
  The crash-safe telemetry log, \<open>src/synapse/atomic/atomic_telemetry.h\<close>: the 264-byte record and
  its byte image, the in-memory ring, and the manager that batches records, appends them to the
  write-ahead log, and on the next start reads the log back to find out whether the last session
  crashed.

  The log file is part of the state: its bytes (\<open>None\<close> when there is no such file) and whether the
  streams on it can be opened. The clock is an argument. An \<open>event_type\<close> read from disk may be any
  32-bit number, so the record keeps the number; callers pass one of the enumerators.
\<close>

section \<open>Records and their byte image\<close>

datatype WALEventType =
    Ev_None | Ev_DrawIndexed | Ev_Draw | Ev_Dispatch | Ev_PushConstants | Ev_BindDescriptorSets
  | Ev_BindPipeline | Ev_CreateImage | Ev_DestroyImage | Ev_BindShadersEXT | Ev_BackendChoice
  | Ev_DVFSChange | Ev_ThermalEvent | Ev_MLCheckpoint | Ev_SessionReport | Ev_CleanShutdown

fun wal_event_code :: "WALEventType \<Rightarrow> u32" where
  "wal_event_code Ev_None = 0"
| "wal_event_code Ev_DrawIndexed = 1"
| "wal_event_code Ev_Draw = 2"
| "wal_event_code Ev_Dispatch = 3"
| "wal_event_code Ev_PushConstants = 4"
| "wal_event_code Ev_BindDescriptorSets = 5"
| "wal_event_code Ev_BindPipeline = 6"
| "wal_event_code Ev_CreateImage = 7"
| "wal_event_code Ev_DestroyImage = 8"
| "wal_event_code Ev_BindShadersEXT = 9"
| "wal_event_code Ev_BackendChoice = 10"
| "wal_event_code Ev_DVFSChange = 11"
| "wal_event_code Ev_ThermalEvent = 12"
| "wal_event_code Ev_MLCheckpoint = 13"
| "wal_event_code Ev_SessionReport = 14"
| "wal_event_code Ev_CleanShutdown = 0xFFFFFFFF"

definition kWALSchemaVersion :: u32 where "kWALSchemaVersion = 1"
definition kWALDataSize :: nat where "kWALDataSize = 240"
definition kWALFlushBatch :: nat where "kWALFlushBatch = 64"
definition kWALKnownSchemaVersions :: "u32 list" where "kWALKnownSchemaVersions = [0, 1]"

record WALEntry =
  we_sequence :: u64
  we_timestamp_ns :: u64
  we_event_type :: u32
  we_data_size :: u32
  we_data :: bytes

definition wal_entry_default :: WALEntry where
  "wal_entry_default = \<lparr>we_sequence = 0, we_timestamp_ns = 0, we_event_type = 0, we_data_size = 0,
     we_data = replicate kWALDataSize 0\<rparr>"

definition get_schema_version :: "WALEntry \<Rightarrow> u32" where
  "get_schema_version e =
     (if unat (we_data_size e) + 4 > kWALDataSize then 0
      else of_le32 (drop (kWALDataSize - 4) (we_data e)))"

definition set_schema_version :: "u32 \<Rightarrow> WALEntry \<Rightarrow> WALEntry" where
  "set_schema_version ver e =
     e\<lparr>we_data := take (kWALDataSize - 4) (we_data e) @ le32 ver @ drop kWALDataSize (we_data e)\<rparr>"

definition is_valid_wal_event_type :: "u32 \<Rightarrow> bool" where
  "is_valid_wal_event_type c \<longleftrightarrow>
     c \<in> set (map wal_event_code
       [Ev_None, Ev_DrawIndexed, Ev_Draw, Ev_Dispatch, Ev_PushConstants, Ev_BindDescriptorSets,
        Ev_BindPipeline, Ev_CreateImage, Ev_DestroyImage, Ev_BindShadersEXT, Ev_BackendChoice,
        Ev_DVFSChange, Ev_ThermalEvent, Ev_MLCheckpoint, Ev_SessionReport, Ev_CleanShutdown])"

definition is_valid_wal_entry :: "WALEntry \<Rightarrow> bool" where
  "is_valid_wal_entry e \<longleftrightarrow>
     is_valid_wal_event_type (we_event_type e) \<and> \<not> unat (we_data_size e) > kWALDataSize \<and>
     (\<exists>known \<in> set kWALKnownSchemaVersions. get_schema_version e = known)"

text \<open>The object representation that \<open>ofs.write\<close> and \<open>ifs.read\<close> move (the record has no padding).\<close>

definition encode_entry :: "WALEntry \<Rightarrow> bytes" where
  "encode_entry e = le64 (we_sequence e) @ le64 (we_timestamp_ns e) @ le32 (we_event_type e)
     @ le32 (we_data_size e) @ we_data e"

definition decode_entry :: "bytes \<Rightarrow> WALEntry" where
  "decode_entry bs = \<lparr>we_sequence = of_le64 bs, we_timestamp_ns = of_le64 (drop 8 bs),
     we_event_type = of_le32 (drop 16 bs), we_data_size = of_le32 (drop 20 bs), we_data = drop 24 bs\<rparr>"

definition wf_entry :: "WALEntry \<Rightarrow> bool" where
  "wf_entry e \<longleftrightarrow> length (we_data e) = kWALDataSize"

section \<open>The ring\<close>

record TelemetryRing =
  tr_head :: u64
  tr_tail :: u64
  tr_buffer :: "WALEntry list"

definition TelemetryRing_init :: TelemetryRing where
  "TelemetryRing_init = \<lparr>tr_head = 0, tr_tail = 0, tr_buffer = replicate 1024 wal_entry_default\<rparr>"

definition TelemetryRing_push :: "WALEntry \<Rightarrow> TelemetryRing \<Rightarrow> bool \<times> TelemetryRing" where
  "TelemetryRing_push e r =
     (let head = tr_head r; nxt = (head + 1) AND (1024 - 1)
      in if nxt = tr_tail r then (False, r)
         else (True, r\<lparr>tr_buffer := (tr_buffer r)[unat head := e], tr_head := nxt\<rparr>))"

definition TelemetryRing_pop :: "TelemetryRing \<Rightarrow> WALEntry option \<times> TelemetryRing" where
  "TelemetryRing_pop r =
     (let tail = tr_tail r
      in if tail = tr_head r then (None, r)
         else (Some (tr_buffer r ! unat tail), r\<lparr>tr_tail := (tail + 1) AND (1024 - 1)\<rparr>))"

definition TelemetryRing_size :: "TelemetryRing \<Rightarrow> u64" where
  "TelemetryRing_size r = (tr_head r - tr_tail r) AND (1024 - 1)"

definition TelemetryRing_empty :: "TelemetryRing \<Rightarrow> bool" where
  "TelemetryRing_empty r \<longleftrightarrow> TelemetryRing_size r = 0"

definition tr_contents :: "TelemetryRing \<Rightarrow> WALEntry list" where
  "tr_contents r = ring_contents (tr_head r) (tr_tail r) (tr_buffer r)"

definition tr_inv :: "TelemetryRing \<Rightarrow> bool" where
  "tr_inv r \<longleftrightarrow> ring_ok (tr_head r) (tr_tail r) (tr_buffer r)"

section \<open>The log file\<close>

record wal_disk =
  wal_bytes :: "bytes option"
  wal_readable :: bool
  wal_writable :: bool

definition disk_contents :: "wal_disk \<Rightarrow> bytes" where
  "disk_contents d = (case wal_bytes d of None \<Rightarrow> [] | Some bs \<Rightarrow> bs)"

text \<open>An \<open>ofstream\<close> opened with \<open>app\<close> creates the file when it is missing.\<close>

definition disk_append :: "bytes \<Rightarrow> wal_disk \<Rightarrow> wal_disk" where
  "disk_append bs d = (if wal_writable d then d\<lparr>wal_bytes := Some (disk_contents d @ bs)\<rparr> else d)"

definition disk_truncate :: "wal_disk \<Rightarrow> wal_disk" where
  "disk_truncate d = (if wal_writable d then d\<lparr>wal_bytes := Some []\<rparr> else d)"

text \<open>The read loop stops at the first short read, so a torn tail is dropped.\<close>

function decode_entries :: "bytes \<Rightarrow> WALEntry list" where
  "decode_entries bs =
     (if length bs < 264 then [] else decode_entry (take 264 bs) # decode_entries (drop 264 bs))"
  by pat_completeness auto
termination by (relation "measure length") auto

declare decode_entries.simps [simp del]

section \<open>The manager\<close>

record AtomicTelemetry =
  tl_sequence :: u64
  tl_write_count :: u64
  tl_clean_shutdown :: bool
  tl_ring :: TelemetryRing
  tl_pending_recovery :: "WALEntry list"
  tl_write_buffer :: "WALEntry list"
  tl_disk :: wal_disk

definition telemetry_init :: "wal_disk \<Rightarrow> AtomicTelemetry" where
  "telemetry_init d = \<lparr>tl_sequence = 0, tl_write_count = 0, tl_clean_shutdown = False,
     tl_ring = TelemetryRing_init, tl_pending_recovery = [], tl_write_buffer = [], tl_disk = d\<rparr>"

definition simulate_crash :: "AtomicTelemetry \<Rightarrow> AtomicTelemetry" where
  "simulate_crash t = t\<lparr>tl_clean_shutdown := True\<rparr>"

definition flush_buffer_locked :: "AtomicTelemetry \<Rightarrow> AtomicTelemetry" where
  "flush_buffer_locked t =
     (if tl_write_buffer t = [] then t
      else t\<lparr>tl_disk := disk_append (concat (map encode_entry (tl_write_buffer t))) (tl_disk t),
             tl_write_buffer := []\<rparr>)"

definition append_wal :: "WALEntry \<Rightarrow> AtomicTelemetry \<Rightarrow> bool \<times> AtomicTelemetry" where
  "append_wal e t =
     (if \<not> wal_writable (tl_disk t) then (False, t)
      else (True, t\<lparr>tl_disk := disk_append (encode_entry e) (tl_disk t)\<rparr>))"

definition flush_wal :: "AtomicTelemetry \<Rightarrow> AtomicTelemetry" where
  "flush_wal t = t\<lparr>tl_disk := disk_append [] (tl_disk t)\<rparr>"

definition truncate_wal :: "AtomicTelemetry \<Rightarrow> AtomicTelemetry" where
  "truncate_wal t = t\<lparr>tl_disk := disk_truncate (tl_disk t)\<rparr>"

text \<open>The record \<open>write\<close> builds. The payload pointer may be null; otherwise \<open>size\<close> bytes are copied
  over the schema version that was stored before.\<close>

definition make_entry :: "u64 \<Rightarrow> u64 \<Rightarrow> WALEventType \<Rightarrow> bytes option \<Rightarrow> u32 \<Rightarrow> WALEntry" where
  "make_entry sq now ty payload sz =
     (let e = set_schema_version kWALSchemaVersion (wal_entry_default\<lparr>we_sequence := sq\<rparr>);
          e = e\<lparr>we_timestamp_ns := now, we_event_type := wal_event_code ty, we_data_size := sz\<rparr>
      in case payload of
           Some p \<Rightarrow> if sz > 0
             then e\<lparr>we_data := take (unat sz) p @ drop (unat sz) (we_data e)\<rparr> else e
         | None \<Rightarrow> e)"

definition telemetry_write ::
  "u64 \<Rightarrow> WALEventType \<Rightarrow> bytes option \<Rightarrow> u32 \<Rightarrow> AtomicTelemetry \<Rightarrow> bool \<times> AtomicTelemetry" where
  "telemetry_write now ty payload sz t =
     (if unat sz > kWALDataSize then (False, t)
      else
        let e = make_entry (tl_sequence t) now ty payload sz;
            t = t\<lparr>tl_sequence := tl_sequence t + 1,
                  tl_ring := snd (TelemetryRing_push e (tl_ring t)),
                  tl_write_buffer := tl_write_buffer t @ [e]\<rparr>;
            t = (if length (tl_write_buffer t) \<ge> kWALFlushBatch then flush_buffer_locked t else t)
        in (True, t\<lparr>tl_write_count := tl_write_count t + 1\<rparr>))"

definition telemetry_read :: "AtomicTelemetry \<Rightarrow> WALEntry option \<times> AtomicTelemetry" where
  "telemetry_read t = (let (r, ring) = TelemetryRing_pop (tl_ring t) in (r, t\<lparr>tl_ring := ring\<rparr>))"

definition read_wal :: "wal_disk \<Rightarrow> WALEntry list" where
  "read_wal d =
     (if \<not> wal_readable d \<or> wal_bytes d = None then []
      else filter is_valid_wal_entry (decode_entries (disk_contents d)))"

definition scan_entry :: "WALEntry \<Rightarrow> u64 \<times> u64 \<times> u32 \<Rightarrow> u64 \<times> u64 \<times> u32" where
  "scan_entry e acc =
     (let (shutdown_seq, max_seq, max_ver) = acc;
          shutdown_seq = (if we_event_type e = wal_event_code Ev_CleanShutdown then we_sequence e else shutdown_seq);
          max_seq = (if we_sequence e > max_seq then we_sequence e else max_seq);
          ver = get_schema_version e
      in (shutdown_seq, max_seq, if ver > max_ver then ver else max_ver))"

definition check_recovery :: "AtomicTelemetry \<Rightarrow> u64 \<times> AtomicTelemetry" where
  "check_recovery t =
     (let entries = read_wal (tl_disk t);
          (shutdown_seq, max_seq, max_schema_ver) = fold scan_entry entries (0, 0, 0);
          clean = (shutdown_seq \<ge> max_seq \<and> max_seq > 0);
          t = t\<lparr>tl_clean_shutdown := clean, tl_pending_recovery := entries\<rparr>
      in (if clean then 0 else of_nat (length entries), t))"

definition replay_entry :: "WALEntry \<Rightarrow> u64 \<times> TelemetryRing \<Rightarrow> u64 \<times> TelemetryRing" where
  "replay_entry e acc =
     (let (n, ring) = acc
      in if we_event_type e \<noteq> wal_event_code Ev_CleanShutdown
         then (n + 1, snd (TelemetryRing_push e ring)) else (n, ring))"

definition replay :: "AtomicTelemetry \<Rightarrow> u64 \<times> AtomicTelemetry" where
  "replay t =
     (let (n, ring) = fold replay_entry (tl_pending_recovery t) (0, tl_ring t)
      in (n, truncate_wal (t\<lparr>tl_ring := ring, tl_pending_recovery := []\<rparr>)))"

definition shutdown_marker :: "u64 \<Rightarrow> u64 \<Rightarrow> WALEntry" where
  "shutdown_marker sq now =
     (set_schema_version kWALSchemaVersion (wal_entry_default\<lparr>we_sequence := sq\<rparr>))
       \<lparr>we_timestamp_ns := now, we_event_type := wal_event_code Ev_CleanShutdown, we_data_size := 0\<rparr>"

definition mark_clean_shutdown :: "u64 \<Rightarrow> AtomicTelemetry \<Rightarrow> AtomicTelemetry" where
  "mark_clean_shutdown now t =
     (if tl_clean_shutdown t then t
      else
        let sq = tl_sequence t;
            t = t\<lparr>tl_clean_shutdown := True, tl_sequence := sq + 1\<rparr>
        in flush_wal (snd (append_wal (shutdown_marker sq now) t)))"

text \<open>The destructor.\<close>

definition telemetry_close :: "u64 \<Rightarrow> AtomicTelemetry \<Rightarrow> AtomicTelemetry" where
  "telemetry_close now t = mark_clean_shutdown now (flush_wal (flush_buffer_locked t))"

fun sequence_gaps :: "u64 \<Rightarrow> WALEntry list \<Rightarrow> u64" where
  "sequence_gaps prev [] = 0"
| "sequence_gaps prev (e # es) =
     (if we_sequence e \<noteq> prev + 1 then 1 else 0) + sequence_gaps (we_sequence e) es"

definition sequence_gap_count :: "WALEntry list \<Rightarrow> u64" where
  "sequence_gap_count es =
     (if length es \<le> 1 then 0 else sequence_gaps (we_sequence (hd es)) (tl es))"

section \<open>Sessions\<close>

record wal_call =
  wc_now :: u64
  wc_type :: WALEventType
  wc_payload :: "bytes option"
  wc_size :: u32

definition run_write :: "wal_call \<Rightarrow> AtomicTelemetry \<Rightarrow> AtomicTelemetry" where
  "run_write c t = snd (telemetry_write (wc_now c) (wc_type c) (wc_payload c) (wc_size c) t)"

text \<open>A call a C++ caller may make: the payload has at least the announced number of bytes.\<close>

definition call_ok :: "wal_call \<Rightarrow> bool" where
  "call_ok c \<longleftrightarrow> (case wc_payload c of None \<Rightarrow> True | Some p \<Rightarrow> unat (wc_size c) \<le> length p)"

text \<open>The records a sequence of calls produces: one per accepted call, numbered from \<open>sq\<close>.\<close>

fun session_entries :: "u64 \<Rightarrow> wal_call list \<Rightarrow> WALEntry list" where
  "session_entries sq [] = []"
| "session_entries sq (c # cs) =
     (if unat (wc_size c) > kWALDataSize then session_entries sq cs
      else make_entry sq (wc_now c) (wc_type c) (wc_payload c) (wc_size c) # session_entries (sq + 1) cs)"

definition session_inv :: "wal_disk \<Rightarrow> WALEntry list \<Rightarrow> AtomicTelemetry \<Rightarrow> bool" where
  "session_inv d es t \<longleftrightarrow>
     wal_writable (tl_disk t) \<and> wal_readable (tl_disk t) = wal_readable d \<and>
     tl_sequence t = of_nat (length es) \<and>
     tl_write_buffer t = drop (64 * (length es div 64)) es \<and>
     disk_contents (tl_disk t)
       = disk_contents d @ concat (map encode_entry (take (64 * (length es div 64)) es))"

text \<open>The verdict of the scan, the records the ring takes over, and inputs for concrete runs.\<close>

definition verdict_clean :: "WALEntry list \<Rightarrow> bool" where
  "verdict_clean es = (let (s, m, v) = fold scan_entry es (0, 0, 0) in s \<ge> m \<and> m > 0)"

definition is_payload_entry :: "WALEntry \<Rightarrow> bool" where
  "is_payload_entry e \<longleftrightarrow> we_event_type e \<noteq> wal_event_code Ev_CleanShutdown"

definition clean_session :: "u64 \<Rightarrow> wal_call list \<Rightarrow> wal_disk \<Rightarrow> wal_disk" where
  "clean_session now cs d = tl_disk (telemetry_close now (fold run_write cs (telemetry_init d)))"

definition crashed_session :: "wal_call list \<Rightarrow> wal_disk \<Rightarrow> wal_disk" where
  "crashed_session cs d = tl_disk (fold run_write cs (telemetry_init d))"

text \<open>A session that starts, as \<open>CrashRecoveryManager\<close> does, by asking whether the last one crashed.\<close>

definition checked_session :: "wal_call list \<Rightarrow> wal_disk \<Rightarrow> AtomicTelemetry" where
  "checked_session cs d = fold run_write cs (snd (check_recovery (telemetry_init d)))"

definition fresh_disk :: wal_disk where
  "fresh_disk = \<lparr>wal_bytes = None, wal_readable = True, wal_writable = True\<rparr>"

definition draw_call :: wal_call where
  "draw_call = \<lparr>wc_now = 7, wc_type = Ev_DrawIndexed, wc_payload = Some [1, 2, 3], wc_size = 3\<rparr>"

section \<open>Lemmas on the byte image\<close>

lemmas wal_consts = kWALDataSize_def kWALSchemaVersion_def kWALFlushBatch_def kWALKnownSchemaVersions_def

lemma length_encode_entry [codec_simps]: "wf_entry e \<Longrightarrow> length (encode_entry e) = 264"
  by (simp add: wf_entry_def encode_entry_def wal_consts)

lemma decode_encode_entry [codec_simps]: "decode_entry (encode_entry e) = e"
  by (simp add: decode_entry_def encode_entry_def)

lemma decode_entries_short [codec_simps]: "length bs < 264 \<Longrightarrow> decode_entries bs = []"
  by (subst decode_entries.simps) simp

lemma decode_entries_cons [codec_simps]:
  "length a = 264 \<Longrightarrow> decode_entries (a @ bs) = decode_entry a # decode_entries bs"
  by (subst decode_entries.simps) simp

lemma decode_entries_concat [codec_simps]:
  "\<forall>e \<in> set es. wf_entry e \<Longrightarrow>
   decode_entries (concat (map encode_entry es) @ bs) = es @ decode_entries bs"
  by (induction es) (simp_all add: decode_entries_cons length_encode_entry decode_encode_entry)

lemma decode_entries_aligned:
  "length a = 264 * k \<Longrightarrow> decode_entries (a @ bs) = decode_entries a @ decode_entries bs"
proof (induction k arbitrary: a)
  case 0
  then show ?case by (simp add: decode_entries_short)
next
  case (Suc k)
  then have a: "a = take 264 a @ drop 264 a" "length (take 264 a) = 264" "length (drop 264 a) = 264 * k"
    by auto
  have "decode_entries (take 264 a @ drop 264 a @ bs)
      = decode_entry (take 264 a) # decode_entries (drop 264 a) @ decode_entries bs"
    by (simp only: decode_entries_cons [OF a(2)] Suc.IH [OF a(3)])
  moreover have "decode_entries (take 264 a @ drop 264 a)
      = decode_entry (take 264 a) # decode_entries (drop 264 a)"
    by (rule decode_entries_cons [OF a(2)])
  ultimately show ?case using a(1) by (metis append_assoc append_Cons)
qed

lemma wal_event_code_valid [simp]: "is_valid_wal_event_type (wal_event_code ty)"
  by (cases ty) (simp_all add: is_valid_wal_event_type_def)

lemma wal_event_code_inj [simp]: "wal_event_code a = wal_event_code b \<longleftrightarrow> a = b"
  by (cases a; cases b) simp_all

lemma make_entry_fields [simp]:
  "we_sequence (make_entry sq now ty p sz) = sq"
  "we_event_type (make_entry sq now ty p sz) = wal_event_code ty"
  "we_data_size (make_entry sq now ty p sz) = sz"
  by (simp_all add: make_entry_def set_schema_version_def Let_def split: option.splits)

lemma make_entry_wf:
  "unat sz \<le> kWALDataSize \<Longrightarrow> (\<And>q. p = Some q \<Longrightarrow> unat sz \<le> length q) \<Longrightarrow>
   wf_entry (make_entry sq now ty p sz)"
  by (cases p) (auto simp: make_entry_def wf_entry_def set_schema_version_def Let_def
      wal_entry_default_def wal_consts)

lemma make_entry_version:
  "unat sz \<le> kWALDataSize \<Longrightarrow> (\<And>q. p = Some q \<Longrightarrow> unat sz \<le> length q) \<Longrightarrow>
   get_schema_version (make_entry sq now ty p sz) = (if unat sz \<le> 236 then 1 else 0)"
  by (cases p) (auto simp: make_entry_def get_schema_version_def set_schema_version_def Let_def
      wal_entry_default_def wal_consts)

lemma make_entry_valid:
  "unat sz \<le> kWALDataSize \<Longrightarrow> (\<And>q. p = Some q \<Longrightarrow> unat sz \<le> length q) \<Longrightarrow>
   is_valid_wal_entry (make_entry sq now ty p sz)"
  by (simp add: is_valid_wal_entry_def make_entry_version wal_consts)

lemma shutdown_marker_eq: "shutdown_marker sq now = make_entry sq now Ev_CleanShutdown None 0"
  by (simp add: shutdown_marker_def make_entry_def)

lemma session_entries_ok:
  "\<forall>c \<in> set cs. call_ok c \<Longrightarrow> \<forall>e \<in> set (session_entries sq cs). wf_entry e \<and> is_valid_wal_entry e"
proof (induction cs arbitrary: sq)
  case (Cons c cs)
  have "wf_entry (make_entry sq (wc_now c) (wc_type c) (wc_payload c) (wc_size c))
      \<and> is_valid_wal_entry (make_entry sq (wc_now c) (wc_type c) (wc_payload c) (wc_size c))"
    if "\<not> unat (wc_size c) > kWALDataSize"
    using that Cons.prems by (auto simp: call_ok_def intro!: make_entry_wf make_entry_valid)
  with Cons show ?case by simp
qed simp

section \<open>The ring meets the queue contract\<close>

lemma tr_init [simp, invariant_intros]: "tr_inv TelemetryRing_init" "tr_contents TelemetryRing_init = []"
  by (simp_all add: tr_inv_def tr_contents_def TelemetryRing_init_def ring_ok_def ring_contents_def ring_len_def)

lemma tr_push_refines:
  assumes "tr_inv r" "TelemetryRing_push e r = (b, r')"
  shows "tr_inv r' \<and> queue_push 1023 e (tr_contents r) = (b, tr_contents r')"
proof (cases "(tr_head r + 1) AND 1023 = tr_tail r")
  case True
  then show ?thesis
    using assms ring_full_iff [of "tr_head r" "tr_tail r" "tr_buffer r"]
    by (simp add: TelemetryRing_push_def Let_def queue_push_def tr_contents_def tr_inv_def)
next
  case False
  have ok: "ring_ok (tr_head r) (tr_tail r) (tr_buffer r)" using assms(1) by (simp add: tr_inv_def)
  have "ring_len (tr_head r) (tr_tail r) < 1023"
    using ring_full_iff [OF ok] False ring_len_less [of "tr_head r" "tr_tail r"] by simp
  with assms(2) False show ?thesis
    using ring_push [OF ok False, of e] ring_next_ok [OF ok]
    by (auto simp: TelemetryRing_push_def Let_def queue_push_def tr_contents_def tr_inv_def ring_ok_def)
qed

lemma tr_pop_refines:
  assumes "tr_inv r" "TelemetryRing_pop r = (x, r')"
  shows "tr_inv r' \<and> queue_pop (tr_contents r) = (x, tr_contents r')"
proof (cases "tr_tail r = tr_head r")
  case True
  then show ?thesis
    using assms by (auto simp: TelemetryRing_pop_def Let_def tr_contents_def ring_contents_def ring_len_def)
next
  case False
  have ok: "ring_ok (tr_head r) (tr_tail r) (tr_buffer r)" using assms(1) by (simp add: tr_inv_def)
  show ?thesis
    using assms(2) False ring_pop [OF ok False] ring_next_ok [OF ok]
    by (auto simp: TelemetryRing_pop_def Let_def tr_contents_def tr_inv_def)
qed

lemma tr_bounded: "tr_inv r \<Longrightarrow> length (tr_contents r) \<le> 1023"
  using ring_len_less [of "tr_head r" "tr_tail r"] by (simp add: tr_contents_def)

interpretation tr: bounded_fifo TelemetryRing_push TelemetryRing_pop tr_contents tr_inv 1023
  by (rule bounded_fifo.intro) (fact tr_push_refines tr_pop_refines tr_bounded)+

lemma TelemetryRing_size_correct:
  "tr_inv r \<Longrightarrow> unat (TelemetryRing_size r) = length (tr_contents r)"
  by (simp add: TelemetryRing_size_def tr_inv_def tr_contents_def ring_len_size)

section \<open>Lemmas on sessions\<close>

lemma disk_append_simps [simp]:
  "wal_writable (disk_append bs d) = wal_writable d"
  "wal_readable (disk_append bs d) = wal_readable d"
  "wal_writable d \<Longrightarrow> disk_contents (disk_append bs d) = disk_contents d @ bs"
  by (simp_all add: disk_append_def disk_contents_def)

lemma session_inv_init: "wal_writable d \<Longrightarrow> session_inv d [] (telemetry_init d)"
  by (simp add: session_inv_def telemetry_init_def)

lemma concat_map_split: "concat (map f (take k xs)) @ concat (map f (drop k xs)) = concat (map f xs)"
  by (simp flip: concat_append map_append)

lemma run_write_fields:
  assumes "\<not> unat (wc_size c) > kWALDataSize"
    and "e = make_entry (tl_sequence t) (wc_now c) (wc_type c) (wc_payload c) (wc_size c)"
  shows "tl_sequence (run_write c t) = tl_sequence t + 1"
    and "tl_write_buffer (run_write c t)
      = (if length (tl_write_buffer t) < 63 then tl_write_buffer t @ [e] else [])"
    and "tl_disk (run_write c t)
      = (if length (tl_write_buffer t) < 63 then tl_disk t
         else disk_append (concat (map encode_entry (tl_write_buffer t @ [e]))) (tl_disk t))"
  using assms
  by (simp_all add: run_write_def telemetry_write_def flush_buffer_locked_def Let_def wal_consts not_le)

lemma batch_step:
  "64 * (Suc n div 64) = (if n mod 64 = 63 then Suc n else 64 * (n div 64))"
  by (simp add: div_Suc mod_Suc) (metis mult_div_mod_eq add.commute)

lemma session_inv_write:
  assumes inv: "session_inv d es t" and size: "\<not> unat (wc_size c) > kWALDataSize"
  shows "session_inv d
    (es @ [make_entry (of_nat (length es)) (wc_now c) (wc_type c) (wc_payload c) (wc_size c)])
    (run_write c t)"
proof -
  define k where "k = 64 * (length es div 64)"
  define e where "e = make_entry (tl_sequence t) (wc_now c) (wc_type c) (wc_payload c) (wc_size c)"
  note fields = run_write_fields [OF size e_def]
  have len: "length (drop k es) = length es mod 64"
    by (simp add: k_def minus_mult_div_eq_mod)
  have t: "tl_write_buffer t = drop k es" "tl_sequence t = of_nat (length es)" "wal_writable (tl_disk t)"
    "wal_readable (tl_disk t) = wal_readable d"
    "disk_contents (tl_disk t) = disk_contents d @ concat (map encode_entry (take k es))"
    using inv by (simp_all add: session_inv_def k_def)
  have e: "make_entry (of_nat (length es)) (wc_now c) (wc_type c) (wc_payload c) (wc_size c) = e"
    by (simp add: e_def t)
  show ?thesis
  proof (cases "length es mod 64 = 63")
    case True
    then have m: "64 * (length (es @ [e]) div 64) = length (es @ [e])"
      by (simp only: length_append_singleton batch_step if_True simp_thms)
    have "disk_contents (disk_append (concat (map encode_entry (drop k es @ [e]))) (tl_disk t))
        = disk_contents d @ concat (map encode_entry (es @ [e]))"
      by (simp add: t(3,5) flip: concat_map_split [of encode_entry k es])
    then show ?thesis
      unfolding session_inv_def e m fields t(1) len True take_all [OF order_refl] drop_all [OF order_refl]
      by (simp add: t(2-4))
  next
    case False
    then have m: "64 * (length (es @ [e]) div 64) = k"
      by (simp only: length_append_singleton batch_step if_False k_def)
    have lt: "length es mod 64 < 63" using False mod_less_divisor [of 64 "length es"] by linarith
    have "k \<le> length es" by (simp add: k_def)
    with lt show ?thesis
      unfolding session_inv_def e m fields t(1) len using t(2-5) by simp
  qed
qed

lemma run_write_refused: "unat (wc_size c) > kWALDataSize \<Longrightarrow> run_write c t = t"
  by (simp add: run_write_def telemetry_write_def)

lemma session_inv_run:
  "session_inv d es t \<Longrightarrow> session_inv d (es @ session_entries (of_nat (length es)) cs) (fold run_write cs t)"
proof (induction cs arbitrary: es t)
  case (Cons c cs)
  show ?case
  proof (cases "unat (wc_size c) > kWALDataSize")
    case True
    then show ?thesis using Cons by (simp add: run_write_refused)
  next
    case False
    from Cons.IH [OF session_inv_write [OF Cons.prems False]] False show ?thesis
      by (simp add: add.commute)
  qed
qed simp

lemma run_write_clean [frame_simps]: "tl_clean_shutdown (run_write c t) = tl_clean_shutdown t"
  by (simp add: run_write_def telemetry_write_def flush_buffer_locked_def Let_def)

lemma run_writes_clean [frame_simps]: "tl_clean_shutdown (fold run_write cs t) = tl_clean_shutdown t"
  by (induction cs arbitrary: t) (simp_all add: frame_simps)

lemma flushed_disk:
  assumes "session_inv d es t"
  shows "disk_contents (tl_disk (flush_wal (flush_buffer_locked t)))
      = disk_contents d @ concat (map encode_entry es)
    \<and> wal_writable (tl_disk (flush_wal (flush_buffer_locked t)))
    \<and> wal_readable (tl_disk (flush_wal (flush_buffer_locked t))) = wal_readable d
    \<and> tl_sequence (flush_wal (flush_buffer_locked t)) = of_nat (length es)
    \<and> tl_clean_shutdown (flush_wal (flush_buffer_locked t)) = tl_clean_shutdown t"
proof -
  define k where "k = 64 * (length es div 64)"
  have "tl_write_buffer t = drop k es" "tl_sequence t = of_nat (length es)" "wal_writable (tl_disk t)"
    "wal_readable (tl_disk t) = wal_readable d"
    "disk_contents (tl_disk t) = disk_contents d @ concat (map encode_entry (take k es))"
    using assms by (simp_all add: session_inv_def k_def)
  then show ?thesis
    using concat_map_split [of encode_entry k es]
    by (cases "drop k es = []") (simp_all add: flush_wal_def flush_buffer_locked_def)
qed

lemma close_disk:
  assumes "session_inv d es t"
  shows "disk_contents (tl_disk (telemetry_close now t))
      = disk_contents d @ concat (map encode_entry es)
        @ (if tl_clean_shutdown t then [] else encode_entry (shutdown_marker (of_nat (length es)) now))
    \<and> wal_readable (tl_disk (telemetry_close now t)) = wal_readable d"
  using flushed_disk [OF assms]
  by (simp add: telemetry_close_def mark_clean_shutdown_def append_wal_def Let_def)
    (simp add: flush_wal_def)

lemma read_wal_eq: "wal_readable d \<Longrightarrow> read_wal d = filter is_valid_wal_entry (decode_entries (disk_contents d))"
  by (auto simp: read_wal_def disk_contents_def decode_entries_short)

lemma read_wal_append:
  assumes "wal_readable d'" "disk_contents d' = disk_contents d @ concat (map encode_entry es) @ torn"
    and "wal_readable d" "264 dvd length (disk_contents d)" "length torn < 264"
    and "\<forall>e \<in> set es. wf_entry e \<and> is_valid_wal_entry e"
  shows "read_wal d' = read_wal d @ es"
proof -
  obtain k where k: "length (disk_contents d) = 264 * k" using assms(4) by blast
  have "decode_entries (concat (map encode_entry es) @ torn) = es"
    using assms(5,6) by (simp add: decode_entries_concat decode_entries_short)
  then show ?thesis
    using assms by (simp add: read_wal_eq decode_entries_aligned [OF k] filter_id_conv)
qed

lemma marker_ok: "wf_entry (shutdown_marker sq now) \<and> is_valid_wal_entry (shutdown_marker sq now)"
  by (simp add: shutdown_marker_eq make_entry_wf make_entry_valid)

section \<open>Lemmas on the recovery scan\<close>

lemma scan_shutdown:
  "\<forall>e \<in> set es. we_event_type e \<noteq> wal_event_code Ev_CleanShutdown \<Longrightarrow>
   fst (fold scan_entry es acc) = fst acc"
  by (induction es arbitrary: acc) (auto simp: scan_entry_def Let_def split: prod.splits)

lemma scan_max: "fst (snd (fold scan_entry es acc)) = fold (\<lambda>e m. max m (we_sequence e)) es (fst (snd acc))"
proof (induction es arbitrary: acc)
  case (Cons e es)
  obtain a b c where acc: "acc = (a, b, c)" by (cases acc)
  have "fst (snd (scan_entry e acc)) = max b (we_sequence e)"
    by (auto simp: scan_entry_def acc max_def Let_def)
  then show ?case using Cons [of "scan_entry e acc"] by (simp add: acc)
qed simp

lemma session_sequences:
  "map we_sequence (session_entries sq cs) = map (\<lambda>i. sq + of_nat i) [0..<length (session_entries sq cs)]"
proof (induction cs arbitrary: sq)
  case (Cons c cs)
  have "map (\<lambda>i. sq + 1 + of_nat i) [0..<n] = map (\<lambda>i. sq + of_nat i) [Suc 0..<Suc n]" for n
    by (simp add: map_Suc_upt [symmetric] ac_simps del: upt_Suc map_Suc_upt)
  then show ?case
    by (simp add: Cons upt_conv_Cons del: upt_Suc)
qed simp

lemma max_of_sequences:
  "k < 2 ^ 64 \<Longrightarrow> fold (\<lambda>q m. max m q) (map of_nat [0..<Suc k]) m = max m (of_nat k :: u64)"
proof (induction k)
  case (Suc k)
  have "(of_nat k :: u64) \<le> of_nat (Suc k)"
    using Suc.prems by (simp add: word_le_nat_alt unat_of_nat del: of_nat_Suc)
  then show ?case
    using Suc by (simp add: max.assoc max_absorb2 del: of_nat_Suc)
qed simp

lemma scan_session:
  assumes "\<forall>e \<in> set es. is_payload_entry e" "map we_sequence es = map of_nat [0..<length es]"
    and "length es < 2 ^ 64"
  shows "fst (fold scan_entry es acc) = fst acc"
    and "fst (snd (fold scan_entry es acc))
      = (if es = [] then fst (snd acc) else max (fst (snd acc)) (of_nat (length es - 1)))"
proof -
  show "fst (fold scan_entry es acc) = fst acc"
    using assms(1) by (simp only: is_payload_entry_def scan_shutdown)
  have "fold (\<lambda>e m. max m (we_sequence e)) es (fst (snd acc))
      = fold (\<lambda>q m. max m q) (map of_nat [0..<length es]) (fst (snd acc))"
    unfolding assms(2) [symmetric] by (simp add: fold_map o_def)
  moreover have "fold (\<lambda>q m. max m q) (map of_nat [0..<length es]) (fst (snd acc))
      = max (fst (snd acc)) (of_nat (length es - 1))" if "es \<noteq> []"
  proof -
    have l: "length es = Suc (length es - 1)" using that by simp
    show ?thesis
      using max_of_sequences [of "length es - 1" "fst (snd acc)"] assms(3) by (simp only: l [symmetric])
  qed
  ultimately show "fst (snd (fold scan_entry es acc))
      = (if es = [] then fst (snd acc) else max (fst (snd acc)) (of_nat (length es - 1)))"
    by (simp add: scan_max)
qed

lemma payload_make_entry: "is_payload_entry (make_entry sq now ty p sz) \<longleftrightarrow> ty \<noteq> Ev_CleanShutdown"
  by (simp only: is_payload_entry_def make_entry_fields wal_event_code_inj)

lemma payload_marker: "\<not> is_payload_entry (shutdown_marker sq now)"
  by (simp only: shutdown_marker_eq payload_make_entry simp_thms)

lemma scan_marker:
  "fold scan_entry [shutdown_marker sq now] acc
     = (sq, max (fst (snd acc)) sq, snd (snd (scan_entry (shutdown_marker sq now) acc)))"
  by (auto simp: scan_entry_def shutdown_marker_eq Let_def max_def split: prod.splits)

lemma check_recovery_eq:
  "fst (check_recovery t) = (if verdict_clean (read_wal (tl_disk t)) then 0 else of_nat (length (read_wal (tl_disk t))))"
  "snd (check_recovery t) = t\<lparr>tl_clean_shutdown := verdict_clean (read_wal (tl_disk t)),
     tl_pending_recovery := read_wal (tl_disk t)\<rparr>"
  by (simp_all add: check_recovery_def verdict_clean_def Let_def split: prod.splits)

lemma session_take:
  assumes "k \<le> length (session_entries 0 cs)" "length (session_entries 0 cs) < 2 ^ 64"
    and "\<forall>c \<in> set cs. wc_type c \<noteq> Ev_CleanShutdown"
  shows "\<forall>e \<in> set (take k (session_entries 0 cs)). is_payload_entry e"
    and "map we_sequence (take k (session_entries 0 cs)) = map of_nat [0..<length (take k (session_entries 0 cs))]"
proof -
  have "\<forall>e \<in> set (session_entries sq cs). is_payload_entry e" for sq
    using assms(3) by (induction cs arbitrary: sq) (auto simp: payload_make_entry)
  then show "\<forall>e \<in> set (take k (session_entries 0 cs)). is_payload_entry e"
    using set_take_subset [of k] by fastforce
  show "map we_sequence (take k (session_entries 0 cs)) = map of_nat [0..<length (take k (session_entries 0 cs))]"
    using arg_cong [OF session_sequences [of 0 cs], of "take k"] assms(1)
    by (simp add: take_map min_absorb2)
qed

lemma verdict_after_marker:
  assumes cs1: "\<forall>c \<in> set cs1. wc_type c \<noteq> Ev_CleanShutdown"
    and cs2: "\<forall>c \<in> set cs2. wc_type c \<noteq> Ev_CleanShutdown"
    and n1: "length (session_entries 0 cs1) = n1" "n1 < 2 ^ 63"
    and n2: "length (session_entries 0 cs2) < 2 ^ 63" "k \<le> length (session_entries 0 cs2)"
  shows "verdict_clean (session_entries 0 cs1 @ shutdown_marker (of_nat n1) now # take k (session_entries 0 cs2))
    \<longleftrightarrow> k \<le> Suc n1 \<and> (0 < n1 \<or> 1 < k)"
proof -
  let ?A = "session_entries 0 cs1" and ?B = "take k (session_entries 0 cs2)"
  let ?s1 = "fold scan_entry ?A (0, 0, 0)"
  let ?s2 = "fold scan_entry [shutdown_marker (of_nat n1) now] ?s1"
  have len: "length ?B = k" using n2 by simp
  have A: "fst (snd ?s1) = (if n1 = 0 then 0 else of_nat (n1 - 1))"
    using scan_session [OF session_take [where k = n1 and cs = cs1], of "(0, 0, 0)"] cs1 n1
    by (cases "n1 = 0") (auto simp: max_def)
  have "fst (snd ?s1) \<le> of_nat n1"
  proof (cases n1)
    case (Suc m)
    then have "(of_nat m :: u64) \<le> of_nat (Suc m)"
      using n1 by (simp add: word_le_nat_alt unat_of_nat del: of_nat_Suc)
    then show ?thesis by (simp add: A Suc del: of_nat_Suc)
  qed (simp add: A)
  then have s2: "fst ?s2 = of_nat n1" "fst (snd ?s2) = of_nat n1"
    by (simp_all only: scan_marker fst_conv snd_conv max_def if_True)
  have B: "fst (fold scan_entry ?B ?s2) = of_nat n1"
    "fst (snd (fold scan_entry ?B ?s2)) = (if k = 0 then of_nat n1 else max (of_nat n1) (of_nat (k - 1)))"
    using scan_session [OF session_take [where k = k and cs = cs2], of ?s2] cs2 n2 s2 len
    by (auto simp: less_imp_le)
  have w: "(of_nat a :: u64) \<le> of_nat b \<longleftrightarrow> a \<le> b" if "a < 2 ^ 63" "b < 2 ^ 63" for a b
    using that by (simp add: word_le_nat_alt unat_of_nat)
  have nz: "(0 :: u64) < of_nat a \<longleftrightarrow> 0 < a" if "a < 2 ^ 63" for a
    using that by (simp add: word_less_nat_alt unat_of_nat)
  have k: "k - 1 < 2 ^ 63" using n2 by simp
  have eq: "fold scan_entry (?A @ shutdown_marker (of_nat n1) now # ?B) (0, 0, 0) = fold scan_entry ?B ?s2"
    by simp
  have "verdict_clean (?A @ shutdown_marker (of_nat n1) now # ?B)
      \<longleftrightarrow> fst (snd (fold scan_entry ?B ?s2)) \<le> fst (fold scan_entry ?B ?s2)
        \<and> 0 < fst (snd (fold scan_entry ?B ?s2))"
    unfolding verdict_clean_def eq by (simp add: Let_def split: prod.splits)
  also have "\<dots> \<longleftrightarrow> k \<le> Suc n1 \<and> (0 < n1 \<or> 1 < k)"
    unfolding B using w [OF k n1(2)] nz [OF n1(2)] nz [OF k]
    by (cases k) (auto simp: max_def simp del: of_nat_Suc)
  finally show ?thesis .
qed

lemma wal_session_readback_lemma:
  assumes "wal_writable d" "wal_readable d" "264 dvd length (disk_contents d)"
    and "\<forall>c \<in> set cs. call_ok c"
  shows "read_wal (clean_session now cs d) = read_wal d @ session_entries 0 cs
    @ [shutdown_marker (of_nat (length (session_entries 0 cs))) now]"
proof -
  let ?m = "shutdown_marker (of_nat (length (session_entries 0 cs))) now"
  have inv: "session_inv d (session_entries 0 cs) (fold run_write cs (telemetry_init d))"
    using session_inv_run [OF session_inv_init [OF assms(1)], of cs] by simp
  have open_: "\<not> tl_clean_shutdown (fold run_write cs (telemetry_init d))"
    by (simp add: frame_simps telemetry_init_def)
  have "read_wal (clean_session now cs d) = read_wal d @ (session_entries 0 cs @ [?m])"
  proof (rule read_wal_append [where torn = "[]"])
    show "\<forall>e \<in> set (session_entries 0 cs @ [?m]). wf_entry e \<and> is_valid_wal_entry e"
      using session_entries_ok [OF assms(4)] marker_ok by auto
  qed (use close_disk [OF inv, of now] open_ assms in \<open>simp_all add: clean_session_def\<close>)
  then show ?thesis by simp
qed

lemma wal_crash_lemma:
  assumes "wal_writable d" "wal_readable d" "264 dvd length (disk_contents d)"
    and "\<forall>c \<in> set cs. call_ok c"
    and "n = length (session_entries 0 cs)"
  shows "length torn < 264 \<Longrightarrow> read_wal (disk_append torn (crashed_session cs d))
      = read_wal d @ take (64 * (n div 64)) (session_entries 0 cs)"
    and "read_wal (crashed_session cs d) = read_wal d @ take (64 * (n div 64)) (session_entries 0 cs)"
proof -
  have inv: "session_inv d (session_entries 0 cs) (fold run_write cs (telemetry_init d))"
    using session_inv_run [OF session_inv_init [OF assms(1)], of cs] by simp
  have ok: "\<forall>e \<in> set (take (64 * (n div 64)) (session_entries 0 cs)). wf_entry e \<and> is_valid_wal_entry e"
    using session_entries_ok [OF assms(4)] by (meson in_set_takeD)
  show "read_wal (disk_append torn (crashed_session cs d))
      = read_wal d @ take (64 * (n div 64)) (session_entries 0 cs)" if "length torn < 264"
    by (rule read_wal_append [where torn = torn])
      (use inv assms that ok in \<open>simp_all add: crashed_session_def session_inv_def\<close>)
  show "read_wal (crashed_session cs d) = read_wal d @ take (64 * (n div 64)) (session_entries 0 cs)"
    by (rule read_wal_append [where torn = "[]"])
      (use inv assms ok in \<open>simp_all add: crashed_session_def session_inv_def\<close>)
qed

lemma verdict_without_marker:
  assumes "\<forall>c \<in> set cs. wc_type c \<noteq> Ev_CleanShutdown"
    and "length (session_entries 0 cs) < 2 ^ 63" "k \<le> length (session_entries 0 cs)"
  shows "\<not> verdict_clean (take k (session_entries 0 cs))"
proof -
  let ?r = "fold scan_entry (take k (session_entries 0 cs)) (0, 0, 0)"
  have "fst ?r = 0"
    using scan_session(1) [OF session_take [where k = k and cs = cs], of "(0, 0, 0)"] assms by simp
  then show ?thesis by (auto simp: verdict_clean_def split: prod.splits)
qed

lemma clean_session_disk:
  assumes "wal_writable d"
  shows "wal_writable (clean_session now cs d) \<and> wal_readable (clean_session now cs d) = wal_readable d
    \<and> disk_contents (clean_session now cs d) = disk_contents d
        @ concat (map encode_entry (session_entries 0 cs @ [shutdown_marker (of_nat (length (session_entries 0 cs))) now]))"
proof -
  have inv: "session_inv d (session_entries 0 cs) (fold run_write cs (telemetry_init d))"
    using session_inv_run [OF session_inv_init [OF assms(1)], of cs] by simp
  have open_: "\<not> tl_clean_shutdown (fold run_write cs (telemetry_init d))"
    by (simp add: frame_simps telemetry_init_def)
  show ?thesis
    using close_disk [OF inv, of now] flushed_disk [OF inv] open_
    by (simp add: clean_session_def telemetry_close_def mark_clean_shutdown_def append_wal_def Let_def)
      (simp add: flush_wal_def)
qed

lemma length_encoded: "\<forall>e \<in> set es. wf_entry e \<Longrightarrow> length (concat (map encode_entry es)) = 264 * length es"
  by (induction es) (simp_all add: length_encode_entry)

lemma replay_fold:
  "fold replay_entry es (n, r)
     = (n + of_nat (length (filter is_payload_entry es)),
        fold (\<lambda>e r. snd (TelemetryRing_push e r)) (filter is_payload_entry es) r)"
  by (induction es arbitrary: n r)
    (simp_all add: replay_entry_def is_payload_entry_def del: wal_event_code.simps)

section \<open>Properties\<close>

text \<open>C1: A session that closes normally leaves a log from which \<open>read_wal\<close> returns what earlier
  sessions left followed by every record of this session, in order and bit for bit, and the
  clean-shutdown marker: no record is lost in the write buffer, refused payloads leave no trace,
  and the validity filter never drops a record that \<open>write\<close> produced.\<close>
theorem wal_session_readback:
  assumes "wal_writable d" "wal_readable d" "264 dvd length (disk_contents d)"
    and "\<forall>c \<in> set cs. call_ok c"
  shows "read_wal (clean_session now cs d) = read_wal d @ session_entries 0 cs
    @ [shutdown_marker (of_nat (length (session_entries 0 cs))) now]"
  by (rule wal_session_readback_lemma [OF assms])

theorem wal_session_readback_witness:
  "read_wal (clean_session 9 (replicate 65 draw_call) fresh_disk)
     = read_wal fresh_disk @ session_entries 0 (replicate 65 draw_call)
       @ [shutdown_marker (of_nat (length (session_entries 0 (replicate 65 draw_call)))) 9]"
  by (rule wal_session_readback)
    (simp_all add: fresh_disk_def draw_call_def call_ok_def disk_contents_def)

text \<open>C12: A crash loses at most the current batch. If the process dies, even while the operating
  system has written only part of a record (fewer than 264 stray bytes), \<open>read_wal\<close> returns exactly
  the records of the completed batches of 64, so at most 63 of the accepted records are missing.\<close>
theorem wal_crash_keeps_full_batches:
  assumes "wal_writable d" "wal_readable d" "264 dvd length (disk_contents d)"
    and "\<forall>c \<in> set cs. call_ok c" "length torn < 264"
    and "n = length (session_entries 0 cs)"
  shows "read_wal (disk_append torn (crashed_session cs d))
      = read_wal d @ take (64 * (n div 64)) (session_entries 0 cs)
    \<and> n - 64 * (n div 64) < 64"
  using wal_crash_lemma(1) [OF assms(1-4) assms(6) assms(5)] by (simp add: minus_mult_div_eq_mod)

theorem wal_crash_keeps_full_batches_witness:
  "read_wal (disk_append [1, 2, 3] (crashed_session (replicate 65 draw_call) fresh_disk))
      = read_wal fresh_disk @ take (64 * (length (session_entries 0 (replicate 65 draw_call)) div 64))
          (session_entries 0 (replicate 65 draw_call))
   \<and> length (session_entries 0 (replicate 65 draw_call))
       - 64 * (length (session_entries 0 (replicate 65 draw_call)) div 64) < 64"
  by (rule wal_crash_keeps_full_batches)
    (simp_all add: fresh_disk_def draw_call_def call_ok_def disk_contents_def)

text \<open>The verdict on a first session. A session that crashed is reported with the number of
  records its completed batches left, and a session that closed is reported clean, except that a
  session which closed without having logged anything is reported as a crash with one record:
  its marker has sequence 0, and \<open>check_recovery\<close> demands a positive maximal sequence number.\<close>
theorem wal_first_session_verdict:
  assumes "wal_writable d" "wal_readable d" "disk_contents d = []"
    and "\<forall>c \<in> set cs. call_ok c \<and> wc_type c \<noteq> Ev_CleanShutdown"
    and "n = length (session_entries 0 cs)" "n < 2 ^ 63"
  shows "fst (check_recovery (telemetry_init (crashed_session cs d))) = of_nat (64 * (n div 64))
    \<and> fst (check_recovery (telemetry_init (clean_session now cs d))) = (if n = 0 then 1 else 0)"
proof -
  have empty: "read_wal d = []" using assms(2,3) by (simp add: read_wal_eq decode_entries_short)
  have disk: "tl_disk (telemetry_init d') = d'" for d' by (simp add: telemetry_init_def)
  have "read_wal (clean_session now cs d) = session_entries 0 cs @ [shutdown_marker (of_nat n) now]"
    using wal_session_readback_lemma [OF assms(1,2)] assms(3-5) empty by simp
  moreover have "verdict_clean (session_entries 0 cs @ [shutdown_marker (of_nat n) now]) \<longleftrightarrow> 0 < n"
    using verdict_after_marker [where ?cs1.0 = cs and ?cs2.0 = "[]" and k = 0 and ?n1.0 = n and now = now] assms(4-6)
    by simp
  moreover have "read_wal (crashed_session cs d) = take (64 * (n div 64)) (session_entries 0 cs)"
    using wal_crash_lemma [OF assms(1,2)] assms(3-5) empty by simp
  moreover have "\<not> verdict_clean (take (64 * (n div 64)) (session_entries 0 cs))"
    using verdict_without_marker [of cs "64 * (n div 64)"] assms(4-6) by simp
  ultimately show ?thesis
    using assms(5) by (auto simp: check_recovery_eq disk)
qed

theorem wal_first_session_verdict_witness:
  "fst (check_recovery (telemetry_init (crashed_session [] fresh_disk)))
       = of_nat (64 * (length (session_entries 0 []) div 64))
   \<and> fst (check_recovery (telemetry_init (clean_session 3 [] fresh_disk)))
       = (if length (session_entries 0 []) = 0 then 1 else 0)"
  by (rule wal_first_session_verdict)
    (simp_all add: fresh_disk_def draw_call_def call_ok_def disk_contents_def)

text \<open>The verdict on a second session ignores how that session ended. After a clean session with
  \<open>n1 > 0\<close> records, the next one starts with the flag \<open>clean_shutdown_\<close> already set, never writes a
  marker, and numbers its records from 0 again. So with \<open>n2\<close> records it is reported clean exactly when
  \<open>n2 \<le> n1 + 1\<close> if it closed, and when its completed batches have at most \<open>n1 + 1\<close> records if it
  crashed: crashes go undetected, and clean shutdowns are reported as crashes.\<close>
theorem wal_second_session_verdict:
  assumes "wal_writable d" "wal_readable d" "disk_contents d = []"
    and "\<forall>c \<in> set cs1 \<union> set cs2. call_ok c \<and> wc_type c \<noteq> Ev_CleanShutdown"
    and "n1 = length (session_entries 0 cs1)" "0 < n1" "n1 < 2 ^ 63"
    and "n2 = length (session_entries 0 cs2)" "n2 < 2 ^ 63"
    and "t2 = checked_session cs2 (clean_session now cs1 d)"
  shows "tl_clean_shutdown (snd (check_recovery (telemetry_init (tl_disk t2)))) = (64 * (n2 div 64) \<le> Suc n1)
    \<and> tl_clean_shutdown (snd (check_recovery (telemetry_init (tl_disk (telemetry_close now2 t2))))) = (n2 \<le> Suc n1)"
proof -
  let ?d1 = "clean_session now cs1 d" and ?E = "session_entries 0 cs1" and ?F = "session_entries 0 cs2"
  let ?m = "shutdown_marker (of_nat n1) now"
  have d1: "wal_writable ?d1" "wal_readable ?d1" "disk_contents ?d1 = concat (map encode_entry (?E @ [?m]))"
    using clean_session_disk [OF assms(1), of now cs1] assms(2,3,5) by simp_all
  have ok: "\<forall>e \<in> set (?E @ [?m]). wf_entry e \<and> is_valid_wal_entry e" "\<forall>e \<in> set ?F. wf_entry e \<and> is_valid_wal_entry e"
    using session_entries_ok [of cs1] session_entries_ok [of cs2] marker_ok assms(4) by auto
  have al: "264 dvd length (disk_contents ?d1)"
    using ok(1) unfolding d1(3) by (subst length_encoded) auto
  have r1: "read_wal ?d1 = ?E @ [?m]"
    using wal_session_readback_lemma [OF assms(1,2), of cs1 now] assms(2-5)
    by (simp add: read_wal_eq decode_entries_short)
  have "verdict_clean (?E @ [?m])"
    using verdict_after_marker [where ?cs1.0 = cs1 and ?cs2.0 = "[]" and k = 0 and ?n1.0 = n1 and now = now] assms(4-7)
    by simp
  then have start: "session_inv ?d1 [] (snd (check_recovery (telemetry_init ?d1)))"
    "tl_clean_shutdown (snd (check_recovery (telemetry_init ?d1)))"
    using d1(1) r1 by (simp_all add: check_recovery_eq session_inv_def telemetry_init_def)
  have inv: "session_inv ?d1 ?F t2" and clean: "tl_clean_shutdown t2"
    using session_inv_run [OF start(1), of cs2] start(2) by (simp_all add: assms(10) checked_session_def frame_simps)
  have "read_wal (tl_disk t2) = read_wal ?d1 @ take (64 * (n2 div 64)) ?F"
    by (rule read_wal_append [where torn = "[]"])
      (use inv d1 al ok(2) assms(8) in \<open>auto simp: session_inv_def dest: in_set_takeD\<close>)
  moreover have "read_wal (tl_disk (telemetry_close now2 t2)) = read_wal ?d1 @ take n2 ?F"
    by (rule read_wal_append [where torn = "[]"])
      (use close_disk [OF inv, of now2] clean d1 al ok(2) assms(8) in simp_all)
  moreover have "verdict_clean (?E @ ?m # take k ?F) \<longleftrightarrow> k \<le> Suc n1" if "k \<le> n2" for k
    using verdict_after_marker [where ?cs1.0 = cs1 and ?cs2.0 = cs2 and k = k and ?n1.0 = n1 and now = now]
      assms(4-9) that by simp
  ultimately show ?thesis
    by (simp add: check_recovery_eq r1 telemetry_init_def)
qed

theorem wal_second_session_verdict_witness:
  "tl_clean_shutdown (snd (check_recovery (telemetry_init (tl_disk
       (checked_session [draw_call, draw_call] (clean_session 3 [draw_call] fresh_disk))))))
     = (64 * (length (session_entries 0 [draw_call, draw_call]) div 64)
          \<le> Suc (length (session_entries 0 [draw_call])))
   \<and> tl_clean_shutdown (snd (check_recovery (telemetry_init (tl_disk (telemetry_close 4
       (checked_session [draw_call, draw_call] (clean_session 3 [draw_call] fresh_disk)))))))
     = (length (session_entries 0 [draw_call, draw_call]) \<le> Suc (length (session_entries 0 [draw_call])))"
  by (rule wal_second_session_verdict [of fresh_disk "[draw_call]" "[draw_call, draw_call]" _ _ _ 3])
    (simp_all add: fresh_disk_def draw_call_def call_ok_def disk_contents_def wal_consts)

text \<open>\<open>replay\<close> reports every pending record as recovered, but the ring takes only as many as it has
  free slots for (1023 when it is empty); the rest are dropped, and the log is truncated all the
  same.\<close>
theorem wal_replay_drops_overflow:
  assumes "tr_inv (tl_ring t)" "wal_writable (tl_disk t)"
    and "es = filter is_payload_entry (tl_pending_recovery t)"
  shows "fst (replay t) = of_nat (length es)
    \<and> tr_contents (tl_ring (snd (replay t))) = take 1023 (tr_contents (tl_ring t) @ es)
    \<and> wal_bytes (tl_disk (snd (replay t))) = Some []"
  using tr.push_all [OF assms(1), of es] assms
  by (simp add: replay_def replay_fold truncate_wal_def disk_truncate_def)

theorem wal_replay_drops_overflow_witness:
  "let t = (telemetry_init fresh_disk)\<lparr>tl_pending_recovery := replicate 2000 (make_entry 5 6 Ev_Draw None 0)\<rparr>
   in fst (replay t) = of_nat (length (filter is_payload_entry (tl_pending_recovery t)))
      \<and> tr_contents (tl_ring (snd (replay t)))
          = take 1023 (tr_contents (tl_ring t) @ filter is_payload_entry (tl_pending_recovery t))
      \<and> wal_bytes (tl_disk (snd (replay t))) = Some []"
  unfolding Let_def
  by (rule wal_replay_drops_overflow) (simp_all add: telemetry_init_def fresh_disk_def)

end
