(* ===== verification/SchemaMigration.thy ===== *)
theory SchemaMigration
  imports Prelude
begin

text \<open>
  Schema migration, \<open>src/synapse/protocol/schema_migration.h\<close>: a registry of migration functions,
  breadth-first search for a path of versions, and execution of the path. The registry is keyed by
  \<open>from * 1000 + to\<close> in 32-bit arithmetic, as in the source. The search keeps the queue and the
  parent map of the code; walking back along parents may in principle throw (\<open>parent.at\<close>) or run
  forever, so it is a partial function, and the lemmas show that it always returns.
\<close>

section \<open>The registry\<close>

record MigrationStep =
  from_version :: u32
  to_version :: u32
  migrate_fn :: "bytes \<Rightarrow> bytes"

type_synonym registry = "(u32, MigrationStep) alist"

record MessageHeader =
  mh_magic :: u32
  mh_schema_version :: u32
  mh_payload_size :: u32
  mh_checksum :: u32

definition encode_header :: "MessageHeader \<Rightarrow> bytes" where
  "encode_header h = le32 (mh_magic h) @ le32 (mh_schema_version h) @ le32 (mh_payload_size h) @ le32 (mh_checksum h)"

definition decode_header :: "bytes \<Rightarrow> MessageHeader" where
  "decode_header bs = \<lparr>mh_magic = of_le32 bs, mh_schema_version = of_le32 (drop 4 bs),
     mh_payload_size = of_le32 (drop 8 bs), mh_checksum = of_le32 (drop 12 bs)\<rparr>"

definition step_key :: "u32 \<Rightarrow> u32 \<Rightarrow> u32" where
  "step_key from to = from * 1000 + to"

definition register_migration :: "u32 \<Rightarrow> u32 \<Rightarrow> (bytes \<Rightarrow> bytes) \<Rightarrow> registry \<Rightarrow> registry" where
  "register_migration from to f steps =
     al_update (step_key from to) \<lparr>from_version = from, to_version = to, migrate_fn = f\<rparr> steps"

definition find_step :: "registry \<Rightarrow> u32 \<Rightarrow> u32 \<Rightarrow> MigrationStep option" where
  "find_step steps from to = al_lookup steps (step_key from to)"

section \<open>Search\<close>

definition neighbors :: "registry \<Rightarrow> u32 \<Rightarrow> u32 list" where
  "neighbors steps v = map (\<lambda>e. to_version (snd e)) (filter (\<lambda>e. from_version (snd e) = v) steps)"

definition visit :: "u32 \<Rightarrow> u32 \<Rightarrow> u32 list \<times> (u32, u32) alist \<Rightarrow> u32 list \<times> (u32, u32) alist" where
  "visit cur n acc =
     (let (q, parent) = acc
      in if al_lookup parent n = None then (q @ [n], parent @ [(n, cur)]) else (q, parent))"

partial_function (option) walk_back :: "u32 \<Rightarrow> (u32, u32) alist \<Rightarrow> u32 \<Rightarrow> u32 list \<Rightarrow> u32 list option" where
  "walk_back from parent node path =
     (if node = from then Some (rev (path @ [from]))
      else Option.bind (al_lookup parent node) (\<lambda>p. walk_back from parent p (path @ [node])))"

definition unvisited :: "registry \<Rightarrow> (u32, u32) alist \<Rightarrow> nat" where
  "unvisited steps parent = card ((\<lambda>e. to_version (snd e)) ` set steps - fst ` set parent)"

lemma visit_fold_progress:
  assumes "set ns \<subseteq> (\<lambda>e. to_version (snd e)) ` set steps"
    and "fold (visit cur) ns (q, parent) = (q', parent')"
  shows "unvisited steps parent' < unvisited steps parent \<or> unvisited steps parent' = unvisited steps parent \<and> q' = q"
  using assms
proof (induction ns arbitrary: q parent)
  case (Cons n ns)
  show ?case
  proof (cases "al_lookup parent n = None")
    case True
    let ?T = "(\<lambda>e. to_version (snd e)) ` set steps"
    have "n \<in> ?T - fst ` set parent" using True Cons.prems(1) by (auto simp: al_lookup_None)
    moreover have "?T - fst ` set (parent @ [(n, cur)]) = (?T - fst ` set parent) - {n}" by auto
    ultimately have "unvisited steps (parent @ [(n, cur)]) < unvisited steps parent"
      unfolding unvisited_def by (metis card_Diff1_less finite_Diff finite_imageI finite_set)
    moreover from Cons.prems(2) True
    have "fold (visit cur) ns (q @ [n], parent @ [(n, cur)]) = (q', parent')" by (simp add: visit_def [of cur n])
    from Cons.IH [OF _ this]
    have "unvisited steps parent' \<le> unvisited steps (parent @ [(n, cur)])"
      using Cons.prems(1) by fastforce
    ultimately show ?thesis by linarith
  next
    case False
    with Cons show ?thesis by (simp add: visit_def [of cur n])
  qed
qed simp

lemma neighbors_targets: "set (neighbors steps v) \<subseteq> (\<lambda>e. to_version (snd e)) ` set steps"
  by (auto simp: neighbors_def)

text \<open>The search loop. The result is the walked path, \<open>None\<close> when walking back does not return, and
  the empty list when the queue runs empty.\<close>

function bfs :: "registry \<Rightarrow> u32 \<Rightarrow> u32 \<Rightarrow> u32 list \<Rightarrow> (u32, u32) alist \<Rightarrow> u32 list option" where
  "bfs steps from to [] parent = Some []"
| "bfs steps from to (cur # q) parent =
     (if cur = to then walk_back from parent to []
      else bfs steps from to (fst (fold (visit cur) (neighbors steps cur) (q, parent)))
             (snd (fold (visit cur) (neighbors steps cur) (q, parent))))"
  by pat_completeness auto
termination
proof (relation "measures [\<lambda>(steps, from, to, q, parent). unvisited steps parent, \<lambda>(steps, from, to, q, parent). length q]")
  fix steps :: registry and "from" to cur :: u32 and q parent
  assume "cur \<noteq> to"
  let ?r = "fold (visit cur) (neighbors steps cur) (q, parent)"
  have "unvisited steps (snd ?r) < unvisited steps parent \<or> unvisited steps (snd ?r) = unvisited steps parent \<and> fst ?r = q"
    by (rule visit_fold_progress [OF neighbors_targets]) simp
  then show "((steps, from, to, fst ?r, snd ?r), (steps, from, to, cur # q, parent))
      \<in> measures [\<lambda>(steps, from, to, q, parent). unvisited steps parent, \<lambda>(steps, from, to, q, parent). length q]"
    by (auto simp: case_prod_beta)
qed simp

definition find_path :: "registry \<Rightarrow> u32 \<Rightarrow> u32 \<Rightarrow> u32 list option" where
  "find_path steps from to =
     (if from = to then Some [from] else bfs steps from to [from] [(from, from)])"

section \<open>Operations on top of the search\<close>

datatype migrate_error = No_migration_path u32 u32 | Missing_step u32 u32 | Diverges

fun apply_path :: "registry \<Rightarrow> u32 list \<Rightarrow> bytes \<Rightarrow> migrate_error + bytes" where
  "apply_path steps (a # b # rest) bs =
     (case find_step steps a b of
        None \<Rightarrow> Inl (Missing_step a b)
      | Some st \<Rightarrow> apply_path steps (b # rest) (migrate_fn st bs))"
| "apply_path steps path bs = Inr bs"

definition migrate :: "registry \<Rightarrow> bytes \<Rightarrow> u32 \<Rightarrow> u32 \<Rightarrow> migrate_error + bytes" where
  "migrate steps bs from to =
     (if from = to then Inr bs
      else case find_path steps from to of
          None \<Rightarrow> Inl Diverges
        | Some path \<Rightarrow> if path = [] then Inl (No_migration_path from to) else apply_path steps path bs)"

definition has_path :: "registry \<Rightarrow> u32 \<Rightarrow> u32 \<Rightarrow> bool" where
  "has_path steps from to = (find_path steps from to \<noteq> Some [])"

definition is_compatible :: "u32 \<Rightarrow> u32 \<Rightarrow> bool" where
  "is_compatible reader data = (if data = 0 then reader = 0 else reader + 1 \<ge> data)"

definition latest_version :: "registry \<Rightarrow> u32" where
  "latest_version steps = fold (\<lambda>e m. if to_version (snd e) > m then to_version (snd e) else m) steps 0"

definition migration_count :: "registry \<Rightarrow> nat" where
  "migration_count steps = length steps"

section \<open>Specification\<close>

text \<open>An edge, a path of edges, and the registry's invariant: every step sits under its own key.\<close>

definition edge :: "registry \<Rightarrow> u32 \<Rightarrow> u32 \<Rightarrow> bool" where
  "edge steps a b \<longleftrightarrow> b \<in> set (neighbors steps a)"

fun edges_along :: "registry \<Rightarrow> u32 list \<Rightarrow> bool" where
  "edges_along steps (a # b # rest) = (edge steps a b \<and> edges_along steps (b # rest))"
| "edges_along steps path = True"

definition version_path :: "registry \<Rightarrow> u32 \<Rightarrow> u32 \<Rightarrow> u32 list \<Rightarrow> bool" where
  "version_path steps a b path \<longleftrightarrow> path \<noteq> [] \<and> hd path = a \<and> last path = b \<and> edges_along steps path"

definition registry_ok :: "registry \<Rightarrow> bool" where
  "registry_ok steps \<longleftrightarrow> distinct (map fst steps) \<and>
     (\<forall>e \<in> set steps. fst e = step_key (from_version (snd e)) (to_version (snd e)))"

text \<open>The parent map of the search: built from the source by edges out of versions already in it.\<close>

inductive bfs_tree :: "registry \<Rightarrow> u32 \<Rightarrow> (u32, u32) alist \<Rightarrow> bool" for steps src where
  tree_root: "bfs_tree steps src [(src, src)]"
| tree_grow: "\<lbrakk>bfs_tree steps src par; p \<in> fst ` set par; n \<notin> fst ` set par; edge steps p n\<rbrakk> \<Longrightarrow>
     bfs_tree steps src (par @ [(n, p)])"

definition bfs_inv :: "registry \<Rightarrow> u32 \<Rightarrow> u32 \<Rightarrow> u32 list \<Rightarrow> (u32, u32) alist \<Rightarrow> bool" where
  "bfs_inv steps src dst q par \<longleftrightarrow> bfs_tree steps src par \<and> set q \<subseteq> fst ` set par \<and>
     (\<forall>k \<in> fst ` set par - set q. k \<noteq> dst \<and> set (neighbors steps k) \<subseteq> fst ` set par)"

section \<open>Lemmas on the registry\<close>

lemma registry_ok_register: "registry_ok steps \<Longrightarrow> registry_ok (register_migration a b f steps)"
proof -
  have "set (al_update k v m) \<subseteq> insert (k, v) (set m)" for k :: u32 and v :: MigrationStep and m
    by (induction k v m rule: al_update.induct) auto
  then show "registry_ok steps \<Longrightarrow> registry_ok (register_migration a b f steps)"
    unfolding registry_ok_def register_migration_def by fastforce
qed

lemma edge_step:
  assumes "registry_ok steps" "edge steps a b"
  obtains st where "find_step steps a b = Some st" "from_version st = a" "to_version st = b"
proof -
  obtain k st where st: "(k, st) \<in> set steps" "from_version st = a" "to_version st = b"
    using assms(2) by (auto simp: edge_def neighbors_def)
  then have "k = step_key a b" using assms(1) by (auto simp: registry_ok_def)
  then have "find_step steps a b = Some st"
    using st assms(1) by (simp add: find_step_def registry_ok_def al_lookup_Some)
  with st that show ?thesis by blast
qed

lemma edges_along_snoc:
  "edges_along steps path \<Longrightarrow> path \<noteq> [] \<Longrightarrow> edge steps (last path) n \<Longrightarrow> edges_along steps (path @ [n])"
  by (induction steps path rule: edges_along.induct) auto

lemma decode_encode_header [codec_simps]: "decode_header (encode_header h @ bs) = h"
  by (simp add: decode_header_def encode_header_def)

lemma length_encode_header [codec_simps]: "length (encode_header h) = 16"
  by (simp add: encode_header_def)

section \<open>Lemmas on the search\<close>

lemma al_lookup_append_key:
  "k \<in> fst ` set m \<Longrightarrow> al_lookup (m @ ext) k = al_lookup m k"
  by (induction m k rule: al_lookup.induct) auto

lemma al_lookup_append_new:
  "k \<notin> fst ` set m \<Longrightarrow> al_lookup (m @ ext) k = al_lookup ext k"
  by (induction m k rule: al_lookup.induct) auto

lemma walk_back_path:
  assumes "bfs_tree steps src par" "node \<in> fst ` set par"
  shows "\<exists>path. version_path steps src node path
    \<and> (\<forall>acc ext. walk_back src (par @ ext) node acc = Some (path @ rev acc))"
  using assms
proof (induction arbitrary: node rule: bfs_tree.induct)
  case tree_root
  then have "node = src" by simp
  then show ?case
    by (intro exI [of _ "[src]"]) (simp add: version_path_def walk_back.simps)
next
  case (tree_grow par p n)
  show ?case
  proof (cases "node \<in> fst ` set par")
    case True
    from tree_grow.IH [OF this] show ?thesis by (metis append_assoc)
  next
    case False
    with tree_grow.prems have node: "node = n" by simp
    obtain path where path: "version_path steps src p path"
      "\<And>acc ext. walk_back src (par @ ext) p acc = Some (path @ rev acc)"
      using tree_grow.IH [OF tree_grow.hyps(2)] by auto
    have "src \<in> fst ` set par" using tree_grow.hyps(1) by (induction rule: bfs_tree.induct) auto
    with tree_grow.hyps(3) have "n \<noteq> src" by auto
    then have "walk_back src ((par @ [(n, p)]) @ ext) n acc = Some ((path @ [n]) @ rev acc)" for acc ext
      using path(2) [of "(n, p) # ext" "acc @ [n]"] tree_grow.hyps(3)
      by (subst walk_back.simps) (simp add: al_lookup_append_new)
    moreover have "version_path steps src n (path @ [n])"
      using path(1) tree_grow.hyps(4) by (auto simp: version_path_def edges_along_snoc)
    ultimately show ?thesis unfolding node by blast
  qed
qed

lemma visit_fold:
  assumes "bfs_tree steps src par" "cur \<in> fst ` set par" "set ns \<subseteq> set (neighbors steps cur)"
    and "set q \<subseteq> fst ` set par" "fold (visit cur) ns (q, par) = (q', par')"
  shows "bfs_tree steps src par' \<and> set q' \<subseteq> fst ` set par'
    \<and> fst ` set par' = fst ` set par \<union> set ns \<and> fst ` set par' - set q' = fst ` set par - set q"
  using assms
proof (induction ns arbitrary: q par)
  case (Cons n ns)
  show ?case
  proof (cases "al_lookup par n = None")
    case True
    then have n: "n \<notin> fst ` set par" by (simp add: al_lookup_None)
    have "bfs_tree steps src (par @ [(n, cur)])"
      using Cons.prems n by (intro tree_grow) (auto simp: edge_def)
    moreover have "fold (visit cur) ns (q @ [n], par @ [(n, cur)]) = (q', par')"
      using Cons.prems(5) True by (simp add: visit_def [of cur n])
    ultimately have ih: "bfs_tree steps src par' \<and> set q' \<subseteq> fst ` set par'
        \<and> fst ` set par' = fst ` set (par @ [(n, cur)]) \<union> set ns
        \<and> fst ` set par' - set q' = fst ` set (par @ [(n, cur)]) - set (q @ [n])"
      using Cons.prems by (intro Cons.IH) auto
    have e1: "fst ` set (par @ [(n, cur)]) - set (q @ [n]) = fst ` set par - set q"
      using n by auto
    have e2: "fst ` set (par @ [(n, cur)]) \<union> set ns = fst ` set par \<union> set (n # ns)" by auto
    show ?thesis using ih unfolding e1 e2 .
  next
    case False
    then have "n \<in> fst ` set par" by (metis al_lookup_None)
    then have e: "fst ` set par \<union> set (n # ns) = fst ` set par \<union> set ns" by auto
    have "fold (visit cur) ns (q, par) = (q', par')"
      using Cons.prems(5) False by (simp add: visit_def [of cur n])
    then show ?thesis
      unfolding e using Cons.prems by (intro Cons.IH) auto
  qed
qed simp

lemma bfs_inv_step:
  assumes "bfs_inv steps src dst (cur # q) par" "cur \<noteq> dst"
    and "fold (visit cur) (neighbors steps cur) (q, par) = (q', par')"
  shows "bfs_inv steps src dst q' par'"
proof -
  have cur: "cur \<in> fst ` set par" and q: "set q \<subseteq> fst ` set par" and tree: "bfs_tree steps src par"
    using assms(1) by (auto simp: bfs_inv_def)
  note v = visit_fold [OF tree cur order_refl q assms(3)]
  have v1: "bfs_tree steps src par'" "set q' \<subseteq> fst ` set par'" and v2: "fst ` set par \<subseteq> fst ` set par'"
    and v3: "set (neighbors steps cur) \<subseteq> fst ` set par'" and v4: "fst ` set par' - set q' = fst ` set par - set q"
    using v by blast+
  have "\<forall>k \<in> fst ` set par - set q. k \<noteq> dst \<and> set (neighbors steps k) \<subseteq> fst ` set par'"
  proof
    fix k assume that: "k \<in> fst ` set par - set q"
    show "k \<noteq> dst \<and> set (neighbors steps k) \<subseteq> fst ` set par'"
    proof (cases "k = cur")
      case True
      then show ?thesis using assms(2) v3 by simp
    next
      case False
      with that have "k \<in> fst ` set par - set (cur # q)" by simp
      then have "k \<noteq> dst \<and> set (neighbors steps k) \<subseteq> fst ` set par"
        using assms(1) unfolding bfs_inv_def by blast
      then show ?thesis using v2 by blast
    qed
  qed
  with v1 v4 show ?thesis unfolding bfs_inv_def by (simp only: simp_thms)
qed

lemma closed_no_path:
  assumes "\<forall>k \<in> K. k \<noteq> dst \<and> set (neighbors steps k) \<subseteq> K" "edges_along steps path" "path \<noteq> []" "hd path \<in> K"
  shows "last path \<noteq> dst"
  using assms(2-4)
proof (induction path rule: induct_list012)
  case (3 a b rest)
  then have "b \<in> K" using assms(1) by (auto simp: edge_def)
  with 3 show ?case by simp
qed (use assms(1) in auto)

lemma bfs_correct:
  assumes "bfs_inv steps src dst q par"
  shows "(\<exists>path. bfs steps src dst q par = Some path \<and> version_path steps src dst path)
    \<or> (bfs steps src dst q par = Some [] \<and> \<not> (\<exists>path. version_path steps src dst path))"
  using assms
proof (induction steps src dst q par rule: bfs.induct)
  case (1 steps src dst par)
  have src: "src \<in> fst ` set par" if "bfs_tree steps src par" for par
    using that by (induction rule: bfs_tree.induct) auto
  have "last path \<noteq> dst" if "version_path steps src dst path" for path
    using 1 that src by (intro closed_no_path [of "fst ` set par"]) (auto simp: bfs_inv_def version_path_def)
  then have "\<not> (\<exists>path. version_path steps src dst path)" by (auto simp: version_path_def)
  then show ?case by simp
next
  case (2 steps src dst cur q par)
  show ?case
  proof (cases "cur = dst")
    case True
    have "\<exists>path. version_path steps src dst path \<and> (\<forall>acc ext. walk_back src (par @ ext) dst acc = Some (path @ rev acc))"
      using 2(2) True by (intro walk_back_path) (auto simp: bfs_inv_def)
    then show ?thesis using True by (metis append.right_neutral bfs.simps(2) rev.simps(1))
  next
    case False
    let ?r = "fold (visit cur) (neighbors steps cur) (q, par)"
    have "bfs_inv steps src dst (fst ?r) (snd ?r)"
      by (rule bfs_inv_step [OF 2(2) False]) simp
    from 2(1) [OF False this] False show ?thesis by simp
  qed
qed

lemma find_path_correct:
  "(\<exists>path. find_path steps a b = Some path \<and> version_path steps a b path)
   \<or> (find_path steps a b = Some [] \<and> \<not> (\<exists>path. version_path steps a b path))"
proof (cases "a = b")
  case True
  then show ?thesis by (auto simp: find_path_def version_path_def)
next
  case False
  have "bfs_inv steps a b [a] [(a, a)]" by (simp add: bfs_inv_def tree_root)
  from bfs_correct [OF this] False show ?thesis by (simp add: find_path_def)
qed

lemma version_path_nonempty: "version_path steps a b path \<Longrightarrow> path \<noteq> []"
  by (simp add: version_path_def)

lemma apply_path_total:
  assumes "registry_ok steps" "edges_along steps path"
  shows "\<exists>bs'. apply_path steps path bs = Inr bs'"
  using assms(2)
proof (induction path arbitrary: bs rule: induct_list012)
  case (3 a b rest)
  then have "edge steps a b" by simp
  then obtain st where "find_step steps a b = Some st"
    by (rule edge_step [OF assms(1)])
  with 3 show ?case by simp
qed simp_all

lemma registry_ok_run: "registry_ok (fold (\<lambda>(a, b, f). register_migration a b f) regs [])"
proof -
  have "registry_ok steps \<Longrightarrow> registry_ok (fold (\<lambda>(a, b, f). register_migration a b f) regs steps)" for steps
    by (induction regs arbitrary: steps) (auto simp: registry_ok_register)
  moreover have "registry_ok []" by (simp add: registry_ok_def)
  ultimately show ?thesis by blast
qed

section \<open>Properties\<close>

text \<open>C11: The path search terminates and is sound and complete: it always returns, a non-empty result
  is a path of registered migrations from the first version to the second, and the empty result,
  on which \<open>has_path\<close> is false, is returned exactly when no such path exists.\<close>
theorem find_path_sound_complete:
  "\<exists>path. find_path steps a b = Some path
     \<and> (if path = [] then \<not> (\<exists>p. version_path steps a b p) else version_path steps a b path)
     \<and> (has_path steps a b \<longleftrightarrow> (\<exists>p. version_path steps a b p))"
proof -
  consider path where "find_path steps a b = Some path" "version_path steps a b path" "path \<noteq> []"
    | "find_path steps a b = Some []" "\<not> (\<exists>p. version_path steps a b p)"
    using find_path_correct [of steps a b] version_path_nonempty by blast
  then show ?thesis
    by cases (auto simp: has_path_def)
qed

text \<open>C28: On any registry built by registrations, \<open>migrate\<close> throws only when no chain of registered
  migrations leads to the requested version; otherwise it returns the data transformed by the
  registered functions along a path the search found. The second exception of the code, a missing
  step, is never raised, whatever keys collide.\<close>
theorem migrate_total:
  "let steps = fold (\<lambda>(a, b, f). register_migration a b f) regs [] in
   if \<exists>p. version_path steps from to p
   then \<exists>path bs'. version_path steps from to path \<and> apply_path steps path bs = Inr bs'
          \<and> migrate steps bs from to = Inr bs'
   else migrate steps bs from to = Inl (No_migration_path from to)"
proof -
  define steps where "steps = fold (\<lambda>(a, b, f). register_migration a b f) regs []"
  have ok: "registry_ok steps" unfolding steps_def by (rule registry_ok_run)
  have same: "version_path steps v v [v]" for v by (simp add: version_path_def)
  have total: "\<exists>bs'. apply_path steps path bs = Inr bs'" if "version_path steps from to path" for path
    using apply_path_total [OF ok] that by (simp add: version_path_def)
  have "if \<exists>p. version_path steps from to p
     then \<exists>path bs'. version_path steps from to path \<and> apply_path steps path bs = Inr bs'
        \<and> migrate steps bs from to = Inr bs'
     else migrate steps bs from to = Inl (No_migration_path from to)"
  proof (cases "from = to")
    case True
    moreover have "apply_path steps [to] bs = Inr bs" by simp
    ultimately show ?thesis using same [of to] by (auto simp: migrate_def)
  next
    case False
    consider path where "find_path steps from to = Some path" "version_path steps from to path" "path \<noteq> []"
      | "find_path steps from to = Some []" "\<not> (\<exists>p. version_path steps from to p)"
      using find_path_correct [of steps "from" to] version_path_nonempty by blast
    then show ?thesis
    proof cases
      case 1
      with total [OF 1(2)] False show ?thesis by (auto simp: migrate_def)
    next
      case 2
      with False show ?thesis by (auto simp: migrate_def)
    qed
  qed
  then show ?thesis unfolding Let_def steps_def [symmetric] .
qed

text \<open>The compatibility test accepts data of every older version above 0 and data one version
  newer than the reader, unless the reader's version is the largest 32-bit number; version 0 is
  readable only by version 0. The comment above it promises the converse window, \<open>up to 1 version
  older\<close>.\<close>
theorem is_compatible_window:
  "is_compatible reader data \<longleftrightarrow>
     (if data = 0 then reader = 0 else reader \<noteq> 0xFFFFFFFF \<and> unat data \<le> unat reader + 1)"
proof (cases "reader = 0xFFFFFFFF")
  case True
  moreover have "(0xFFFFFFFF :: u32) + 1 = 0" by code_simp
  ultimately show ?thesis by (simp only: is_compatible_def) simp
next
  case False
  then have "unat reader \<noteq> unat (0xFFFFFFFF :: u32)" by (metis word_unat_eq_iff)
  then have "unat reader \<noteq> 4294967295" by simp
  moreover have "unat reader < 4294967296" by simp
  ultimately have "unat reader < 4294967295" by linarith
  then have "unat (reader + 1) = unat reader + 1"
    by (subst unat_add_lem [THEN iffD1]) simp_all
  with False show ?thesis by (simp add: is_compatible_def word_le_nat_alt)
qed

text \<open>Distinct migrations can overwrite each other, because the registry's key \<open>from * 1000 + to\<close> is
  not injective: registering 1 to 0 after 0 to 1000 leaves no way from 0 to 1000.\<close>
theorem migration_key_collision:
  "let steps = register_migration 1 0 g (register_migration 0 1000 f [])
   in has_path (register_migration 0 1000 f []) 0 1000 \<and> \<not> has_path steps 0 1000 \<and> migration_count steps = 1"
proof -
  have "version_path (register_migration 0 1000 f []) 0 1000 [0, 1000]"
    by (simp add: version_path_def edge_def neighbors_def register_migration_def)
  then have "has_path (register_migration 0 1000 f []) 0 1000"
    using find_path_correct [of "register_migration 0 1000 f []" 0 1000] version_path_nonempty
    by (fastforce simp: has_path_def)
  then show ?thesis
    by (simp add: has_path_def find_path_def register_migration_def step_key_def neighbors_def migration_count_def)
qed

end
