(* ===== verification/CrashRecovery.thy ===== *)
theory CrashRecovery
  imports Wal SchemaMigration
begin

text \<open>
  The crash recovery manager, \<open>src/synapse/recovery/crash_recovery.h\<close>: versioned metadata next to
  the write-ahead log, migration of the header-less legacy format, and the recovery procedure on
  top of the telemetry log. The metadata file has the same shape as the log file of theory
  \<open>Wal\<close>. Loading can throw, since \<open>SchemaMigration::migrate\<close> can.
\<close>

section \<open>Metadata\<close>

record RecoveryMetadata =
  last_clean_shutdown_sequence :: u64
  last_wal_sequence :: u64
  total_recoveries :: u64
  total_entries_recovered :: u64

definition metadata_default :: RecoveryMetadata where
  "metadata_default = \<lparr>last_clean_shutdown_sequence = 0, last_wal_sequence = 0, total_recoveries = 0,
     total_entries_recovered = 0\<rparr>"

definition encode_metadata :: "RecoveryMetadata \<Rightarrow> bytes" where
  "encode_metadata m = le64 (last_clean_shutdown_sequence m) @ le64 (last_wal_sequence m)
     @ le64 (total_recoveries m) @ le64 (total_entries_recovered m)"

definition decode_metadata :: "bytes \<Rightarrow> RecoveryMetadata" where
  "decode_metadata bs = \<lparr>last_clean_shutdown_sequence = of_le64 bs, last_wal_sequence = of_le64 (drop 8 bs),
     total_recoveries = of_le64 (drop 16 bs), total_entries_recovered = of_le64 (drop 24 bs)\<rparr>"

definition kRecoverySchemaVersion :: u32 where "kRecoverySchemaVersion = 1"
definition kMagic :: u32 where "kMagic = 0x53594E41"

text \<open>The header both writers compute, and the registered migration from the legacy format.\<close>

definition header_for :: "bytes \<Rightarrow> MessageHeader" where
  "header_for payload = \<lparr>mh_magic = kMagic, mh_schema_version = 1,
     mh_payload_size = of_nat (length payload), mh_checksum = fnv1a payload\<rparr>"

definition wrap_legacy :: "bytes \<Rightarrow> bytes" where
  "wrap_legacy data = encode_header (header_for data) @ data"

section \<open>The manager\<close>

record CrashRecoveryManager =
  cr_metadata :: RecoveryMetadata
  cr_telemetry :: AtomicTelemetry
  cr_schema :: registry
  cr_meta_file :: wal_disk

definition recovery_init :: "wal_disk \<Rightarrow> wal_disk \<Rightarrow> CrashRecoveryManager" where
  "recovery_init meta wal = \<lparr>cr_metadata = metadata_default, cr_telemetry = telemetry_init wal,
     cr_schema = register_migration 0 1 wrap_legacy [], cr_meta_file = meta\<rparr>"

text \<open>An \<open>ofstream\<close> opened with \<open>trunc\<close> replaces the file.\<close>

definition file_replace :: "bytes \<Rightarrow> wal_disk \<Rightarrow> wal_disk" where
  "file_replace bs f = (if wal_writable f then f\<lparr>wal_bytes := Some bs\<rparr> else f)"

definition save_metadata :: "CrashRecoveryManager \<Rightarrow> CrashRecoveryManager" where
  "save_metadata r =
     (let payload = encode_metadata (cr_metadata r)
      in r\<lparr>cr_meta_file := file_replace (encode_header (header_for payload) @ payload) (cr_meta_file r)\<rparr>)"

definition is_versioned :: "bytes \<Rightarrow> bool" where
  "is_versioned raw \<longleftrightarrow> length raw \<ge> 16 \<and> mh_magic (decode_header raw) = kMagic
     \<and> mh_schema_version (decode_header raw) > 0"

definition load_versioned :: "registry \<Rightarrow> bytes \<Rightarrow> migrate_error + RecoveryMetadata" where
  "load_versioned schema raw =
     (let ver = mh_schema_version (decode_header raw); payload = drop 16 raw
      in if \<not> is_compatible kRecoverySchemaVersion ver then
           if has_path schema ver kRecoverySchemaVersion then
             (case migrate schema payload ver kRecoverySchemaVersion of
                Inl e \<Rightarrow> Inl e
              | Inr migrated \<Rightarrow> Inr (if length migrated \<ge> 32 then decode_metadata migrated else metadata_default))
           else Inr metadata_default
         else Inr (if length payload \<ge> 32 then decode_metadata payload else metadata_default))"

definition load_metadata :: "CrashRecoveryManager \<Rightarrow> (migrate_error + RecoveryMetadata) \<times> CrashRecoveryManager" where
  "load_metadata r =
     (let raw = disk_contents (cr_meta_file r)
      in if \<not> wal_readable (cr_meta_file r) \<or> wal_bytes (cr_meta_file r) = None \<or> raw = [] then
           (Inr metadata_default, r)
         else if is_versioned raw then (load_versioned (cr_schema r) raw, r)
         else if length raw \<ge> 32 then
           (case migrate (cr_schema r) (take 32 raw) 0 kRecoverySchemaVersion of
              Inl e \<Rightarrow> (Inl e, r)
            | Inr migrated \<Rightarrow>
                (Inr (decode_metadata raw), r\<lparr>cr_meta_file := file_replace migrated (cr_meta_file r)\<rparr>))
         else (Inr metadata_default, r))"

definition check_for_crash :: "CrashRecoveryManager \<Rightarrow> (migrate_error + bool) \<times> CrashRecoveryManager" where
  "check_for_crash r =
     (case load_metadata r of
        (Inl e, r) \<Rightarrow> (Inl e, r)
      | (Inr m, r) \<Rightarrow>
          let (pending, t) = check_recovery (cr_telemetry r)
          in (Inr (pending > 0), r\<lparr>cr_metadata := m, cr_telemetry := t\<rparr>))"

record RecoveryResult =
  rr_success :: bool
  rr_entries_recovered :: u64
  rr_last_sequence :: u64

definition recover :: "CrashRecoveryManager \<Rightarrow> RecoveryResult \<times> CrashRecoveryManager" where
  "recover r =
     (let (pending, t) = check_recovery (cr_telemetry r); r = r\<lparr>cr_telemetry := t\<rparr>
      in if pending = 0 then (\<lparr>rr_success = True, rr_entries_recovered = 0, rr_last_sequence = 0\<rparr>, r)
         else
           let (n, t) = replay (cr_telemetry r); last = tl_sequence t; m = cr_metadata r;
               m = m\<lparr>total_recoveries := total_recoveries m + 1,
                      total_entries_recovered := total_entries_recovered m + n,
                      last_wal_sequence := last\<rparr>
           in (\<lparr>rr_success = True, rr_entries_recovered = n, rr_last_sequence = last\<rparr>,
               save_metadata (r\<lparr>cr_telemetry := t, cr_metadata := m\<rparr>)))"

definition manager_mark_clean :: "u64 \<Rightarrow> CrashRecoveryManager \<Rightarrow> CrashRecoveryManager" where
  "manager_mark_clean now r =
     (let t = mark_clean_shutdown now (cr_telemetry r)
      in save_metadata (r\<lparr>cr_telemetry := t,
           cr_metadata := (cr_metadata r)\<lparr>last_clean_shutdown_sequence := tl_sequence t\<rparr>\<rparr>))"

definition meta_file_with :: "bytes \<Rightarrow> wal_disk" where
  "meta_file_with bs = \<lparr>wal_bytes = Some bs, wal_readable = True, wal_writable = True\<rparr>"

section \<open>Lemmas\<close>

lemma decode_encode_metadata [codec_simps]: "decode_metadata (encode_metadata m @ bs) = m"
  by (simp add: decode_metadata_def encode_metadata_def)

lemma decode_encode_metadata_only [codec_simps]: "decode_metadata (encode_metadata m) = m"
  using decode_encode_metadata [of m "[]"] by simp

lemma length_encode_metadata [codec_simps]: "length (encode_metadata m) = 32"
  by (simp add: encode_metadata_def)

lemma of_le64_take: "k \<ge> 8 \<Longrightarrow> of_le64 (take k bs) = of_le64 bs"
  by (simp add: of_le64_def min_absorb1)

lemma decode_metadata_take: "decode_metadata (take 32 bs) = decode_metadata bs"
  by (simp add: decode_metadata_def of_le64_take drop_take)

text \<open>A current-version file is read back whatever its size and checksum fields say.\<close>

lemma load_versioned_current:
  assumes "mh_magic h = kMagic" "mh_schema_version h = 1" "length payload \<ge> 32"
  shows "is_versioned (encode_header h @ payload)
    \<and> load_versioned schema (encode_header h @ payload) = Inr (decode_metadata payload)"
  using assms
  by (simp add: is_versioned_def load_versioned_def codec_simps is_compatible_def kRecoverySchemaVersion_def)

lemma load_current:
  assumes "wal_readable f" "wal_bytes f = Some (encode_header h @ payload)" "cr_meta_file r = f"
    and "mh_magic h = kMagic" "mh_schema_version h = 1" "length payload \<ge> 32"
  shows "load_metadata r = (Inr (decode_metadata payload), r)"
proof -
  have "encode_header h @ payload \<noteq> []" using assms(6) by auto
  then show ?thesis
    using assms load_versioned_current [OF assms(4-6), of "cr_schema r"]
    by (auto simp: load_metadata_def disk_contents_def Let_def)
qed

lemma header_for_fields [simp]: "mh_magic (header_for p) = kMagic" "mh_schema_version (header_for p) = 1"
  by (simp_all add: header_for_def)

lemma load_saved:
  assumes "wal_readable (cr_meta_file r)" "wal_writable (cr_meta_file r)"
  shows "load_metadata (save_metadata r) = (Inr (cr_metadata r), save_metadata r)"
  using assms
  by (subst load_current [where payload = "encode_metadata (cr_metadata r)" and h = "header_for (encode_metadata (cr_metadata r))"])
    (simp_all add: save_metadata_def file_replace_def Let_def codec_simps)

lemma legacy_migration: "migrate (register_migration 0 1 wrap_legacy []) bs 0 1 = Inr (wrap_legacy bs)"
proof -
  have reg: "register_migration 0 1 wrap_legacy []
      = [(1, \<lparr>from_version = 0, to_version = 1, migrate_fn = wrap_legacy\<rparr>)]"
    by (simp add: register_migration_def step_key_def)
  have "find_path (register_migration 0 1 wrap_legacy []) 0 1 = Some [0, 1]"
    by (simp add: find_path_def reg neighbors_def visit_def walk_back.simps)
  then show ?thesis
    by (simp add: migrate_def reg find_step_def step_key_def)
qed

lemma load_legacy:
  assumes f: "wal_readable f" "wal_bytes f = Some raw" and raw: "\<not> is_versioned raw" "length raw \<ge> 32"
  shows "load_metadata (recovery_init f w)
    = (Inr (decode_metadata raw),
       (recovery_init f w)\<lparr>cr_meta_file := file_replace (wrap_legacy (take 32 raw)) f\<rparr>)"
proof -
  have "raw \<noteq> []" using raw(2) by auto
  then show ?thesis
    using f raw legacy_migration [of "take 32 raw"]
    by (simp add: load_metadata_def disk_contents_def Let_def recovery_init_def kRecoverySchemaVersion_def)
qed

lemma crashed_check:
  assumes "wal_writable d" "wal_readable d" "disk_contents d = []"
    and cs: "\<forall>c \<in> set cs. call_ok c \<and> wc_type c \<noteq> Ev_CleanShutdown"
    and n: "n = length (session_entries 0 cs)" "n < 2 ^ 63"
    and k: "k = 64 * (n div 64)"
    and t: "t = (telemetry_init (crashed_session cs d))\<lparr>tl_clean_shutdown := False,
        tl_pending_recovery := take k (session_entries 0 cs)\<rparr>"
  shows "check_recovery (telemetry_init (crashed_session cs d)) = (of_nat k, t)" "check_recovery t = (of_nat k, t)"
proof -
  let ?es = "take k (session_entries 0 cs)"
  have "read_wal d = []" using assms(2,3) by (simp add: read_wal_eq decode_entries_short)
  then have "read_wal (crashed_session cs d) = ?es"
    using wal_crash_lemma(2) [OF assms(1,2), of cs n] assms(3) cs n k by simp
  moreover have "\<not> verdict_clean ?es"
    using verdict_without_marker [of cs k] cs n k by simp
  moreover have "length ?es = k" using n k by simp
  ultimately show "check_recovery (telemetry_init (crashed_session cs d)) = (of_nat k, t)"
    "check_recovery t = (of_nat k, t)"
    by (simp_all add: prod_eq_iff check_recovery_eq telemetry_init_def t)
qed

lemma crashed_replay:
  assumes "wal_writable d" "\<forall>c \<in> set cs. wc_type c \<noteq> Ev_CleanShutdown"
    and "k \<le> length (session_entries 0 cs)" "length (session_entries 0 cs) < 2 ^ 64"
    and t: "t = (telemetry_init (crashed_session cs d))\<lparr>tl_clean_shutdown := False,
        tl_pending_recovery := take k (session_entries 0 cs)\<rparr>"
  shows "fst (replay t) = of_nat k" "tr_contents (tl_ring (snd (replay t))) = take 1023 (take k (session_entries 0 cs))"
    and "wal_bytes (tl_disk (snd (replay t))) = Some []" "tl_sequence (snd (replay t)) = 0"
proof -
  let ?es = "take k (session_entries 0 cs)"
  have "filter is_payload_entry ?es = ?es"
    using session_take(1) [OF assms(3,4,2)] by (simp add: filter_id_conv)
  moreover have "wal_writable (crashed_session cs d)"
    using session_inv_run [OF session_inv_init [OF assms(1)], of cs]
    by (simp add: crashed_session_def session_inv_def)
  moreover have "length ?es = k" using assms(3) by simp
  ultimately show "fst (replay t) = of_nat k" "tr_contents (tl_ring (snd (replay t))) = take 1023 ?es"
    "wal_bytes (tl_disk (snd (replay t))) = Some []" "tl_sequence (snd (replay t)) = 0"
    using tr.push_all [of TelemetryRing_init ?es]
    by (simp_all add: replay_def replay_fold truncate_wal_def disk_truncate_def telemetry_init_def t)
qed

lemma of_nat_pos_64: "0 < k \<Longrightarrow> k < 2 ^ 64 \<Longrightarrow> (0 :: u64) < of_nat k"
  by (simp add: word_less_nat_alt unat_of_nat)

lemma recover_pending:
  assumes "check_recovery (cr_telemetry r) = (p, t)" "0 < p" "cr_metadata r = metadata_default"
  shows "recover r = (\<lparr>rr_success = True, rr_entries_recovered = fst (replay t), rr_last_sequence = tl_sequence (snd (replay t))\<rparr>,
    save_metadata (r\<lparr>cr_telemetry := snd (replay t), cr_metadata := metadata_default\<lparr>total_recoveries := 1,
      total_entries_recovered := fst (replay t), last_wal_sequence := tl_sequence (snd (replay t))\<rparr>\<rparr>))"
proof -
  have "p \<noteq> 0" using assms(2) by auto
  with assms(1,3) show ?thesis
    by (simp add: recover_def Let_def split_beta) (simp add: metadata_default_def)
qed

section \<open>Properties\<close>

text \<open>C29: Saved metadata is read back unchanged, by this or by a later manager, provided the file can be
  written and read.\<close>
theorem metadata_roundtrip:
  assumes "wal_readable (cr_meta_file r)" "wal_writable (cr_meta_file r)"
  shows "fst (load_metadata (recovery_init (cr_meta_file (save_metadata r)) w)) = Inr (cr_metadata r)
    \<and> load_metadata (save_metadata r) = (Inr (cr_metadata r), save_metadata r)"
proof -
  let ?p = "encode_metadata (cr_metadata r)"
  have "load_metadata (recovery_init (cr_meta_file (save_metadata r)) w)
      = (Inr (decode_metadata ?p), recovery_init (cr_meta_file (save_metadata r)) w)"
    by (rule load_current [where h = "header_for ?p"])
      (use assms in \<open>simp_all add: save_metadata_def file_replace_def recovery_init_def Let_def codec_simps\<close>)
  with load_saved [OF assms] show ?thesis by (simp add: codec_simps)
qed

theorem metadata_roundtrip_witness:
  "let r = (recovery_init (meta_file_with []) fresh_disk)\<lparr>cr_metadata := metadata_default\<lparr>total_recoveries := 3\<rparr>\<rparr>
   in fst (load_metadata (recovery_init (cr_meta_file (save_metadata r)) fresh_disk)) = Inr (cr_metadata r)
      \<and> load_metadata (save_metadata r) = (Inr (cr_metadata r), save_metadata r)"
  unfolding Let_def by (rule metadata_roundtrip) (simp_all add: recovery_init_def meta_file_with_def)

text \<open>A legacy file, raw metadata without a header, is understood and upgraded once: loading returns
  its metadata and rewrites the file with a header, and loading the rewritten file returns the same
  metadata and leaves it alone. Trailing bytes of the legacy file are dropped.\<close>
theorem legacy_metadata_migrates:
  assumes "wal_readable f" "wal_writable f" "wal_bytes f = Some raw"
    and "\<not> is_versioned raw" "length raw \<ge> 32"
  shows "\<exists>r. load_metadata (recovery_init f w) = (Inr (decode_metadata raw), r)
    \<and> load_metadata r = (Inr (decode_metadata raw), r)"
proof -
  let ?r = "(recovery_init f w)\<lparr>cr_meta_file := file_replace (wrap_legacy (take 32 raw)) f\<rparr>"
  have "load_metadata ?r = (Inr (decode_metadata (take 32 raw)), ?r)"
    by (rule load_current [where h = "header_for (take 32 raw)"])
      (use assms in \<open>simp_all add: file_replace_def wrap_legacy_def\<close>)
  with load_legacy [OF assms(1,3,4,5), of w] show ?thesis
    by (simp add: decode_metadata_take)
qed

theorem legacy_metadata_migrates_witness:
  "\<exists>r. load_metadata (recovery_init (meta_file_with (le32 0 @ replicate 36 7)) fresh_disk)
        = (Inr (decode_metadata (le32 0 @ replicate 36 7)), r)
     \<and> load_metadata r = (Inr (decode_metadata (le32 0 @ replicate 36 7)), r)"
proof (rule legacy_metadata_migrates [where f = "meta_file_with (le32 0 @ replicate 36 7)"])
  show "\<not> is_versioned (le32 0 @ replicate 36 7)"
    by (simp add: is_versioned_def decode_header_def kMagic_def)
qed (simp_all add: meta_file_with_def)

text \<open>The checksum and the payload size in the metadata header are written and never looked at: any
  file with the right magic number and version is accepted, with whatever 32 payload bytes follow.
  The header's checksum therefore protects nothing.\<close>
theorem metadata_checksum_ignored:
  assumes "length payload = 32"
  shows "fst (load_metadata (recovery_init
      (meta_file_with (encode_header \<lparr>mh_magic = kMagic, mh_schema_version = 1, mh_payload_size = n,
         mh_checksum = c\<rparr> @ payload)) w)) = Inr (decode_metadata payload)"
proof -
  let ?h = "\<lparr>mh_magic = kMagic, mh_schema_version = 1, mh_payload_size = n, mh_checksum = c\<rparr>"
  let ?r = "recovery_init (meta_file_with (encode_header ?h @ payload)) w"
  have "load_metadata ?r = (Inr (decode_metadata payload), ?r)"
    by (rule load_current [where h = ?h])
      (use assms in \<open>simp_all add: meta_file_with_def recovery_init_def\<close>)
  then show ?thesis by simp
qed

theorem metadata_checksum_ignored_witness:
  "fst (load_metadata (recovery_init
      (meta_file_with (encode_header \<lparr>mh_magic = kMagic, mh_schema_version = 1, mh_payload_size = 5,
         mh_checksum = 0\<rparr> @ replicate 32 255)) fresh_disk)) = Inr (decode_metadata (replicate 32 255))"
  by (rule metadata_checksum_ignored) simp

text \<open>C14: Recovery after a crash. When the previous, first session crashed with at least one completed
  batch, a new manager detects the crash; \<open>recover\<close> reports the number of logged records, puts the
  first 1023 of them into the ring in order, empties the log, and saves the updated totals. The
  reported last sequence number is always that of the new session, 0, not that of the recovered
  records.\<close>
theorem recover_after_crash:
  assumes "wal_writable d" "wal_readable d" "disk_contents d = []"
    and "\<forall>c \<in> set cs. call_ok c \<and> wc_type c \<noteq> Ev_CleanShutdown"
    and "n = length (session_entries 0 cs)" "n < 2 ^ 63" "64 \<le> n"
    and "wal_readable meta" "wal_writable meta" "wal_bytes meta = None"
    and "check_for_crash (recovery_init meta (crashed_session cs d)) = (v, r)"
    and "recover r = (res, r')"
  shows "v = Inr True \<and> res = \<lparr>rr_success = True, rr_entries_recovered = of_nat (64 * (n div 64)), rr_last_sequence = 0\<rparr>
    \<and> tr_contents (tl_ring (cr_telemetry r')) = take 1023 (take (64 * (n div 64)) (session_entries 0 cs))
    \<and> wal_bytes (tl_disk (cr_telemetry r')) = Some []
    \<and> load_metadata r' = (Inr (metadata_default\<lparr>total_recoveries := 1,
          total_entries_recovered := of_nat (64 * (n div 64))\<rparr>), r')"
proof -
  define k where "k = 64 * (n div 64)"
  define t where "t = (telemetry_init (crashed_session cs d))\<lparr>tl_clean_shutdown := False,
      tl_pending_recovery := take k (session_entries 0 cs)\<rparr>"
  have "64 * (n div 64) \<le> n" "0 < n div 64" using assms(7) by (simp_all add: div_greater_zero_iff)
  then have k: "k \<le> n" "0 < k" by (simp_all add: k_def)
  have pos: "(0 :: u64) < of_nat k" by (rule of_nat_pos_64) (use k assms(6) in simp_all)
  note check = crashed_check [OF assms(1-6) k_def t_def]
  have "load_metadata (recovery_init meta (crashed_session cs d))
      = (Inr metadata_default, recovery_init meta (crashed_session cs d))"
    using assms(10) by (simp add: load_metadata_def recovery_init_def)
  moreover have "cr_telemetry (recovery_init meta (crashed_session cs d)) = telemetry_init (crashed_session cs d)"
    by (simp add: recovery_init_def)
  ultimately have v: "v = Inr True" "r = (recovery_init meta (crashed_session cs d))\<lparr>cr_metadata := metadata_default, cr_telemetry := t\<rparr>"
    using assms(11) pos by (simp_all add: check_for_crash_def check(1))
  have rp: "fst (replay t) = of_nat k" "tr_contents (tl_ring (snd (replay t))) = take 1023 (take k (session_entries 0 cs))"
    "wal_bytes (tl_disk (snd (replay t))) = Some []" "tl_sequence (snd (replay t)) = 0"
    using crashed_replay [OF assms(1) _ _ _ t_def] assms(4-6) k by simp_all
  define r2 where "r2 = r\<lparr>cr_telemetry := snd (replay t), cr_metadata := metadata_default\<lparr>total_recoveries := 1,
      total_entries_recovered := of_nat k\<rparr>\<rparr>"
  have "recover r = (\<lparr>rr_success = True, rr_entries_recovered = of_nat k, rr_last_sequence = 0\<rparr>, save_metadata r2)"
    using recover_pending [of r "of_nat k" t] check(2) pos rp(1,4)
    by (simp add: v(2) r2_def metadata_default_def)
  moreover have "load_metadata (save_metadata r2) = (Inr (cr_metadata r2), save_metadata r2)"
    by (rule load_saved) (use assms(8,9) in \<open>simp_all add: r2_def v(2) recovery_init_def\<close>)
  moreover have "cr_metadata r2 = metadata_default\<lparr>total_recoveries := 1, total_entries_recovered := of_nat k\<rparr>"
    "cr_telemetry (save_metadata r2) = snd (replay t)"
    by (simp_all add: r2_def save_metadata_def Let_def)
  ultimately show ?thesis
    unfolding k_def [symmetric] using assms(12) v(1) rp(2,3) by simp
qed

theorem recover_after_crash_witness:
  "let c = check_for_crash (recovery_init fresh_disk (crashed_session (replicate 64 draw_call) fresh_disk));
       x = recover (snd c)
   in fst c = Inr True \<and> wal_bytes (tl_disk (cr_telemetry (snd x))) = Some []"
proof -
  have len: "length (session_entries sq (replicate n draw_call)) = n" for sq n
    by (induction n arbitrary: sq) (simp_all add: draw_call_def wal_consts)
  show ?thesis
    using recover_after_crash [of fresh_disk "replicate 64 draw_call" 64 fresh_disk _ _ _ _, OF _ _ _ _ _ _ _ _ _ _
        surjective_pairing surjective_pairing]
    by (simp add: Let_def len) (simp add: fresh_disk_def draw_call_def call_ok_def disk_contents_def)
qed

end
