(* ===== verification/IeeeFloat.thy ===== *)
theory IeeeFloat
  imports Complex_Main Prelude "HOL-Library.Log_Nat"
begin

text \<open>
  IEEE-754 binary32 and binary64 arithmetic, as the C++ types \<open>float\<close> and \<open>double\<close> have it on
  the targets of the repository: every operation computes the exact rational result and rounds it
  to nearest, ties to even, with gradual underflow and overflow to infinity.

  A floating-point number is a NaN, a signed infinity or a finite rational. The two zeros are
  identified: no modelled code inspects the sign of a zero, and divisions by a zero are reached
  with a zero converted from an unsigned counter, which is +0. NaN payloads are not modelled.

  The lemmas at the end are the ones the components use: rounding is monotone, exact on
  representable numbers, and a quotient of two ordered non-negative counters lies in [0,1].
\<close>

datatype fp = NaN | Inf bool | Fin rat

type_synonym f32 = fp
type_synonym f64 = fp

section \<open>Rounding\<close>

definition ilog2 :: "rat \<Rightarrow> int" where
  "ilog2 q = (let (n, d) = quotient_of q; k = bitlen n - bitlen d
              in if 2 powi k \<le> q then k else k - 1)"

definition rne :: "rat \<Rightarrow> int" where
  "rne x = (let f = \<lfloor>x\<rfloor>; r = x - of_int f
            in if r < 1 / 2 then f
               else if 1 / 2 < r then f + 1
               else if even f then f else f + 1)"

definition rnd_exp :: "int \<Rightarrow> rat \<Rightarrow> int" where
  "rnd_exp emin a = max (ilog2 a) emin"

definition rnd_mag :: "nat \<Rightarrow> int \<Rightarrow> rat \<Rightarrow> rat" where
  "rnd_mag p emin a = (let u = 2 powi (rnd_exp emin a - (int p - 1)) in of_int (rne (a / u)) * u)"

definition rnd :: "nat \<Rightarrow> int \<Rightarrow> int \<Rightarrow> rat \<Rightarrow> fp" where
  "rnd p emin emax q =
     (if q = 0 then Fin 0
      else let v = rnd_mag p emin \<bar>q\<bar>
           in if 2 powi (emax + 1) \<le> v then Inf (0 < q) else Fin (sgn q * v))"

definition rnd32 :: "rat \<Rightarrow> f32" where
  "rnd32 = rnd 24 (- 126) 127"

definition rnd64 :: "rat \<Rightarrow> f64" where
  "rnd64 = rnd 53 (- 1022) 1023"

section \<open>Comparisons\<close>

fun fp_lt :: "fp \<Rightarrow> fp \<Rightarrow> bool" where
  "fp_lt NaN y = False"
| "fp_lt x NaN = False"
| "fp_lt (Inf a) (Inf b) = (\<not> a \<and> b)"
| "fp_lt (Inf a) (Fin y) = (\<not> a)"
| "fp_lt (Fin x) (Inf b) = b"
| "fp_lt (Fin x) (Fin y) = (x < y)"

fun fp_le :: "fp \<Rightarrow> fp \<Rightarrow> bool" where
  "fp_le NaN y = False"
| "fp_le x NaN = False"
| "fp_le (Inf a) (Inf b) = (a \<longrightarrow> b)"
| "fp_le (Inf a) (Fin y) = (\<not> a)"
| "fp_le (Fin x) (Inf b) = b"
| "fp_le (Fin x) (Fin y) = (x \<le> y)"

definition fp_clamp :: "fp \<Rightarrow> fp \<Rightarrow> fp \<Rightarrow> fp" where
  "fp_clamp v lo hi = (if fp_lt v lo then lo else if fp_lt hi v then hi else v)"

definition fp_min :: "fp \<Rightarrow> fp \<Rightarrow> fp" where
  "fp_min a b = (if fp_lt b a then b else a)"

definition fp_max :: "fp \<Rightarrow> fp \<Rightarrow> fp" where
  "fp_max a b = (if fp_lt a b then b else a)"

section \<open>Arithmetic, for a rounding function\<close>

fun fp_neg :: "fp \<Rightarrow> fp" where
  "fp_neg NaN = NaN"
| "fp_neg (Inf a) = Inf (\<not> a)"
| "fp_neg (Fin x) = Fin (- x)"

fun fp_add :: "(rat \<Rightarrow> fp) \<Rightarrow> fp \<Rightarrow> fp \<Rightarrow> fp" where
  "fp_add r NaN y = NaN"
| "fp_add r x NaN = NaN"
| "fp_add r (Inf a) (Inf b) = (if a = b then Inf a else NaN)"
| "fp_add r (Inf a) (Fin y) = Inf a"
| "fp_add r (Fin x) (Inf b) = Inf b"
| "fp_add r (Fin x) (Fin y) = r (x + y)"

definition fp_sub :: "(rat \<Rightarrow> fp) \<Rightarrow> fp \<Rightarrow> fp \<Rightarrow> fp" where
  "fp_sub r x y = fp_add r x (fp_neg y)"

fun fp_mul :: "(rat \<Rightarrow> fp) \<Rightarrow> fp \<Rightarrow> fp \<Rightarrow> fp" where
  "fp_mul r NaN y = NaN"
| "fp_mul r x NaN = NaN"
| "fp_mul r (Inf a) (Inf b) = Inf (a = b)"
| "fp_mul r (Inf a) (Fin y) = (if y = 0 then NaN else Inf (a = (0 < y)))"
| "fp_mul r (Fin x) (Inf b) = (if x = 0 then NaN else Inf (b = (0 < x)))"
| "fp_mul r (Fin x) (Fin y) = r (x * y)"

fun fp_div :: "(rat \<Rightarrow> fp) \<Rightarrow> fp \<Rightarrow> fp \<Rightarrow> fp" where
  "fp_div r NaN y = NaN"
| "fp_div r x NaN = NaN"
| "fp_div r (Inf a) (Inf b) = NaN"
| "fp_div r (Inf a) (Fin y) = Inf (a = (0 \<le> y))"
| "fp_div r (Fin x) (Inf b) = Fin 0"
| "fp_div r (Fin x) (Fin y) = (if y = 0 then (if x = 0 then NaN else Inf (0 < x)) else r (x / y))"

fun fp_cast :: "(rat \<Rightarrow> fp) \<Rightarrow> fp \<Rightarrow> fp" where
  "fp_cast r NaN = NaN"
| "fp_cast r (Inf a) = Inf a"
| "fp_cast r (Fin x) = r x"

section \<open>The two C++ types\<close>

abbreviation f32_add :: "f32 \<Rightarrow> f32 \<Rightarrow> f32" where "f32_add \<equiv> fp_add rnd32"
abbreviation f32_sub :: "f32 \<Rightarrow> f32 \<Rightarrow> f32" where "f32_sub \<equiv> fp_sub rnd32"
abbreviation f32_mul :: "f32 \<Rightarrow> f32 \<Rightarrow> f32" where "f32_mul \<equiv> fp_mul rnd32"
abbreviation f32_div :: "f32 \<Rightarrow> f32 \<Rightarrow> f32" where "f32_div \<equiv> fp_div rnd32"
abbreviation f64_add :: "f64 \<Rightarrow> f64 \<Rightarrow> f64" where "f64_add \<equiv> fp_add rnd64"
abbreviation f64_sub :: "f64 \<Rightarrow> f64 \<Rightarrow> f64" where "f64_sub \<equiv> fp_sub rnd64"
abbreviation f64_mul :: "f64 \<Rightarrow> f64 \<Rightarrow> f64" where "f64_mul \<equiv> fp_mul rnd64"
abbreviation f64_div :: "f64 \<Rightarrow> f64 \<Rightarrow> f64" where "f64_div \<equiv> fp_div rnd64"

text \<open>Conversions: an unsigned integer to \<open>float\<close> or \<open>double\<close>, and \<open>double\<close> to \<open>float\<close>
  (\<open>float\<close> to \<open>double\<close> is exact, hence the identity here).\<close>

definition f32_of_word :: "'a::len word \<Rightarrow> f32" where
  "f32_of_word w = rnd32 (of_nat (unat w))"

definition f64_of_word :: "'a::len word \<Rightarrow> f64" where
  "f64_of_word w = rnd64 (of_nat (unat w))"

definition f32_of_f64 :: "f64 \<Rightarrow> f32" where
  "f32_of_f64 = fp_cast rnd32"

section \<open>Lemmas on rounding\<close>

lemma powi2_pos [simp]: "0 < (2 :: rat) powi k"
  by (simp add: power_int_def)

lemma powi2_le_iff [simp]: "(2 :: rat) powi a \<le> 2 powi b \<longleftrightarrow> a \<le> b"
  by (metis power_int_increasing power_int_strict_increasing one_less_numeral_iff
      semiring_norm(76) not_le one_le_numeral)

lemma powi2_scale: "of_int (2 ^ n) * (2 :: rat) powi k = 2 powi (int n + k)"
  by (simp add: power_int_add)

lemma powi2_mult: "(2 :: rat) powi a * 2 powi b = 2 powi (a + b)"
  by (simp add: power_int_add)

lemma bitlen_powi:
  assumes "0 < n"
  shows "2 powi (bitlen n - 1) \<le> (of_int n :: rat) \<and> (of_int n :: rat) < 2 powi bitlen n"
proof -
  have b: "0 < bitlen n"
    using assms bitlen_nonneg [of n] bitlen_eq_zero_iff [of n] by linarith
  have "2 ^ nat (bitlen n - 1) \<le> n \<and> n < 2 ^ nat (bitlen n)"
    by (rule bitlen_bounds [OF assms])
  then have "(of_int (2 ^ nat (bitlen n - 1)) :: rat) \<le> of_int n
      \<and> (of_int n :: rat) < of_int (2 ^ nat (bitlen n))"
    by (simp only: of_int_le_iff of_int_less_iff)
  with b show ?thesis by (simp add: power_int_def)
qed

lemma ilog2_bounds:
  assumes "0 < q"
  shows "2 powi ilog2 q \<le> q \<and> q < 2 powi (ilog2 q + 1)"
proof -
  obtain n d where nd: "quotient_of q = (n, d)" by (cases "quotient_of q")
  have d: "0 < d" using quotient_of_denom_pos [OF nd] .
  have q: "q = of_int n / of_int d" using quotient_of_div [OF nd] .
  have n: "0 < n" using assms d by (simp add: q zero_less_divide_iff)
  let ?k = "bitlen n - bitlen d"
  have n1: "(2 :: rat) powi (bitlen n - 1) \<le> of_int n" and n2: "(of_int n :: rat) < 2 powi bitlen n"
    using bitlen_powi [OF n] by auto
  have d1: "(2 :: rat) powi (bitlen d - 1) \<le> of_int d" and d2: "(of_int d :: rat) < 2 powi bitlen d"
    using bitlen_powi [OF d] by auto
  have dpos: "(0 :: rat) < of_int d" using d by simp
  have "q < 2 powi (?k + 1)"
  proof -
    have "(of_int n :: rat) < 2 powi bitlen n" by (rule n2)
    also have "\<dots> = 2 powi (?k + 1) * 2 powi (bitlen d - 1)"
      by (simp add: powi2_mult)
    also have "\<dots> \<le> 2 powi (?k + 1) * of_int d"
      using d1 by (intro mult_left_mono) (simp_all add: less_imp_le)
    finally show ?thesis using dpos by (simp add: q pos_divide_less_eq)
  qed
  moreover have "2 powi (?k - 1) \<le> q"
  proof -
    have "2 powi (?k - 1) * (of_int d :: rat) \<le> 2 powi (?k - 1) * 2 powi bitlen d"
      using d2 by (intro mult_left_mono) (simp_all add: less_imp_le)
    also have "\<dots> = 2 powi (bitlen n - 1)"
      by (simp add: powi2_mult)
    also have "\<dots> \<le> of_int n" by (rule n1)
    finally show ?thesis using dpos by (simp add: q pos_le_divide_eq)
  qed
  ultimately show ?thesis
    by (auto simp: ilog2_def nd Let_def)
qed

lemma ilog2_mono:
  assumes "0 < x" "x \<le> y"
  shows "ilog2 x \<le> ilog2 y"
proof -
  have "2 powi ilog2 x \<le> x" using ilog2_bounds [OF assms(1)] by simp
  also have "x \<le> y" by (rule assms(2))
  also have "y < 2 powi (ilog2 y + 1)" using ilog2_bounds [of y] assms by simp
  finally have "(2 :: rat) powi ilog2 x < 2 powi (ilog2 y + 1)" .
  then have "\<not> (2 :: rat) powi (ilog2 y + 1) \<le> 2 powi ilog2 x" by (simp only: not_le)
  then show ?thesis by simp
qed

lemma rne_bounds: "of_int (rne x) - 1 / 2 \<le> x \<and> x \<le> of_int (rne x) + 1 / 2"
  unfolding rne_def Let_def by (auto; linarith)

lemma rne_mono:
  assumes "x \<le> y"
  shows "rne x \<le> rne y"
proof (cases "\<lfloor>x\<rfloor> = \<lfloor>y\<rfloor>")
  case True
  then show ?thesis using assms by (auto simp: rne_def Let_def)
next
  case False
  with assms have "\<lfloor>x\<rfloor> + 1 \<le> \<lfloor>y\<rfloor>" using floor_mono [OF assms] by linarith
  then show ?thesis by (auto simp: rne_def Let_def)
qed

lemma rne_of_int [simp]: "rne (of_int n) = n"
  by (simp add: rne_def)

lemma rnd_mag_upper:
  assumes "0 < x"
  shows "rnd_mag p emin x \<le> 2 powi (rnd_exp emin x + 1)"
proof -
  let ?u = "(2 :: rat) powi (rnd_exp emin x - (int p - 1))"
  have "x < 2 powi (ilog2 x + 1)" using ilog2_bounds [OF assms] by simp
  also have "\<dots> \<le> 2 powi (rnd_exp emin x + 1)" by (simp add: rnd_exp_def)
  also have "\<dots> = of_int (2 ^ p) * ?u"
    by (simp only: powi2_scale) simp
  finally have "x / ?u \<le> of_int (2 ^ p)" by (simp add: pos_divide_le_eq)
  then have "rne (x / ?u) \<le> 2 ^ p" using rne_mono by (metis rne_of_int)
  then have "(of_int (rne (x / ?u)) :: rat) \<le> of_int (2 ^ p)" by (simp only: of_int_le_iff)
  then have "of_int (rne (x / ?u)) * ?u \<le> of_int (2 ^ p) * ?u"
    by (intro mult_right_mono) (simp_all add: less_imp_le)
  also have "\<dots> = 2 powi (rnd_exp emin x + 1)"
    by (simp only: powi2_scale) simp
  finally show ?thesis by (simp add: rnd_mag_def Let_def)
qed

lemma rnd_mag_lower:
  assumes "2 powi e \<le> x" "e = rnd_exp emin x" "0 < p"
  shows "2 powi e \<le> rnd_mag p emin x"
proof -
  let ?u = "(2 :: rat) powi (e - (int p - 1))"
  have eq: "of_int (2 ^ (p - 1)) * ?u = 2 powi e"
    using \<open>0 < p\<close> by (simp only: powi2_scale) (simp add: of_nat_diff)
  then have "of_int (2 ^ (p - 1)) \<le> x / ?u" using assms(1) by (simp add: pos_le_divide_eq)
  then have "2 ^ (p - 1) \<le> rne (x / ?u)" using rne_mono by (metis rne_of_int)
  then have "(of_int (2 ^ (p - 1)) :: rat) \<le> of_int (rne (x / ?u))" by (simp only: of_int_le_iff)
  then have "of_int (2 ^ (p - 1)) * ?u \<le> of_int (rne (x / ?u)) * ?u"
    by (intro mult_right_mono) (simp_all add: less_imp_le)
  then show ?thesis unfolding eq using assms(2) by (simp only: rnd_mag_def Let_def)
qed

lemma rnd_mag_mono:
  assumes "0 < x" "x \<le> y" "0 < p"
  shows "rnd_mag p emin x \<le> rnd_mag p emin y"
proof (cases "rnd_exp emin x = rnd_exp emin y")
  case True
  let ?u = "(2 :: rat) powi (rnd_exp emin y - (int p - 1))"
  have "rne (x / ?u) \<le> rne (y / ?u)"
    using assms by (intro rne_mono divide_right_mono) (simp_all add: less_imp_le)
  then have "(of_int (rne (x / ?u)) :: rat) * ?u \<le> of_int (rne (y / ?u)) * ?u"
    by (intro mult_right_mono) (simp_all add: less_imp_le)
  with True show ?thesis by (simp only: rnd_mag_def Let_def)
next
  case False
  with ilog2_mono [OF assms(1,2)] have lt: "rnd_exp emin x < rnd_exp emin y"
    and ey: "rnd_exp emin y = ilog2 y"
    by (auto simp: rnd_exp_def)
  have "rnd_mag p emin x \<le> 2 powi (rnd_exp emin x + 1)" by (rule rnd_mag_upper [OF assms(1)])
  also have "\<dots> \<le> 2 powi rnd_exp emin y" using lt by simp
  also have "\<dots> \<le> rnd_mag p emin y"
    using ilog2_bounds [of y] assms by (intro rnd_mag_lower) (simp_all add: ey)
  finally show ?thesis .
qed

lemma rnd_mag_nonneg: "0 < x \<Longrightarrow> 0 \<le> rnd_mag p emin x"
  unfolding rnd_mag_def Let_def
  by (intro mult_nonneg_nonneg of_int_nonneg)
    (use rne_mono [of 0] rne_of_int [of 0] in \<open>auto simp: less_imp_le\<close>)

lemma rnd_mono_nonneg:
  assumes "0 \<le> x" "x \<le> y" "0 < p"
  shows "fp_le (rnd p emin emax x) (rnd p emin emax y)"
proof (cases "x = 0")
  case True
  then show ?thesis
    using assms rnd_mag_nonneg [of y p emin] by (auto simp: rnd_def Let_def)
next
  case False
  with assms have x: "0 < x" by simp
  then show ?thesis
    using assms rnd_mag_mono [OF x assms(2,3), of emin] by (auto simp: rnd_def Let_def)
qed

lemma rnd_exact:
  assumes q: "q = of_int m * 2 powi k" and m: "\<bar>m\<bar> < 2 ^ p"
    and k: "emin - (int p - 1) \<le> k" and over: "\<bar>q\<bar> < 2 powi (emax + 1)"
  shows "rnd p emin emax q = Fin q"
proof (cases "q = 0")
  case True
  then show ?thesis by (simp add: rnd_def)
next
  case False
  let ?a = "\<bar>q\<bar>" and ?e = "rnd_exp emin \<bar>q\<bar>"
  have a: "0 < ?a" using False by simp
  have aq: "?a = of_int \<bar>m\<bar> * 2 powi k" by (simp add: q abs_mult)
  have "2 powi ilog2 ?a \<le> ?a" using ilog2_bounds [OF a] by simp
  also have "\<dots> < of_int (2 ^ p) * 2 powi k"
    unfolding aq using m by (intro mult_strict_right_mono) (simp_all only: of_int_less_iff powi2_pos)
  also have "\<dots> = 2 powi (int p + k)"
    by (rule powi2_scale)
  finally have "\<not> (2 :: rat) powi (int p + k) \<le> 2 powi ilog2 ?a" by (simp only: not_le)
  then have "?e - (int p - 1) \<le> k" using k by (simp add: rnd_exp_def)
  then obtain j :: nat where j: "k = ?e - (int p - 1) + int j"
    using zle_iff_zadd by blast
  define u where "u = (2 :: rat) powi (?e - (int p - 1))"
  have u: "0 < u" by (simp add: u_def)
  have "(2 :: rat) powi k = u * of_int (2 ^ j)"
    by (subst j) (simp add: u_def power_int_add)
  then have au: "?a = of_int (\<bar>m\<bar> * 2 ^ j) * u"
    unfolding aq by simp
  then have "?a / u = of_int (\<bar>m\<bar> * 2 ^ j)" using u by (simp only: nonzero_mult_div_cancel_right)
  then have "rnd_mag p emin ?a = ?a"
    unfolding rnd_mag_def Let_def u_def [symmetric] by (simp only: rne_of_int au)
  then show ?thesis
    using False over by (simp add: rnd_def Let_def sgn_mult_abs)
qed

section \<open>Ratios of counters\<close>

lemma fp_le_trans: "fp_le x y \<Longrightarrow> fp_le y z \<Longrightarrow> fp_le x z"
  by (cases x; cases y; cases z) auto

lemma fp_le_between_Fin:
  assumes "fp_le (Fin a) x" "fp_le x (Fin b)"
  obtains v where "x = Fin v" "a \<le> v" "v \<le> b"
  using assms by (cases x) auto

lemma rnd32_mono: "0 \<le> x \<Longrightarrow> x \<le> y \<Longrightarrow> fp_le (rnd32 x) (rnd32 y)"
  unfolding rnd32_def by (rule rnd_mono_nonneg) simp_all

lemma rnd64_mono: "0 \<le> x \<Longrightarrow> x \<le> y \<Longrightarrow> fp_le (rnd64 x) (rnd64 y)"
  unfolding rnd64_def by (rule rnd_mono_nonneg) simp_all

lemma rnd_0 [simp]: "rnd32 0 = Fin 0" "rnd64 0 = Fin 0"
  by (simp_all add: rnd32_def rnd64_def rnd_def)

lemma rnd_neg: "rnd p emin emax (- x) = fp_neg (rnd p emin emax x)"
  by (auto simp: rnd_def Let_def sgn_if)

lemma rnd32_neg: "rnd32 (- x) = fp_neg (rnd32 x)"
  by (simp add: rnd32_def rnd_neg)

lemma rnd64_neg: "rnd64 (- x) = fp_neg (rnd64 x)"
  by (simp add: rnd64_def rnd_neg)

lemma rnd_not_NaN [simp]: "rnd32 x \<noteq> NaN" "rnd64 x \<noteq> NaN"
  by (simp_all add: rnd32_def rnd64_def rnd_def Let_def)

lemma fp_le_neg: "fp_le (Fin 0) (fp_neg x) \<longleftrightarrow> fp_le x (Fin 0)"
  by (cases x) auto

lemma rnd32_sign: "0 \<le> x \<Longrightarrow> fp_le (Fin 0) (rnd32 x)" "x \<le> 0 \<Longrightarrow> fp_le (rnd32 x) (Fin 0)"
  using rnd32_mono [of 0 x] rnd32_mono [of 0 "- x"] by (auto simp: rnd32_neg fp_le_neg)

lemma rnd64_sign: "0 \<le> x \<Longrightarrow> fp_le (Fin 0) (rnd64 x)" "x \<le> 0 \<Longrightarrow> fp_le (rnd64 x) (Fin 0)"
  using rnd64_mono [of 0 x] rnd64_mono [of 0 "- x"] by (auto simp: rnd64_neg fp_le_neg)

lemma rnd32_nat: "n < 2 ^ 24 \<Longrightarrow> rnd32 (of_nat n) = Fin (of_nat n)"
  unfolding rnd32_def
  by (rule rnd_exact [where m = "int n" and k = 0])
    (auto simp: power_int_def intro: order.strict_trans2)

lemma rnd64_nat: "n < 2 ^ 53 \<Longrightarrow> rnd64 (of_nat n) = Fin (of_nat n)"
  unfolding rnd64_def
  by (rule rnd_exact [where m = "int n" and k = 0])
    (auto simp: power_int_def intro: order.strict_trans2)

lemma rnd_1 [simp]: "rnd32 1 = Fin 1" "rnd64 1 = Fin 1"
  using rnd32_nat [of 1] rnd64_nat [of 1] by simp_all

lemma rnd_2_64: "rnd32 (2 ^ 64) = Fin (2 ^ 64)" "rnd64 (2 ^ 64) = Fin (2 ^ 64)"
  unfolding rnd32_def rnd64_def
  by (rule rnd_exact [where m = 1 and k = 64]; simp add: power_int_def)+

lemma unit_ratio:
  assumes mono: "\<And>x y. 0 \<le> x \<Longrightarrow> x \<le> y \<Longrightarrow> fp_le (r x) (r y)"
    and r0: "r 0 = Fin 0" and r1: "r 1 = Fin 1" and top: "r (2 ^ 64) = Fin (2 ^ 64)"
    and ht: "h \<le> t" "0 < t" "t < (2 :: nat) ^ 64"
  obtains v where "fp_div r (r (of_nat h)) (r (of_nat t)) = Fin v" "0 \<le> v" "v \<le> 1"
proof -
  have t64: "(of_nat t :: rat) \<le> 2 ^ 64"
    using ht(3) of_nat_mono [of t "2 ^ 64"] by simp
  have "fp_le (Fin 1) (r (of_nat t))" using mono [of 1 "of_nat t"] r1 ht(2) by simp
  moreover have "fp_le (r (of_nat t)) (Fin (2 ^ 64))" using mono [of "of_nat t" "2 ^ 64"] top t64 by simp
  ultimately obtain b where b: "r (of_nat t) = Fin b" "1 \<le> b" by (rule fp_le_between_Fin)
  have "fp_le (Fin 0) (r (of_nat h))" using mono [of 0 "of_nat h"] r0 by simp
  moreover have "fp_le (r (of_nat h)) (Fin b)" using mono [of "of_nat h" "of_nat t"] b ht(1) by simp
  ultimately obtain a where a: "r (of_nat h) = Fin a" "0 \<le> a" "a \<le> b" by (rule fp_le_between_Fin)
  have "fp_le (Fin 0) (r (a / b))" using mono [of 0 "a / b"] r0 a b by simp
  moreover have "fp_le (r (a / b)) (Fin 1)" using mono [of "a / b" 1] r1 a b by simp
  ultimately obtain v where "r (a / b) = Fin v" "0 \<le> v" "v \<le> 1" by (rule fp_le_between_Fin)
  with a b that show ?thesis by simp
qed

lemma unit_ratio32:
  assumes "h \<le> t" "0 < t" "t < (2 :: nat) ^ 64"
  obtains v where "f32_div (rnd32 (of_nat h)) (rnd32 (of_nat t)) = Fin v" "0 \<le> v" "v \<le> 1"
  by (rule unit_ratio [of rnd32 h t]) (use assms rnd32_mono rnd_2_64 in simp_all)

lemma unit_ratio64:
  assumes "h \<le> t" "0 < t" "t < (2 :: nat) ^ 64"
  obtains v where "f64_div (rnd64 (of_nat h)) (rnd64 (of_nat t)) = Fin v" "0 \<le> v" "v \<le> 1"
  by (rule unit_ratio [of rnd64 h t]) (use assms rnd64_mono rnd_2_64 in simp_all)

lemma fp_clamp_range:
  assumes "fp_le lo hi" "v \<noteq> NaN"
  shows "fp_le lo (fp_clamp v lo hi) \<and> fp_le (fp_clamp v lo hi) hi"
  using assms by (cases lo; cases hi; cases v) (auto simp: fp_clamp_def)

lemma fp_clamp_NaN [simp]: "fp_clamp NaN lo hi = NaN"
  by (cases hi) (simp_all add: fp_clamp_def)

end
