(* ===== verification/AtomicConfig.thy ===== *)
theory AtomicConfig
  imports IeeeFloat
begin

text \<open>
  Configuration snapshots, \<open>src/synapse/atomic/atomic_config.h\<close>. A mutator is a function on
  snapshots that may throw (\<open>None\<close>). \<open>update\<close> is modelled as one call and, for several threads, as
  its accesses to the two atomics: load of the snapshot, load of the version, store of the new
  snapshot, increment of the version. \<open>compute_checksum\<close> hashes the object's bytes including
  padding, whose value C++ leaves open; it is not modelled, and nothing calls it.
\<close>

record ConfigSnapshot =
  cs_version :: u64
  power_budget_watts :: u32
  thermal_target_celsius :: u32
  ml_aggressive :: bool
  learning_rate :: f32
  epsilon :: f32
  replay_buffer_size :: u32
  jit_enabled :: bool
  hai_enabled :: bool
  telemetry_enabled :: bool

definition ConfigSnapshot_default :: ConfigSnapshot where
  "ConfigSnapshot_default = \<lparr>cs_version = 0, power_budget_watts = 15, thermal_target_celsius = 80,
     ml_aggressive = True, learning_rate = rnd32 (1 / 100), epsilon = rnd32 (1 / 20),
     replay_buffer_size = 4096, jit_enabled = True, hai_enabled = True, telemetry_enabled = True\<rparr>"

definition config_validate :: "ConfigSnapshot \<Rightarrow> bool" where
  "config_validate c =
     (if power_budget_watts c = 0 \<or> power_budget_watts c > 100 then False
      else if thermal_target_celsius c < 40 \<or> thermal_target_celsius c > 105 then False
      else if fp_le (learning_rate c) (Fin 0) \<or> fp_lt (Fin 1) (learning_rate c) then False
      else if fp_lt (epsilon c) (Fin 0) \<or> fp_lt (Fin 1) (epsilon c) then False
      else if replay_buffer_size c < 256 \<or> replay_buffer_size c > 65536 then False
      else True)"

text \<open>The body of \<open>verify_checksum\<close> copies the object and returns true.\<close>

definition verify_checksum :: "ConfigSnapshot \<Rightarrow> bool" where
  "verify_checksum c = (let copy = c\<lparr>cs_version := 0\<rparr> in True)"

record AtomicConfig =
  cfg_current :: ConfigSnapshot
  cfg_version :: u64

type_synonym mutator = "ConfigSnapshot \<Rightarrow> ConfigSnapshot option"

definition AtomicConfig_init :: AtomicConfig where
  "AtomicConfig_init = \<lparr>cfg_current = ConfigSnapshot_default, cfg_version = 0\<rparr>"

text \<open>The snapshot \<open>update\<close> would publish: \<open>Inl ()\<close> when the mutator throws, \<open>Inr None\<close> when
  validation refuses it.\<close>

definition prepare_update :: "mutator \<Rightarrow> ConfigSnapshot \<Rightarrow> u64 \<Rightarrow> unit + ConfigSnapshot option" where
  "prepare_update f cur ver =
     (case f (cur\<lparr>cs_version := ver + 1\<rparr>) of
        None \<Rightarrow> Inl ()
      | Some s \<Rightarrow> if config_validate s then Inr (Some s) else Inr None)"

definition config_update :: "mutator \<Rightarrow> AtomicConfig \<Rightarrow> (unit + bool) \<times> AtomicConfig" where
  "config_update f c =
     (case prepare_update f (cfg_current c) (cfg_version c) of
        Inl u \<Rightarrow> (Inl u, c)
      | Inr None \<Rightarrow> (Inr False, c)
      | Inr (Some s) \<Rightarrow> (Inr True, c\<lparr>cfg_current := s, cfg_version := cfg_version c + 1\<rparr>))"

definition config_read :: "AtomicConfig \<Rightarrow> ConfigSnapshot" where
  "config_read c = cfg_current c"

section \<open>Interleaved updates\<close>

datatype upc =
    U_idle
  | U_loaded mutator ConfigSnapshot
  | U_versioned mutator ConfigSnapshot u64
  | U_stored

record usys =
  us_config :: AtomicConfig
  us_pcs :: "upc list"
  us_stores :: nat

inductive update_step :: "usys \<Rightarrow> usys \<Rightarrow> bool" where
  load_current: "\<lbrakk>i < length (us_pcs s); us_pcs s ! i = U_idle\<rbrakk> \<Longrightarrow>
     update_step s (s\<lparr>us_pcs := (us_pcs s)[i := U_loaded f (cfg_current (us_config s))]\<rparr>)"
| load_version: "\<lbrakk>i < length (us_pcs s); us_pcs s ! i = U_loaded f cur\<rbrakk> \<Longrightarrow>
     update_step s (s\<lparr>us_pcs := (us_pcs s)[i := U_versioned f cur (cfg_version (us_config s))]\<rparr>)"
| refused: "\<lbrakk>i < length (us_pcs s); us_pcs s ! i = U_versioned f cur v;
     prepare_update f cur v = Inl () \<or> prepare_update f cur v = Inr None\<rbrakk> \<Longrightarrow>
     update_step s (s\<lparr>us_pcs := (us_pcs s)[i := U_idle]\<rparr>)"
| store_snapshot: "\<lbrakk>i < length (us_pcs s); us_pcs s ! i = U_versioned f cur v;
     prepare_update f cur v = Inr (Some n)\<rbrakk> \<Longrightarrow>
     update_step s (s\<lparr>us_config := (us_config s)\<lparr>cfg_current := n\<rparr>, us_stores := us_stores s + 1,
                      us_pcs := (us_pcs s)[i := U_stored]\<rparr>)"
| bump_version: "\<lbrakk>i < length (us_pcs s); us_pcs s ! i = U_stored\<rbrakk> \<Longrightarrow>
     update_step s (s\<lparr>us_config := (us_config s)\<lparr>cfg_version := cfg_version (us_config s) + 1\<rparr>,
                      us_pcs := (us_pcs s)[i := U_idle]\<rparr>)"

definition usys_init :: "nat \<Rightarrow> usys" where
  "usys_init n = \<lparr>us_config = AtomicConfig_init, us_pcs = replicate n U_idle, us_stores = 0\<rparr>"

abbreviation update_reachable :: "nat \<Rightarrow> usys \<Rightarrow> bool" where
  "update_reachable n \<equiv> reaches update_step (usys_init n)"

definition stored_threads :: "upc list \<Rightarrow> nat" where
  "stored_threads ps = length (filter (\<lambda>p. p = U_stored) ps)"

definition update_inv :: "usys \<Rightarrow> bool" where
  "update_inv s \<longleftrightarrow> config_validate (cfg_current (us_config s)) \<and>
     (of_nat (us_stores s) :: u64) = cfg_version (us_config s) + of_nat (stored_threads (us_pcs s))"

text \<open>Two threads that change different settings.\<close>

definition set_power :: mutator where "set_power c = Some (c\<lparr>power_budget_watts := 20\<rparr>)"
definition set_thermal :: mutator where "set_thermal c = Some (c\<lparr>thermal_target_celsius := 90\<rparr>)"

definition mk_usys :: "ConfigSnapshot \<Rightarrow> u64 \<Rightarrow> nat \<Rightarrow> upc \<Rightarrow> upc \<Rightarrow> usys" where
  "mk_usys cur v n p q = \<lparr>us_config = \<lparr>cfg_current = cur, cfg_version = v\<rparr>, us_pcs = [p, q], us_stores = n\<rparr>"

definition power_snapshot :: ConfigSnapshot where
  "power_snapshot = ConfigSnapshot_default\<lparr>cs_version := 1, power_budget_watts := 20\<rparr>"
definition thermal_snapshot :: ConfigSnapshot where
  "thermal_snapshot = ConfigSnapshot_default\<lparr>cs_version := 1, thermal_target_celsius := 90\<rparr>"

section \<open>Lemmas\<close>

lemma default_rates: "rnd32 (1 / 100) = Fin (5368709 / 536870912)" "rnd32 (1 / 20) = Fin (13421773 / 268435456)"
  by code_simp+

lemma default_valid [simp]: "config_validate ConfigSnapshot_default"
  by (simp add: config_validate_def ConfigSnapshot_default_def default_rates)

lemma prepare_update_valid: "prepare_update f cur v = Inr (Some s) \<Longrightarrow> config_validate s"
  by (auto simp: prepare_update_def split: option.splits if_splits)

lemma stored_update:
  assumes "i < length ps"
  shows "(of_nat (stored_threads (ps[i := q])) :: u64)
     = of_nat (stored_threads ps) - of_bool (ps ! i = U_stored) + of_bool (q = U_stored)"
  using assms
proof (induction ps arbitrary: i)
  case (Cons p ps)
  then show ?case by (cases i) (auto simp: stored_threads_def)
qed (simp add: stored_threads_def)

lemma update_inv_step: "update_step s s' \<Longrightarrow> update_inv s \<Longrightarrow> update_inv s'"
  by (induction rule: update_step.induct)
    (auto simp: update_inv_def stored_update prepare_update_valid)

interpretation updates: step_invariant update_step update_inv
  by unfold_locales (rule update_inv_step)

lemma update_inv_reachable: "update_reachable n s \<Longrightarrow> update_inv s"
  by (erule updates.reaches_keeps)
    (simp add: update_inv_def usys_init_def AtomicConfig_init_def stored_threads_def)

lemma mk_usteps:
  "update_step (mk_usys c v n U_idle q) (mk_usys c v n (U_loaded f c) q)"
  "update_step (mk_usys c v n p U_idle) (mk_usys c v n p (U_loaded f c))"
  "update_step (mk_usys c v n (U_loaded f d) q) (mk_usys c v n (U_versioned f d v) q)"
  "update_step (mk_usys c v n p (U_loaded f d)) (mk_usys c v n p (U_versioned f d v))"
  "prepare_update f d w = Inr (Some x) \<Longrightarrow>
     update_step (mk_usys c v n (U_versioned f d w) q) (mk_usys x v (n + 1) U_stored q)"
  "prepare_update f d w = Inr (Some x) \<Longrightarrow>
     update_step (mk_usys c v n p (U_versioned f d w)) (mk_usys x v (n + 1) p U_stored)"
  "update_step (mk_usys c v n U_stored q) (mk_usys c (v + 1) n U_idle q)"
  "update_step (mk_usys c v n p U_stored) (mk_usys c (v + 1) n p U_idle)"
  using load_current [of 0 "mk_usys c v n U_idle q" f] load_current [of 1 "mk_usys c v n p U_idle" f]
    load_version [of 0 "mk_usys c v n (U_loaded f d) q" f d]
    load_version [of 1 "mk_usys c v n p (U_loaded f d)" f d]
    store_snapshot [of 0 "mk_usys c v n (U_versioned f d w) q" f d w x]
    store_snapshot [of 1 "mk_usys c v n p (U_versioned f d w)" f d w x]
    bump_version [of 0 "mk_usys c v n U_stored q"] bump_version [of 1 "mk_usys c v n p U_stored"]
  by (simp_all add: mk_usys_def)

lemma prepare_concrete:
  "prepare_update set_power ConfigSnapshot_default 0 = Inr (Some power_snapshot)"
  "prepare_update set_thermal ConfigSnapshot_default 0 = Inr (Some thermal_snapshot)"
  by (simp_all add: prepare_update_def set_power_def set_thermal_def power_snapshot_def thermal_snapshot_def
      config_validate_def ConfigSnapshot_default_def default_rates)

lemma lost_update_reachable: "update_reachable 2 (mk_usys thermal_snapshot 2 2 U_idle U_idle)"
proof -
  let ?c = ConfigSnapshot_default
  have "update_reachable 2 (mk_usys ?c 0 0 U_idle U_idle)"
    using reaches_start [of update_step "usys_init 2"] by (simp add: usys_init_def mk_usys_def AtomicConfig_init_def numeral_2_eq_2)
  then have "update_reachable 2 (mk_usys ?c 0 0 (U_loaded set_power ?c) (U_loaded set_thermal ?c))"
    by (blast intro: reaches_next mk_usteps)
  then have "update_reachable 2 (mk_usys ?c 0 0 (U_versioned set_power ?c 0) (U_versioned set_thermal ?c 0))"
    by (blast intro: reaches_next mk_usteps)
  from reaches_next [OF reaches_next [OF this mk_usteps(5) [OF prepare_concrete(1)]] mk_usteps(6) [OF prepare_concrete(2)]]
  have "update_reachable 2 (mk_usys thermal_snapshot 0 2 U_stored U_stored)" by (simp add: numeral_2_eq_2)
  from reaches_next [OF reaches_next [OF this mk_usteps(7)] mk_usteps(8)] show ?thesis by simp
qed

section \<open>Properties\<close>

text \<open>\<open>update\<close> is all or nothing. From a valid configuration, whatever the mutator does, the
  current snapshot stays valid; the update reports success exactly when the mutated snapshot was
  published, the version then having moved by one, and otherwise (a refused or a throwing mutator)
  nothing has changed.\<close>
theorem config_update_atomic:
  assumes "config_validate (cfg_current c)" "config_update f c = (r, c')"
  shows "config_validate (cfg_current c') \<and>
    (if r = Inr True
     then cfg_version c' = cfg_version c + 1
        \<and> f ((cfg_current c)\<lparr>cs_version := cfg_version c + 1\<rparr>) = Some (cfg_current c')
     else c' = c)"
proof (cases "f ((cfg_current c)\<lparr>cs_version := cfg_version c + 1\<rparr>)")
  case None
  then show ?thesis using assms by (auto simp: config_update_def prepare_update_def)
next
  case (Some n)
  then show ?thesis
    using assms by (cases "config_validate n") (auto simp: config_update_def prepare_update_def)
qed

theorem config_update_atomic_witness:
  "let r = config_update set_power AtomicConfig_init
   in config_validate (cfg_current (snd r)) \<and> fst r = Inr True
      \<and> cfg_version (snd r) = cfg_version AtomicConfig_init + 1"
proof -
  have "config_update set_power AtomicConfig_init
      = (Inr True, \<lparr>cfg_current = power_snapshot, cfg_version = 1\<rparr>)"
    by (simp add: config_update_def AtomicConfig_init_def prepare_concrete)
  from config_update_atomic [OF _ this] this show ?thesis
    by (simp add: AtomicConfig_init_def)
qed

text \<open>What validation guarantees: the integer settings are in their documented ranges, and each
  of the two rates is in its range or is a NaN, which every comparison in \<open>validate\<close> lets through.\<close>
theorem config_validate_iff:
  "config_validate c \<longleftrightarrow>
     power_budget_watts c \<in> {1..100} \<and> thermal_target_celsius c \<in> {40..105} \<and>
     replay_buffer_size c \<in> {256..65536} \<and>
     (learning_rate c = NaN \<or> fp_lt (Fin 0) (learning_rate c) \<and> fp_le (learning_rate c) (Fin 1)) \<and>
     (epsilon c = NaN \<or> fp_le (Fin 0) (epsilon c) \<and> fp_le (epsilon c) (Fin 1))"
proof -
  have w: "power_budget_watts c \<noteq> 0 \<longleftrightarrow> 1 \<le> power_budget_watts c" by (simp add: word_le_nat_alt unat_gt_0 Suc_le_eq)
  show ?thesis
    by (cases "learning_rate c"; cases "epsilon c") (auto simp: config_validate_def w not_less not_le)
qed

text \<open>C15: With any number of threads updating at once, readers never see an invalid snapshot, and
  when no update is in flight the version counter equals the number of published snapshots.\<close>
theorem config_interleaved_valid:
  assumes "update_reachable n s"
  shows "config_validate (config_read (us_config s)) \<and>
    ((\<forall>p \<in> set (us_pcs s). p = U_idle) \<longrightarrow> cfg_version (us_config s) = of_nat (us_stores s))"
proof -
  have "stored_threads ps = 0" if "\<forall>p \<in> set ps. p = U_idle" for ps
    using that by (induction ps) (simp_all add: stored_threads_def)
  then show ?thesis
    using update_inv_reachable [OF assms] by (auto simp: update_inv_def config_read_def)
qed

theorem config_interleaved_valid_witness:
  "let s = mk_usys thermal_snapshot 2 2 U_idle U_idle
   in config_validate (config_read (us_config s)) \<and> cfg_version (us_config s) = of_nat (us_stores s)"
  using config_interleaved_valid [OF lost_update_reachable] by (simp add: mk_usys_def)

text \<open>Concurrent updates can be lost. \<open>update\<close> stores the new snapshot without comparing it with
  the one it started from, so two threads that both report success can leave a configuration
  without the first one's change, and one whose own version field is behind the counter.\<close>
theorem config_update_can_be_lost:
  "\<exists>s. update_reachable 2 s \<and> list_all (\<lambda>p. p = U_idle) (us_pcs s) \<and> us_stores s = 2 \<and>
     power_budget_watts (config_read (us_config s)) = power_budget_watts ConfigSnapshot_default \<and>
     cs_version (config_read (us_config s)) \<noteq> cfg_version (us_config s)"
proof (intro exI conjI)
  show "update_reachable 2 (mk_usys thermal_snapshot 2 2 U_idle U_idle)" by (rule lost_update_reachable)
qed (simp_all add: mk_usys_def config_read_def thermal_snapshot_def)

end
