(* ===== verification/Profile.thy ===== *)
theory Profile
  imports AtomicConfig
begin

text \<open>
  The user profile, \<open>src/synapse/personal/user_profile.h\<close>: presets, usage statistics and
  preferences, and the optimisation plan computed from them. The system clock is an argument: the
  whole hours since the epoch (UTC).
\<close>

record UsageStats =
  daily_usage_hours :: u32
  prefers_battery_life :: bool
  prefers_silence :: bool
  peak_hour :: u32
  avg_frame_time_ms :: f64

record Preferences =
  auto_optimize :: bool
  show_notifications :: bool
  log_telemetry :: bool
  max_power_watts :: u32
  performance_profile :: string

record OptimizationPlan =
  pl_power_budget_watts :: u32
  pl_thermal_target_celsius :: u32
  pl_ml_aggressive :: bool
  pl_fan_curve :: string

record PresetProfile =
  pp_name :: string
  pp_power_budget :: u32
  pp_thermal_target :: u32
  pp_ml_aggressive :: bool
  pp_fan_curve :: string

definition kPresets :: "PresetProfile list" where
  "kPresets =
    [\<lparr>pp_name = ''battery-saver'', pp_power_budget = 8, pp_thermal_target = 70, pp_ml_aggressive = False, pp_fan_curve = ''silent''\<rparr>,
     \<lparr>pp_name = ''balanced'', pp_power_budget = 15, pp_thermal_target = 80, pp_ml_aggressive = True, pp_fan_curve = ''balanced''\<rparr>,
     \<lparr>pp_name = ''performance'', pp_power_budget = 25, pp_thermal_target = 85, pp_ml_aggressive = True, pp_fan_curve = ''performance''\<rparr>,
     \<lparr>pp_name = ''silent'', pp_power_budget = 10, pp_thermal_target = 65, pp_ml_aggressive = False, pp_fan_curve = ''silent''\<rparr>]"

record UserProfile =
  up_usage :: UsageStats
  up_prefs :: Preferences
  up_plan :: OptimizationPlan

definition profile_init :: UserProfile where
  "profile_init =
    \<lparr>up_usage = \<lparr>daily_usage_hours = 0, prefers_battery_life = False, prefers_silence = False, peak_hour = 12,
        avg_frame_time_ms = rnd64 (167 / 10)\<rparr>,
     up_prefs = \<lparr>auto_optimize = True, show_notifications = True, log_telemetry = True, max_power_watts = 15,
        performance_profile = ''balanced''\<rparr>,
     up_plan = \<lparr>pl_power_budget_watts = 15, pl_thermal_target_celsius = 80, pl_ml_aggressive = True,
        pl_fan_curve = ''balanced''\<rparr>\<rparr>"

definition recompute_plan :: "nat \<Rightarrow> UserProfile \<Rightarrow> UserProfile" where
  "recompute_plan hours u =
     (let p = \<lparr>pl_power_budget_watts = max_power_watts (up_prefs u), pl_thermal_target_celsius = 80,
               pl_ml_aggressive = True, pl_fan_curve = ''balanced''\<rparr>;
          p = (if prefers_battery_life (up_usage u)
               then p\<lparr>pl_power_budget_watts := 8, pl_thermal_target_celsius := 75, pl_ml_aggressive := False,
                      pl_fan_curve := ''silent''\<rparr> else p);
          p = (if daily_usage_hours (up_usage u) > 8
               then p\<lparr>pl_power_budget_watts := 25, pl_thermal_target_celsius := 85, pl_ml_aggressive := True,
                      pl_fan_curve := ''performance''\<rparr> else p);
          h = hours mod 24;
          p = (if h \<ge> 22 \<or> h < 6
               then p\<lparr>pl_fan_curve := ''silent'', pl_power_budget_watts := pl_power_budget_watts p * 7 div 10\<rparr> else p);
          p = (if \<not> auto_optimize (up_prefs u)
               then p\<lparr>pl_power_budget_watts := max_power_watts (up_prefs u),
                      pl_fan_curve := performance_profile (up_prefs u)\<rparr> else p)
      in u\<lparr>up_plan := p\<rparr>)"

definition update_usage :: "nat \<Rightarrow> UsageStats \<Rightarrow> UserProfile \<Rightarrow> UserProfile" where
  "update_usage hours stats u = recompute_plan hours (u\<lparr>up_usage := stats\<rparr>)"

definition set_preferences :: "nat \<Rightarrow> Preferences \<Rightarrow> UserProfile \<Rightarrow> UserProfile" where
  "set_preferences hours prefs u = recompute_plan hours (u\<lparr>up_prefs := prefs\<rparr>)"

definition find_preset :: "string \<Rightarrow> PresetProfile option" where
  "find_preset name = find (\<lambda>p. pp_name p = name) kPresets"

definition profile_apply_preset :: "string \<Rightarrow> UserProfile \<Rightarrow> UserProfile" where
  "profile_apply_preset name u =
     (case find_preset name of
        None \<Rightarrow> u
      | Some p \<Rightarrow> u\<lparr>up_plan := \<lparr>pl_power_budget_watts = pp_power_budget p, pl_thermal_target_celsius = pp_thermal_target p,
            pl_ml_aggressive = pp_ml_aggressive p, pl_fan_curve = pp_fan_curve p\<rparr>,
          up_prefs := (up_prefs u)\<lparr>performance_profile := name\<rparr>\<rparr>)"

definition export_profile :: "UserProfile \<Rightarrow> UserProfile" where
  "export_profile u = \<lparr>up_usage = up_usage u, up_prefs = up_prefs u, up_plan = up_plan u\<rparr>"

definition import_profile :: "UserProfile \<Rightarrow> UserProfile \<Rightarrow> UserProfile" where
  "import_profile data u = u\<lparr>up_usage := up_usage data, up_prefs := up_prefs data, up_plan := up_plan data\<rparr>"

text \<open>The mutation of the configuration that \<open>SynapseCore::sync_config_from_profile\<close> performs.\<close>

definition plan_mutator :: "OptimizationPlan \<Rightarrow> mutator" where
  "plan_mutator p snap = Some (snap\<lparr>power_budget_watts := pl_power_budget_watts p,
     thermal_target_celsius := pl_thermal_target_celsius p, ml_aggressive := pl_ml_aggressive p\<rparr>)"

definition plan_ok :: "OptimizationPlan \<Rightarrow> bool" where
  "plan_ok p \<longleftrightarrow> 0 < pl_power_budget_watts p \<and> pl_power_budget_watts p \<le> 100
     \<and> 40 \<le> pl_thermal_target_celsius p \<and> pl_thermal_target_celsius p \<le> 105"

section \<open>Lemmas\<close>

lemma plan_mutator_validates:
  assumes "config_validate c" "plan_mutator p (c\<lparr>cs_version := v\<rparr>) = Some c'"
  shows "config_validate c' \<longleftrightarrow> plan_ok p"
proof -
  have c': "c' = c\<lparr>cs_version := v, power_budget_watts := pl_power_budget_watts p,
     thermal_target_celsius := pl_thermal_target_celsius p, ml_aggressive := pl_ml_aggressive p\<rparr>"
    using assms(2) by (simp add: plan_mutator_def)
  have ok: "plan_ok p \<longleftrightarrow> \<not> (pl_power_budget_watts p = 0 \<or> pl_power_budget_watts p > 100)
      \<and> \<not> (pl_thermal_target_celsius p < 40 \<or> pl_thermal_target_celsius p > 105)"
    unfolding plan_ok_def word_gt_0 de_Morgan_disj not_less by metis
  show ?thesis
    using assms(1) unfolding ok c' config_validate_def by (simp split: if_split_asm)
qed

lemma night_budget:
  assumes "2 \<le> w" "w \<le> (100 :: u32)"
  shows "0 < w * 7 div 10 \<and> w * 7 div 10 \<le> 100"
proof -
  have u: "2 \<le> unat w" "unat w \<le> 100" using assms by (simp_all add: word_le_nat_alt)
  then have "unat (w * 7) = unat w * 7" by (simp add: unat_mult_lem [THEN iffD1])
  then have "unat (w * 7 div 10) = unat w * 7 div 10" by (simp add: unat_div)
  moreover have "0 < unat w * 7 div 10" "unat w * 7 div 10 \<le> 100" using u by linarith+
  ultimately show ?thesis by (simp add: word_less_nat_alt word_le_nat_alt)
qed

lemma profile_init_plan_ok: "plan_ok (up_plan profile_init)"
  by (simp add: plan_ok_def profile_init_def)

lemma preset_plan_ok: "plan_ok (up_plan u) \<Longrightarrow> plan_ok (up_plan (profile_apply_preset name u))"
  by (auto simp: profile_apply_preset_def find_preset_def kPresets_def plan_ok_def split: option.splits if_splits)

section \<open>Properties\<close>

text \<open>With a power preference between 2 and 100 watts, the plan recomputed from any usage
  statistics, at any hour, stays within what the configuration accepts: a budget of 1 to 100 watts
  and a thermal target of 40 to 105 degrees; so the night-time reduction to 70% never makes the
  configuration refuse the plan. (A preference of 1 watt is reduced to 0 at night and refused.)\<close>
theorem recomputed_plan_ok:
  assumes "2 \<le> max_power_watts (up_prefs u)" "max_power_watts (up_prefs u) \<le> 100"
  shows "plan_ok (up_plan (recompute_plan hours u))"
proof -
  have "0 < w" if "2 \<le> w" for w :: u32 using that by (simp add: word_le_nat_alt word_less_nat_alt)
  then show ?thesis
    using assms night_budget [OF assms] by (simp add: plan_ok_def recompute_plan_def Let_def)
qed

theorem recomputed_plan_ok_witness:
  "plan_ok (up_plan (recompute_plan 23 profile_init))"
  by (rule recomputed_plan_ok) (simp_all add: profile_init_def)

end
