(* ===== verification/Umd.thy ===== *)
theory Umd
  imports Ring IeeeFloat
begin

text \<open>
  The user-mode-driver integration layer, \<open>src/synapse/synapse_umd.h\<close>: the telemetry ring between
  the hook and the analyzer thread, the analyzer, the scheduler and the Vulkan hook. Calls to the
  original Vulkan entry points are recorded in a trace. Handles are opaque 64-bit numbers. The
  fields of \<open>WorkloadSignature sample;\<close> that \<open>vkCmdDispatch\<close> does not assign are indeterminate in
  C++: the operation takes an arbitrary signature for them.
\<close>

section \<open>The telemetry ring\<close>

record WorkloadSignature =
  draw_call_count :: u32
  pipeline_state_changes :: u32
  shader_instruction_estimate :: u32
  vertex_count :: u32
  texture_bindings :: u32
  is_compute_dispatch :: bool
  shader_hash :: u64

definition signature_zero :: WorkloadSignature where
  "signature_zero = \<lparr>draw_call_count = 0, pipeline_state_changes = 0, shader_instruction_estimate = 0,
     vertex_count = 0, texture_bindings = 0, is_compute_dispatch = False, shader_hash = 0\<rparr>"

record TelemetryRingBuffer =
  rb_head :: u64
  rb_tail :: u64
  rb_buffer :: "WorkloadSignature list"

definition rb_init :: TelemetryRingBuffer where
  "rb_init = \<lparr>rb_head = 0, rb_tail = 0, rb_buffer = replicate 1024 signature_zero\<rparr>"

definition rb_push :: "WorkloadSignature \<Rightarrow> TelemetryRingBuffer \<Rightarrow> bool \<times> TelemetryRingBuffer" where
  "rb_push sample r =
     (let current_head = rb_head r; next_head = (current_head + 1) AND (1024 - 1)
      in if next_head = rb_tail r then (False, r)
         else (True, r\<lparr>rb_buffer := (rb_buffer r)[unat current_head := sample], rb_head := next_head\<rparr>))"

definition rb_pop :: "TelemetryRingBuffer \<Rightarrow> WorkloadSignature option \<times> TelemetryRingBuffer" where
  "rb_pop r =
     (let current_tail = rb_tail r
      in if current_tail = rb_head r then (None, r)
         else (Some (rb_buffer r ! unat current_tail), r\<lparr>rb_tail := (current_tail + 1) AND (1024 - 1)\<rparr>))"

definition rb_contents :: "TelemetryRingBuffer \<Rightarrow> WorkloadSignature list" where
  "rb_contents r = ring_contents (rb_head r) (rb_tail r) (rb_buffer r)"

definition rb_inv :: "TelemetryRingBuffer \<Rightarrow> bool" where
  "rb_inv r \<longleftrightarrow> ring_ok (rb_head r) (rb_tail r) (rb_buffer r)"

subsection \<open>Producer and consumer, one memory access at a time\<close>

datatype ppc = P_idle | P_checked WorkloadSignature | P_written WorkloadSignature
datatype cpc = C_idle | C_checked | C_read WorkloadSignature

text \<open>\<open>accepted\<close> and \<open>delivered\<close> record what completed pushes put in and completed pops took out.\<close>

record spsc =
  sp_ring :: TelemetryRingBuffer
  sp_producer :: ppc
  sp_consumer :: cpc
  accepted :: "WorkloadSignature list"
  delivered :: "WorkloadSignature list"

inductive spsc_step :: "spsc \<Rightarrow> spsc \<Rightarrow> bool" where
  push_full: "\<lbrakk>sp_producer s = P_idle; (rb_head (sp_ring s) + 1) AND (1024 - 1) = rb_tail (sp_ring s)\<rbrakk> \<Longrightarrow>
     spsc_step s s"
| push_check: "\<lbrakk>sp_producer s = P_idle; (rb_head (sp_ring s) + 1) AND (1024 - 1) \<noteq> rb_tail (sp_ring s)\<rbrakk> \<Longrightarrow>
     spsc_step s (s\<lparr>sp_producer := P_checked x\<rparr>)"
| push_write: "sp_producer s = P_checked x \<Longrightarrow>
     spsc_step s (s\<lparr>sp_ring := (sp_ring s)\<lparr>rb_buffer := (rb_buffer (sp_ring s))[unat (rb_head (sp_ring s)) := x]\<rparr>,
                    sp_producer := P_written x\<rparr>)"
| push_publish: "sp_producer s = P_written x \<Longrightarrow>
     spsc_step s (s\<lparr>sp_ring := (sp_ring s)\<lparr>rb_head := (rb_head (sp_ring s) + 1) AND (1024 - 1)\<rparr>,
                    sp_producer := P_idle, accepted := accepted s @ [x]\<rparr>)"
| pop_empty: "\<lbrakk>sp_consumer s = C_idle; rb_tail (sp_ring s) = rb_head (sp_ring s)\<rbrakk> \<Longrightarrow> spsc_step s s"
| pop_check: "\<lbrakk>sp_consumer s = C_idle; rb_tail (sp_ring s) \<noteq> rb_head (sp_ring s)\<rbrakk> \<Longrightarrow>
     spsc_step s (s\<lparr>sp_consumer := C_checked\<rparr>)"
| pop_read: "sp_consumer s = C_checked \<Longrightarrow>
     spsc_step s (s\<lparr>sp_consumer := C_read (rb_buffer (sp_ring s) ! unat (rb_tail (sp_ring s)))\<rparr>)"
| pop_publish: "sp_consumer s = C_read x \<Longrightarrow>
     spsc_step s (s\<lparr>sp_ring := (sp_ring s)\<lparr>rb_tail := (rb_tail (sp_ring s) + 1) AND (1024 - 1)\<rparr>,
                    sp_consumer := C_idle, delivered := delivered s @ [x]\<rparr>)"

definition spsc_init :: spsc where
  "spsc_init = \<lparr>sp_ring = rb_init, sp_producer = P_idle, sp_consumer = C_idle, accepted = [], delivered = []\<rparr>"

abbreviation spsc_reachable :: "spsc \<Rightarrow> bool" where
  "spsc_reachable \<equiv> reaches spsc_step spsc_init"

fun producer_ok :: "ppc \<Rightarrow> TelemetryRingBuffer \<Rightarrow> bool" where
  "producer_ok P_idle r = True"
| "producer_ok (P_checked x) r = ((rb_head r + 1) AND 1023 \<noteq> rb_tail r)"
| "producer_ok (P_written x) r = ((rb_head r + 1) AND 1023 \<noteq> rb_tail r \<and> rb_buffer r ! unat (rb_head r) = x)"

fun consumer_ok :: "cpc \<Rightarrow> TelemetryRingBuffer \<Rightarrow> bool" where
  "consumer_ok C_idle r = True"
| "consumer_ok C_checked r = (rb_tail r \<noteq> rb_head r)"
| "consumer_ok (C_read x) r = (rb_tail r \<noteq> rb_head r \<and> x = rb_buffer r ! unat (rb_tail r))"

definition spsc_inv :: "spsc \<Rightarrow> bool" where
  "spsc_inv s \<longleftrightarrow> rb_inv (sp_ring s) \<and> accepted s = delivered s @ rb_contents (sp_ring s)
     \<and> producer_ok (sp_producer s) (sp_ring s) \<and> consumer_ok (sp_consumer s) (sp_ring s)"

section \<open>Analyzer and scheduler\<close>

datatype ExecutionBackend = JIT | HAI | Oracle

record Analyzer =
  inferred_backend :: ExecutionBackend
  an_running :: bool
  last_signature :: WorkloadSignature
  its_hits :: u64
  its_misses :: u64

definition analyzer_init :: Analyzer where
  "analyzer_init = \<lparr>inferred_backend = Oracle, an_running = True, last_signature = signature_zero,
     its_hits = 0, its_misses = 0\<rparr>"

definition update_model :: "WorkloadSignature \<Rightarrow> Analyzer \<Rightarrow> Analyzer" where
  "update_model sample a =
     (let recommendation =
        (if shader_instruction_estimate sample > 1000 \<or> is_compute_dispatch sample then JIT
         else if draw_call_count sample > 100 \<and> shader_instruction_estimate sample < 200 then HAI
         else Oracle)
      in a\<lparr>inferred_backend := recommendation, last_signature := sample\<rparr>)"

text \<open>One turn of the analyzer thread's loop.\<close>

definition process_telemetry_step :: "Analyzer \<Rightarrow> TelemetryRingBuffer \<Rightarrow> Analyzer \<times> TelemetryRingBuffer" where
  "process_telemetry_step a r =
     (if \<not> an_running a then (a, r)
      else case rb_pop r of (Some sample, r') \<Rightarrow> (update_model sample a, r') | (None, r') \<Rightarrow> (a, r'))"

definition analyzer_shutdown :: "Analyzer \<Rightarrow> Analyzer" where
  "analyzer_shutdown a = a\<lparr>an_running := False\<rparr>"

definition update_its_stats :: "u64 \<Rightarrow> u64 \<Rightarrow> Analyzer \<Rightarrow> Analyzer" where
  "update_its_stats hits misses a = a\<lparr>its_hits := hits, its_misses := misses\<rparr>"

definition get_mip_demand_probability :: "Analyzer \<Rightarrow> f32" where
  "get_mip_demand_probability a =
     f32_div (f32_of_word (its_hits a + 1)) (f32_of_word (its_hits a + its_misses a + 2))"

definition detect_performance_regression :: bool where
  "detect_performance_regression = False"

definition decide_backend :: "Analyzer \<Rightarrow> WorkloadSignature \<Rightarrow> bool \<Rightarrow> ExecutionBackend \<times> bool" where
  "decide_backend a w oracle_mode_active =
     (let recommendation = inferred_backend a
      in if oracle_mode_active then (Oracle, oracle_mode_active)
         else
           let recommendation =
             (if recommendation = JIT \<and> shader_instruction_estimate w < 50 \<and> draw_call_count w > 500
              then HAI else recommendation)
           in (recommendation, if detect_performance_regression then True else oracle_mode_active))"

section \<open>The hook\<close>

datatype umd_call =
    OrigDrawIndexed u64 u32 u32 u32 "32 word" u32
  | OrigDispatch u64 u32 u32 u32

record SynapseUMDHook =
  hk_telemetry :: TelemetryRingBuffer
  hk_analyzer :: Analyzer
  hk_oracle_mode :: bool
  hk_batch :: WorkloadSignature
  hk_trace :: "umd_call list"

definition hook_init :: SynapseUMDHook where
  "hook_init = \<lparr>hk_telemetry = rb_init, hk_analyzer = analyzer_init, hk_oracle_mode = False,
     hk_batch = signature_zero, hk_trace = []\<rparr>"

definition flush_batch :: "SynapseUMDHook \<Rightarrow> SynapseUMDHook" where
  "flush_batch h =
     (if draw_call_count (hk_batch h) = 0 then h
      else h\<lparr>hk_telemetry := snd (rb_push (hk_batch h) (hk_telemetry h)),
             hk_oracle_mode := snd (decide_backend (hk_analyzer h) (hk_batch h) (hk_oracle_mode h)),
             hk_batch := signature_zero\<rparr>)"

definition hook_vkCmdDrawIndexed ::
  "u64 \<Rightarrow> u32 \<Rightarrow> u32 \<Rightarrow> u32 \<Rightarrow> u32 \<Rightarrow> u32 \<Rightarrow> SynapseUMDHook \<Rightarrow> SynapseUMDHook" where
  "hook_vkCmdDrawIndexed cb indexCount instanceCount firstIndex vertexOffset firstInstance h =
     (let b = hk_batch h;
          b = b\<lparr>draw_call_count := draw_call_count b + 1, vertex_count := vertex_count b + indexCount,
                shader_instruction_estimate := shader_instruction_estimate b + 100\<rparr>;
          h = h\<lparr>hk_batch := b\<rparr>;
          h = (if draw_call_count (hk_batch h) > 100 then flush_batch h else h)
      in h\<lparr>hk_trace := hk_trace h @
             [OrigDrawIndexed cb indexCount instanceCount firstIndex vertexOffset firstInstance]\<rparr>)"

definition hook_vkCmdDispatch ::
  "WorkloadSignature \<Rightarrow> u64 \<Rightarrow> u32 \<Rightarrow> u32 \<Rightarrow> u32 \<Rightarrow> SynapseUMDHook \<Rightarrow> SynapseUMDHook" where
  "hook_vkCmdDispatch indeterminate cb x y z h =
     (let h = flush_batch h;
          sample = indeterminate\<lparr>is_compute_dispatch := True, draw_call_count := 1,
                                 shader_instruction_estimate := 500\<rparr>;
          h = h\<lparr>hk_telemetry := snd (rb_push sample (hk_telemetry h))\<rparr>;
          (backend, om) = decide_backend (hk_analyzer h) sample (hk_oracle_mode h);
          h = h\<lparr>hk_oracle_mode := om\<rparr>
      in if backend = Oracle then h\<lparr>hk_trace := hk_trace h @ [OrigDispatch cb x y z]\<rparr> else h)"

text \<open>A turn of the analyzer thread on the hook's state.\<close>

definition hook_analyze :: "SynapseUMDHook \<Rightarrow> SynapseUMDHook" where
  "hook_analyze h =
     (let (a, r) = process_telemetry_step (hk_analyzer h) (hk_telemetry h)
      in h\<lparr>hk_analyzer := a, hk_telemetry := r\<rparr>)"

record draw_args =
  da_cb :: u64
  da_indexCount :: u32
  da_instanceCount :: u32
  da_firstIndex :: u32
  da_vertexOffset :: u32
  da_firstInstance :: u32

definition run_draw :: "draw_args \<Rightarrow> SynapseUMDHook \<Rightarrow> SynapseUMDHook" where
  "run_draw d = hook_vkCmdDrawIndexed (da_cb d) (da_indexCount d) (da_instanceCount d) (da_firstIndex d)
     (da_vertexOffset d) (da_firstInstance d)"

definition draw_call_of :: "draw_args \<Rightarrow> umd_call" where
  "draw_call_of d = OrigDrawIndexed (da_cb d) (da_indexCount d) (da_instanceCount d) (da_firstIndex d)
     (da_vertexOffset d) (da_firstInstance d)"

section \<open>The ring meets the queue contract\<close>

lemma rb_init_ok [simp, invariant_intros]: "rb_inv rb_init" "rb_contents rb_init = []"
  by (simp_all add: rb_inv_def rb_contents_def rb_init_def ring_ok_def ring_contents_def ring_len_def)

lemma rb_push_refines:
  assumes "rb_inv r" "rb_push e r = (b, r')"
  shows "rb_inv r' \<and> queue_push 1023 e (rb_contents r) = (b, rb_contents r')"
proof (cases "(rb_head r + 1) AND 1023 = rb_tail r")
  case True
  then show ?thesis
    using assms ring_full_iff [of "rb_head r" "rb_tail r" "rb_buffer r"]
    by (simp add: rb_push_def Let_def queue_push_def rb_contents_def rb_inv_def)
next
  case False
  have ok: "ring_ok (rb_head r) (rb_tail r) (rb_buffer r)" using assms(1) by (simp add: rb_inv_def)
  have "ring_len (rb_head r) (rb_tail r) < 1023"
    using ring_full_iff [OF ok] False ring_len_less [of "rb_head r" "rb_tail r"] by simp
  with assms(2) False show ?thesis
    using ring_push [OF ok False, of e] ring_next_ok [OF ok]
    by (auto simp: rb_push_def Let_def queue_push_def rb_contents_def rb_inv_def ring_ok_def)
qed

lemma rb_pop_refines:
  assumes "rb_inv r" "rb_pop r = (x, r')"
  shows "rb_inv r' \<and> queue_pop (rb_contents r) = (x, rb_contents r')"
proof (cases "rb_tail r = rb_head r")
  case True
  then show ?thesis
    using assms by (auto simp: rb_pop_def Let_def rb_contents_def ring_contents_def ring_len_def)
next
  case False
  have ok: "ring_ok (rb_head r) (rb_tail r) (rb_buffer r)" using assms(1) by (simp add: rb_inv_def)
  show ?thesis
    using assms(2) False ring_pop [OF ok False] ring_next_ok [OF ok]
    by (auto simp: rb_pop_def Let_def rb_contents_def rb_inv_def)
qed

lemma rb_bounded: "rb_inv r \<Longrightarrow> length (rb_contents r) \<le> 1023"
  using ring_len_less [of "rb_head r" "rb_tail r"] by (simp add: rb_contents_def)

interpretation rb: bounded_fifo rb_push rb_pop rb_contents rb_inv 1023
  by (rule bounded_fifo.intro) (fact rb_push_refines rb_pop_refines rb_bounded)+

lemma ring_not_full_after_pop:
  assumes ok: "ring_ok h t buf" and ne: "t \<noteq> h"
  shows "(h + 1) AND 1023 \<noteq> (t + 1) AND 1023"
proof -
  have "ring_len h ((t + 1) AND 1023) \<noteq> 1023"
    using ring_len_next_tail [OF ok ne] ring_len_less [of h t] by simp
  then show ?thesis using ring_full_iff [of h "(t + 1) AND 1023" buf] ring_next_ok [OF ok] by blast
qed

lemma spsc_inv_step:
  assumes "spsc_step s s'" "spsc_inv s"
  shows "spsc_inv s'"
  using assms
proof (induction rule: spsc_step.induct)
  case (push_write s x)
  let ?r = "sp_ring s"
  have ok: "ring_ok (rb_head ?r) (rb_tail ?r) (rb_buffer ?r)"
    using push_write.prems by (simp add: spsc_inv_def rb_inv_def)
  have "(rb_buffer ?r)[unat (rb_head ?r) := x] ! unat (rb_tail ?r) = rb_buffer ?r ! unat (rb_tail ?r)"
    if "rb_tail ?r \<noteq> rb_head ?r"
    using that by (simp add: word_unat_eq_iff)
  then show ?case
    using push_write ring_write_free [OF ok, of x] ok
    by (cases "sp_consumer s") (auto simp: spsc_inv_def rb_inv_def rb_contents_def ring_ok_def)
next
  case (push_publish s x)
  let ?r = "sp_ring s"
  have ok: "ring_ok (rb_head ?r) (rb_tail ?r) (rb_buffer ?r)"
    using push_publish.prems by (simp add: spsc_inv_def rb_inv_def)
  have free: "(rb_head ?r + 1) AND 1023 \<noteq> rb_tail ?r" "rb_buffer ?r ! unat (rb_head ?r) = x"
    using push_publish by (simp_all add: spsc_inv_def)
  then show ?case
    using push_publish ring_publish [OF ok free(1)] ring_next_ok [OF ok]
    by (cases "sp_consumer s") (auto simp: spsc_inv_def rb_inv_def rb_contents_def)
next
  case (pop_publish s x)
  let ?r = "sp_ring s"
  have ok: "ring_ok (rb_head ?r) (rb_tail ?r) (rb_buffer ?r)"
    using pop_publish.prems by (simp add: spsc_inv_def rb_inv_def)
  have ne: "rb_tail ?r \<noteq> rb_head ?r" "x = rb_buffer ?r ! unat (rb_tail ?r)"
    using pop_publish by (simp_all add: spsc_inv_def)
  then show ?case
    using pop_publish ring_pop [OF ok ne(1)] ring_next_ok [OF ok] ring_not_full_after_pop [OF ok ne(1)]
    by (cases "sp_producer s") (auto simp: spsc_inv_def rb_inv_def rb_contents_def)
qed (simp_all add: spsc_inv_def)

interpretation spsc: step_invariant spsc_step spsc_inv
  by unfold_locales (rule spsc_inv_step)

lemma spsc_inv_reachable: "spsc_reachable s \<Longrightarrow> spsc_inv s"
  by (erule spsc.reaches_keeps) (simp add: spsc_inv_def spsc_init_def)

lemma spsc_push_completes:
  assumes "spsc_reachable s" "sp_producer s = P_idle"
    and "(rb_head (sp_ring s) + 1) AND (1024 - 1) \<noteq> rb_tail (sp_ring s)"
  shows "\<exists>s'. spsc_reachable s' \<and> accepted s' = accepted s @ [x]"
proof -
  have "spsc_reachable (s\<lparr>sp_producer := P_checked x\<rparr>)"
    by (rule reaches_next [OF assms(1) push_check [OF assms(2,3)]])
  from reaches_next [OF reaches_next [OF this push_write] push_publish] show ?thesis by auto
qed

section \<open>Lemmas on the hook\<close>

lemma rb_push_inv: "rb_inv r \<Longrightarrow> rb_inv (snd (rb_push x r))"
  using rb_push_refines [of r x] by (metis prod.collapse)

lemma rb_push_contents:
  "rb_inv r \<Longrightarrow> rb_contents (snd (rb_push x r))
     = (if length (rb_contents r) < 1023 then rb_contents r @ [x] else rb_contents r)"
  using rb_push_refines [of r x "fst (rb_push x r)" "snd (rb_push x r)"]
  by (auto simp: queue_push_def split: if_splits)

lemma rb_push_length:
  "rb_inv r \<Longrightarrow> length (rb_contents (snd (rb_push x r))) = min 1023 (length (rb_contents r) + 1)"
  using rb_bounded [of r] by (simp add: rb_push_contents)

lemma draw_state:
  assumes "rb_inv (hk_telemetry h)" "draw_call_count (hk_batch h) = of_nat k" "k \<le> 100"
  shows "hk_trace (run_draw d h) = hk_trace h @ [draw_call_of d]"
    and "rb_inv (hk_telemetry (run_draw d h))"
    and "draw_call_count (hk_batch (run_draw d h)) = (if k = 100 then 0 else of_nat (k + 1))"
    and "length (rb_contents (hk_telemetry (run_draw d h)))
      = (if k = 100 then min 1023 (length (rb_contents (hk_telemetry h)) + 1)
         else length (rb_contents (hk_telemetry h)))"
proof -
  have gt: "(of_nat k + 1 :: u32) > 100 \<longleftrightarrow> k = 100"
  proof -
    have "unat (of_nat (k + 1) :: u32) = k + 1" using assms(3) by (simp only: unat_of_nat) simp
    moreover have "(of_nat (k + 1) :: u32) = of_nat k + 1" by simp
    ultimately have e: "unat (of_nat k + 1 :: u32) = k + 1" by (simp only:)
    have "unat (100 :: u32) = 100" by simp
    with assms(3) show ?thesis unfolding word_less_nat_alt e by auto
  qed
  have nz: "(of_nat k + 1 :: u32) \<noteq> 0" if "k = 100" by (simp add: that)
  note defs = run_draw_def hook_vkCmdDrawIndexed_def flush_batch_def draw_call_of_def Let_def signature_zero_def
  show "hk_trace (run_draw d h) = hk_trace h @ [draw_call_of d]" by (simp add: defs)
  show "rb_inv (hk_telemetry (run_draw d h))" using assms(1) by (simp add: defs rb_push_inv)
  show "draw_call_count (hk_batch (run_draw d h)) = (if k = 100 then 0 else of_nat (k + 1))"
    using assms(2) gt nz by (simp add: defs add.commute)
  show "length (rb_contents (hk_telemetry (run_draw d h)))
      = (if k = 100 then min 1023 (length (rb_contents (hk_telemetry h)) + 1)
         else length (rb_contents (hk_telemetry h)))"
    using assms(1,2) gt nz by (simp add: defs rb_push_length)
qed

lemma draws_state:
  assumes "rb_inv (hk_telemetry h)" "draw_call_count (hk_batch h) = of_nat k" "k \<le> 100"
    and "length (rb_contents (hk_telemetry h)) = min 1023 m"
  shows "hk_trace (fold run_draw ds h) = hk_trace h @ map draw_call_of ds
    \<and> draw_call_count (hk_batch (fold run_draw ds h)) = of_nat ((k + length ds) mod 101)
    \<and> length (rb_contents (hk_telemetry (fold run_draw ds h))) = min 1023 (m + (k + length ds) div 101)"
  using assms
proof (induction ds arbitrary: h k m)
  case (Cons d ds)
  note st = draw_state [OF Cons.prems(1-3), of d]
  show ?case
  proof (cases "k = 100")
    case True
    have "hk_trace (fold run_draw ds (run_draw d h)) = hk_trace (run_draw d h) @ map draw_call_of ds
      \<and> draw_call_count (hk_batch (fold run_draw ds (run_draw d h))) = of_nat ((0 + length ds) mod 101)
      \<and> length (rb_contents (hk_telemetry (fold run_draw ds (run_draw d h)))) = min 1023 (Suc m + (0 + length ds) div 101)"
      by (rule Cons.IH) (use st True Cons.prems in simp_all)
    moreover have "(100 + length (d # ds)) mod 101 = length ds mod 101"
      "(100 + length (d # ds)) div 101 = Suc (length ds div 101)"
      using mod_add_self1 [of 101 "length ds"] div_add_self1 [of 101 "length ds"] by simp_all
    ultimately show ?thesis using st(1) True by simp
  next
    case False
    have "hk_trace (fold run_draw ds (run_draw d h)) = hk_trace (run_draw d h) @ map draw_call_of ds
      \<and> draw_call_count (hk_batch (fold run_draw ds (run_draw d h))) = of_nat ((k + 1 + length ds) mod 101)
      \<and> length (rb_contents (hk_telemetry (fold run_draw ds (run_draw d h)))) = min 1023 (m + (k + 1 + length ds) div 101)"
      by (rule Cons.IH) (use st False Cons.prems in simp_all)
    then show ?thesis using st(1) by simp
  qed
qed simp

section \<open>Properties\<close>

text \<open>C3: The telemetry ring is a lossless FIFO between its two threads: however the single memory
  accesses of one producer and one consumer interleave, the samples taken out so far followed by
  those in the ring are exactly the samples whose push succeeded, in order, and the ring holds at
  most 1023 of them.\<close>
theorem spsc_ring_fifo:
  assumes "spsc_reachable s"
  shows "accepted s = delivered s @ rb_contents (sp_ring s) \<and> length (rb_contents (sp_ring s)) \<le> 1023"
  using spsc_inv_reachable [OF assms] rb_bounded by (auto simp: spsc_inv_def)

theorem spsc_ring_fifo_witness:
  "\<exists>s :: spsc. accepted s = [signature_zero] \<and> accepted s = delivered s @ rb_contents (sp_ring s)"
proof -
  have "\<exists>s. spsc_reachable s \<and> accepted s = accepted spsc_init @ [signature_zero]"
    by (rule spsc_push_completes [OF reaches_start]) (simp_all add: spsc_init_def rb_init_def)
  then obtain s where s: "spsc_reachable s" "accepted s = [signature_zero]"
    by (auto simp: spsc_init_def)
  then show ?thesis using spsc_ring_fifo [OF s(1)] by auto
qed

text \<open>The hook forwards every indexed draw exactly once, unchanged and in order, and emits one
  telemetry sample per 101 draws: after \<open>n\<close> draws the open batch counts \<open>n mod 101\<close> of them, and, as
  long as nothing is consumed, the ring holds \<open>n div 101\<close> samples, at most 1023.\<close>
theorem hook_draws_forwarded:
  "let h = fold run_draw ds hook_init in
   hk_trace h = map draw_call_of ds
   \<and> draw_call_count (hk_batch h) = of_nat (length ds mod 101)
   \<and> length (rb_contents (hk_telemetry h)) = min 1023 (length ds div 101)"
  using draws_state [of hook_init 0 0 ds] by (simp add: hook_init_def signature_zero_def)

text \<open>A compute dispatch can be swallowed. Once the analyzer has consumed a dispatch sample, it
  recommends the JIT backend, for which the hook calls \<open>submit_to_synaptic_engine\<close>, whose body is
  empty: the next dispatch reaches neither the driver nor any backend.\<close>
theorem hook_dispatch_swallowed:
  assumes "h = hook_analyze (hook_vkCmdDispatch g cb x y z hook_init)"
  shows "hk_trace h = [OrigDispatch cb x y z] \<and> inferred_backend (hk_analyzer h) = JIT
    \<and> hk_trace (hook_vkCmdDispatch g' cb' x' y' z' h) = hk_trace h"
proof -
  let ?s = "g\<lparr>is_compute_dispatch := True, draw_call_count := 1, shader_instruction_estimate := 500\<rparr>"
  let ?r = "snd (rb_push ?s rb_init)"
  have "rb_contents ?r = [?s]" "rb_inv ?r" by (simp_all add: rb_push_contents rb_push_inv)
  then have "fst (rb_pop ?r) = Some ?s"
    using rb_pop_refines [of ?r "fst (rb_pop ?r)" "snd (rb_pop ?r)"] by simp
  then have analyze: "process_telemetry_step analyzer_init ?r = (update_model ?s analyzer_init, snd (rb_pop ?r))"
    by (simp add: process_telemetry_step_def analyzer_init_def split_beta)
  have "hook_vkCmdDispatch g cb x y z hook_init = hook_init\<lparr>hk_telemetry := ?r, hk_trace := [OrigDispatch cb x y z]\<rparr>"
    by (simp add: hook_vkCmdDispatch_def flush_batch_def hook_init_def analyzer_init_def decide_backend_def
        signature_zero_def detect_performance_regression_def Let_def)
  then have "h = hook_init\<lparr>hk_analyzer := update_model ?s analyzer_init, hk_telemetry := snd (rb_pop ?r),
      hk_trace := [OrigDispatch cb x y z]\<rparr>"
    unfolding assms using analyze by (simp add: hook_analyze_def hook_init_def)
  then show ?thesis
    by (simp add: hook_vkCmdDispatch_def flush_batch_def hook_init_def analyzer_init_def decide_backend_def
        update_model_def signature_zero_def detect_performance_regression_def Let_def)
qed

theorem hook_dispatch_swallowed_witness:
  "let h = hook_analyze (hook_vkCmdDispatch signature_zero 1 2 3 4 hook_init)
   in hk_trace h = [OrigDispatch 1 2 3 4] \<and> hk_trace (hook_vkCmdDispatch signature_zero 1 5 6 7 h) = hk_trace h"
  using hook_dispatch_swallowed [OF refl] by (simp add: Let_def)

text \<open>The Laplace-smoothed mip-demand estimate, computed in single precision, is a number between 0
  and 1 whenever the two 64-bit counters do not overflow in the sum of the denominator.\<close>
theorem mip_demand_is_probability:
  assumes "unat (its_hits a) + unat (its_misses a) + 2 < 2 ^ 64"
  shows "fp_le (Fin 0) (get_mip_demand_probability a) \<and> fp_le (get_mip_demand_probability a) (Fin 1)"
proof -
  have u: "unat (its_hits a + 1) = unat (its_hits a) + 1"
    using assms by (subst unat_add_lem [THEN iffD1]) simp_all
  have "unat (its_hits a + its_misses a) = unat (its_hits a) + unat (its_misses a)"
    using assms by (subst unat_add_lem [THEN iffD1]) simp_all
  then have v: "unat (its_hits a + its_misses a + 2) = unat (its_hits a) + unat (its_misses a) + 2"
    using assms by (subst unat_add_lem [THEN iffD1]) simp_all
  obtain p where "f32_div (rnd32 (of_nat (unat (its_hits a) + 1))) (rnd32 (of_nat (unat (its_hits a) + unat (its_misses a) + 2))) = Fin p"
    "0 \<le> p" "p \<le> 1"
    by (rule unit_ratio32 [of "unat (its_hits a) + 1" "unat (its_hits a) + unat (its_misses a) + 2"])
      (use assms in auto)
  then show ?thesis
    by (simp only: get_mip_demand_probability_def f32_of_word_def u v fp_le.simps simp_thms)
qed

theorem mip_demand_is_probability_witness:
  "fp_le (Fin 0) (get_mip_demand_probability (update_its_stats 7 2 analyzer_init))
   \<and> fp_le (get_mip_demand_probability (update_its_stats 7 2 analyzer_init)) (Fin 1)"
  by (rule mip_demand_is_probability) (simp add: update_its_stats_def)

end
