(* ===== verification/Jit.thy ===== *)
theory Jit
  imports Umd
begin

text \<open>
  Shader specialisation: \<open>src/synapse/hash_utils.h\<close>, the direct-mapped cache of
  \<open>src/synapse/jit_specialization_cache.h\<close> and the compiler front of
  \<open>src/synapse/synapse_jit_backend.h\<close>. The cache stores \<open>shared_ptr\<close>s and \<open>insert\<close> writes through
  the pointer, so shaders live in an explicit store of addresses; \<open>insert\<close> and \<open>get\<close> are modelled
  both as whole calls and, for a render thread racing the compiler thread, as their accesses to the
  two atomic arrays.
\<close>

section \<open>Hashes\<close>

definition hash_combine :: "u64 \<Rightarrow> u64 \<Rightarrow> u64" where
  "hash_combine seed value' = seed XOR (value' + 0x9e3779b9 + push_bit 6 seed + drop_bit 2 seed)"

definition workload_context_hash :: "WorkloadSignature \<Rightarrow> u64" where
  "workload_context_hash sig =
     (let h = shader_hash sig;
          h = hash_combine h (ucast (draw_call_count sig));
          h = hash_combine h (ucast (shader_instruction_estimate sig));
          h = hash_combine h (ucast (vertex_count sig));
          h = hash_combine h (if is_compute_dispatch sig then 1 else 0)
      in h)"

fun backend_code :: "ExecutionBackend \<Rightarrow> u64" where
  "backend_code JIT = 0" | "backend_code HAI = 1" | "backend_code Oracle = 2"

definition backend_context_hash :: "u64 \<Rightarrow> ExecutionBackend \<Rightarrow> u64" where
  "backend_context_hash sh backend = hash_combine sh (push_bit 32 (backend_code backend))"

section \<open>The specialisation cache\<close>

record SpecializedShader =
  ss_isa :: "u32 list"
  ss_register_count :: u32
  ss_occupancy_hint :: u32
  ss_source_hash :: u64

type_synonym shader_ptr = nat

record JITSpecializationCache =
  jc_keys :: "u64 list"
  jc_cache :: "shader_ptr option list"
  jc_store :: "shader_ptr \<Rightarrow> SpecializedShader"
  jc_collisions :: u32

definition blank_shader :: SpecializedShader where
  "blank_shader = \<lparr>ss_isa = [], ss_register_count = 0, ss_occupancy_hint = 0, ss_source_hash = 0\<rparr>"

definition CACHE_SIZE :: nat where "CACHE_SIZE = 1024"

definition jit_cache_init :: "(shader_ptr \<Rightarrow> SpecializedShader) \<Rightarrow> JITSpecializationCache" where
  "jit_cache_init store = \<lparr>jc_keys = replicate CACHE_SIZE 0, jc_cache = replicate CACHE_SIZE None,
     jc_store = store, jc_collisions = 0\<rparr>"

definition slot :: "u64 \<Rightarrow> nat" where
  "slot h = unat (h AND 1023)"

definition cache_get :: "u64 \<Rightarrow> JITSpecializationCache \<Rightarrow> shader_ptr option \<times> JITSpecializationCache" where
  "cache_get context_hash c =
     (let idx = slot context_hash; stored_key = jc_keys c ! idx
      in if stored_key = 0 then (None, c)
         else if stored_key \<noteq> context_hash then (None, c\<lparr>jc_collisions := jc_collisions c + 1\<rparr>)
         else (jc_cache c ! idx, c))"

definition tag_shader :: "u64 \<Rightarrow> shader_ptr option \<Rightarrow> (shader_ptr \<Rightarrow> SpecializedShader) \<Rightarrow> shader_ptr \<Rightarrow> SpecializedShader" where
  "tag_shader context_hash shader store =
     (case shader of Some p \<Rightarrow> store(p := (store p)\<lparr>ss_source_hash := context_hash\<rparr>) | None \<Rightarrow> store)"

definition cache_insert :: "u64 \<Rightarrow> shader_ptr option \<Rightarrow> JITSpecializationCache \<Rightarrow> JITSpecializationCache" where
  "cache_insert context_hash shader c =
     (let idx = slot context_hash
      in c\<lparr>jc_store := tag_shader context_hash shader (jc_store c),
           jc_cache := (jc_cache c)[idx := shader],
           jc_keys := (jc_keys c)[idx := context_hash]\<rparr>)"

definition cache_evict :: "u64 \<Rightarrow> JITSpecializationCache \<Rightarrow> JITSpecializationCache" where
  "cache_evict context_hash c =
     (let idx = slot context_hash
      in c\<lparr>jc_cache := (jc_cache c)[idx := None], jc_keys := (jc_keys c)[idx := 0]\<rparr>)"

text \<open>Histories of whole calls, and the entry a history leaves in a slot: what the last insertion or
  eviction that used the slot put there.\<close>

datatype jit_op = Insert u64 "shader_ptr option" | Evict u64 | Get u64

fun jit_step :: "jit_op \<Rightarrow> JITSpecializationCache \<Rightarrow> JITSpecializationCache" where
  "jit_step (Insert h p) c = cache_insert h p c"
| "jit_step (Evict h) c = cache_evict h c"
| "jit_step (Get h) c = snd (cache_get h c)"

fun slot_entry :: "nat \<Rightarrow> jit_op \<Rightarrow> (u64 \<times> shader_ptr) option \<Rightarrow> (u64 \<times> shader_ptr) option" where
  "slot_entry i (Insert h p) e = (if slot h = i then map_option (Pair h) p else e)"
| "slot_entry i (Evict h) e = (if slot h = i then None else e)"
| "slot_entry i (Get h) e = e"

definition cache_ok :: "JITSpecializationCache \<Rightarrow> bool" where
  "cache_ok c \<longleftrightarrow> length (jc_keys c) = 1024 \<and> length (jc_cache c) = 1024"

text \<open>What \<open>get\<close> may return for a slot that holds \<open>e\<close>.\<close>

definition entry_for :: "u64 \<Rightarrow> (u64 \<times> shader_ptr) option \<Rightarrow> shader_ptr option" where
  "entry_for h e = (case e of Some (k, p) \<Rightarrow> if k = h \<and> k \<noteq> 0 then Some p else None | None \<Rightarrow> None)"

subsection \<open>A reader racing a writer, one atomic access at a time\<close>

datatype writer_pc = W_idle | W_stored u64
datatype reader_pc = R_idle | R_matched u64 | R_done u64 "shader_ptr option"

record cache_sys =
  cy_cache :: JITSpecializationCache
  cy_writer :: writer_pc
  cy_reader :: reader_pc

inductive cache_race :: "cache_sys \<Rightarrow> cache_sys \<Rightarrow> bool" where
  store_shader: "cy_writer s = W_idle \<Longrightarrow>
     cache_race s (s\<lparr>cy_writer := W_stored h,
       cy_cache := (cy_cache s)\<lparr>jc_store := tag_shader h shader (jc_store (cy_cache s)),
                                jc_cache := (jc_cache (cy_cache s))[slot h := shader]\<rparr>\<rparr>)"
| store_key: "cy_writer s = W_stored h \<Longrightarrow>
     cache_race s (s\<lparr>cy_writer := W_idle,
       cy_cache := (cy_cache s)\<lparr>jc_keys := (jc_keys (cy_cache s))[slot h := h]\<rparr>\<rparr>)"
| load_key_match: "\<lbrakk>cy_reader s = R_idle; jc_keys (cy_cache s) ! slot h = h; h \<noteq> 0\<rbrakk> \<Longrightarrow>
     cache_race s (s\<lparr>cy_reader := R_matched h\<rparr>)"
| load_shader: "cy_reader s = R_matched h \<Longrightarrow>
     cache_race s (s\<lparr>cy_reader := R_done h (jc_cache (cy_cache s) ! slot h)\<rparr>)"

abbreviation cache_race_reachable :: "cache_sys \<Rightarrow> cache_sys \<Rightarrow> bool" where
  "cache_race_reachable \<equiv> reaches cache_race "

section \<open>The pipeline\<close>

text \<open>\<open>inject_telemetry_constants\<close> has an empty body.\<close>

record JITShader =
  js_isa_binary :: "u32 list"
  js_register_count :: u32
  js_occupancy_hint :: u32

definition perform_rpr_pass :: "u32 list \<Rightarrow> u32" where
  "perform_rpr_pass ir = 32"

definition generate_isa :: "u32 list \<Rightarrow> u32 list" where
  "generate_isa source = source"

definition calculate_occupancy :: "u32 \<Rightarrow> u32" where
  "calculate_occupancy reg_count = (if reg_count > 0 then 1024 div reg_count else 0)"

type_synonym jit_cache = "(u64, JITShader) alist"

definition compile_specialized :: "u64 \<Rightarrow> u32 list \<Rightarrow> jit_cache \<Rightarrow> JITShader option \<times> jit_cache" where
  "compile_specialized hash source cache =
     (if source = [] then (None, cache)
      else
        let regs = perform_rpr_pass source;
            specialized = \<lparr>js_isa_binary = generate_isa source, js_register_count = regs,
                           js_occupancy_hint = calculate_occupancy regs\<rparr>
        in (Some specialized, al_update hash specialized cache))"

definition get_optimized_shader :: "Analyzer \<Rightarrow> u64 \<Rightarrow> u32 list \<Rightarrow> jit_cache \<Rightarrow> JITShader option \<times> jit_cache" where
  "get_optimized_shader an sh spirv_source cache =
     (let context_hash = backend_context_hash sh (inferred_backend an)
      in case al_lookup cache context_hash of
           Some s \<Rightarrow> (Some s, cache)
         | None \<Rightarrow> compile_specialized sh spirv_source cache)"

section \<open>Lemmas\<close>

lemma slot_bound [simp]: "slot h < 1024"
  by (simp add: slot_def mask_mod_1024)

lemma slot_mod: "slot h = unat h mod 1024"
  by (simp add: slot_def mask_mod_1024)

lemma cache_ok_init [simp, invariant_intros]: "cache_ok (jit_cache_init st)"
  by (simp add: cache_ok_def jit_cache_init_def CACHE_SIZE_def)

lemma cache_ok_step [invariant_intros]: "cache_ok c \<Longrightarrow> cache_ok (jit_step x c)"
  by (cases x) (auto simp: cache_ok_def cache_insert_def cache_evict_def cache_get_def Let_def)

text \<open>The two arrays at slot \<open>i\<close> represent the entry \<open>e\<close>.\<close>

definition represents :: "JITSpecializationCache \<Rightarrow> nat \<Rightarrow> (u64 \<times> shader_ptr) option \<Rightarrow> bool" where
  "represents c i e \<longleftrightarrow>
     (case e of Some (k, p) \<Rightarrow> jc_keys c ! i = k \<and> jc_cache c ! i = Some p
      | None \<Rightarrow> jc_keys c ! i = 0 \<or> jc_cache c ! i = None)"

lemma represents_step:
  assumes "cache_ok c" "i < 1024" "represents c i e"
  shows "represents (jit_step x c) i (slot_entry i x e)"
  using assms
  by (cases x) (auto simp: represents_def cache_ok_def cache_insert_def cache_evict_def cache_get_def
      Let_def nth_list_update split: option.splits)

lemma represents_run:
  assumes "cache_ok c" "i < 1024" "represents c i e"
  shows "represents (fold jit_step ops c) i (fold (slot_entry i) ops e)"
  using assms by (induction ops arbitrary: c e) (simp_all add: represents_step cache_ok_step)

lemma cache_ok_run: "cache_ok c \<Longrightarrow> cache_ok (fold jit_step ops c)"
  by (induction ops arbitrary: c) (simp_all add: cache_ok_step)

lemma represents_get: "represents c (slot h) e \<Longrightarrow> fst (cache_get h c) = entry_for h e"
  by (auto simp: represents_def cache_get_def entry_for_def Let_def split: option.splits)

lemma represents_init: "i < 1024 \<Longrightarrow> represents (jit_cache_init st) i None"
  by (simp add: represents_def jit_cache_init_def CACHE_SIZE_def)

section \<open>Properties\<close>


text \<open>\<open>insert\<close> announces that a concurrent \<open>get\<close> sees both the key and the shader or neither. It
  does not hold when a slot is reused: for any two different non-zero keys of one slot, with the
  first cached, there is an interleaving in which a reader asking for the first key is handed the
  shader compiled for the second one.\<close>
theorem jit_cache_insert_race:
  assumes "slot k1 = slot k2" "k1 \<noteq> k2" "k1 \<noteq> 0"
    and "c = cache_insert k1 (Some p1) (jit_cache_init st)"
  shows "\<exists>s. cache_race_reachable \<lparr>cy_cache = c, cy_writer = W_idle, cy_reader = R_idle\<rparr> s
    \<and> cy_reader s = R_done k1 (Some p2) \<and> ss_source_hash (jc_store (cy_cache s) p2) = k2"
proof -
  let ?s0 = "\<lparr>cy_cache = c, cy_writer = W_idle, cy_reader = R_idle\<rparr>"
  let ?c1 = "c\<lparr>jc_store := tag_shader k2 (Some p2) (jc_store c), jc_cache := (jc_cache c)[slot k2 := Some p2]\<rparr>"
  have key: "jc_keys c ! slot k1 = k1" and len: "length (jc_cache c) = 1024"
    using assms(4) by (simp_all add: cache_insert_def jit_cache_init_def CACHE_SIZE_def Let_def)
  let ?s1 = "?s0\<lparr>cy_writer := W_stored k2, cy_cache := ?c1\<rparr>"
  let ?s2 = "?s1\<lparr>cy_reader := R_matched k1\<rparr>"
  have "cache_race_reachable ?s0 ?s1"
    using reaches_next [where step = cache_race, OF reaches_start store_shader [of ?s0 k2 "Some p2"]] by simp
  then have "cache_race_reachable ?s0 ?s2"
    by (rule reaches_next) (rule load_key_match, use key assms(3) in simp_all)
  then have "cache_race_reachable ?s0 (?s2\<lparr>cy_reader := R_done k1 (jc_cache (cy_cache ?s2) ! slot k1)\<rparr>)"
    by (rule reaches_next) (rule load_shader, simp)
  moreover have "jc_cache (cy_cache ?s2) ! slot k1 = Some p2" "ss_source_hash (jc_store (cy_cache ?s2) p2) = k2"
    by (simp_all add: assms(1) len tag_shader_def)
  ultimately show ?thesis by (intro exI [where x = "?s2\<lparr>cy_reader := R_done k1 (Some p2)\<rparr>"]) simp
qed

theorem jit_cache_insert_race_witness:
  "\<exists>s. cache_race_reachable \<lparr>cy_cache = cache_insert 5 (Some 0) (jit_cache_init (\<lambda>_. blank_shader)), cy_writer = W_idle, cy_reader = R_idle\<rparr> s
    \<and> cy_reader s = R_done 5 (Some 1) \<and> ss_source_hash (jc_store (cy_cache s) 1) = 1029"
  by (rule jit_cache_insert_race [where ?k2.0 = 1029]) (simp_all add: slot_def)

text \<open>The pipeline stores a compiled shader under the shader's own hash but looks it up under the
  hash combined with the recommended backend. So after a compilation into an empty cache, asking for
  the same shader again, under any recommendation, compiles it again, except for the hashes that the
  combination happens to map to themselves; and no call ever compiles an empty source.\<close>
theorem jit_pipeline_recompiles:
  assumes "get_optimized_shader an sh src [] = (Some s, cache)"
  shows "src \<noteq> []
    \<and> (backend_context_hash sh (inferred_backend an') \<noteq> sh \<longrightarrow>
         get_optimized_shader an' sh src' cache = compile_specialized sh src' cache)
    \<and> get_optimized_shader an' sh [] [] = (None, [])"
  using assms
  by (auto simp: get_optimized_shader_def compile_specialized_def Let_def split: if_splits)

theorem jit_pipeline_recompiles_witness:
  "get_optimized_shader analyzer_init 7 [1] (snd (get_optimized_shader analyzer_init 7 [1] []))
     = compile_specialized 7 [1] (snd (get_optimized_shader analyzer_init 7 [1] []))"
proof -
  have "backend_context_hash 7 (inferred_backend analyzer_init) \<noteq> 7"
    by (simp add: backend_context_hash_def hash_combine_def analyzer_init_def)
  moreover have "\<exists>s. get_optimized_shader analyzer_init 7 [1] [] = (Some s, snd (get_optimized_shader analyzer_init 7 [1] []))"
    by (simp add: get_optimized_shader_def compile_specialized_def Let_def)
  ultimately show ?thesis
    using jit_pipeline_recompiles [where sh = 7 and src = "[1]" and an = analyzer_init
        and an' = analyzer_init and src' = "[1]"] by blast
qed

end
