(* ===== verification/TelemetryTypes.thy ===== *)
theory TelemetryTypes
  imports IeeeFloat
begin

text \<open>
  The statistics records of \<open>src/synapse/telemetry_types.h\<close> and the rates computed from them in
  double or single precision. Counters are words of their C++ width, so sums wrap.
\<close>

record PredictionStats =
  total_predictions :: u64
  accurate_predictions :: u64
  wasted_predictions :: u64

definition accuracy_rate :: "PredictionStats \<Rightarrow> f64" where
  "accuracy_rate s = (if total_predictions s > 0
     then f64_div (f64_of_word (accurate_predictions s)) (f64_of_word (total_predictions s)) else Fin 0)"

definition waste_rate :: "PredictionStats \<Rightarrow> f64" where
  "waste_rate s = (if total_predictions s > 0
     then f64_div (f64_of_word (wasted_predictions s)) (f64_of_word (total_predictions s)) else Fin 0)"

record CacheMetrics =
  cm_hits :: u64
  cm_misses :: u64
  cm_sync_stalls :: u32
  cm_current_usage_bytes :: u64

definition hit_rate :: "CacheMetrics \<Rightarrow> f32" where
  "hit_rate m = (let total = cm_hits m + cm_misses m
     in if total > 0 then f32_div (f32_of_word (cm_hits m)) (f32_of_word total) else Fin 0)"

record HorizonStats =
  hz_window :: u32
  stalls_avoided :: u32
  false_positives :: u32

definition energy_efficiency :: "HorizonStats \<Rightarrow> f64" where
  "energy_efficiency h = (let total = stalls_avoided h + false_positives h
     in if total > 0 then f64_div (f64_of_word (stalls_avoided h)) (f64_of_word total) else Fin 0)"

record MLTrainingStats =
  ml_total_updates :: u64
  ml_cumulative_reward :: f64
  ml_selection_counts :: "u64 list"
  ml_current_epsilon :: f32
  ml_current_alpha :: f32
  ml_training_status :: string

record DVFSStats =
  total_transitions :: u32
  emergency_overrides :: u32
  hysteresis_drops :: u32
  total_switch_energy_nj :: f64

record JITStats =
  cold_cache_fallbacks :: u32
  jit_cache_hits :: u32
  worst_fallback_ms :: f64
  total_fallback_ms :: f64

definition is_over_stutter_budget :: "JITStats \<Rightarrow> bool" where
  "is_over_stutter_budget s = fp_lt (Fin 2) (worst_fallback_ms s)"

record HAIStats =
  full_draws_emitted :: u64
  delta_draws_emitted :: u64
  raw_bytes_equivalent :: u64
  actual_bytes_emitted :: u64

definition compression_ratio :: "HAIStats \<Rightarrow> f64" where
  "compression_ratio s = (if actual_bytes_emitted s > 0
     then f64_div (f64_of_word (raw_bytes_equivalent s)) (f64_of_word (actual_bytes_emitted s)) else Fin 1)"

record ThermalStats =
  thermal_mitigation_events :: u32
  stability_overrides :: u32
  proactive_boosts :: u32

record PowerReport =
  joules_saved :: f64
  avg_milliwatts_saved_at_60fps :: f64
  battery_extension_factor :: f64

record BackendRoutingSummary =
  jit_dispatches :: u32
  hai_dispatches :: u32
  oracle_dispatches :: u32
  total_draw_calls :: u32

record SynapseSessionReport =
  rep_heuristic :: string
  rep_temporal_window_frames :: u32
  its_predictor :: PredictionStats
  its_cache :: CacheMetrics
  best_horizon :: HorizonStats
  horizon_windows :: "HorizonStats list"
  total_frames_analyzed :: u64
  ml_model :: MLTrainingStats
  rep_dvfs :: DVFSStats
  rep_jit :: JITStats
  rep_hai :: HAIStats
  rep_thermal :: ThermalStats
  rep_power :: PowerReport
  backend_routing :: BackendRoutingSummary

definition session_report_default :: SynapseSessionReport where
  "session_report_default = \<lparr>rep_heuristic = ''temporal_locality_v1'', rep_temporal_window_frames = 3,
     its_predictor = \<lparr>total_predictions = 0, accurate_predictions = 0, wasted_predictions = 0\<rparr>,
     its_cache = \<lparr>cm_hits = 0, cm_misses = 0, cm_sync_stalls = 0, cm_current_usage_bytes = 0\<rparr>,
     best_horizon = \<lparr>hz_window = 0, stalls_avoided = 0, false_positives = 0\<rparr>,
     horizon_windows = [], total_frames_analyzed = 0,
     ml_model = \<lparr>ml_total_updates = 0, ml_cumulative_reward = Fin 0, ml_selection_counts = [0, 0, 0],
        ml_current_epsilon = rnd32 (1 / 20), ml_current_alpha = rnd32 (1 / 100), ml_training_status = ''inactive''\<rparr>,
     rep_dvfs = \<lparr>total_transitions = 0, emergency_overrides = 0, hysteresis_drops = 0, total_switch_energy_nj = Fin 0\<rparr>,
     rep_jit = \<lparr>cold_cache_fallbacks = 0, jit_cache_hits = 0, worst_fallback_ms = Fin 0, total_fallback_ms = Fin 0\<rparr>,
     rep_hai = \<lparr>full_draws_emitted = 0, delta_draws_emitted = 0, raw_bytes_equivalent = 0, actual_bytes_emitted = 0\<rparr>,
     rep_thermal = \<lparr>thermal_mitigation_events = 0, stability_overrides = 0, proactive_boosts = 0\<rparr>,
     rep_power = \<lparr>joules_saved = Fin 0, avg_milliwatts_saved_at_60fps = Fin 0, battery_extension_factor = Fin 0\<rparr>,
     backend_routing = \<lparr>jit_dispatches = 0, hai_dispatches = 0, oracle_dispatches = 0, total_draw_calls = 0\<rparr>\<rparr>"

section \<open>Lemmas\<close>

definition in_unit :: "fp \<Rightarrow> bool" where
  "in_unit x \<longleftrightarrow> fp_le (Fin 0) x \<and> fp_le x (Fin 1)"

lemma in_unit_zero [simp]: "in_unit (Fin 0)"
  by (simp add: in_unit_def)

lemma ratio64_unit:
  fixes h :: "'a::len word" and t :: "'b::len word"
  assumes "unat h \<le> unat t" "0 < unat t" "unat t < 2 ^ 64"
  shows "in_unit (f64_div (f64_of_word h) (f64_of_word t))"
proof -
  obtain v where "f64_div (rnd64 (of_nat (unat h))) (rnd64 (of_nat (unat t))) = Fin v" "0 \<le> v" "v \<le> 1"
    by (rule unit_ratio64 [OF assms])
  then show ?thesis by (simp add: in_unit_def f64_of_word_def)
qed

lemma ratio32_unit:
  fixes h :: "'a::len word" and t :: "'b::len word"
  assumes "unat h \<le> unat t" "0 < unat t" "unat t < 2 ^ 64"
  shows "in_unit (f32_div (f32_of_word h) (f32_of_word t))"
proof -
  obtain v where "f32_div (rnd32 (of_nat (unat h))) (rnd32 (of_nat (unat t))) = Fin v" "0 \<le> v" "v \<le> 1"
    by (rule unit_ratio32 [OF assms])
  then show ?thesis by (simp add: in_unit_def f32_of_word_def)
qed

lemma word_pos_unat: "(0 :: 'a::len word) < w \<longleftrightarrow> 0 < unat w"
  by (simp add: word_less_nat_alt)

lemma unat_sum_no_wrap:
  "unat (a :: 'a::len word) + unat b < 2 ^ LENGTH('a) \<Longrightarrow> unat (a + b) = unat a + unat b"
  by (simp add: unat_add_lem [THEN iffD1])

section \<open>Properties\<close>

text \<open>Every reported rate is a number in [0,1]: accuracy and waste when the counter is at most the
  total, the cache hit rate and the horizon efficiency when the sum of their two counters does not
  wrap. Rounding in single or double precision never pushes a rate above 1.\<close>
theorem reported_rates_unit:
  assumes "accurate_predictions p \<le> total_predictions p" "wasted_predictions p \<le> total_predictions p"
    and "unat (cm_hits m) + unat (cm_misses m) < 2 ^ 64"
    and "unat (stalls_avoided h) + unat (false_positives h) < 2 ^ 32"
  shows "in_unit (accuracy_rate p) \<and> in_unit (waste_rate p) \<and> in_unit (hit_rate m) \<and> in_unit (energy_efficiency h)"
proof -
  have "unat (cm_hits m + cm_misses m) = unat (cm_hits m) + unat (cm_misses m)"
    "unat (stalls_avoided h + false_positives h) = unat (stalls_avoided h) + unat (false_positives h)"
    using assms(3,4) by (simp_all add: unat_sum_no_wrap)
  then show ?thesis
    using assms unsigned_less [of "total_predictions p"] unsigned_less [of "cm_hits m + cm_misses m"]
      unsigned_less [of "stalls_avoided h + false_positives h"]
    by (auto simp: accuracy_rate_def waste_rate_def hit_rate_def energy_efficiency_def Let_def word_pos_unat
        word_le_nat_alt intro!: ratio64_unit ratio32_unit)
qed

theorem reported_rates_unit_witness:
  "in_unit (accuracy_rate \<lparr>total_predictions = 3, accurate_predictions = 2, wasted_predictions = 1\<rparr>)
   \<and> in_unit (waste_rate \<lparr>total_predictions = 3, accurate_predictions = 2, wasted_predictions = 1\<rparr>)
   \<and> in_unit (hit_rate \<lparr>cm_hits = 9, cm_misses = 1, cm_sync_stalls = 0, cm_current_usage_bytes = 0\<rparr>)
   \<and> in_unit (energy_efficiency \<lparr>hz_window = 5, stalls_avoided = 1, false_positives = 2\<rparr>)"
  by (rule reported_rates_unit) simp_all

end
