(* ===== verification/Hai.thy ===== *)
theory Hai
  imports TelemetryTypes Umd
begin

text \<open>
  The HAI bytecode path: the instruction builder (\<open>synapse_hai_builder.h\<close>), the front-end simulator
  (\<open>hai_frontend_sim.h\<close>) and the push-constant delta tracker (\<open>push_constant_optimizer.h\<close>). Reads
  outside the stream, undefined behaviour in C++, end the simulation with an error. The tracker calls
  two builder methods, \<open>emit_set_push_constant\<close> and \<open>emit_delta_update\<close>, that the repository does not
  define (\<open>hai_bytecode_builder.h\<close> is missing): they are recorded as emissions.
\<close>

section \<open>Builder\<close>

record HAIInstruction =
  hi_opcode :: u8
  hi_length :: u8
  hi_payload :: "u32 list"

definition OP_FULL_DRAW_INDEXED :: u8 where "OP_FULL_DRAW_INDEXED = 0x10"
definition OP_DELTA_UPDATE :: u8 where "OP_DELTA_UPDATE = 0x20"
definition kFullDrawBytes :: u32 where "kFullDrawBytes = 48"

definition delta_draw_bytes :: "u32 \<Rightarrow> u32" where
  "delta_draw_bytes dirty_word_count = 2 + dirty_word_count * 4"

definition popcount :: "'a::len word \<Rightarrow> nat" where
  "popcount w = length (filter (bit w) [0..<LENGTH('a)])"

record HAIBytecodeBuilder =
  hb_current_batch :: "HAIInstruction list"
  hb_stats :: HAIStats

definition hai_builder_init :: HAIBytecodeBuilder where
  "hai_builder_init = \<lparr>hb_current_batch = [], hb_stats = \<lparr>full_draws_emitted = 0, delta_draws_emitted = 0,
     raw_bytes_equivalent = 0, actual_bytes_emitted = 0\<rparr>\<rparr>"

text \<open>A placeholder in the code: its arguments are cast to \<open>void\<close>.\<close>

definition emit_prefetch_hint :: "u64 \<Rightarrow> u32 \<Rightarrow> u32 \<Rightarrow> HAIBytecodeBuilder \<Rightarrow> HAIBytecodeBuilder" where
  "emit_prefetch_hint resource_id target_mip total_mips b = b"

definition begin_batch :: "HAIBytecodeBuilder \<Rightarrow> HAIBytecodeBuilder" where
  "begin_batch b = b\<lparr>hb_current_batch := []\<rparr>"

definition write_full_draw :: "WorkloadSignature \<Rightarrow> HAIBytecodeBuilder \<Rightarrow> HAIBytecodeBuilder" where
  "write_full_draw sig b =
     (let instr = \<lparr>hi_opcode = OP_FULL_DRAW_INDEXED, hi_length = ucast kFullDrawBytes,
            hi_payload = [vertex_count sig, draw_call_count sig, 0, 0, 0, 0, 0, 0]\<rparr>;
          s = hb_stats b
      in b\<lparr>hb_current_batch := hb_current_batch b @ [instr],
           hb_stats := s\<lparr>raw_bytes_equivalent := raw_bytes_equivalent s + ucast kFullDrawBytes,
                         actual_bytes_emitted := actual_bytes_emitted s + ucast kFullDrawBytes,
                         full_draws_emitted := full_draws_emitted s + 1\<rparr>\<rparr>)"

definition write_delta_draw :: "WorkloadSignature \<Rightarrow> u32 \<Rightarrow> HAIBytecodeBuilder \<Rightarrow> HAIBytecodeBuilder" where
  "write_delta_draw sig changed_mask b =
     (let dirty_words = of_nat (popcount changed_mask); emitted = delta_draw_bytes dirty_words;
          instr = \<lparr>hi_opcode = OP_DELTA_UPDATE, hi_length = ucast emitted,
            hi_payload = [changed_mask, vertex_count sig, 0, 0, 0, 0, 0, 0]\<rparr>;
          s = hb_stats b
      in b\<lparr>hb_current_batch := hb_current_batch b @ [instr],
           hb_stats := s\<lparr>raw_bytes_equivalent := raw_bytes_equivalent s + ucast kFullDrawBytes,
                         actual_bytes_emitted := actual_bytes_emitted s + ucast emitted,
                         delta_draws_emitted := delta_draws_emitted s + 1\<rparr>\<rparr>)"

definition flush_to_hardware :: "HAIBytecodeBuilder \<Rightarrow> HAIBytecodeBuilder" where
  "flush_to_hardware b = b\<lparr>hb_current_batch := []\<rparr>"

definition submit_to_synaptic_engine ::
  "ExecutionBackend \<Rightarrow> WorkloadSignature \<Rightarrow> WorkloadSignature \<Rightarrow> HAIBytecodeBuilder \<Rightarrow> HAIBytecodeBuilder" where
  "submit_to_synaptic_engine backend sig last_sig b =
     (if backend \<noteq> HAI then b
      else
        let can_delta = (shader_hash last_sig = shader_hash sig \<and> vertex_count last_sig \<noteq> vertex_count sig);
            b = begin_batch b;
            b = (if can_delta then write_delta_draw sig 3 b else write_full_draw sig b)
        in flush_to_hardware b)"

record draw_submission =
  sub_backend :: ExecutionBackend
  sub_sig :: WorkloadSignature
  sub_last :: WorkloadSignature

definition run_submission :: "draw_submission \<Rightarrow> HAIBytecodeBuilder \<Rightarrow> HAIBytecodeBuilder" where
  "run_submission d = submit_to_synaptic_engine (sub_backend d) (sub_sig d) (sub_last d)"

section \<open>Front-end simulator\<close>

record SimulationMetrics =
  sm_total_cycles :: u64
  sm_total_bytes_fetched :: u64
  sm_delta_updates_processed :: u32

record HAIFrontendSim =
  sim_metrics :: SimulationMetrics
  sim_shadow :: "(u8, bytes) alist"

datatype sim_error = Read_past_end nat

definition metrics_zero :: SimulationMetrics where
  "metrics_zero = \<lparr>sm_total_cycles = 0, sm_total_bytes_fetched = 0, sm_delta_updates_processed = 0\<rparr>"

definition charge :: "u64 \<Rightarrow> nat \<Rightarrow> HAIFrontendSim \<Rightarrow> HAIFrontendSim" where
  "charge cycles n s = s\<lparr>sim_metrics := (sim_metrics s)
     \<lparr>sm_total_cycles := sm_total_cycles (sim_metrics s) + cycles,
      sm_total_bytes_fetched := sm_total_bytes_fetched (sim_metrics s) + of_nat n\<rparr>\<rparr>"

text \<open>The three handlers: the new program counter and state, or an error.\<close>

definition handle_delta_update :: "bytes \<Rightarrow> nat \<Rightarrow> HAIFrontendSim \<Rightarrow> sim_error + nat \<times> HAIFrontendSim" where
  "handle_delta_update stream pc s =
     (if pc + 3 > length stream then Inl (Read_past_end pc)
      else
        let mask = of_le16 (drop (pc + 1) stream); payload_size = popcount mask * 4;
            s = s\<lparr>sim_metrics := (sim_metrics s)\<lparr>sm_delta_updates_processed := sm_delta_updates_processed (sim_metrics s) + 1\<rparr>\<rparr>
        in Inr (pc + 3 + payload_size, charge 2 (3 + payload_size) s))"

definition handle_standard_opcode :: "u8 \<Rightarrow> u8 \<Rightarrow> bytes \<Rightarrow> nat \<Rightarrow> HAIFrontendSim \<Rightarrow> sim_error + nat \<times> HAIFrontendSim" where
  "handle_standard_opcode opc len stream pc s =
     (let payload_size = unat len * 4
      in if pc + payload_size > length stream then Inl (Read_past_end pc)
         else Inr (pc + payload_size,
           charge 1 payload_size (s\<lparr>sim_shadow := al_update opc (take payload_size (drop pc stream)) (sim_shadow s)\<rparr>)))"

definition handle_repeat :: "bytes \<Rightarrow> nat \<Rightarrow> HAIFrontendSim \<Rightarrow> sim_error + nat \<times> HAIFrontendSim" where
  "handle_repeat stream pc s =
     (if pc + 4 > length stream then Inl (Read_past_end pc)
      else let count = of_le32 (drop pc stream) in Inr (pc + 4, charge (ucast count) 4 s))"

definition sim_dispatch :: "bytes \<Rightarrow> nat \<Rightarrow> HAIFrontendSim \<Rightarrow> sim_error + nat \<times> HAIFrontendSim" where
  "sim_dispatch stream pc s =
     (if pc + 2 > length stream then Inl (Read_past_end pc)
      else
        let descriptor = of_le16 (drop pc stream);
            opcode = ucast (descriptor AND 0x3F) :: u8;
            len = ucast (drop_bit 6 descriptor AND 0x0F) :: u8;
            pc = pc + 2; s = charge 0 2 s
        in if opcode = 0xFF then handle_delta_update stream pc s
           else if opcode = 0x30 then handle_repeat stream pc s
           else handle_standard_opcode opcode len stream pc s)"

lemma sim_dispatch_progress: "sim_dispatch stream pc s = Inr (pc', s') \<Longrightarrow> pc < pc'"
  by (auto simp: sim_dispatch_def handle_delta_update_def handle_repeat_def handle_standard_opcode_def Let_def
      split: if_splits)

function sim_loop :: "bytes \<Rightarrow> nat \<Rightarrow> HAIFrontendSim \<Rightarrow> sim_error + HAIFrontendSim" where
  "sim_loop stream pc s =
     (if pc < length stream then
        (case sim_dispatch stream pc s of Inl e \<Rightarrow> Inl e | Inr (pc', s') \<Rightarrow> sim_loop stream pc' s')
      else Inr s)"
  by pat_completeness auto
termination
  by (relation "measure (\<lambda>(stream, pc, s). length stream - pc)") (auto dest: sim_dispatch_progress)

declare sim_loop.simps [simp del]

definition simulate_batch :: "bytes \<Rightarrow> HAIFrontendSim \<Rightarrow> sim_error + HAIFrontendSim" where
  "simulate_batch stream s = (if length stream < 32 then Inr s else sim_loop stream 32 (charge 4 32 s))"

text \<open>Well-formed instructions and their encoding.\<close>

datatype packet = Std nat bytes | Repeat u32

fun packet_ok :: "packet \<Rightarrow> bool" where
  "packet_ok (Std opc payload) = (opc < 64 \<and> opc \<noteq> 0x30 \<and> 4 dvd length payload \<and> length payload < 64)"
| "packet_ok (Repeat n) = True"

fun encode_packet :: "packet \<Rightarrow> bytes" where
  "encode_packet (Std opc payload) = le_nat 2 (opc + 64 * (length payload div 4)) @ payload"
| "encode_packet (Repeat n) = le_nat 2 0x30 @ le32 n"

fun run_packet :: "packet \<Rightarrow> HAIFrontendSim \<Rightarrow> HAIFrontendSim" where
  "run_packet (Std opc payload) s =
     charge 1 (length payload + 2) (s\<lparr>sim_shadow := al_update (of_nat opc) payload (sim_shadow s)\<rparr>)"
| "run_packet (Repeat n) s = charge (ucast n) 6 s"

section \<open>Push-constant deltas\<close>

datatype emission = SetPushConstant bytes | DeltaUpdate u8 u32 "u32 list"

record PushConstantState =
  shadow_memory :: "u32 list"
  is_invalidated :: bool

record PushConstantOptimizer =
  pco_contexts :: "(u64, PushConstantState) alist"
  pco_total_updates :: u64
  pco_total_changes :: u64

definition push_constant_default :: PushConstantState where
  "push_constant_default = \<lparr>shadow_memory = replicate 32 0, is_invalidated = True\<rparr>"

definition pco_context :: "u64 \<Rightarrow> PushConstantOptimizer \<Rightarrow> PushConstantState" where
  "pco_context cb p = (case al_lookup (pco_contexts p) cb of None \<Rightarrow> push_constant_default | Some s \<Rightarrow> s)"

definition new_value :: "bytes \<Rightarrow> nat \<Rightarrow> u32" where
  "new_value data i = of_le32 (drop (4 * i) data)"

record delta_scan =
  ds_mask :: u32
  ds_payload :: "u32 list"
  ds_shadow :: "u32 list"

definition scan_word :: "bool \<Rightarrow> bytes \<Rightarrow> nat \<Rightarrow> delta_scan \<Rightarrow> delta_scan" where
  "scan_word inval data i s =
     (if inval \<or> ds_shadow s ! i \<noteq> new_value data i
      then s\<lparr>ds_mask := ds_mask s OR push_bit i 1, ds_payload := ds_payload s @ [new_value data i],
             ds_shadow := (ds_shadow s)[i := new_value data i]\<rparr>
      else s)"

definition process_update :: "u64 \<Rightarrow> bytes \<Rightarrow> u32 \<Rightarrow> PushConstantOptimizer \<Rightarrow> (emission list \<times> PushConstantOptimizer) option" where
  "process_update cb data sz p =
     (let state = pco_context cb p; word_count = unat (sz div 4)
      in if word_count > 32 \<or> length data < 4 * word_count then None
         else
           let r = fold (scan_word (is_invalidated state) data) [0..<word_count]
                 \<lparr>ds_mask = 0, ds_payload = [], ds_shadow = shadow_memory state\<rparr>;
               changed_count = length (ds_payload r);
               out = (if is_invalidated state \<or> changed_count > word_count div 2 then [SetPushConstant (take (unat sz) data)]
                      else if changed_count > 0 then [DeltaUpdate 0x12 (ds_mask r) (ds_payload r)] else [])
           in Some (out, p\<lparr>pco_contexts := al_update cb \<lparr>shadow_memory = ds_shadow r, is_invalidated = False\<rparr> (pco_contexts p),
                pco_total_updates := pco_total_updates p + 1,
                pco_total_changes := (if changed_count > 0 then pco_total_changes p + 1 else pco_total_changes p)\<rparr>))"

definition pco_invalidate :: "u64 \<Rightarrow> PushConstantOptimizer \<Rightarrow> PushConstantOptimizer" where
  "pco_invalidate cb p = p\<lparr>pco_contexts := al_update cb ((pco_context cb p)\<lparr>is_invalidated := True\<rparr>) (pco_contexts p)\<rparr>"

definition get_change_rate :: "PushConstantOptimizer \<Rightarrow> f32" where
  "get_change_rate p = (if pco_total_updates p > 0
     then f32_div (f32_of_word (pco_total_changes p)) (f32_of_word (pco_total_updates p)) else Fin 0)"

definition dirty :: "bool \<Rightarrow> bytes \<Rightarrow> u32 list \<Rightarrow> nat \<Rightarrow> bool" where
  "dirty inval data shadow i \<longleftrightarrow> inval \<or> shadow ! i \<noteq> new_value data i"

text \<open>What a front end does with the emissions: it keeps 32 registers.\<close>

fun apply_delta :: "nat list \<Rightarrow> u32 \<Rightarrow> u32 list \<Rightarrow> u32 list \<Rightarrow> u32 list" where
  "apply_delta [] msk payload regs = regs"
| "apply_delta (i # is) msk payload regs =
     (if bit msk i then apply_delta is msk (tl payload) (regs[i := hd payload])
      else apply_delta is msk payload regs)"

fun receive :: "emission \<Rightarrow> u32 list \<Rightarrow> u32 list" where
  "receive (SetPushConstant data) regs = map (new_value data) [0..<length data div 4] @ drop (length data div 4) regs"
| "receive (DeltaUpdate target msk payload) regs = apply_delta [0..<32] msk payload regs"

section \<open>Lemmas on the builder\<close>

lemma popcount_3: "popcount (3 :: u32) = 2"
  by code_simp

lemma run_submission_HAI:
  assumes "sub_backend d = HAI"
  shows "hb_current_batch (run_submission d b) = []"
    and "shader_hash (sub_last d) = shader_hash (sub_sig d) \<and> vertex_count (sub_last d) \<noteq> vertex_count (sub_sig d) \<Longrightarrow>
      hb_stats (run_submission d b) = (hb_stats b)
        \<lparr>raw_bytes_equivalent := raw_bytes_equivalent (hb_stats b) + 48,
         actual_bytes_emitted := actual_bytes_emitted (hb_stats b) + 10,
         delta_draws_emitted := delta_draws_emitted (hb_stats b) + 1\<rparr>"
    and "\<not> (shader_hash (sub_last d) = shader_hash (sub_sig d) \<and> vertex_count (sub_last d) \<noteq> vertex_count (sub_sig d)) \<Longrightarrow>
      hb_stats (run_submission d b) = (hb_stats b)
        \<lparr>raw_bytes_equivalent := raw_bytes_equivalent (hb_stats b) + 48,
         actual_bytes_emitted := actual_bytes_emitted (hb_stats b) + 48,
         full_draws_emitted := full_draws_emitted (hb_stats b) + 1\<rparr>"
  using assms
  by (simp_all add: run_submission_def submit_to_synaptic_engine_def begin_batch_def flush_to_hardware_def
      write_delta_draw_def write_full_draw_def delta_draw_bytes_def kFullDrawBytes_def popcount_3 Let_def)

definition hai_accounted :: "HAIBytecodeBuilder \<Rightarrow> bool" where
  "hai_accounted b \<longleftrightarrow> hb_current_batch b = []
     \<and> raw_bytes_equivalent (hb_stats b) = 48 * (full_draws_emitted (hb_stats b) + delta_draws_emitted (hb_stats b))
     \<and> actual_bytes_emitted (hb_stats b) = 48 * full_draws_emitted (hb_stats b) + 10 * delta_draws_emitted (hb_stats b)"

lemma hai_accounted_step:
  assumes "hai_accounted b"
  shows "hai_accounted (run_submission d b) \<and> (sub_last d = sub_sig d \<longrightarrow>
    delta_draws_emitted (hb_stats (run_submission d b)) = delta_draws_emitted (hb_stats b))"
proof (cases "sub_backend d = HAI")
  case True
  show ?thesis
  proof (cases "shader_hash (sub_last d) = shader_hash (sub_sig d) \<and> vertex_count (sub_last d) \<noteq> vertex_count (sub_sig d)")
    case delta: True
    then show ?thesis
      using assms run_submission_HAI(1,2) [OF True, of b] by (auto simp: hai_accounted_def distrib_left)
  next
    case False
    then show ?thesis
      using assms run_submission_HAI(1,3) [OF True, of b] by (auto simp: hai_accounted_def distrib_left)
  qed
next
  case False
  then show ?thesis using assms by (simp add: run_submission_def submit_to_synaptic_engine_def)
qed

lemma hai_accounted_run:
  "hai_accounted b \<Longrightarrow> hai_accounted (fold run_submission ds b) \<and> ((\<forall>d \<in> set ds. sub_last d = sub_sig d) \<longrightarrow>
     delta_draws_emitted (hb_stats (fold run_submission ds b)) = delta_draws_emitted (hb_stats b))"
  using hai_accounted_step by (induction ds arbitrary: b) auto

section \<open>Lemmas on the simulator\<close>

lemma of_le16_le_nat: "n < 65536 \<Longrightarrow> of_le16 (le_nat 2 n @ bs) = of_nat n"
  by (simp add: of_le16_def)

lemma unat_and_3F: "unat ((w :: u16) AND 0x3F) = unat w mod 64"
proof -
  have "w AND 0x3F = take_bit 6 w" by (simp add: take_bit_eq_mask mask_eq_exp_minus_1)
  then have "unat (w AND 0x3F) = take_bit 6 (unat w)" by (simp only: unsigned_take_bit_eq)
  then show ?thesis by (simp add: take_bit_eq_mod)
qed

lemma unat_drop_and: "unat (drop_bit 6 (w :: u16) AND 0x0F) = unat w div 64 mod 16"
proof -
  have lt: "unat w < 65536" using unsigned_less [of w] by simp
  have "drop_bit 6 w AND 0x0F = take_bit 4 (drop_bit 6 w)" by (simp add: take_bit_eq_mask mask_eq_exp_minus_1)
  then have "unat (drop_bit 6 w AND 0x0F) = take_bit 4 (drop_bit 6 (unat w))"
    using take_bit_nat_eq_self [of "unat w" 16] lt
    by (simp only: unsigned_take_bit_eq unsigned_drop_bit_eq) simp
  then show ?thesis by (simp add: take_bit_eq_mod drop_bit_eq_div)
qed

lemma ucast_of_nat_8: "unat w < 256 \<Longrightarrow> unat (ucast (w :: u16) :: u8) = unat w"
  by (simp add: unsigned_ucast_eq take_bit_nat_eq_self)

lemma unat_opcode: "unat (ucast ((w :: u16) AND 0x3F) :: u8) = unat w mod 64"
  using unat_and_3F [of w] mod_less_divisor [of 64 "unat w"] by (simp only: ucast_of_nat_8)

lemma opcode_not_delta: "(ucast ((w :: u16) AND 0x3F) :: u8) \<noteq> 0xFF"
proof
  assume "(ucast (w AND 0x3F) :: u8) = 0xFF"
  then have "unat (ucast (w AND 0x3F) :: u8) = unat (0xFF :: u8)" by (simp only:)
  then have "unat w mod 64 = 255" unfolding unat_opcode by simp
  then show False using mod_less_divisor [of 64 "unat w"] by linarith
qed

lemma dispatch_packet:
  assumes "packet_ok p"
  shows "sim_dispatch (pre @ encode_packet p @ rest) (length pre) s
    = Inr (length pre + length (encode_packet p), run_packet p s)"
proof (cases p)
  case (Std opc payload)
  obtain k where k: "length payload = 4 * k" "k < 16" using assms Std by auto
  have lt: "opc + 64 * k < 65536" "opc < 64" "opc \<noteq> 0x30" using assms Std k by auto
  let ?d = "of_nat (opc + 64 * k) :: u16"
  have u: "unat ?d = opc + 64 * k" using lt by (simp only: unat_of_nat) simp
  have op: "unat (ucast (?d AND 0x3F) :: u8) = opc" using lt by (simp only: unat_opcode u) simp
  have opc: "(ucast (?d AND 0x3F) :: u8) = of_nat opc" 
    unfolding word_unat_eq_iff op using lt by (simp add: unat_of_nat)
  have "unat (drop_bit 6 ?d AND 0x0F) = k"
    using lt k by (simp only: unat_drop_and u) simp
  then have len: "unat (ucast (drop_bit 6 ?d AND 0x0F) :: u8) = k"
    using k by (simp only: ucast_of_nat_8)
  have ne: "(of_nat opc :: u8) \<noteq> 0xFF" "(of_nat opc :: u8) \<noteq> 0x30"
  proof -
    have "unat (of_nat opc :: u8) = opc" using op opc by simp
    then show "(of_nat opc :: u8) \<noteq> 0xFF" "(of_nat opc :: u8) \<noteq> 0x30" using lt by auto
  qed
  have d: "of_le16 (encode_packet p @ rest) = ?d"
    using lt k by (simp add: Std of_le16_le_nat del: of_nat_add)
  have "payload = take (4 * k) (drop (length pre + 2) (pre @ encode_packet p @ rest))"
    by (simp add: Std k)
  then show ?thesis
    unfolding sim_dispatch_def
    using k ne len opc by (simp add: d Let_def handle_standard_opcode_def) (simp add: Std charge_def k)
next
  case (Repeat n)
  have d: "of_le16 (encode_packet p @ rest) = 0x30" by (simp add: Repeat of_le16_le_nat)
  have n: "of_le32 (drop (length pre + 2) (pre @ encode_packet p @ rest)) = n" by (simp add: Repeat)
  show ?thesis
    unfolding sim_dispatch_def
    using n by (simp add: d Let_def handle_repeat_def) (simp add: Repeat charge_def)
qed

lemma encode_packet_nonempty: "encode_packet p \<noteq> []"
  by (cases p) (auto simp: numeral_2_eq_2)

lemma sim_loop_packets:
  assumes "\<forall>p \<in> set ps. packet_ok p"
  shows "sim_loop (pre @ concat (map encode_packet ps)) (length pre) s = Inr (fold run_packet ps s)"
  using assms
proof (induction ps arbitrary: pre s)
  case Nil
  then show ?case by (simp add: sim_loop.simps)
next
  case (Cons p ps)
  let ?stream = "pre @ encode_packet p @ concat (map encode_packet ps)"
  have "sim_loop ?stream (length pre) s = sim_loop ?stream (length pre + length (encode_packet p)) (run_packet p s)"
    using dispatch_packet [of p pre "concat (map encode_packet ps)" s] Cons.prems encode_packet_nonempty [of p]
    by (subst sim_loop.simps) simp
  also have "\<dots> = Inr (fold run_packet ps (run_packet p s))"
    using Cons.IH [of "pre @ encode_packet p" "run_packet p s"] Cons.prems by simp
  finally show ?case by simp
qed

lemma charge_fields [simp]:
  "sm_delta_updates_processed (sim_metrics (charge c n s)) = sm_delta_updates_processed (sim_metrics s)"
  "sm_total_bytes_fetched (sim_metrics (charge c n s)) = sm_total_bytes_fetched (sim_metrics s) + of_nat n"
  by (simp_all add: charge_def)

lemma dispatch_accounting:
  assumes "sim_dispatch stream pc s = Inr (pc', s')"
  shows "pc' \<le> length stream \<and> sm_delta_updates_processed (sim_metrics s') = sm_delta_updates_processed (sim_metrics s)
    \<and> sm_total_bytes_fetched (sim_metrics s') = sm_total_bytes_fetched (sim_metrics s) + of_nat (pc' - pc)"
  using assms opcode_not_delta [of "of_le16 (drop pc stream)"]
  by (auto simp: sim_dispatch_def handle_repeat_def handle_standard_opcode_def Let_def split: if_splits)

lemma loop_accounting:
  assumes "sim_loop stream pc s = Inr s'" "pc \<le> length stream"
  shows "sm_delta_updates_processed (sim_metrics s') = sm_delta_updates_processed (sim_metrics s)
    \<and> sm_total_bytes_fetched (sim_metrics s') = sm_total_bytes_fetched (sim_metrics s) + of_nat (length stream - pc)"
  using assms
proof (induction stream pc s rule: sim_loop.induct)
  case (1 stream pc s)
  show ?case
  proof (cases "pc < length stream")
    case True
    then obtain pc1 s1 where d: "sim_dispatch stream pc s = Inr (pc1, s1)" and l: "sim_loop stream pc1 s1 = Inr s'"
      using 1(2) by (subst (asm) sim_loop.simps) (auto split: sum.splits)
    note acc = dispatch_accounting [OF d]
    have "of_nat (pc1 - pc) + of_nat (length stream - pc1) = (of_nat (length stream - pc) :: u64)"
      using sim_dispatch_progress [OF d] acc by (simp flip: of_nat_add)
    then show ?thesis using 1(1) [OF True d _ l] acc by (simp add: add.assoc)
  next
    case False
    then show ?thesis using 1(2,3) by (subst (asm) sim_loop.simps) simp
  qed
qed

section \<open>Lemmas on push-constant deltas\<close>

lemma scan_words:
  fixes inval data shadow
  assumes "n \<le> 32" "length shadow = 32"
    and "r = fold (scan_word inval data) [0..<n] \<lparr>ds_mask = 0, ds_payload = [], ds_shadow = shadow\<rparr>"
  shows "length (ds_shadow r) = 32 \<and> (\<forall>i < 32. ds_shadow r ! i = (if i < n then new_value data i else shadow ! i))
    \<and> ds_payload r = map (new_value data) (filter (dirty inval data shadow) [0..<n])
    \<and> (\<forall>i < 32. bit (ds_mask r) i = (i < n \<and> dirty inval data shadow i))"
  using assms
proof (induction n arbitrary: r)
  case 0
  then show ?case by simp
next
  case (Suc n)
  define q where "q = fold (scan_word inval data) [0..<n] \<lparr>ds_mask = 0, ds_payload = [], ds_shadow = shadow\<rparr>"
  have r: "r = scan_word inval data n q" using Suc.prems(3) by (simp add: q_def)
  have q: "length (ds_shadow q) = 32" "\<And>i. i < 32 \<Longrightarrow> ds_shadow q ! i = (if i < n then new_value data i else shadow ! i)"
    "ds_payload q = map (new_value data) (filter (dirty inval data shadow) [0..<n])"
    "\<And>i. i < 32 \<Longrightarrow> bit (ds_mask q) i = (i < n \<and> dirty inval data shadow i)"
    using Suc.IH [OF _ Suc.prems(2) q_def] Suc.prems(1) by auto
  have "inval \<or> ds_shadow q ! n \<noteq> new_value data n \<longleftrightarrow> dirty inval data shadow n"
    using q(2) [of n] Suc.prems(1) by (auto simp: dirty_def)
  moreover have "bit (push_bit n (1 :: u32)) i \<longleftrightarrow> i = n" if "i < 32" for i
    using that by (auto simp: bit_exp_iff)
  ultimately show ?case
    using q Suc.prems(1)
    by (cases "dirty inval data shadow n")
      (auto simp: r scan_word_def dirty_def [abs_def] bit_or_iff nth_list_update less_Suc_eq)
qed

lemma apply_delta_words:
  assumes "\<forall>i \<in> set is. i < length regs" "distinct is"
    and "payload = map f (filter (bit msk) is)"
  shows "length (apply_delta is msk payload regs) = length regs
    \<and> (\<forall>i < length regs. apply_delta is msk payload regs ! i = (if i \<in> set is \<and> bit msk i then f i else regs ! i))"
  using assms by (induction "is" msk payload regs rule: apply_delta.induct) (auto simp: nth_list_update)

lemma apply_delta_none: "\<forall>i \<in> set is. \<not> bit msk i \<Longrightarrow> apply_delta is msk payload regs = regs"
  by (induction "is") auto

lemma new_value_take: "4 * i + 4 \<le> n \<Longrightarrow> new_value (take n data) i = new_value data i"
  by (simp add: new_value_def of_le32_def drop_take)

lemma receive_in_sync:
  assumes "length regs = 32" "n \<le> 32" "length shadow = 32" "4 * n \<le> length data"
    and "r = fold (scan_word inval data) [0..<n] \<lparr>ds_mask = 0, ds_payload = [], ds_shadow = shadow\<rparr>"
    and sync: "\<forall>i < 32. regs ! i = shadow ! i \<or> i < n \<and> inval"
  shows "map (new_value data) [0..<n] @ drop n regs = ds_shadow r"
    and "\<not> inval \<Longrightarrow> apply_delta [0..<32] (ds_mask r) (ds_payload r) regs = ds_shadow r"
proof -
  note sw = scan_words [OF assms(2,3,5)]
  show "map (new_value data) [0..<n] @ drop n regs = ds_shadow r"
    using sw assms(1,2) sync by (intro nth_equalityI) (auto simp: nth_append)
  assume inval: "\<not> inval"
  have "filter (dirty inval data shadow) [0..<n] = filter (bit (ds_mask r)) [0..<32]"
  proof -
    have "[0..<32] = [0..<n] @ [n..<32]" using assms(2) upt_add_eq_append [of 0 n "32 - n"] by simp
    moreover have "filter (bit (ds_mask r)) [n..<32] = []" using sw by (auto simp: filter_empty_conv)
    moreover have "filter (bit (ds_mask r)) [0..<n] = filter (dirty inval data shadow) [0..<n]"
      using sw assms(2) by (intro filter_cong) auto
    ultimately show ?thesis by simp
  qed
  then have "length (apply_delta [0..<32] (ds_mask r) (ds_payload r) regs) = length regs
    \<and> (\<forall>i < length regs. apply_delta [0..<32] (ds_mask r) (ds_payload r) regs ! i
        = (if i \<in> set [0..<32] \<and> bit (ds_mask r) i then new_value data i else regs ! i))"
    using sw assms(1) by (intro apply_delta_words) auto
  then show "apply_delta [0..<32] (ds_mask r) (ds_payload r) regs = ds_shadow r"
    using sw assms(1) sync inval by (intro nth_equalityI) (auto simp: dirty_def)
qed

section \<open>Properties\<close>

text \<open>C20: On a well-formed stream (a 32-byte header and any sequence of encoded instructions) the
  simulator decodes exactly those instructions: it runs to the end without error, and its cycles,
  bytes and shadow registers are those of executing the instructions one by one.\<close>
theorem simulate_decodes_packets:
  assumes "length hdr = 32" "\<forall>p \<in> set ps. packet_ok p"
  shows "simulate_batch (hdr @ concat (map encode_packet ps)) s = Inr (fold run_packet ps (charge 4 32 s))"
  using sim_loop_packets [OF assms(2), of hdr "charge 4 32 s"] assms(1) by (simp add: simulate_batch_def)

theorem simulate_decodes_packets_witness:
  "simulate_batch (replicate 32 0 @ concat (map encode_packet [Std 5 (replicate 4 7), Repeat 9]))
      \<lparr>sim_metrics = metrics_zero, sim_shadow = []\<rparr>
     = Inr (fold run_packet [Std 5 (replicate 4 7), Repeat 9] (charge 4 32 \<lparr>sim_metrics = metrics_zero, sim_shadow = []\<rparr>))"
  by (rule simulate_decodes_packets) simp_all

text \<open>Whatever the stream, a run that ends without reading past the end has fetched exactly the
  bytes of the stream, and has processed no delta update: the simulator compares a 6-bit opcode
  with \<open>0xFF\<close>, so that branch is dead, and delta instructions are executed as standard ones.\<close>
theorem simulate_accounts_bytes:
  assumes "32 \<le> length stream" "simulate_batch stream s = Inr s'"
  shows "sm_total_bytes_fetched (sim_metrics s') = sm_total_bytes_fetched (sim_metrics s) + of_nat (length stream)
    \<and> sm_delta_updates_processed (sim_metrics s') = sm_delta_updates_processed (sim_metrics s)"
proof -
  have "sim_loop stream 32 (charge 4 32 s) = Inr s'" using assms by (simp add: simulate_batch_def)
  from loop_accounting [OF this assms(1)]
  have "sm_total_bytes_fetched (sim_metrics s') = sm_total_bytes_fetched (sim_metrics s) + (of_nat 32 + of_nat (length stream - 32))"
    "sm_delta_updates_processed (sim_metrics s') = sm_delta_updates_processed (sim_metrics s)"
    by (simp_all add: add.assoc)
  moreover have "(of_nat 32 :: u64) + of_nat (length stream - 32) = of_nat (length stream)"
    using assms(1) by (simp only: of_nat_add [symmetric]) simp
  ultimately show ?thesis by simp
qed

theorem simulate_accounts_bytes_witness:
  "let s' = fold run_packet [Repeat 9] (charge 4 32 \<lparr>sim_metrics = metrics_zero, sim_shadow = []\<rparr>);
       stream = replicate 32 0 @ concat (map encode_packet [Repeat 9])
   in sm_total_bytes_fetched (sim_metrics s') = sm_total_bytes_fetched metrics_zero + of_nat (length stream)
     \<and> sm_delta_updates_processed (sim_metrics s') = sm_delta_updates_processed metrics_zero"
proof -
  let ?s = "\<lparr>sim_metrics = metrics_zero, sim_shadow = []\<rparr>"
  have "simulate_batch (replicate 32 0 @ concat (map encode_packet [Repeat 9])) ?s
      = Inr (fold run_packet [Repeat 9] (charge 4 32 ?s))"
    using sim_loop_packets [of "[Repeat 9]" "replicate 32 0" "charge 4 32 ?s"] by (simp add: simulate_batch_def)
  from simulate_accounts_bytes [OF _ this] show ?thesis by (simp add: Let_def)
qed

text \<open>C19: Push-constant deltas are lossless. If the front end's 32 registers agree with the tracker's
  shadow (words the update rewrites may differ when the context is invalidated), then after any
  update that fits, applying whatever was emitted, a full write, a delta or nothing, leaves the
  registers equal to the shadow, and their first words equal to the new data.\<close>
theorem push_constant_delta_lossless:
  assumes "pco_context cb p = \<lparr>shadow_memory = shadow, is_invalidated = inval\<rparr>" "length shadow = 32"
    and "length regs = 32" "unat sz \<le> 128" "4 dvd unat sz" "unat sz \<le> length data"
    and "\<forall>i < 32. regs ! i = shadow ! i \<or> i < unat sz div 4 \<and> inval"
    and "process_update cb data sz p = Some (out, p')"
  shows "fold receive out regs = shadow_memory (pco_context cb p')
    \<and> (\<forall>i < unat sz div 4. fold receive out regs ! i = new_value data i)"
proof -
  define n where "n = unat sz div 4"
  define r where "r = fold (scan_word inval data) [0..<n] \<lparr>ds_mask = 0, ds_payload = [], ds_shadow = shadow\<rparr>"
  have n: "n \<le> 32" "4 * n = unat sz" "unat (sz div 4) = n"
    using assms(4,5) by (auto simp: n_def unat_div)
  have data: "4 * n \<le> length data" "length (take (unat sz) data) div 4 = n"
    using n assms(6) by (simp_all add: min_absorb2 flip: n(2))
  note sync = receive_in_sync [OF assms(3) n(1) assms(2) data(1) r_def assms(7) [folded n_def]]
  have words: "map (new_value (take (unat sz) data)) [0..<n] = map (new_value data) [0..<n]"
    using n(2) by (intro map_cong) (auto intro: new_value_take)
  have shadow': "shadow_memory (pco_context cb p') = ds_shadow r"
    using assms(1,8) n data by (auto simp: process_update_def Let_def r_def pco_context_def split: if_splits)
  have out: "out = (if inval \<or> length (ds_payload r) > n div 2 then [SetPushConstant (take (unat sz) data)]
      else if length (ds_payload r) > 0 then [DeltaUpdate 0x12 (ds_mask r) (ds_payload r)] else [])"
    using assms(1,8) n data by (auto simp: process_update_def Let_def r_def split: if_splits)
  have set_: "receive (SetPushConstant (take (unat sz) data)) regs = ds_shadow r"
    using sync(1) by (simp only: receive.simps data(2) words)
  have "apply_delta [0..<32] (ds_mask r) (ds_payload r) regs = regs" if "ds_payload r = []"
    using scan_words [OF n(1) assms(2) r_def] that by (intro apply_delta_none) (auto simp: filter_empty_conv)
  then have "fold receive out regs = ds_shadow r"
    using sync(2) set_ unfolding out by auto
  then show ?thesis
    using shadow' scan_words [OF n(1) assms(2) r_def] n(1) by (simp add: n_def)
qed

theorem push_constant_delta_lossless_witness:
  "\<exists>out p'. process_update 1 (le32 5 @ le32 6) 8 \<lparr>pco_contexts = [], pco_total_updates = 0, pco_total_changes = 0\<rparr> = Some (out, p')
     \<and> fold receive out (replicate 32 0) = shadow_memory (pco_context 1 p')"
proof -
  let ?p = "\<lparr>pco_contexts = [], pco_total_updates = 0, pco_total_changes = 0\<rparr>"
  have ctx: "pco_context 1 ?p = \<lparr>shadow_memory = replicate 32 0, is_invalidated = True\<rparr>"
    by (simp add: pco_context_def push_constant_default_def)
  obtain out p' where u: "process_update 1 (le32 5 @ le32 6) 8 ?p = Some (out, p')"
    by (simp add: process_update_def Let_def ctx)
  from push_constant_delta_lossless [OF ctx _ _ _ _ _ _ u, of "replicate 32 0"] u show ?thesis by simp
qed

text \<open>The builder's byte accounting. After any submissions the batch is empty, a delta draw has cost
  10 bytes and a full one 48, and the full-cost equivalent is 48 bytes per draw. In particular, when
  nothing changes between draws (static geometry) no draw is sent as a delta: \<open>can_delta\<close> demands that
  the vertex count differs, so the compression ratio stays at 1 although the comment on
  \<open>get_hai_stats\<close> asks for at least 4 on such workloads.\<close>
theorem hai_submission_accounting:
  "let b = fold run_submission ds hai_builder_init; s = hb_stats b in
   hb_current_batch b = []
   \<and> raw_bytes_equivalent s = 48 * (full_draws_emitted s + delta_draws_emitted s)
   \<and> actual_bytes_emitted s = 48 * full_draws_emitted s + 10 * delta_draws_emitted s
   \<and> ((\<forall>d \<in> set ds. sub_last d = sub_sig d) \<longrightarrow>
        delta_draws_emitted s = 0 \<and> actual_bytes_emitted s = raw_bytes_equivalent s)"
proof -
  have "hai_accounted hai_builder_init" by (simp add: hai_accounted_def hai_builder_init_def)
  from hai_accounted_run [OF this, of ds] show ?thesis
    by (auto simp: hai_accounted_def Let_def) (simp_all add: hai_builder_init_def)
qed

theorem hai_submission_accounting_witness:
  "let d = \<lparr>sub_backend = HAI, sub_sig = signature_zero, sub_last = signature_zero\<rparr>;
       s = hb_stats (fold run_submission [d, d] hai_builder_init)
   in delta_draws_emitted s = 0 \<and> actual_bytes_emitted s = raw_bytes_equivalent s"
  using hai_submission_accounting [of "[\<lparr>sub_backend = HAI, sub_sig = signature_zero, sub_last = signature_zero\<rparr>,
      \<lparr>sub_backend = HAI, sub_sig = signature_zero, sub_last = signature_zero\<rparr>]"]
  by (simp add: Let_def)

end
