(* ===== verification/ItsCache.thy ===== *)
theory ItsCache
  imports IeeeFloat
begin

text \<open>
  The synaptic cache, \<open>src/synapse/its_cache_controller.h\<close>: residency with least-recently-used
  eviction under a byte budget. The linked list and the map of iterators into it are kept apart, as
  in the source: a list of nodes (an address and the resource it holds, most recent first) and a
  map from resources to node addresses. The size callback is a parameter. \<open>lru_access\<close> and
  \<open>lru_evict\<close> at the end specify the policy on plain recency lists; the controller refines them.
\<close>

section \<open>The controller\<close>

record ITSCacheController =
  ic_capacity :: u64
  ic_current_usage :: u64
  ic_lru_list :: "(nat \<times> u64) list"
  ic_lru_map :: "(u64, nat) alist"
  ic_next_node :: nat
  ic_hits :: u64
  ic_misses :: u64

definition its_cache_init :: "u64 \<Rightarrow> ITSCacheController" where
  "its_cache_init cap = \<lparr>ic_capacity = cap, ic_current_usage = 0, ic_lru_list = [], ic_lru_map = [],
     ic_next_node = 0, ic_hits = 0, ic_misses = 0\<rparr>"

text \<open>\<open>list.erase(it)\<close>, and \<open>push_front\<close> followed by storing \<open>begin()\<close> in the map.\<close>

definition erase_node :: "nat \<Rightarrow> (nat \<times> u64) list \<Rightarrow> (nat \<times> u64) list" where
  "erase_node n xs = filter (\<lambda>e. fst e \<noteq> n) xs"

definition push_front :: "u64 \<Rightarrow> ITSCacheController \<Rightarrow> ITSCacheController" where
  "push_front i c = c\<lparr>ic_lru_list := (ic_next_node c, i) # ic_lru_list c,
     ic_lru_map := al_update i (ic_next_node c) (ic_lru_map c), ic_next_node := ic_next_node c + 1\<rparr>"

definition evict_last :: "(u64 \<Rightarrow> u64) \<Rightarrow> ITSCacheController \<Rightarrow> ITSCacheController" where
  "evict_last sz c =
     (let evict_id = snd (last (ic_lru_list c))
      in c\<lparr>ic_current_usage := ic_current_usage c - sz evict_id,
           ic_lru_map := al_delete evict_id (ic_lru_map c), ic_lru_list := butlast (ic_lru_list c)\<rparr>)"

function evict_loop :: "(u64 \<Rightarrow> u64) \<Rightarrow> u64 \<Rightarrow> ITSCacheController \<Rightarrow> ITSCacheController" where
  "evict_loop sz req c =
     (if ic_current_usage c + req > ic_capacity c \<and> ic_lru_list c \<noteq> []
      then evict_loop sz req (evict_last sz c) else c)"
  by pat_completeness auto
termination
  by (relation "measure (\<lambda>(sz, req, c). length (ic_lru_list c))") (auto simp: evict_last_def Let_def)

declare evict_loop.simps [simp del]

definition ensure_capacity_locked :: "(u64 \<Rightarrow> u64) \<Rightarrow> u64 \<Rightarrow> ITSCacheController \<Rightarrow> ITSCacheController" where
  "ensure_capacity_locked sz req c = (if req > ic_capacity c then c else evict_loop sz req c)"

definition access_resource :: "(u64 \<Rightarrow> u64) \<Rightarrow> u64 \<Rightarrow> u64 \<Rightarrow> ITSCacheController \<Rightarrow> bool \<times> ITSCacheController" where
  "access_resource sz i req c =
     (case al_lookup (ic_lru_map c) i of
        Some node \<Rightarrow>
          let c = push_front i (c\<lparr>ic_lru_list := erase_node node (ic_lru_list c)\<rparr>)
          in (True, c\<lparr>ic_hits := ic_hits c + 1\<rparr>)
      | None \<Rightarrow>
          let c = ensure_capacity_locked sz req (c\<lparr>ic_misses := ic_misses c + 1\<rparr>);
              c = push_front i c
          in (False, c\<lparr>ic_current_usage := ic_current_usage c + req\<rparr>))"

definition remove_resource :: "(u64 \<Rightarrow> u64) \<Rightarrow> u64 \<Rightarrow> ITSCacheController \<Rightarrow> ITSCacheController" where
  "remove_resource sz i c =
     (case al_lookup (ic_lru_map c) i of
        Some node \<Rightarrow> c\<lparr>ic_current_usage := ic_current_usage c - sz i,
          ic_lru_list := erase_node node (ic_lru_list c), ic_lru_map := al_delete i (ic_lru_map c)\<rparr>
      | None \<Rightarrow> c)"

definition its_cache_hit_rate :: "ITSCacheController \<Rightarrow> f32" where
  "its_cache_hit_rate c =
     (let total = ic_hits c + ic_misses c
      in if total > 0 then f32_div (f32_of_word (ic_hits c)) (f32_of_word total) else Fin 0)"

section \<open>Specification\<close>

definition resident :: "ITSCacheController \<Rightarrow> u64 list" where
  "resident c = map snd (ic_lru_list c)"

definition bytes_of :: "(u64 \<Rightarrow> u64) \<Rightarrow> u64 list \<Rightarrow> nat" where
  "bytes_of sz xs = (\<Sum>x\<leftarrow>xs. unat (sz x))"

text \<open>Drop from the back until the request fits: what is left is the longest prefix of the recency
  list that leaves room.\<close>

function lru_evict :: "(u64 \<Rightarrow> u64) \<Rightarrow> nat \<Rightarrow> nat \<Rightarrow> u64 list \<Rightarrow> u64 list" where
  "lru_evict sz cap req xs =
     (if bytes_of sz xs + req > cap \<and> xs \<noteq> [] then lru_evict sz cap req (butlast xs) else xs)"
  by pat_completeness auto
termination by (relation "measure (\<lambda>(sz, cap, req, xs). length xs)") auto

declare lru_evict.simps [simp del]

definition lru_access :: "(u64 \<Rightarrow> u64) \<Rightarrow> nat \<Rightarrow> u64 \<Rightarrow> u64 list \<Rightarrow> u64 list" where
  "lru_access sz cap i xs =
     (if i \<in> set xs then i # filter (\<lambda>x. x \<noteq> i) xs else i # lru_evict sz cap (unat (sz i)) xs)"

datatype cache_op = Access u64 | Remove u64

fun cache_step :: "(u64 \<Rightarrow> u64) \<Rightarrow> cache_op \<Rightarrow> ITSCacheController \<Rightarrow> bool option \<times> ITSCacheController" where
  "cache_step sz (Access i) c = (let (hit, c) = access_resource sz i (sz i) c in (Some hit, c))"
| "cache_step sz (Remove i) c = (None, remove_resource sz i c)"

fun lru_step :: "(u64 \<Rightarrow> u64) \<Rightarrow> nat \<Rightarrow> cache_op \<Rightarrow> u64 list \<Rightarrow> bool option \<times> u64 list" where
  "lru_step sz cap (Access i) xs = (Some (i \<in> set xs), lru_access sz cap i xs)"
| "lru_step sz cap (Remove i) xs = (None, filter (\<lambda>x. x \<noteq> i) xs)"

fun fits :: "(u64 \<Rightarrow> u64) \<Rightarrow> u64 \<Rightarrow> cache_op \<Rightarrow> bool" where
  "fits sz cap (Access i) = (sz i \<le> cap)"
| "fits sz cap (Remove i) = True"

definition links_ok :: "ITSCacheController \<Rightarrow> bool" where
  "links_ok c \<longleftrightarrow> distinct (map fst (ic_lru_list c)) \<and> distinct (map snd (ic_lru_list c)) \<and>
     (\<forall>i n. al_lookup (ic_lru_map c) i = Some n \<longleftrightarrow> (n, i) \<in> set (ic_lru_list c)) \<and>
     (\<forall>e \<in> set (ic_lru_list c). fst e < ic_next_node c)"

definition budget_ok :: "(u64 \<Rightarrow> u64) \<Rightarrow> ITSCacheController \<Rightarrow> bool" where
  "budget_ok sz c \<longleftrightarrow> unat (ic_current_usage c) = bytes_of sz (resident c)
     \<and> bytes_of sz (resident c) \<le> unat (ic_capacity c)"

definition cache_inv :: "(u64 \<Rightarrow> u64) \<Rightarrow> u64 \<Rightarrow> ITSCacheController \<Rightarrow> bool" where
  "cache_inv sz cap c \<longleftrightarrow> links_ok c \<and> budget_ok sz c \<and> ic_capacity c = cap \<and> unat cap < 2 ^ 63"

section \<open>Lemmas\<close>

lemma bytes_of_simps [simp]:
  "bytes_of sz [] = 0" "bytes_of sz (x # xs) = unat (sz x) + bytes_of sz xs"
  "bytes_of sz (xs @ ys) = bytes_of sz xs + bytes_of sz ys"
  by (simp_all add: bytes_of_def)

lemma bytes_of_remove:
  "distinct xs \<Longrightarrow> i \<in> set xs \<Longrightarrow> bytes_of sz xs = unat (sz i) + bytes_of sz (filter (\<lambda>x. x \<noteq> i) xs)"
proof (induction xs)
  case (Cons x xs)
  have "filter (\<lambda>y. y \<noteq> x) xs = xs" using Cons.prems by (auto simp: filter_id_conv)
  with Cons show ?case by auto
qed simp

lemma links_frame [simp, frame_simps]:
  "links_ok (c\<lparr>ic_misses := x\<rparr>) = links_ok c" "links_ok (c\<lparr>ic_hits := x\<rparr>) = links_ok c"
  "links_ok (c\<lparr>ic_current_usage := x\<rparr>) = links_ok c"
  "resident (c\<lparr>ic_misses := x\<rparr>) = resident c" "resident (c\<lparr>ic_hits := x\<rparr>) = resident c"
  "resident (c\<lparr>ic_current_usage := x\<rparr>) = resident c"
  by (simp_all add: links_ok_def resident_def)

lemma lookup_resident: "links_ok c \<Longrightarrow> al_lookup (ic_lru_map c) i = None \<longleftrightarrow> i \<notin> set (resident c)"
  unfolding links_ok_def resident_def by (metis (no_types, lifting) image_iff list.set_map not_Some_eq
      prod.collapse snd_conv)

lemma erase_resident:
  assumes "links_ok c" "al_lookup (ic_lru_map c) i = Some n"
  shows "map snd (erase_node n (ic_lru_list c)) = filter (\<lambda>x. x \<noteq> i) (resident c)"
proof -
  have in_: "(n, i) \<in> set (ic_lru_list c)" using assms by (simp add: links_ok_def)
  have "fst e = n \<longleftrightarrow> snd e = i" if "e \<in> set (ic_lru_list c)" for e
    using assms(1) in_ that unfolding links_ok_def by (metis (mono_tags, lifting) eq_key_imp_eq_value
        fst_conv inj_on_def distinct_map prod.collapse snd_conv)
  then show ?thesis
    unfolding erase_node_def resident_def filter_map o_def
    by (intro arg_cong [where f = "map snd"] filter_cong) auto
qed

lemma erase_subset: "set (erase_node n xs) \<subseteq> set xs"
  by (auto simp: erase_node_def)

lemma push_front_links:
  assumes "distinct (map fst (ic_lru_list c))" "distinct (map snd (ic_lru_list c))"
    and "i \<notin> snd ` set (ic_lru_list c)" "\<forall>e \<in> set (ic_lru_list c). fst e < ic_next_node c"
    and "\<forall>j n. j \<noteq> i \<longrightarrow> al_lookup (ic_lru_map c) j = Some n \<longleftrightarrow> (n, j) \<in> set (ic_lru_list c)"
  shows "links_ok (push_front i c)"
  using assms unfolding links_ok_def push_front_def by (force simp: image_iff)

lemma push_front_fields [simp]:
  "resident (push_front i c) = i # resident c"
  "ic_capacity (push_front i c) = ic_capacity c" "ic_current_usage (push_front i c) = ic_current_usage c"
  "ic_hits (push_front i c) = ic_hits c" "ic_misses (push_front i c) = ic_misses c"
  by (simp_all add: push_front_def resident_def)

lemma evict_last_links:
  assumes "links_ok c" "ic_lru_list c \<noteq> []"
  shows "links_ok (evict_last sz c)"
proof -
  obtain xs n i where l: "ic_lru_list c = xs @ [(n, i)]"
    using assms(2) by (metis append_butlast_last_id surj_pair)
  show ?thesis
    using assms(1) unfolding links_ok_def evict_last_def Let_def l by (auto simp: image_iff)
qed

lemma evict_last_fields [simp]:
  "resident (evict_last sz c) = butlast (resident c)"
  "ic_capacity (evict_last sz c) = ic_capacity c" "ic_hits (evict_last sz c) = ic_hits c"
  "ic_misses (evict_last sz c) = ic_misses c"
  "ic_current_usage (evict_last sz c) = ic_current_usage c - sz (snd (last (ic_lru_list c)))"
  by (simp_all add: evict_last_def resident_def Let_def map_butlast)

lemma evict_last_usage:
  assumes "unat (ic_current_usage c) = bytes_of sz (resident c)" "ic_lru_list c \<noteq> []"
  shows "unat (ic_current_usage (evict_last sz c)) = bytes_of sz (resident (evict_last sz c))"
proof -
  obtain xs n i where l: "ic_lru_list c = xs @ [(n, i)]"
    using assms(2) by (metis append_butlast_last_id surj_pair)
  have "unat (sz i) \<le> unat (ic_current_usage c)" using assms(1) by (simp add: resident_def l)
  then have "unat (ic_current_usage c - sz i) = unat (ic_current_usage c) - unat (sz i)"
    by (simp add: unat_sub word_le_nat_alt)
  moreover have "resident c = map snd xs @ [i]" by (simp add: resident_def l)
  ultimately show ?thesis using assms(1) by (simp add: l)
qed

lemma evict_loop_refines:
  assumes "links_ok c" "unat (ic_current_usage c) = bytes_of sz (resident c)"
    and "bytes_of sz (resident c) \<le> unat (ic_capacity c)" "unat req \<le> unat (ic_capacity c)" "unat (ic_capacity c) < 2 ^ 63"
  shows "links_ok (evict_loop sz req c) \<and> resident (evict_loop sz req c) = lru_evict sz (unat (ic_capacity c)) (unat req) (resident c)
    \<and> unat (ic_current_usage (evict_loop sz req c)) = bytes_of sz (resident (evict_loop sz req c))
    \<and> bytes_of sz (resident (evict_loop sz req c)) + unat req \<le> unat (ic_capacity c)
    \<and> ic_capacity (evict_loop sz req c) = ic_capacity c \<and> ic_hits (evict_loop sz req c) = ic_hits c
    \<and> ic_misses (evict_loop sz req c) = ic_misses c"
  using assms
proof (induction sz req c rule: evict_loop.induct)
  case (1 sz req c)
  have sum: "unat (ic_current_usage c + req) = bytes_of sz (resident c) + unat req"
    using 1(3-6) by (subst unat_add_lem [THEN iffD1]) auto
  then have guard: "ic_current_usage c + req > ic_capacity c \<longleftrightarrow> bytes_of sz (resident c) + unat req > unat (ic_capacity c)"
    by (simp only: word_less_nat_alt)
  have empty: "resident c = [] \<longleftrightarrow> ic_lru_list c = []" by (simp add: resident_def)
  show ?case
  proof (cases "ic_current_usage c + req > ic_capacity c \<and> ic_lru_list c \<noteq> []")
    case True
    have le: "bytes_of sz (butlast (resident c)) \<le> bytes_of sz (resident c)"
      by (metis True append_butlast_last_id bytes_of_simps(3) empty le_add1)
    have unf: "evict_loop sz req c = evict_loop sz req (evict_last sz c)"
      "lru_evict sz (unat (ic_capacity c)) (unat req) (resident c)
        = lru_evict sz (unat (ic_capacity c)) (unat req) (butlast (resident c))"
      using True guard empty by (simp_all add: evict_loop.simps [of sz req c] lru_evict.simps [of _ _ _ "resident c"])
    show ?thesis
      unfolding unf
      using 1(1) [OF True evict_last_links [OF 1(2)] evict_last_usage [OF 1(3)]] True le 1(4-6) by auto
  next
    case False
    then have "evict_loop sz req c = c"
      "lru_evict sz (unat (ic_capacity c)) (unat req) (resident c) = resident c"
      using guard empty
      by (simp_all only: evict_loop.simps [of sz req c] lru_evict.simps [of _ _ _ "resident c"] if_False simp_thms)
    moreover have "bytes_of sz (resident c) + unat req \<le> unat (ic_capacity c)"
      using False guard empty 1(5) by (cases "resident c") auto
    ultimately show ?thesis using 1 by simp
  qed
qed

lemma access_hit:
  assumes "links_ok c" "i \<in> set (resident c)"
  shows "links_ok (snd (access_resource sz i req c)) \<and> fst (access_resource sz i req c)
    \<and> resident (snd (access_resource sz i req c)) = i # filter (\<lambda>x. x \<noteq> i) (resident c)
    \<and> ic_current_usage (snd (access_resource sz i req c)) = ic_current_usage c
    \<and> ic_capacity (snd (access_resource sz i req c)) = ic_capacity c
    \<and> ic_hits (snd (access_resource sz i req c)) = ic_hits c + 1
    \<and> ic_misses (snd (access_resource sz i req c)) = ic_misses c"
proof -
  obtain n where n: "al_lookup (ic_lru_map c) i = Some n"
    using lookup_resident [OF assms(1), of i] assms(2) by auto
  let ?c = "c\<lparr>ic_lru_list := erase_node n (ic_lru_list c)\<rparr>"
  have res: "resident ?c = filter (\<lambda>x. x \<noteq> i) (resident c)"
    using erase_resident [OF assms(1) n] by (simp add: resident_def)
  have "\<forall>j m. j \<noteq> i \<longrightarrow> al_lookup (ic_lru_map c) j = Some m \<longleftrightarrow> (m, j) \<in> set (erase_node n (ic_lru_list c))"
    using assms(1) n unfolding links_ok_def erase_node_def
    by (metis (mono_tags, lifting) fst_conv mem_Collect_eq option.inject set_filter eq_key_imp_eq_value)
  then have "links_ok (push_front i ?c)"
    using assms(1) arg_cong [OF res, of set] erase_subset [of n "ic_lru_list c"]
    by (intro push_front_links)
      (auto simp: links_ok_def erase_node_def resident_def distinct_map_filter)
  then show ?thesis
    using n res by (simp add: access_resource_def Let_def)
qed

lemma access_miss:
  assumes "links_ok c" "i \<notin> set (resident c)" "budget_ok sz c" "unat (ic_capacity c) < 2 ^ 63"
    and "unat (sz i) \<le> unat (ic_capacity c)"
  shows "links_ok (snd (access_resource sz i (sz i) c)) \<and> \<not> fst (access_resource sz i (sz i) c)
    \<and> resident (snd (access_resource sz i (sz i) c)) = i # lru_evict sz (unat (ic_capacity c)) (unat (sz i)) (resident c)
    \<and> budget_ok sz (snd (access_resource sz i (sz i) c))
    \<and> ic_capacity (snd (access_resource sz i (sz i) c)) = ic_capacity c
    \<and> ic_hits (snd (access_resource sz i (sz i) c)) = ic_hits c
    \<and> ic_misses (snd (access_resource sz i (sz i) c)) = ic_misses c + 1"
proof -
  let ?c = "c\<lparr>ic_misses := ic_misses c + 1\<rparr>"
  let ?e = "evict_loop sz (sz i) ?c"
  have eq: "ensure_capacity_locked sz (sz i) ?c = ?e"
    using assms(5) by (simp add: ensure_capacity_locked_def word_less_nat_alt)
  have ev: "links_ok ?e \<and> resident ?e = lru_evict sz (unat (ic_capacity c)) (unat (sz i)) (resident c)
      \<and> unat (ic_current_usage ?e) = bytes_of sz (resident ?e)
      \<and> bytes_of sz (resident ?e) + unat (sz i) \<le> unat (ic_capacity c)
      \<and> ic_capacity ?e = ic_capacity c \<and> ic_hits ?e = ic_hits c \<and> ic_misses ?e = ic_misses c + 1"
    using evict_loop_refines [of ?c sz "sz i"] assms by (auto simp: budget_ok_def)
  have "set (lru_evict sz cap r xs) \<subseteq> set xs" for cap r xs
    by (induction sz cap r xs rule: lru_evict.induct) (subst lru_evict.simps, auto dest: in_set_butlastD)
  with ev assms(2) have ni: "i \<notin> set (resident ?e)" by auto
  then have links: "links_ok (push_front i ?e)"
    using ev by (intro push_front_links) (auto simp: links_ok_def resident_def)
  have "unat (ic_current_usage ?e + sz i) = unat (ic_current_usage ?e) + unat (sz i)"
    using ev assms(4) by (subst unat_add_lem [THEN iffD1]) auto
  then have "budget_ok sz ((push_front i ?e)\<lparr>ic_current_usage := ic_current_usage (push_front i ?e) + sz i\<rparr>)"
    using ev by (auto simp: budget_ok_def add.commute)
  moreover have "al_lookup (ic_lru_map c) i = None" using lookup_resident [OF assms(1)] assms(2) by simp
  ultimately show ?thesis
    using ev links by (simp add: access_resource_def Let_def eq)
qed

lemma remove_step:
  assumes "links_ok c" "unat (ic_current_usage c) = bytes_of sz (resident c)"
  shows "links_ok (remove_resource sz i c) \<and> resident (remove_resource sz i c) = filter (\<lambda>x. x \<noteq> i) (resident c)
    \<and> unat (ic_current_usage (remove_resource sz i c)) = bytes_of sz (resident (remove_resource sz i c))
    \<and> ic_capacity (remove_resource sz i c) = ic_capacity c"
proof (cases "al_lookup (ic_lru_map c) i")
  case None
  then have "i \<notin> set (resident c)" using lookup_resident [OF assms(1)] by simp
  then have "filter (\<lambda>x. x \<noteq> i) (resident c) = resident c" by (auto simp: filter_id_conv)
  then show ?thesis using None assms by (simp add: remove_resource_def)
next
  case (Some n)
  then have i: "i \<in> set (resident c)" using lookup_resident [OF assms(1), of i] by auto
  have dist: "distinct (resident c)" using assms(1) by (simp add: links_ok_def resident_def)
  note b = bytes_of_remove [OF dist i, of sz]
  have use: "unat (ic_current_usage c - sz i) = bytes_of sz (filter (\<lambda>x. x \<noteq> i) (resident c))"
    using assms(2) b by (subst unat_sub) (simp_all add: word_le_nat_alt)
  have r: "remove_resource sz i c = c\<lparr>ic_current_usage := ic_current_usage c - sz i,
      ic_lru_list := erase_node n (ic_lru_list c), ic_lru_map := al_delete i (ic_lru_map c)\<rparr>"
    by (simp add: remove_resource_def Some)
  have res: "resident (remove_resource sz i c) = filter (\<lambda>x. x \<noteq> i) (resident c)"
    using erase_resident [OF assms(1) Some] by (simp add: r resident_def)
  have "\<forall>j m. al_lookup (al_delete i (ic_lru_map c)) j = Some m \<longleftrightarrow> (m, j) \<in> set (erase_node n (ic_lru_list c))"
    using assms(1) Some unfolding links_ok_def erase_node_def
    by (auto dest: eq_key_imp_eq_value) (metis eq_key_imp_eq_value option.inject)+
  then have "links_ok (remove_resource sz i c)"
    using assms(1) erase_subset [of n "ic_lru_list c"] unfolding r links_ok_def
    by (auto simp: erase_node_def distinct_map_filter)
  with use res show ?thesis by (simp add: r)
qed

lemma lru_evict_prefix: "\<exists>k. lru_evict sz cap req xs = take k xs"
proof (induction sz cap req xs rule: lru_evict.induct)
  case (1 sz cap req xs)
  show ?case
  proof (cases "bytes_of sz xs + req > cap \<and> xs \<noteq> []")
    case True
    from 1 [OF this] obtain k where "lru_evict sz cap req (butlast xs) = take k (butlast xs)" by blast
    moreover have "take k (butlast xs) = take (min k (length xs - 1)) xs" by (simp add: butlast_conv_take)
    ultimately show ?thesis using True lru_evict.simps [of sz cap req xs] by metis
  next
    case False
    then have "lru_evict sz cap req xs = take (length xs) xs"
      by (subst lru_evict.simps) (simp only: if_False take_all order_refl)
    then show ?thesis by blast
  qed
qed

lemma cache_step_refines:
  assumes "cache_inv sz cap c" "fits sz cap op" "cache_step sz op c = (r, c')"
  shows "cache_inv sz cap c' \<and> lru_step sz (unat cap) op (resident c) = (r, resident c')"
proof (cases op)
  case (Access i)
  have inv: "links_ok c" "budget_ok sz c" "ic_capacity c = cap" "unat cap < 2 ^ 63"
    using assms(1) by (simp_all add: cache_inv_def)
  obtain hit where hit: "access_resource sz i (sz i) c = (hit, c')" "r = Some hit"
    using assms(3) Access by (auto split: prod.splits)
  show ?thesis
  proof (cases "i \<in> set (resident c)")
    case True
    have "distinct (resident c)" using inv(1) by (simp add: links_ok_def resident_def)
    then have "bytes_of sz (i # filter (\<lambda>x. x \<noteq> i) (resident c)) = bytes_of sz (resident c)"
      using bytes_of_remove [of "resident c" i sz] True by simp
    then show ?thesis
      using access_hit [OF inv(1) True, of sz "sz i"] inv True Access
      by (auto simp: cache_inv_def budget_ok_def lru_access_def hit)
  next
    case False
    then show ?thesis
      using access_miss [OF inv(1) False inv(2)] inv assms(2) Access
      by (simp add: cache_inv_def lru_access_def word_le_nat_alt hit)
  qed
next
  case (Remove i)
  have "bytes_of sz (filter (\<lambda>x. x \<noteq> i) xs) \<le> bytes_of sz xs" for xs by (induction xs) auto
  from this [of "resident c"] show ?thesis
    using remove_step [of c sz i] assms Remove by (auto simp: cache_inv_def budget_ok_def)
qed

interpretation synaptic: simulation "cache_step sz" "lru_step sz (unat cap)" resident "cache_inv sz cap" "\<lambda>op _. fits sz cap op"
  for sz cap
  by unfold_locales (rule cache_step_refines)

lemma evict_loop_counters:
  "ic_hits (evict_loop sz req c) = ic_hits c \<and> ic_misses (evict_loop sz req c) = ic_misses c"
proof (induction sz req c rule: evict_loop.induct)
  case (1 sz req c)
  show ?case
  proof (cases "ic_current_usage c + req > ic_capacity c \<and> ic_lru_list c \<noteq> []")
    case True
    then have "evict_loop sz req c = evict_loop sz req (evict_last sz c)" by (subst evict_loop.simps) simp
    with 1 [OF True] show ?thesis by simp
  next
    case False
    then have "evict_loop sz req c = c" by (subst evict_loop.simps) (simp only: if_False)
    then show ?thesis by simp
  qed
qed

lemma access_counters:
  "ic_hits (snd (access_resource sz i req c)) = ic_hits c + (if fst (access_resource sz i req c) then 1 else 0)
   \<and> ic_misses (snd (access_resource sz i req c)) = ic_misses c + (if fst (access_resource sz i req c) then 0 else 1)"
  by (cases "al_lookup (ic_lru_map c) i")
    (simp_all add: access_resource_def ensure_capacity_locked_def Let_def evict_loop_counters)

lemma cache_step_counters:
  assumes "cache_step sz op c = (r, c')"
  shows "ic_hits c' = ic_hits c + (if r = Some True then 1 else 0)
    \<and> ic_misses c' = ic_misses c + (if r = Some False then 1 else 0)"
proof (cases op)
  case (Access i)
  then have "r = Some (fst (access_resource sz i (sz i) c))" "c' = snd (access_resource sz i (sz i) c)"
    using assms by (auto split: prod.splits)
  then show ?thesis by (simp add: access_counters)
next
  case (Remove i)
  then show ?thesis using assms by (cases "al_lookup (ic_lru_map c) i") (auto simp: remove_resource_def)
qed

lemma cache_run_counters:
  assumes "run_ops (cache_step sz) ops c = (rs, c')"
  shows "ic_hits c' = ic_hits c + of_nat (count_list rs (Some True))
    \<and> ic_misses c' = ic_misses c + of_nat (count_list rs (Some False))"
  using assms
proof (induction ops arbitrary: c rs)
  case (Cons op ops)
  obtain r c1 rs1 where "cache_step sz op c = (r, c1)" "run_ops (cache_step sz) ops c1 = (rs1, c')" "rs = r # rs1"
    using Cons.prems by (auto split: prod.splits)
  with cache_step_counters [of sz op c r c1] Cons.IH [of c1 rs1] show ?case by auto
qed auto

lemma its_init_ok: "links_ok (its_cache_init cap)" "budget_ok sz (its_cache_init cap)"
  by (simp_all add: links_ok_def budget_ok_def its_cache_init_def resident_def)

section \<open>Properties\<close>

text \<open>C2: The cache implements least-recently-used eviction within its budget. For any sequence of
  accesses and removals of resources whose size is reported consistently and fits the capacity
  (below 2^63 bytes, so that the 64-bit sum cannot wrap), every access is answered as a hit or a miss,
  and the resident resources are listed, as the policy on recency lists does; the two counters are the
  numbers of hits and misses answered; the usage counter is exactly the sum of the resident sizes, and
  it never exceeds the capacity.\<close>
theorem its_cache_refines_lru:
  assumes "unat cap < 2 ^ 63" "list_all (fits sz cap) ops"
    and "run_ops (cache_step sz) ops (its_cache_init cap) = (answers, c)"
  shows "run_ops (lru_step sz (unat cap)) ops [] = (answers, resident c)
    \<and> ic_hits c = of_nat (count_list answers (Some True)) \<and> ic_misses c = of_nat (count_list answers (Some False))
    \<and> unat (ic_current_usage c) = bytes_of sz (resident c) \<and> unat (ic_current_usage c) \<le> unat cap"
proof -
  have "cache_inv sz cap (its_cache_init cap)" "resident (its_cache_init cap) = []"
    using assms(1) its_init_ok by (simp_all add: cache_inv_def its_cache_init_def resident_def)
  with synaptic.run_refines [of sz cap "its_cache_init cap" ops answers c] cache_run_counters [OF assms(3)] assms
  show ?thesis by (auto simp: cache_inv_def budget_ok_def its_cache_init_def)
qed

theorem its_cache_refines_lru_witness:
  "let sz = (\<lambda>i. i * 10); ops = [Access 3, Access 4, Access 3, Access 5, Remove 3, Access 4];
       (answers, c) = run_ops (cache_step sz) ops (its_cache_init 100)
   in run_ops (lru_step sz (unat (100 :: u64))) ops [] = (answers, resident c)
    \<and> ic_hits c = of_nat (count_list answers (Some True)) \<and> ic_misses c = of_nat (count_list answers (Some False))
    \<and> unat (ic_current_usage c) = bytes_of sz (resident c) \<and> unat (ic_current_usage c) \<le> unat (100 :: u64)"
proof -
  let ?sz = "\<lambda>i :: u64. i * 10" and ?ops = "[Access 3, Access 4, Access 3, Access 5, Remove 3, Access 4]"
  obtain answers c where run: "run_ops (cache_step ?sz) ?ops (its_cache_init 100) = (answers, c)" by fastforce
  have "list_all (fits ?sz 100) ?ops" by simp
  from its_cache_refines_lru [OF _ this run] run show ?thesis by (simp only: Let_def prod.case) simp
qed

text \<open>What the policy keeps: on a miss, the new resource in front of a prefix of the recency list
  (the least recently used ones go first), and nothing is evicted when everything fits.\<close>
theorem lru_miss_keeps_prefix:
  assumes "i \<notin> set xs"
  shows "(\<exists>k. lru_access sz cap i xs = i # take k xs)
    \<and> (bytes_of sz (i # xs) \<le> cap \<longrightarrow> lru_access sz cap i xs = i # xs)"
  using assms lru_evict_prefix [of sz cap "unat (sz i)" xs]
  by (auto simp: lru_access_def lru_evict.simps [of sz cap _ xs])

theorem lru_miss_keeps_prefix_witness:
  "(\<exists>k. lru_access (\<lambda>i. i) 9 5 [4, 3] = 5 # take k [4, 3])
   \<and> (bytes_of (\<lambda>i. i) [5, 4, 3] \<le> 9 \<longrightarrow> lru_access (\<lambda>i. i) 9 5 [4, 3] = [5, 4, 3])"
  by (rule lru_miss_keeps_prefix) simp

text \<open>A resource larger than the whole cache is inserted all the same. The comment in
  \<open>ensure_capacity_locked\<close> calls it an uncacheable bypass, but the caller goes on: the resource
  becomes resident, nothing is evicted, and the usage exceeds the capacity.\<close>
theorem oversize_request_cached:
  assumes "links_ok c" "i \<notin> set (resident c)" "sz i > ic_capacity c"
    and "unat (ic_current_usage c) + unat (sz i) < 2 ^ 64"
    and "c' = snd (access_resource sz i (sz i) c)"
  shows "resident c' = i # resident c \<and> ic_current_usage c' > ic_capacity c'"
proof -
  have "al_lookup (ic_lru_map c) i = None" using lookup_resident [OF assms(1)] assms(2) by simp
  then have c': "c' = (push_front i (c\<lparr>ic_misses := ic_misses c + 1\<rparr>))\<lparr>ic_current_usage := ic_current_usage c + sz i\<rparr>"
    using assms(3,5) by (simp add: access_resource_def ensure_capacity_locked_def Let_def)
  have "unat (ic_current_usage c + sz i) = unat (ic_current_usage c) + unat (sz i)"
    using assms(4) by (subst unat_add_lem [THEN iffD1]) simp_all
  with assms(3) show ?thesis by (simp add: c' word_less_nat_alt)
qed

theorem oversize_request_cached_witness:
  "let c' = snd (access_resource (\<lambda>i. 200) 7 200 (its_cache_init 100))
   in resident c' = 7 # resident (its_cache_init 100) \<and> ic_current_usage c' > ic_capacity c'"
  unfolding Let_def
  by (rule oversize_request_cached [OF its_init_ok(1), where sz = "\<lambda>i. 200"])
    (simp_all add: its_cache_init_def resident_def)

end
