(* ===== verification/PowerGov.thy ===== *)
theory PowerGov
  imports TelemetryTypes
begin

text \<open>
  Power governance: the per-SKU configuration (\<open>platform_config.h\<close>), the energy estimator
  (\<open>power_estimator.h\<close>), the DVFS state machine (\<open>dvfs_controller.h\<close>, \<open>dvfs_controller.cpp\<close>), the
  composite confidence score (\<open>its_confidence_aggregator.h\<close>) and the horizon profiler
  (\<open>forecasting_profiler.cpp\<close>). The environment variable \<open>SYNAPSE_PLATFORM_OVERRIDE\<close> is an argument
  (\<open>None\<close> when unset). Floating-point literals are the nearest representable values.
\<close>

section \<open>Platform configuration\<close>

datatype MemoryType = LPDDR5 | LPDDR4X | DDR5 | UNKNOWN

record PlatformConfig =
  memory_type :: MemoryType
  pj_per_bit :: f64
  memory_bandwidth_mb_s :: u64
  thermal_mitigation_threshold :: f32
  thermal_hysteresis_band :: f32
  dvfs_hysteresis_frames :: u32
  dvfs_transition_lock_us :: u64
  dvfs_switch_overhead_nj :: f64
  its_temporal_window_frames :: u32
  sku_name :: string

definition PlatformConfig_default :: PlatformConfig where
  "PlatformConfig_default = \<lparr>memory_type = LPDDR5, pj_per_bit = Fin 35, memory_bandwidth_mb_s = 68000,
     thermal_mitigation_threshold = rnd32 (1 / 5), thermal_hysteresis_band = rnd32 (3 / 100),
     dvfs_hysteresis_frames = 5, dvfs_transition_lock_us = 75, dvfs_switch_overhead_nj = Fin 150,
     its_temporal_window_frames = 3, sku_name = ''unknown''\<rparr>"

definition platform_detect :: "string option \<Rightarrow> PlatformConfig" where
  "platform_detect override_env =
     (case override_env of
        None \<Rightarrow> PlatformConfig_default
      | Some s \<Rightarrow>
          if s = ''LPDDR4X'' then PlatformConfig_default\<lparr>memory_type := LPDDR4X, pj_per_bit := Fin 42,
            sku_name := ''lpddr4x_override''\<rparr>
          else if s = ''DDR5'' then PlatformConfig_default\<lparr>memory_type := DDR5, pj_per_bit := Fin 28,
            sku_name := ''ddr5_override''\<rparr>
          else PlatformConfig_default)"

section \<open>Energy estimator\<close>

record PowerEstimator =
  pe_total_frames :: u64
  pe_potential_pj :: f64
  pe_actual_pj :: f64

definition power_estimator_init :: PowerEstimator where
  "power_estimator_init = \<lparr>pe_total_frames = 0, pe_potential_pj = Fin 0, pe_actual_pj = Fin 0\<rparr>"

definition log_transaction :: "f64 \<Rightarrow> u64 \<Rightarrow> u64 \<Rightarrow> PowerEstimator \<Rightarrow> PowerEstimator" where
  "log_transaction ppb full_bytes actual_bytes e =
     e\<lparr>pe_potential_pj := f64_add (pe_potential_pj e) (f64_mul (f64_of_word (full_bytes * 8)) ppb),
       pe_actual_pj := f64_add (pe_actual_pj e) (f64_mul (f64_of_word (actual_bytes * 8)) ppb)\<rparr>"

definition log_switch_overhead :: "f64 \<Rightarrow> PowerEstimator \<Rightarrow> PowerEstimator" where
  "log_switch_overhead overhead_nj e = e\<lparr>pe_actual_pj := f64_add (pe_actual_pj e) (f64_mul overhead_nj (Fin 1000))\<rparr>"

definition power_generate :: "PowerEstimator \<Rightarrow> PowerReport" where
  "power_generate e =
     (let saved_pj = f64_sub (pe_potential_pj e) (pe_actual_pj e);
          saved_j = f64_div saved_pj (Fin 1000000000000);
          frame_time_s = f64_div (Fin 1) (Fin 60);
          mw_saved = (if pe_total_frames e > 0
             then f64_mul (f64_div saved_j (f64_mul (f64_of_word (pe_total_frames e)) frame_time_s)) (Fin 1000)
             else Fin 0);
          extension = (if fp_lt (Fin 0) (pe_potential_pj e) then f64_div saved_pj (pe_potential_pj e) else Fin 0)
      in \<lparr>joules_saved = saved_j, avg_milliwatts_saved_at_60fps = mw_saved, battery_extension_factor = extension\<rparr>)"

definition increment_frame :: "PowerEstimator \<Rightarrow> PowerEstimator" where
  "increment_frame e = e\<lparr>pe_total_frames := pe_total_frames e + 1\<rparr>"

section \<open>DVFS controller\<close>

datatype PState = F0_MAX | F1_BALANCED | F2_EFFICIENT
datatype DVFSState = STEADY | TRANSITIONING

record DVFSController =
  current_p_state :: PState
  pending_p_state :: PState
  dvfs_state :: DVFSState
  transition_end_us :: u64
  last_switch_us :: u64
  frames_since_switch :: u32
  performance_locked :: bool

definition dvfs_init :: DVFSController where
  "dvfs_init = \<lparr>current_p_state = F0_MAX, pending_p_state = F0_MAX, dvfs_state = STEADY,
     transition_end_us = 0, last_switch_us = 0, frames_since_switch = 0, performance_locked = False\<rparr>"

definition kTransitionLockUs :: u64 where "kTransitionLockUs = 75"
definition kHysteresisFrames :: u32 where "kHysteresisFrames = 5"

definition calculate_target :: "f64 \<Rightarrow> PState" where
  "calculate_target mb = (if fp_lt (Fin 40000) mb then F0_MAX else if fp_lt (Fin 20000) mb then F1_BALANCED else F2_EFFICIENT)"

definition calculate_target_state :: "f64 \<Rightarrow> f32 \<Rightarrow> PState" where
  "calculate_target_state mb confidence = (if fp_le (rnd32 (82 / 100)) confidence then calculate_target mb else F1_BALANCED)"

definition is_hysteresis_satisfied :: "u64 \<Rightarrow> DVFSController \<Rightarrow> bool" where
  "is_hysteresis_satisfied now d =
     (let frames_ok = frames_since_switch d > kHysteresisFrames;
          time_ok = now - last_switch_us d > ucast (kHysteresisFrames * 16667)
      in frames_ok \<and> time_ok)"

definition initiate_transition :: "PState \<Rightarrow> u64 \<Rightarrow> DVFSController \<Rightarrow> DVFSController" where
  "initiate_transition target start d =
     d\<lparr>dvfs_state := TRANSITIONING, transition_end_us := start + kTransitionLockUs, pending_p_state := target\<rparr>"

definition complete_transition :: "DVFSController \<Rightarrow> DVFSController" where
  "complete_transition d = d\<lparr>current_p_state := pending_p_state d, dvfs_state := STEADY,
     last_switch_us := transition_end_us d, frames_since_switch := 0\<rparr>"

definition apply_hardware_state :: "PState \<Rightarrow> DVFSController \<Rightarrow> DVFSController" where
  "apply_hardware_state target d = d\<lparr>current_p_state := target, frames_since_switch := 0\<rparr>"

definition update_policy_frame :: "u64 \<Rightarrow> f64 \<Rightarrow> DVFSController \<Rightarrow> DVFSController" where
  "update_policy_frame now mb d =
     (if dvfs_state d = TRANSITIONING then
        if now \<ge> transition_end_us d then complete_transition d else d
      else if performance_locked d then d
      else let target = calculate_target mb
           in if target \<noteq> current_p_state d \<and> is_hysteresis_satisfied now d
              then initiate_transition target now d else d)"

definition update_policy_confidence :: "f64 \<Rightarrow> f32 \<Rightarrow> DVFSController \<Rightarrow> DVFSController" where
  "update_policy_confidence mb confidence d =
     (if fp_lt confidence (rnd32 (35 / 100)) then d
      else if performance_locked d then d
      else let requested = calculate_target_state mb confidence
           in if requested \<noteq> current_p_state d \<and> frames_since_switch d > kHysteresisFrames
              then apply_hardware_state requested d else d)"

definition handle_sync_stall :: "DVFSController \<Rightarrow> DVFSController" where
  "handle_sync_stall d = apply_hardware_state F0_MAX (d\<lparr>dvfs_state := STEADY\<rparr>)"

definition force_performance_state :: "PState \<Rightarrow> DVFSController \<Rightarrow> DVFSController" where
  "force_performance_state target d = apply_hardware_state target (d\<lparr>performance_locked := True\<rparr>)"

definition release_performance_lock :: "DVFSController \<Rightarrow> DVFSController" where
  "release_performance_lock d = d\<lparr>performance_locked := False\<rparr>"

datatype dvfs_op = PolicyFrame u64 f64 | PolicyConfidence f64 f32 | SyncStall | Force PState | Release

fun dvfs_step :: "dvfs_op \<Rightarrow> DVFSController \<Rightarrow> DVFSController" where
  "dvfs_step (PolicyFrame now mb) d = update_policy_frame now mb d"
| "dvfs_step (PolicyConfidence mb c) d = update_policy_confidence mb c d"
| "dvfs_step SyncStall d = handle_sync_stall d"
| "dvfs_step (Force p) d = force_performance_state p d"
| "dvfs_step Release d = release_performance_lock d"

text \<open>The state the last override asked for.\<close>

fun override_of :: "dvfs_op \<Rightarrow> PState \<Rightarrow> PState" where
  "override_of SyncStall p = F0_MAX"
| "override_of (Force q) p = q"
| "override_of op p = p"

section \<open>Confidence and forecasting\<close>

definition compute_composite_score :: "f32 \<Rightarrow> f32 \<Rightarrow> f32 \<Rightarrow> f32" where
  "compute_composite_score v m h =
     (let total = f32_add (f32_add (f32_mul v (rnd32 (2 / 5))) (f32_mul m (rnd32 (2 / 5)))) (f32_mul h (rnd32 (1 / 5)))
      in fp_clamp total (Fin 0) (Fin 1))"

record ForecastingProfiler =
  fp_horizons :: "HorizonStats list"
  fp_frames :: u64

definition profiler_init :: ForecastingProfiler where
  "profiler_init = \<lparr>fp_horizons = map (\<lambda>w. \<lparr>hz_window = w, stalls_avoided = 0, false_positives = 0\<rparr>) [5, 10, 20, 30],
     fp_frames = 0\<rparr>"

definition is_approaching_heavy_workload :: "u64 \<Rightarrow> u32 \<Rightarrow> bool" where
  "is_approaching_heavy_workload frame lookahead = False"

definition validate_prediction :: "u64 \<Rightarrow> bool" where
  "validate_prediction target = False"

definition analyze_horizon :: "u64 \<Rightarrow> HorizonStats \<Rightarrow> HorizonStats" where
  "analyze_horizon frame h =
     (if is_approaching_heavy_workload frame (hz_window h) then
        if validate_prediction (frame + ucast (hz_window h))
        then h\<lparr>stalls_avoided := stalls_avoided h + 1\<rparr>
        else h\<lparr>false_positives := false_positives h + 1\<rparr>
      else h)"

definition analyze_frame :: "u64 \<Rightarrow> ForecastingProfiler \<Rightarrow> ForecastingProfiler" where
  "analyze_frame frame p = p\<lparr>fp_horizons := map (analyze_horizon frame) (fp_horizons p), fp_frames := fp_frames p + 1\<rparr>"

definition better_horizon :: "HorizonStats \<Rightarrow> HorizonStats \<times> f64 \<Rightarrow> HorizonStats \<times> f64" where
  "better_horizon h acc =
     (let (best, best_eff) = acc; eff = energy_efficiency h
      in if fp_lt best_eff eff then (h, eff) else (best, best_eff))"

definition get_best_horizon :: "ForecastingProfiler \<Rightarrow> HorizonStats" where
  "get_best_horizon p = fst (fold better_horizon (fp_horizons p)
     (\<lparr>hz_window = 0, stalls_avoided = 0, false_positives = 0\<rparr>, Fin (- 1)))"

definition serialize_to_report :: "ForecastingProfiler \<Rightarrow> SynapseSessionReport \<Rightarrow> SynapseSessionReport" where
  "serialize_to_report p r = r\<lparr>best_horizon := get_best_horizon p, horizon_windows := fp_horizons p,
     total_frames_analyzed := fp_frames p\<rparr>"

section \<open>Lemmas\<close>

definition dvfs_inert :: "PState \<Rightarrow> DVFSController \<Rightarrow> bool" where
  "dvfs_inert p d \<longleftrightarrow> frames_since_switch d = 0 \<and> dvfs_state d = STEADY \<and> current_p_state d = p"

lemma dvfs_inert_step: "dvfs_inert p d \<Longrightarrow> dvfs_inert (override_of op p) (dvfs_step op d)"
  by (cases op)
    (auto simp: dvfs_inert_def update_policy_frame_def update_policy_confidence_def handle_sync_stall_def
      force_performance_state_def release_performance_lock_def apply_hardware_state_def
      is_hysteresis_satisfied_def kHysteresisFrames_def Let_def)

lemma dvfs_inert_run: "dvfs_inert p d \<Longrightarrow> dvfs_inert (fold override_of ops p) (fold dvfs_step ops d)"
  by (induction ops arbitrary: p d) (simp_all add: dvfs_inert_step)

section \<open>Properties\<close>

text \<open>The DVFS policy never switches. The counter of frames since the last switch is reset and
  compared but never incremented, so the hysteresis condition is never met: after any sequence of
  calls, whatever bandwidth and confidence are reported, no transition has started, and the P-state
  is the one the last emergency or forced override set (F0 at the start).\<close>
theorem dvfs_policy_never_switches:
  "current_p_state (fold dvfs_step ops dvfs_init) = fold override_of ops F0_MAX
   \<and> dvfs_state (fold dvfs_step ops dvfs_init) = STEADY
   \<and> frames_since_switch (fold dvfs_step ops dvfs_init) = 0"
  using dvfs_inert_run [of F0_MAX dvfs_init ops] by (simp add: dvfs_inert_def dvfs_init_def)

text \<open>The composite confidence score is in [0,1] unless the weighted sum is a NaN, which the clamp
  passes on.\<close>
theorem composite_score_clamped:
  "in_unit (compute_composite_score v m h) \<or> compute_composite_score v m h = NaN"
proof -
  define t where "t = f32_add (f32_add (f32_mul v (rnd32 (2 / 5))) (f32_mul m (rnd32 (2 / 5)))) (f32_mul h (rnd32 (1 / 5)))"
  have "compute_composite_score v m h = fp_clamp t (Fin 0) (Fin 1)"
    by (simp add: compute_composite_score_def t_def Let_def)
  then show ?thesis
    using fp_clamp_range [of "Fin 0" "Fin 1" t] by (cases "t = NaN") (simp_all add: in_unit_def)
qed

text \<open>The horizon analysis is vacuous: since its two helpers always answer false, no number of frames
  changes any horizon's counters, and the report always names the 5-frame window as the best one
  although its efficiency is 0.\<close>
theorem horizon_analysis_vacuous:
  "let p = fold analyze_frame frames profiler_init in
   fp_horizons p = fp_horizons profiler_init \<and> hz_window (get_best_horizon p) = 5
   \<and> energy_efficiency (get_best_horizon p) = Fin 0 \<and> fp_frames p = of_nat (length frames)"
proof -
  have "analyze_horizon f = (\<lambda>h. h)" for f
    by (rule ext) (simp add: analyze_horizon_def is_approaching_heavy_workload_def)
  then have "fp_horizons (fold analyze_frame fs p) = fp_horizons p
      \<and> fp_frames (fold analyze_frame fs p) = fp_frames p + of_nat (length fs)" for fs p
    by (induction fs arbitrary: p) (simp_all add: analyze_frame_def)
  then show ?thesis
    by (simp add: get_best_horizon_def profiler_init_def better_horizon_def energy_efficiency_def Let_def)
qed

end
