(* ===== verification/Streaming.thy ===== *)
theory Streaming
  imports ItsCache Hai PowerGov
begin

text \<open>
  Texture streaming and its synchronisation: the descriptor tracker (\<open>descriptor_tracker.h\<close>), the
  timeline synchronisation manager (\<open>sync_manager.h\<close>), the fence manager (\<open>synapse_sync_manager.h\<close>),
  the predictive engine (\<open>predictive_engine.h\<close>), the smoothing engine
  (\<open>pgro_smoothing_engine.h/.cpp\<close>) and the thermal arbiter (\<open>thermal_aware_arbiter.h/.cpp\<close>).
  Iteration over a hash map visits the entries of the association
  list. Callbacks of the fence manager are opaque numbers; calling one appends it to a log.
\<close>

section \<open>Descriptor tracker\<close>

record ResourceMeta =
  is_texture :: bool
  size_bytes :: u64
  mip_levels :: u32
  resident_mips :: u32

definition ResourceMeta_default :: ResourceMeta where
  "ResourceMeta_default = \<lparr>is_texture = False, size_bytes = 0, mip_levels = 1, resident_mips = 0\<rparr>"

record ResourceFootprintStats =
  total_draws :: u64
  sum_textures :: f64
  sum_buffers :: f64
  sum_vram_bytes :: f64
  max_textures :: u32
  max_buffers :: u32
  max_vram_bytes :: u64

record DescriptorTracker =
  dt_stats :: ResourceFootprintStats
  cmd_bindings :: "(u64, (u32, u64) alist) alist"
  set_contents :: "(u64, (u32, u64) alist) alist"
  dt_registry :: "(u64, ResourceMeta) alist"

text \<open>\<open>m[k]\<close> on a map inserts a default when the key is missing; on these maps the default is empty.\<close>

definition al_get :: "'v \<Rightarrow> 'k \<Rightarrow> ('k, 'v) alist \<Rightarrow> 'v \<times> ('k, 'v) alist" where
  "al_get dflt k m = (case al_lookup m k of Some v \<Rightarrow> (v, m) | None \<Rightarrow> (dflt, al_update k dflt m))"

definition count_resource :: "u64 \<Rightarrow> DescriptorTracker \<times> u32 \<times> u32 \<times> u64 \<Rightarrow> DescriptorTracker \<times> u32 \<times> u32 \<times> u64" where
  "count_resource res acc =
     (let (t, tex, buf, vram) = acc; (meta, reg) = al_get ResourceMeta_default res (dt_registry t); t = t\<lparr>dt_registry := reg\<rparr>
      in if is_texture meta then (t, tex + 1, buf, vram + size_bytes meta) else (t, tex, buf + 1, vram + size_bytes meta))"

definition count_set :: "u64 \<Rightarrow> DescriptorTracker \<times> u32 \<times> u32 \<times> u64 \<Rightarrow> DescriptorTracker \<times> u32 \<times> u32 \<times> u64" where
  "count_set set_handle acc =
     (let (t, rest) = acc; (contents, sets) = al_get [] set_handle (set_contents t)
      in fold (\<lambda>e. count_resource (snd e)) contents (t\<lparr>set_contents := sets\<rparr>, rest))"

definition record_draw_telemetry :: "u64 \<Rightarrow> DescriptorTracker \<Rightarrow> DescriptorTracker" where
  "record_draw_telemetry cmd t =
     (let (bound, binds) = al_get [] cmd (cmd_bindings t);
          (t, tex, buf, vram) = fold (\<lambda>e. count_set (snd e)) bound (t\<lparr>cmd_bindings := binds\<rparr>, 0, 0, 0);
          s = dt_stats t
      in t\<lparr>dt_stats := \<lparr>total_draws = total_draws s + 1,
             sum_textures = f64_add (sum_textures s) (f64_of_word tex),
             sum_buffers = f64_add (sum_buffers s) (f64_of_word buf),
             sum_vram_bytes = f64_add (sum_vram_bytes s) (f64_of_word vram),
             max_textures = max (max_textures s) tex, max_buffers = max (max_buffers s) buf,
             max_vram_bytes = max (max_vram_bytes s) vram\<rparr>\<rparr>)"

definition get_metadata :: "u64 \<Rightarrow> DescriptorTracker \<Rightarrow> ResourceMeta" where
  "get_metadata res t = (case al_lookup (dt_registry t) res of Some m \<Rightarrow> m | None \<Rightarrow> ResourceMeta_default)"

section \<open>Synchronisation\<close>

record ResourceSyncState =
  pending_fence_value :: u64
  is_dirty :: bool

record SyncManager =
  hardware_timeline_value :: u64
  global_bus_lock_until_us :: u64
  resource_states :: "(u64, ResourceSyncState) alist"

definition sync_init :: SyncManager where
  "sync_init = \<lparr>hardware_timeline_value = 0, global_bus_lock_until_us = 0, resource_states = []\<rparr>"

definition mark_pending_load :: "u64 \<Rightarrow> u64 \<Rightarrow> SyncManager \<Rightarrow> SyncManager" where
  "mark_pending_load res target m =
     m\<lparr>resource_states := al_update res \<lparr>pending_fence_value = target, is_dirty = True\<rparr> (resource_states m)\<rparr>"

definition update_hardware_timeline :: "u64 \<Rightarrow> SyncManager \<Rightarrow> SyncManager" where
  "update_hardware_timeline v m = m\<lparr>hardware_timeline_value := v\<rparr>"

text \<open>The slow path's critical section, which checks again what the fast path saw.\<close>

definition clear_dirty :: "u64 \<Rightarrow> SyncManager \<Rightarrow> SyncManager" where
  "clear_dirty res m =
     (case al_lookup (resource_states m) res of
        None \<Rightarrow> m
      | Some st \<Rightarrow>
          if is_dirty st \<and> hardware_timeline_value m \<ge> pending_fence_value st
          then m\<lparr>resource_states := al_update res (st\<lparr>is_dirty := False\<rparr>) (resource_states m)\<rparr> else m)"

definition sync_is_safe_to_execute :: "u64 \<Rightarrow> SyncManager \<Rightarrow> bool \<times> SyncManager" where
  "sync_is_safe_to_execute res m =
     (case al_lookup (resource_states m) res of
        None \<Rightarrow> (True, m)
      | Some st \<Rightarrow>
          if \<not> is_dirty st then (True, m)
          else if hardware_timeline_value m < pending_fence_value st then (False, m)
          else (True, clear_dirty res m))"

definition register_global_bus_lock :: "u64 \<Rightarrow> SyncManager \<Rightarrow> SyncManager" where
  "register_global_bus_lock until m = m\<lparr>global_bus_lock_until_us := until\<rparr>"

definition is_bus_lock_clear :: "u64 \<Rightarrow> SyncManager \<Rightarrow> bool" where
  "is_bus_lock_clear now m = (now \<ge> global_bus_lock_until_us m)"

text \<open>\<open>Clear r\<close> is the slow path of some thread's query, taken at any later time.\<close>

datatype sync_op = MarkLoad u64 u64 | Timeline u64 | Query u64 | Clear u64 | BusLock u64 | BusQuery u64

fun sync_step :: "sync_op \<Rightarrow> SyncManager \<Rightarrow> bool option \<times> SyncManager" where
  "sync_step (MarkLoad r v) m = (None, mark_pending_load r v m)"
| "sync_step (Timeline v) m = (None, update_hardware_timeline v m)"
| "sync_step (Query r) m = (let (b, m) = sync_is_safe_to_execute r m in (Some b, m))"
| "sync_step (Clear r) m = (None, clear_dirty r m)"
| "sync_step (BusLock u) m = (None, register_global_bus_lock u m)"
| "sync_step (BusQuery now) m = (Some (is_bus_lock_clear now m), m)"

text \<open>Reference: the timeline, the end of the bus lock, and the fence of the last load marked for each
  resource, with which the timeline is compared.\<close>

type_synonym sync_ref = "u64 \<times> u64 \<times> (u64 \<rightharpoonup> u64)"

fun sync_ref_step :: "sync_op \<Rightarrow> sync_ref \<Rightarrow> bool option \<times> sync_ref" where
  "sync_ref_step (MarkLoad r v) (t, l, marks) = (None, t, l, marks(r \<mapsto> v))"
| "sync_ref_step (Timeline v) (t, l, marks) = (None, v, l, marks)"
| "sync_ref_step (Query r) (t, l, marks) = (Some (case marks r of None \<Rightarrow> True | Some v \<Rightarrow> v \<le> t), t, l, marks)"
| "sync_ref_step (Clear r) (t, l, marks) = (None, t, l, marks)"
| "sync_ref_step (BusLock u) (t, l, marks) = (None, t, u, marks)"
| "sync_ref_step (BusQuery now) (t, l, marks) = (Some (l \<le> now), t, l, marks)"

definition sync_ref_init :: sync_ref where
  "sync_ref_init = (0, 0, Map.empty)"

text \<open>The hardware timeline does not run backwards.\<close>

fun timeline_forward :: "sync_op \<Rightarrow> sync_ref \<Rightarrow> bool" where
  "timeline_forward (Timeline v) s = (fst s \<le> v)"
| "timeline_forward op s = True"

definition sync_abs :: "SyncManager \<Rightarrow> sync_ref" where
  "sync_abs m = (hardware_timeline_value m, global_bus_lock_until_us m,
     \<lambda>r. map_option pending_fence_value (al_lookup (resource_states m) r))"

definition sync_inv :: "SyncManager \<Rightarrow> bool" where
  "sync_inv m \<longleftrightarrow> (\<forall>r st. al_lookup (resource_states m) r = Some st \<longrightarrow> \<not> is_dirty st
     \<longrightarrow> pending_fence_value st \<le> hardware_timeline_value m)"

record FenceManager =
  last_completed_id :: u64
  next_id :: u64
  pending_changes :: "(u64 \<times> nat) list"
  executed :: "nat list"

definition fence_init :: FenceManager where
  "fence_init = \<lparr>last_completed_id = 0, next_id = 1, pending_changes = [], executed = []\<rparr>"

definition track_state_change :: "nat \<Rightarrow> FenceManager \<Rightarrow> u64 \<times> FenceManager" where
  "track_state_change action f = (next_id f, f\<lparr>next_id := next_id f + 1, pending_changes := pending_changes f @ [(next_id f, action)]\<rparr>)"

definition hardware_read_timeline_id :: u64 where "hardware_read_timeline_id = 0"

definition retire_upto :: "u64 \<Rightarrow> FenceManager \<Rightarrow> FenceManager" where
  "retire_upto v f =
     (let don = takeWhile (\<lambda>c. fst c \<le> v) (pending_changes f)
      in f\<lparr>pending_changes := dropWhile (\<lambda>c. fst c \<le> v) (pending_changes f), executed := executed f @ map snd don\<rparr>)"

definition poll_gpu_timeline :: "FenceManager \<Rightarrow> FenceManager" where
  "poll_gpu_timeline f =
     (let gpu_val = hardware_read_timeline_id in retire_upto gpu_val (f\<lparr>last_completed_id := gpu_val\<rparr>))"

definition fence_is_safe_to_execute :: "u64 \<Rightarrow> FenceManager \<Rightarrow> bool" where
  "fence_is_safe_to_execute required f = (last_completed_id f \<ge> required)"

datatype fence_op = Track nat | Poll

fun fence_step :: "fence_op \<Rightarrow> FenceManager \<Rightarrow> FenceManager" where
  "fence_step (Track a) f = snd (track_state_change a f)"
| "fence_step Poll f = poll_gpu_timeline f"

section \<open>Predictive engine\<close>

record PredictiveEngine =
  temporal_window :: u32
  pr_cache :: ITSCacheController
  pr_sync :: SyncManager
  pr_builder :: HAIBytecodeBuilder
  mip_cap :: u32
  active_predictions :: "(u64, u64) alist"
  pr_stats :: PredictionStats

definition predictive_init :: "u32 \<Rightarrow> ITSCacheController \<Rightarrow> SyncManager \<Rightarrow> HAIBytecodeBuilder \<Rightarrow> PredictiveEngine" where
  "predictive_init w c m b = \<lparr>temporal_window = w, pr_cache = c, pr_sync = m, pr_builder = b, mip_cap = 0, active_predictions = [],
     pr_stats = \<lparr>total_predictions = 0, accurate_predictions = 0, wasted_predictions = 0\<rparr>\<rparr>"

definition score_use :: "u64 \<Rightarrow> PredictiveEngine \<Rightarrow> PredictiveEngine" where
  "score_use res e =
     (if al_lookup (active_predictions e) res \<noteq> None
      then e\<lparr>pr_stats := (pr_stats e)\<lparr>accurate_predictions := accurate_predictions (pr_stats e) + 1\<rparr>,
             active_predictions := al_delete res (active_predictions e)\<rparr>
      else e)"

definition predict_resource :: "(u64 \<Rightarrow> u64) \<Rightarrow> u64 \<Rightarrow> DescriptorTracker \<Rightarrow> u64 \<Rightarrow> PredictiveEngine \<Rightarrow> PredictiveEngine" where
  "predict_resource sz frame tracker res e =
     (let e = score_use res e; meta = get_metadata res tracker
      in if is_texture meta \<and> mip_levels meta > 1 \<and> al_lookup (active_predictions e) res = None then
           let target_mip = (if resident_mips meta > 0 then resident_mips meta - 1 else 0);
               (is_resident, c) = access_resource sz res (size_bytes meta) (pr_cache e); e = e\<lparr>pr_cache := c\<rparr>
           in if \<not> is_resident then
                e\<lparr>pr_sync := mark_pending_load res (frame + ucast (temporal_window e)) (pr_sync e),
                  pr_builder := emit_prefetch_hint res target_mip (mip_levels meta) (pr_builder e),
                  active_predictions := al_update res frame (active_predictions e),
                  pr_stats := (pr_stats e)\<lparr>total_predictions := total_predictions (pr_stats e) + 1\<rparr>\<rparr>
              else e
         else e)"

definition expired :: "u64 \<Rightarrow> u32 \<Rightarrow> u64 \<times> u64 \<Rightarrow> bool" where
  "expired frame w p = (frame > snd p + ucast w + 5)"

definition prune_predictions :: "u64 \<Rightarrow> PredictiveEngine \<Rightarrow> PredictiveEngine" where
  "prune_predictions frame e =
     (let to_prune = filter (expired frame (temporal_window e)) (active_predictions e)
      in e\<lparr>pr_stats := (pr_stats e)\<lparr>wasted_predictions := wasted_predictions (pr_stats e) + of_nat (length to_prune)\<rparr>,
           active_predictions := fold (\<lambda>p. al_delete (fst p)) to_prune (active_predictions e)\<rparr>)"

definition evaluate_and_predict :: "(u64 \<Rightarrow> u64) \<Rightarrow> u64 \<Rightarrow> u64 list \<Rightarrow> DescriptorTracker \<Rightarrow> PredictiveEngine \<Rightarrow> PredictiveEngine" where
  "evaluate_and_predict sz frame bound tracker e =
     prune_predictions frame (fold (predict_resource sz frame tracker) bound e)"

definition set_mip_cap :: "u32 \<Rightarrow> PredictiveEngine \<Rightarrow> PredictiveEngine" where
  "set_mip_cap level e = e\<lparr>mip_cap := level\<rparr>"

definition clear_mip_cap :: "PredictiveEngine \<Rightarrow> PredictiveEngine" where
  "clear_mip_cap e = e\<lparr>mip_cap := 0\<rparr>"

section \<open>Smoothing engine and thermal arbiter\<close>

record Forecast =
  fc_confidence :: f32
  fc_estimated_cycles :: u32

record SmoothingEngine =
  sme_proactive_boosts :: u32
  sme_suppressed :: bool
  sme_stability_critical :: bool
  sme_hints :: "u32 list"

definition smoothing_init :: SmoothingEngine where
  "smoothing_init = \<lparr>sme_proactive_boosts = 0, sme_suppressed = False, sme_stability_critical = False, sme_hints = []\<rparr>"

definition calculate_shader_complexity_trend :: "Forecast \<Rightarrow> f32" where
  "calculate_shader_complexity_trend f = Fin (1 / 2)"

definition estimate_total_cycles :: "Forecast \<Rightarrow> u32" where
  "estimate_total_cycles f = 1000"

definition process_forecast :: "Forecast \<Rightarrow> SmoothingEngine \<Rightarrow> SmoothingEngine" where
  "process_forecast f e =
     (let shader_trend = calculate_shader_complexity_trend f
      in if fp_lt (Fin (3 / 4)) shader_trend \<and> fp_lt (rnd32 (82 / 100)) (fc_confidence f)
         then e\<lparr>sme_hints := sme_hints e @ [estimate_total_cycles f], sme_proactive_boosts := sme_proactive_boosts e + 1\<rparr>
         else e)"

definition suppress_boosts :: "bool \<Rightarrow> SmoothingEngine \<Rightarrow> SmoothingEngine" where
  "suppress_boosts b e = e\<lparr>sme_suppressed := b\<rparr>"

datatype ArbiterMode = STANDARD | THERMAL_MITIGATION

record PolicyArbiter =
  arb_smoothing :: SmoothingEngine
  arb_predictive :: PredictiveEngine
  arb_mitigation_events :: u32
  arb_mode :: ArbiterMode

definition resolve_environmental_state :: "PlatformConfig \<Rightarrow> f32 \<Rightarrow> PolicyArbiter \<Rightarrow> PolicyArbiter" where
  "resolve_environmental_state cfg headroom a =
     (let threshold = thermal_mitigation_threshold cfg
      in if fp_lt headroom threshold then
           a\<lparr>arb_mode := THERMAL_MITIGATION, arb_smoothing := suppress_boosts True (arb_smoothing a),
             arb_predictive := set_mip_cap 2 (arb_predictive a), arb_mitigation_events := arb_mitigation_events a + 1\<rparr>
         else a\<lparr>arb_mode := STANDARD, arb_smoothing := suppress_boosts False (arb_smoothing a),
             arb_predictive := clear_mip_cap (arb_predictive a)\<rparr>)"

section \<open>Lemmas\<close>

lemma clear_dirty_refines:
  assumes "sync_inv m"
  shows "sync_inv (clear_dirty r m)" "sync_abs (clear_dirty r m) = sync_abs m"
  using assms by (auto simp: clear_dirty_def sync_inv_def sync_abs_def fun_eq_iff split: option.splits)

lemma sync_query_refines:
  assumes "sync_inv m" "sync_is_safe_to_execute r m = (b, m')"
  shows "sync_inv m' \<and> sync_abs m' = sync_abs m
    \<and> b = (case al_lookup (resource_states m) r of None \<Rightarrow> True | Some st \<Rightarrow> pending_fence_value st \<le> hardware_timeline_value m)"
  using assms clear_dirty_refines [OF assms(1), of r]
  by (auto simp: sync_is_safe_to_execute_def sync_inv_def split: option.splits if_splits)

lemma sync_step_refines:
  assumes "sync_inv m" "timeline_forward op (sync_abs m)" "sync_step op m = (r, m')"
  shows "sync_inv m' \<and> sync_ref_step op (sync_abs m) = (r, sync_abs m')"
proof (cases op)
  case (Query res)
  then obtain b where "sync_is_safe_to_execute res m = (b, m')" "r = Some b"
    using assms(3) by (auto split: prod.splits)
  with sync_query_refines [OF assms(1) this(1)] Query show ?thesis
    by (simp add: sync_abs_def map_option_case split: option.splits)
next
  case (Timeline v)
  then show ?thesis
    using assms by (fastforce simp: sync_inv_def sync_abs_def update_hardware_timeline_def intro: order_trans)
qed (use assms clear_dirty_refines [OF assms(1)] in \<open>auto simp: sync_inv_def sync_abs_def mark_pending_load_def
  register_global_bus_lock_def is_bus_lock_clear_def fun_eq_iff split: if_splits\<close>)

interpretation sync: simulation sync_step sync_ref_step sync_abs sync_inv timeline_forward
  by unfold_locales (rule sync_step_refines)

lemma sync_init_ok: "sync_inv sync_init" "sync_abs sync_init = sync_ref_init"
  by (simp_all add: sync_inv_def sync_abs_def sync_init_def sync_ref_init_def fun_eq_iff)

text \<open>Predictions: every one issued is used, wasted or still open.\<close>

definition predictions_ok :: "PredictiveEngine \<Rightarrow> bool" where
  "predictions_ok e \<longleftrightarrow> distinct (map fst (active_predictions e)) \<and>
     total_predictions (pr_stats e) = accurate_predictions (pr_stats e) + wasted_predictions (pr_stats e)
       + of_nat (length (active_predictions e))"

lemma length_al_delete:
  "distinct (map fst m) \<Longrightarrow> length m = length (al_delete k m) + (if k \<in> fst ` set m then 1 else 0)"
proof (induction m)
  case (Cons e m)
  show ?case
  proof (cases "k = fst e")
    case True
    have "\<forall>x \<in> set m. fst x \<noteq> k" using Cons.prems True by (auto simp: image_iff)
    then have "al_delete k m = m" by (simp add: al_delete_def filter_id_conv)
    then show ?thesis using True by (simp add: al_delete_def)
  next
    case False
    then have "al_delete k (e # m) = e # al_delete k m" by (simp add: al_delete_def)
    moreover have "k \<in> fst ` set (e # m) \<longleftrightarrow> k \<in> fst ` set m" using False by auto
    moreover have "length m = length (al_delete k m) + (if k \<in> fst ` set m then 1 else 0)"
      by (rule Cons.IH) (use Cons.prems in simp)
    ultimately show ?thesis by (simp only: list.size)
  qed
qed (simp add: al_delete_def)

lemma length_al_update_new: "k \<notin> fst ` set m \<Longrightarrow> length (al_update k v m) = length m + 1"
  by (induction k v m rule: al_update.induct) auto

lemma score_use_ok: "predictions_ok e \<Longrightarrow> predictions_ok (score_use r e)"
  using length_al_delete [of "active_predictions e" r] al_lookup_None [of "active_predictions e" r]
  by (auto simp: predictions_ok_def score_use_def)

lemma predict_resource_ok: "predictions_ok e \<Longrightarrow> predictions_ok (predict_resource sz frame tr r e)"
  using score_use_ok [of e r]
  by (auto simp: predict_resource_def predictions_ok_def Let_def length_al_update_new al_lookup_None split: prod.splits)

lemma delete_expired:
  "distinct (map fst m) \<Longrightarrow> fold (\<lambda>p. al_delete (fst p)) (filter P m) m = filter (\<lambda>p. \<not> P p) m"
proof -
  assume d: "distinct (map fst m)"
  have a: "fold (\<lambda>p. al_delete (fst p)) xs m = filter (\<lambda>e. fst e \<notin> fst ` set xs) m" for xs
    by (induction xs arbitrary: m) (auto simp: al_delete_def intro: filter_cong)
  have b: "filter (\<lambda>e. fst e \<notin> fst ` set (filter P m)) m = filter (\<lambda>p. \<not> P p) m"
  proof (rule filter_cong [OF refl])
    fix e assume e: "e \<in> set m"
    obtain k v where kv: "e = (k, v)" by (cases e)
    show "(fst e \<notin> fst ` set (filter P m)) = (\<not> P e)"
      using d e by (auto simp: kv image_iff dest: eq_key_imp_eq_value)
  qed
  show ?thesis by (simp only: a b)
qed

lemma prune_ok: "predictions_ok e \<Longrightarrow> predictions_ok (prune_predictions frame e)"
proof -
  assume ok: "predictions_ok e"
  let ?P = "expired frame (temporal_window e)" and ?m = "active_predictions e"
  have "length ?m = length (filter ?P ?m) + length (filter (\<lambda>p. \<not> ?P p) ?m)"
    by (rule sum_length_filter_compl [symmetric])
  then have "(of_nat (length ?m) :: u64) = of_nat (length (filter ?P ?m)) + of_nat (length (filter (\<lambda>p. \<not> ?P p) ?m))"
    by (simp only: of_nat_add)
  with ok show ?thesis
    by (simp add: predictions_ok_def prune_predictions_def Let_def delete_expired distinct_map_filter)
qed

lemma predict_resource_builder: "pr_builder (predict_resource sz frame tr r e) = pr_builder e"
  by (simp add: predict_resource_def score_use_def emit_prefetch_hint_def Let_def split_beta)

lemma evaluate_ok: "predictions_ok e \<Longrightarrow> predictions_ok (evaluate_and_predict sz frame bound tr e)"
proof -
  have "predictions_ok e \<Longrightarrow> predictions_ok (fold (predict_resource sz frame tr) bound e)" for e
    by (induction bound arbitrary: e) (simp_all add: predict_resource_ok)
  then show "predictions_ok e \<Longrightarrow> predictions_ok (evaluate_and_predict sz frame bound tr e)"
    by (simp add: evaluate_and_predict_def prune_ok)
qed

text \<open>Fences never retire.\<close>

definition fence_stuck :: "FenceManager \<Rightarrow> bool" where
  "fence_stuck f \<longleftrightarrow> last_completed_id f = 0 \<and> executed f = [] \<and> (\<forall>c \<in> set (pending_changes f). fst c \<noteq> 0)"

lemma fence_stuck_run:
  assumes "length ops < 2 ^ 64 - 1"
  shows "fence_stuck (fold fence_step ops fence_init)
    \<and> next_id (fold fence_step ops fence_init) = of_nat (1 + length (filter (\<lambda>x. x \<noteq> Poll) ops))
    \<and> length (pending_changes (fold fence_step ops fence_init)) = length (filter (\<lambda>x. x \<noteq> Poll) ops)"
  using assms
proof (induction ops rule: rev_induct)
  case Nil
  then show ?case by (simp add: fence_stuck_def fence_init_def)
next
  case (snoc x ops)
  let ?f = "fold fence_step ops fence_init" and ?n = "length (filter (\<lambda>x. x \<noteq> Poll) ops)"
  have ih: "fence_stuck ?f" "next_id ?f = of_nat (1 + ?n)" "length (pending_changes ?f) = ?n"
    using snoc by simp_all
  have "?n \<le> length ops" by (rule length_filter_le)
  moreover have "length ops < 18446744073709551614" using snoc.prems by simp
  ultimately have "1 + ?n < 18446744073709551616" by linarith
  then have "unat (of_nat (1 + ?n) :: u64) = 1 + ?n" by (simp only: unat_of_nat) simp
  then have "(of_nat (1 + ?n) :: u64) \<noteq> 0" by (metis add_is_0 one_neq_zero unat_0)
  then show ?case
    using ih
    by (cases x) (auto simp: fence_stuck_def track_state_change_def poll_gpu_timeline_def retire_upto_def
        hardware_read_timeline_id_def Let_def takeWhile_eq_Nil_iff dropWhile_eq_self_iff hd_in_set dest: bspec [OF _ hd_in_set])
qed

section \<open>Properties\<close>

text \<open>C16: The dirty-flag shortcut of the synchronisation manager is sound: as long as the hardware
  timeline does not run backwards, every query in any sequence of operations is answered as the
  reference does, which has no flags and compares the timeline with the fence of the last load marked
  for the resource (and the time with the end of the bus lock). This includes slow paths of other
  threads' queries, which clear flags, at any point.\<close>
theorem sync_manager_refines_reference:
  assumes "legal_run sync_ref_step timeline_forward ops sync_ref_init"
    and "run_ops sync_step ops sync_init = (answers, m)"
  shows "run_ops sync_ref_step ops sync_ref_init = (answers, sync_abs m)"
  using sync.run_refines [OF sync_init_ok(1) _ assms(2)] assms(1) by (simp add: sync_init_ok)

theorem sync_manager_refines_reference_witness:
  "let ops = [MarkLoad 7 5, Query 7, Timeline 6, Query 7, MarkLoad 7 9, Clear 7, Query 7, BusLock 3, BusQuery 2];
       (answers, m) = run_ops sync_step ops sync_init
   in run_ops sync_ref_step ops sync_ref_init = (answers, sync_abs m)
    \<and> answers = [None, Some False, None, Some True, None, None, Some False, None, Some False]"
proof -
  let ?ops = "[MarkLoad 7 5, Query 7, Timeline 6, Query 7, MarkLoad 7 9, Clear 7, Query 7, BusLock 3, BusQuery 2]"
  obtain answers m where run: "run_ops sync_step ?ops sync_init = (answers, m)" by fastforce
  have legal: "legal_run sync_ref_step timeline_forward ?ops sync_ref_init" by (simp add: sync_ref_init_def)
  note ref = sync_manager_refines_reference [OF legal run]
  then have "answers = fst (run_ops sync_ref_step ?ops sync_ref_init)" by (simp only: fst_conv)
  also have "\<dots> = [None, Some False, None, Some True, None, None, Some False, None, Some False]"
    by (simp add: sync_ref_init_def)
  finally show ?thesis using ref run by (simp only: Let_def prod.case)
qed

text \<open>Prediction statistics balance: over any frames, every prediction issued has been counted as
  accurate, counted as wasted, or is still open (as 64-bit counters), and a resource has at most one
  open prediction. The prefetch hints leave no trace in the builder they are emitted to.\<close>
theorem predictions_balance:
  "let e = fold (\<lambda>(frame, bound). evaluate_and_predict sz frame bound tr) frames (predictive_init w c m b) in
   total_predictions (pr_stats e) = accurate_predictions (pr_stats e) + wasted_predictions (pr_stats e)
     + of_nat (length (active_predictions e))
   \<and> distinct (map fst (active_predictions e)) \<and> pr_builder e = b"
proof -
  have "pr_builder (fold (predict_resource sz frame tr) bound e) = pr_builder e" for frame bound e
    by (induction bound arbitrary: e) (simp_all add: predict_resource_builder)
  then have "pr_builder (fold (\<lambda>(frame, bound). evaluate_and_predict sz frame bound tr) frames e) = pr_builder e" for e
    by (induction frames arbitrary: e) (auto simp: evaluate_and_predict_def prune_predictions_def Let_def)
  moreover have "predictions_ok e \<Longrightarrow> predictions_ok (fold (\<lambda>(frame, bound). evaluate_and_predict sz frame bound tr) frames e)" for e
    by (induction frames arbitrary: e) (auto simp: evaluate_ok)
  moreover have "predictions_ok (predictive_init w c m b)" "pr_builder (predictive_init w c m b) = b" by (simp_all add: predictions_ok_def predictive_init_def)
  ultimately show ?thesis by (simp add: predictions_ok_def Let_def)
qed

text \<open>The fence manager never retires anything: the timeline register read is a stub that returns 0,
  while identifiers start at 1, so in any run of fewer than 2^64 - 1 operations no completion callback
  runs and no tracked change is ever reported safe.\<close>
theorem fence_manager_never_retires:
  assumes "length ops < 2 ^ 64 - 1" "f = fold fence_step ops fence_init" "c \<in> set (pending_changes f)"
  shows "executed f = [] \<and> length (pending_changes f) = length (filter (\<lambda>x. x \<noteq> Poll) ops)
    \<and> \<not> fence_is_safe_to_execute (fst c) f"
  using fence_stuck_run [OF assms(1)] assms(2,3) by (auto simp: fence_stuck_def fence_is_safe_to_execute_def)

theorem fence_manager_never_retires_witness:
  "let f = fold fence_step [Track 3, Poll] fence_init
   in executed f = [] \<and> length (pending_changes f) = length (filter (\<lambda>x. x \<noteq> Poll) [Track 3, Poll])
      \<and> \<not> fence_is_safe_to_execute (fst (1 :: u64, 3 :: nat)) f"
  unfolding Let_def
  by (rule fence_manager_never_retires [OF _ refl])
    (simp_all add: fence_init_def track_state_change_def poll_gpu_timeline_def retire_upto_def hardware_read_timeline_id_def Let_def)

text \<open>Proactive boosts are unreachable: the complexity trend is the constant 0.5 and the threshold is
  0.75, so no forecast, whatever its confidence, ever emits a scheduler hint or counts a boost.\<close>
theorem smoothing_never_boosts:
  "sme_proactive_boosts (fold process_forecast fs smoothing_init) = 0 \<and> sme_hints (fold process_forecast fs smoothing_init) = []"
proof -
  have "process_forecast f e = e" for f e
    by (simp add: process_forecast_def calculate_shader_complexity_trend_def)
  then have "fold process_forecast fs e = e" for e by (induction fs arbitrary: e) simp_all
  then show ?thesis by (simp add: smoothing_init_def)
qed

end
