(* ===== verification/Residency.thy ===== *)
theory Residency
  imports Streaming
begin

text \<open>
  The residency engine (\<open>its_engine_hardened.h\<close>) in all its builds, and the panning simulation that
  drives it (\<open>tools/simulate_panning.cpp\<close>). \<open>SYNAPSE_REAL_FENCE\<close>, \<open>SYNAPSE_REAL_DMA\<close> and the platform
  macros choose the preprocessor branches; \<open>its_build\<close> names the choice. The kernel's answer to a
  non-blocking wait on a fence is the parameter \<open>ib_wait\<close>: signalled, pending (\<open>STATUS_TIMEOUT\<close>, or
  \<open>ETIME\<close> or \<open>EAGAIN\<close>), or any other failure.
\<close>

section \<open>Builds\<close>

datatype fence_build = Fence_simulated | Fence_windows | Fence_linux | Fence_unsupported
datatype dma_build = Dma_simulated | Dma_real
datatype fence_wait = Fence_signalled | Fence_pending | Fence_failed

record its_build =
  ib_fence :: fence_build
  ib_dma :: dma_build
  ib_wait :: "u64 \<Rightarrow> fence_wait"

definition default_build :: its_build where
  "default_build = \<lparr>ib_fence = Fence_simulated, ib_dma = Dma_simulated, ib_wait = (\<lambda>_. Fence_signalled)\<rparr>"

text \<open>On Linux the id is narrowed to an \<open>int\<close>, the descriptor that is waited for.\<close>

definition fence_fd :: "u64 \<Rightarrow> 32 word" where
  "fence_fd fence_id = ucast fence_id"

definition hardware_fence_completed :: "its_build \<Rightarrow> u64 \<Rightarrow> bool" where
  "hardware_fence_completed b fence_id =
     (case ib_fence b of
        Fence_windows \<Rightarrow>
          if fence_id = 0 then True
          else (case ib_wait b fence_id of Fence_signalled \<Rightarrow> True | Fence_pending \<Rightarrow> False | Fence_failed \<Rightarrow> True)
      | Fence_linux \<Rightarrow>
          if fence_id = 0 then True
          else if sint (fence_fd fence_id) < 0 then True
          else (case ib_wait b (ucast (fence_fd fence_id)) of
                  Fence_signalled \<Rightarrow> True | Fence_pending \<Rightarrow> False | Fence_failed \<Rightarrow> True)
      | Fence_unsupported \<Rightarrow> True
      | Fence_simulated \<Rightarrow> True)"

section \<open>State\<close>

record MipResidencyState =
  mr_is_resident :: bool
  mr_dma_fence_id :: u64
  mr_current_priority :: f32

record TextureObject =
  tx_texture_id :: u64
  tx_width :: u32
  tx_height :: u32
  tx_mip_count :: u32
  tx_last_used_frame :: u64
  tx_residency :: "MipResidencyState list"

record TextureStreamingEngine =
  te_textures :: "(u64, TextureObject) alist"
  te_cache_hits :: u64
  te_cache_misses :: u64
  te_fault_count :: u32
  te_power :: "PowerEstimator option"

definition MipResidencyState_default :: MipResidencyState where
  "MipResidencyState_default = \<lparr>mr_is_resident = False, mr_dma_fence_id = 0, mr_current_priority = Fin 0\<rparr>"

definition texture_engine_init :: TextureStreamingEngine where
  "texture_engine_init = \<lparr>te_textures = [], te_cache_hits = 0, te_cache_misses = 0, te_fault_count = 0, te_power = None\<rparr>"

definition set_power_estimator :: "PowerEstimator option \<Rightarrow> TextureStreamingEngine \<Rightarrow> TextureStreamingEngine" where
  "set_power_estimator estimator e = e\<lparr>te_power := estimator\<rparr>"

definition register_texture :: "u64 \<Rightarrow> u32 \<Rightarrow> u32 \<Rightarrow> u32 \<Rightarrow> u64 \<Rightarrow> TextureStreamingEngine \<Rightarrow> TextureStreamingEngine" where
  "register_texture img width height mips texture_id e =
     e\<lparr>te_textures := al_update img \<lparr>tx_texture_id = texture_id, tx_width = width, tx_height = height,
         tx_mip_count = mips, tx_last_used_frame = 0,
         tx_residency = replicate (unat mips) MipResidencyState_default\<rparr>
       (te_textures e)\<rparr>"

definition unregister_texture :: "u64 \<Rightarrow> TextureStreamingEngine \<Rightarrow> TextureStreamingEngine" where
  "unregister_texture img e = e\<lparr>te_textures := al_delete img (te_textures e)\<rparr>"

section \<open>Loads and evictions\<close>

text \<open>A load or an eviction changes one level and the estimator, when one is attached. With real DMA a load
  logs the size of the full texture, computed in 32 bits.\<close>

definition trigger_async_load ::
  "its_build \<Rightarrow> f64 \<Rightarrow> TextureObject \<Rightarrow> MipResidencyState \<times> PowerEstimator option \<Rightarrow> MipResidencyState \<times> PowerEstimator option" where
  "trigger_async_load b ppb tex = (\<lambda>(mr, pw).
     (mr\<lparr>mr_dma_fence_id := 1, mr_is_resident := True\<rparr>,
      case ib_dma b of
        Dma_real \<Rightarrow> map_option (log_transaction ppb (ucast (tx_width tex * tx_height tex * 4)) 0) pw
      | Dma_simulated \<Rightarrow> pw))"

definition trigger_async_eviction ::
  "f64 \<Rightarrow> MipResidencyState \<times> PowerEstimator option \<Rightarrow> MipResidencyState \<times> PowerEstimator option" where
  "trigger_async_eviction ppb = (\<lambda>(mr, pw).
     (mr\<lparr>mr_is_resident := False, mr_dma_fence_id := 0\<rparr>, map_option (log_transaction ppb 0 0) pw))"

definition kLoadThreshold :: f32 where "kLoadThreshold = rnd32 (85 / 100)"
definition kEvictThreshold :: f32 where "kEvictThreshold = rnd32 (15 / 100)"

definition hysteresis_step ::
  "its_build \<Rightarrow> f64 \<Rightarrow> TextureObject \<Rightarrow> f32 \<Rightarrow> MipResidencyState \<times> PowerEstimator option \<Rightarrow> MipResidencyState \<times> PowerEstimator option" where
  "hysteresis_step b ppb tex demand s =
     (let resident = mr_is_resident (fst s)
      in if \<not> resident \<and> fp_lt kLoadThreshold demand then trigger_async_load b ppb tex s
         else if resident \<and> fp_lt demand kEvictThreshold then trigger_async_eviction ppb s
         else s)"

fun hysteresis_loop ::
  "its_build \<Rightarrow> f64 \<Rightarrow> TextureObject \<Rightarrow> f32 \<Rightarrow> MipResidencyState list \<Rightarrow> PowerEstimator option \<Rightarrow> MipResidencyState list \<times> PowerEstimator option" where
  "hysteresis_loop b ppb tex demand [] pw = ([], pw)"
| "hysteresis_loop b ppb tex demand (mr # mrs) pw =
     (let (mr, pw) = hysteresis_step b ppb tex demand (mr, pw);
          (mrs, pw) = hysteresis_loop b ppb tex demand mrs pw
      in (mr # mrs, pw))"

definition update_residency_with_hysteresis ::
  "its_build \<Rightarrow> f64 \<Rightarrow> f32 \<Rightarrow> TextureObject \<Rightarrow> PowerEstimator option \<Rightarrow> TextureObject \<times> PowerEstimator option" where
  "update_residency_with_hysteresis b ppb demand tex pw =
     (let (mrs, pw) = hysteresis_loop b ppb tex demand (tx_residency tex) pw
      in (tex\<lparr>tx_residency := mrs\<rparr>, pw))"

definition prepare_for_use :: "its_build \<Rightarrow> f64 \<Rightarrow> u64 \<Rightarrow> Analyzer \<Rightarrow> TextureStreamingEngine \<Rightarrow> TextureStreamingEngine" where
  "prepare_for_use b ppb img a e =
     (case al_lookup (te_textures e) img of
        None \<Rightarrow> e
      | Some tex \<Rightarrow>
          let (tex', pw) = update_residency_with_hysteresis b ppb (get_mip_demand_probability a) tex (te_power e)
          in e\<lparr>te_textures := al_update img tex' (te_textures e), te_power := pw\<rparr>)"

section \<open>Queries\<close>

definition level_usable :: "its_build \<Rightarrow> MipResidencyState \<Rightarrow> bool" where
  "level_usable b mr \<longleftrightarrow> mr_is_resident mr \<and> hardware_fence_completed b (mr_dma_fence_id mr)"

fun first_safe_mip :: "its_build \<Rightarrow> nat \<Rightarrow> MipResidencyState list \<Rightarrow> nat option" where
  "first_safe_mip b i [] = None"
| "first_safe_mip b i (mr # mrs) = (if level_usable b mr then Some i else first_safe_mip b (i + 1) mrs)"

definition get_safe_mip_level :: "its_build \<Rightarrow> u64 \<Rightarrow> TextureStreamingEngine \<Rightarrow> u32 \<times> TextureStreamingEngine" where
  "get_safe_mip_level b img e =
     (let fault = e\<lparr>te_cache_misses := te_cache_misses e + 1, te_fault_count := te_fault_count e + 1\<rparr>
      in case al_lookup (te_textures e) img of
           None \<Rightarrow> (0, fault)
         | Some tex \<Rightarrow>
             (case first_safe_mip b 0 (take (unat (tx_mip_count tex)) (tx_residency tex)) of
                Some i \<Rightarrow> (of_nat i, e\<lparr>te_cache_hits := te_cache_hits e + 1\<rparr>)
              | None \<Rightarrow> (if tx_mip_count tex > 0 then tx_mip_count tex - 1 else 0, fault)))"

definition mark_dma_complete :: "u64 \<Rightarrow> u64 \<Rightarrow> u32 \<Rightarrow> TextureStreamingEngine \<Rightarrow> bool \<times> TextureStreamingEngine" where
  "mark_dma_complete img fence mip e =
     (case al_lookup (te_textures e) img of
        None \<Rightarrow> (False, e)
      | Some tex \<Rightarrow>
          if mip \<ge> tx_mip_count tex then (False, e)
          else (True, e\<lparr>te_textures := al_update img (tex\<lparr>tx_residency := (tx_residency tex)[unat mip :=
                 (tx_residency tex ! unat mip)\<lparr>mr_dma_fence_id := fence, mr_is_resident := True\<rparr>]\<rparr>) (te_textures e)\<rparr>))"

definition get_and_reset_fault_count :: "TextureStreamingEngine \<Rightarrow> u32 \<times> TextureStreamingEngine" where
  "get_and_reset_fault_count e = (te_fault_count e, e\<lparr>te_fault_count := 0\<rparr>)"

definition engine_cache_hit_rate :: "TextureStreamingEngine \<Rightarrow> f32" where
  "engine_cache_hit_rate e =
     (let total = te_cache_hits e + te_cache_misses e
      in if total = 0 then Fin 0 else f32_div (f32_of_word (te_cache_hits e)) (f32_of_word total))"

text \<open>The public interface.\<close>

datatype texture_op = Register_texture u64 u32 u32 u32 u64 | Unregister_texture u64 | Prepare_for_use u64 Analyzer
  | Get_safe_mip u64 | Mark_dma u64 u64 u32 | Take_faults | Set_estimator "PowerEstimator option"

datatype texture_answer = No_answer | Level u32 | Marked bool | Faults u32

fun texture_step :: "its_build \<Rightarrow> f64 \<Rightarrow> texture_op \<Rightarrow> TextureStreamingEngine \<Rightarrow> texture_answer \<times> TextureStreamingEngine" where
  "texture_step b ppb (Register_texture img w h m tid) e = (No_answer, register_texture img w h m tid e)"
| "texture_step b ppb (Unregister_texture img) e = (No_answer, unregister_texture img e)"
| "texture_step b ppb (Prepare_for_use img a) e = (No_answer, prepare_for_use b ppb img a e)"
| "texture_step b ppb (Get_safe_mip img) e = (let (l, e) = get_safe_mip_level b img e in (Level l, e))"
| "texture_step b ppb (Mark_dma img fence mip) e = (let (ok, e) = mark_dma_complete img fence mip e in (Marked ok, e))"
| "texture_step b ppb Take_faults e = (let (n, e) = get_and_reset_fault_count e in (Faults n, e))"
| "texture_step b ppb (Set_estimator estimator) e = (No_answer, set_power_estimator estimator e)"

section \<open>The panning simulation\<close>

text \<open>A window of 4 by 4 textures pans over an atlas of 16 by 16, one step every ten frames; each frame prepares
  and samples the textures in view and the skybox.\<close>

definition atlas_dim :: nat where "atlas_dim = 16"
definition view_dim :: nat where "view_dim = 4"

definition sky_image :: u64 where "sky_image = 1000"

definition panning_textures :: "TextureStreamingEngine \<Rightarrow> TextureStreamingEngine" where
  "panning_textures e =
     register_texture sky_image 4096 4096 1 999
       (fold (\<lambda>i. register_texture (of_nat (i + 1)) 256 256 8 (of_nat i)) [0..<atlas_dim * atlas_dim] e)"

definition pan :: "nat \<Rightarrow> nat \<times> nat \<Rightarrow> nat \<times> nat" where
  "pan f = (\<lambda>(x, y).
     if f > 0 \<and> f mod 10 = 0 then
       if x + view_dim < atlas_dim then (x + 1, y)
       else if y + view_dim < atlas_dim then (0, y + 1) else (x, y)
     else (x, y))"

definition active_images :: "nat \<times> nat \<Rightarrow> u64 list" where
  "active_images = (\<lambda>(x, y).
     map (\<lambda>i. of_nat (i + 1)) (concat (map (\<lambda>dy. map (\<lambda>dx. (y + dy) * atlas_dim + (x + dx)) [0..<view_dim]) [0..<view_dim]))
     @ [sky_image])"

definition use_image :: "its_build \<Rightarrow> f64 \<Rightarrow> Analyzer \<Rightarrow> u64 \<Rightarrow> TextureStreamingEngine \<Rightarrow> TextureStreamingEngine" where
  "use_image b ppb a img e = snd (get_safe_mip_level b img (prepare_for_use b ppb img a e))"

definition panning_frame ::
  "its_build \<Rightarrow> f64 \<Rightarrow> Analyzer \<Rightarrow> nat \<Rightarrow> (nat \<times> nat) \<times> TextureStreamingEngine \<Rightarrow> (nat \<times> nat) \<times> TextureStreamingEngine" where
  "panning_frame b ppb a f = (\<lambda>(xy, e). let xy = pan f xy in (xy, fold (use_image b ppb a) (active_images xy) e))"

definition simulate_panning :: "its_build \<Rightarrow> f64 \<Rightarrow> f32 \<times> u32" where
  "simulate_panning b ppb =
     (let e = snd (fold (panning_frame b ppb analyzer_init) [0..<200] ((0, 0), panning_textures texture_engine_init))
      in (engine_cache_hit_rate e, fst (get_and_reset_fault_count e)))"

section \<open>Invariant\<close>

text \<open>A texture has one entry per mip level, and an entry that is not resident carries the null fence.\<close>

definition texture_ok :: "TextureObject \<Rightarrow> bool" where
  "texture_ok tex \<longleftrightarrow> length (tx_residency tex) = unat (tx_mip_count tex)
     \<and> (\<forall>mr \<in> set (tx_residency tex). \<not> mr_is_resident mr \<longrightarrow> mr_dma_fence_id mr = 0)"

definition engine_inv :: "TextureStreamingEngine \<Rightarrow> bool" where
  "engine_inv e \<longleftrightarrow> (\<forall>tex \<in> snd ` set (te_textures e). texture_ok tex)"

lemma engine_invD: "engine_inv e \<Longrightarrow> al_lookup (te_textures e) img = Some tex \<Longrightarrow> texture_ok tex"
  by (force simp: engine_inv_def dest: al_lookup_SomeD)

lemma engine_inv_update:
  assumes "engine_inv e" "texture_ok tex" "te_textures e' = al_update img tex (te_textures e)"
  shows "engine_inv e'"
  unfolding engine_inv_def
proof
  fix t
  assume "t \<in> snd ` set (te_textures e')"
  then have "t = tex \<or> t \<in> snd ` set (te_textures e)" using values_al_update [of img tex "te_textures e"] assms(3) by auto
  with assms(1,2) show "texture_ok t" by (auto simp: engine_inv_def)
qed

lemma engine_inv_frame [simp]:
  "engine_inv (e\<lparr>te_fault_count := n\<rparr>) = engine_inv e" "engine_inv (e\<lparr>te_power := pw\<rparr>) = engine_inv e"
  "engine_inv (e\<lparr>te_cache_misses := k\<rparr>) = engine_inv e" "engine_inv (e\<lparr>te_cache_hits := k\<rparr>) = engine_inv e"
  by (simp_all add: engine_inv_def)

lemma texture_engine_init_inv [simp, invariant_intros]: "engine_inv texture_engine_init"
  by (simp add: engine_inv_def texture_engine_init_def)

lemma register_texture_inv [invariant_intros]: "engine_inv e \<Longrightarrow> engine_inv (register_texture img w h m tid e)"
  by (erule engine_inv_update [where img = img])
    (simp_all add: register_texture_def texture_ok_def MipResidencyState_default_def)

lemma unregister_texture_inv [invariant_intros]: "engine_inv e \<Longrightarrow> engine_inv (unregister_texture img e)"
  by (auto simp: engine_inv_def unregister_texture_def al_delete_def)

lemma hysteresis_step_fence:
  "hysteresis_step b ppb tex demand (mr, pw) = (mr', pw') \<Longrightarrow> (\<not> mr_is_resident mr \<longrightarrow> mr_dma_fence_id mr = 0)
     \<Longrightarrow> \<not> mr_is_resident mr' \<Longrightarrow> mr_dma_fence_id mr' = 0"
  by (auto simp: hysteresis_step_def trigger_async_load_def trigger_async_eviction_def Let_def split: if_splits)

lemma hysteresis_loop_ok:
  "hysteresis_loop b ppb tex demand mrs pw = (mrs', pw') \<Longrightarrow>
     (\<forall>mr \<in> set mrs. \<not> mr_is_resident mr \<longrightarrow> mr_dma_fence_id mr = 0) \<Longrightarrow>
     length mrs' = length mrs \<and> (\<forall>mr \<in> set mrs'. \<not> mr_is_resident mr \<longrightarrow> mr_dma_fence_id mr = 0)"
proof (induction mrs arbitrary: pw mrs' pw')
  case (Cons mr mrs)
  obtain mr1 pw1 where one: "hysteresis_step b ppb tex demand (mr, pw) = (mr1, pw1)" by fastforce
  obtain mrs2 pw2 where rest: "hysteresis_loop b ppb tex demand mrs pw1 = (mrs2, pw2)" by fastforce
  have "mrs' = mr1 # mrs2" using Cons.prems(1) one rest by simp
  then show ?case using Cons.IH [OF rest] Cons.prems(2) hysteresis_step_fence [OF one] by simp
qed simp

lemma update_residency_ok:
  assumes "texture_ok tex" "update_residency_with_hysteresis b ppb demand tex pw = (tex', pw')"
  shows "texture_ok tex'"
proof -
  obtain mrs where loop: "hysteresis_loop b ppb tex demand (tx_residency tex) pw = (mrs, pw')"
    "tex' = tex\<lparr>tx_residency := mrs\<rparr>"
    using assms(2) by (auto simp: update_residency_with_hysteresis_def split: prod.splits)
  with hysteresis_loop_ok [OF loop(1)] assms(1) show ?thesis by (simp add: texture_ok_def)
qed

lemma prepare_for_use_inv [invariant_intros]:
  assumes "engine_inv e"
  shows "engine_inv (prepare_for_use b ppb img a e)"
proof (cases "al_lookup (te_textures e) img")
  case None
  with assms show ?thesis by (simp add: prepare_for_use_def)
next
  case (Some tex)
  obtain tex' pw where upd:
    "update_residency_with_hysteresis b ppb (get_mip_demand_probability a) tex (te_power e) = (tex', pw)" by fastforce
  with Some have "te_textures (prepare_for_use b ppb img a e) = al_update img tex' (te_textures e)"
    by (simp add: prepare_for_use_def)
  with assms update_residency_ok [OF engine_invD [OF assms Some] upd] show ?thesis by (rule engine_inv_update)
qed

lemma get_safe_mip_level_textures [simp, frame_simps]: "te_textures (snd (get_safe_mip_level b img e)) = te_textures e"
  by (simp add: get_safe_mip_level_def Let_def split: option.split)

lemma get_safe_mip_level_inv [simp]: "engine_inv (snd (get_safe_mip_level b img e)) = engine_inv e"
  by (simp add: engine_inv_def)

lemma mark_dma_complete_inv [invariant_intros]:
  assumes "engine_inv e"
  shows "engine_inv (snd (mark_dma_complete img fence mip e))"
proof (cases "al_lookup (te_textures e) img")
  case None
  with assms show ?thesis by (simp add: mark_dma_complete_def)
next
  case (Some tex)
  let ?tex = "tex\<lparr>tx_residency := (tx_residency tex)[unat mip :=
    (tx_residency tex ! unat mip)\<lparr>mr_dma_fence_id := fence, mr_is_resident := True\<rparr>]\<rparr>"
  have "texture_ok ?tex"
    using engine_invD [OF assms Some] by (auto simp: texture_ok_def dest!: set_update_subset_insert [THEN subsetD])
  from engine_inv_update [OF assms this, of "snd (mark_dma_complete img fence mip e)" img]
  show ?thesis using Some assms by (cases "mip \<ge> tx_mip_count tex") (simp_all add: mark_dma_complete_def)
qed

lemma texture_step_inv [invariant_intros]: "engine_inv e \<Longrightarrow> engine_inv (snd (texture_step b ppb op e))"
  by (cases op) (simp_all add: split_beta get_and_reset_fault_count_def set_power_estimator_def invariant_intros)

section \<open>Lemmas on queries\<close>

lemma first_safe_mip_Some:
  "first_safe_mip b k mrs = Some i \<Longrightarrow> k \<le> i \<and> i < k + length mrs \<and> level_usable b (mrs ! (i - k))
     \<and> (\<forall>j < i - k. \<not> level_usable b (mrs ! j))"
proof (induction b k mrs rule: first_safe_mip.induct)
  case (2 b k mr mrs)
  show ?case
  proof (cases "level_usable b mr")
    case True
    then show ?thesis using 2(2) by simp
  next
    case False
    with 2 have "first_safe_mip b (k + 1) mrs = Some i" by simp
    from 2(1) [OF False this] False show ?thesis by (auto simp: nth_Cons' less_Suc_eq_0_disj Suc_diff_le)
  qed
qed simp

lemma first_safe_mip_None: "first_safe_mip b k mrs = None \<longleftrightarrow> (\<forall>mr \<in> set mrs. \<not> level_usable b mr)"
  by (induction b k mrs rule: first_safe_mip.induct) auto

lemma take_residency: "texture_ok tex \<Longrightarrow> take (unat (tx_mip_count tex)) (tx_residency tex) = tx_residency tex"
  by (simp add: texture_ok_def)

lemma prepare_for_use_frame [simp, frame_simps]:
  "te_cache_hits (prepare_for_use b ppb img a e) = te_cache_hits e"
  "te_cache_misses (prepare_for_use b ppb img a e) = te_cache_misses e"
  "te_fault_count (prepare_for_use b ppb img a e) = te_fault_count e"
  by (simp_all add: prepare_for_use_def Let_def split: option.split prod.split)

section \<open>Lemmas on the counters\<close>

fun is_query :: "texture_op \<Rightarrow> bool" where
  "is_query (Get_safe_mip img) = True"
| "is_query op = False"

fun reported_faults :: "texture_answer \<Rightarrow> u32" where
  "reported_faults (Faults n) = n"
| "reported_faults r = 0"

lemma mod_64_32: "(m :: nat) mod 18446744073709551616 mod 4294967296 = m mod 4294967296"
  by (rule mod_mod_cancel) simp

lemma ucast_Suc: "ucast (n + 1 :: u64) = (ucast n + 1 :: u32)"
  by (intro word_unat_eq_iff [THEN iffD2]) (simp add: unsigned_ucast_eq unat_word_ariths take_bit_eq_mod mod_64_32 mod_Suc_eq)

lemma get_safe_mip_level_counts:
  assumes "get_safe_mip_level b img e = (l, e')"
  shows "te_cache_hits e' + te_cache_misses e' = te_cache_hits e + te_cache_misses e + 1"
    "te_fault_count e' + ucast (te_cache_misses e) = te_fault_count e + ucast (te_cache_misses e')"
  using assms by (auto simp: get_safe_mip_level_def Let_def ucast_Suc split: option.splits)

lemma texture_step_counts:
  assumes "texture_step b ppb op e = (r, e')"
  shows "te_cache_hits e' + te_cache_misses e' = te_cache_hits e + te_cache_misses e + of_bool (is_query op)"
    "reported_faults r + te_fault_count e' + ucast (te_cache_misses e) = te_fault_count e + ucast (te_cache_misses e')"
  using assms
  by (cases op; auto simp: register_texture_def unregister_texture_def set_power_estimator_def
      get_and_reset_fault_count_def mark_dma_complete_def dest: get_safe_mip_level_counts
      split: prod.splits option.splits if_splits)+

lemma telescope_sum:
  "r + f1 + u0 = f0 + u1 \<Longrightarrow> s + f2 + u1 = f1 + u2 \<Longrightarrow> (r + s) + f2 + u0 = f0 + (u2 :: 'a :: ab_group_add)"
proof -
  assume "r + f1 + u0 = f0 + u1" "s + f2 + u1 = f1 + u2"
  then have "r = f0 + u1 - u0 - f1" "s = f1 + u2 - u1 - f2" by (auto simp: algebra_simps)
  then show ?thesis by simp
qed

lemma texture_run_counts:
  "run_ops (texture_step b ppb) ops e = (rs, e') \<Longrightarrow>
     te_cache_hits e' + te_cache_misses e' = te_cache_hits e + te_cache_misses e + of_nat (length (filter is_query ops))
     \<and> sum_list (map reported_faults rs) + te_fault_count e' + ucast (te_cache_misses e)
         = te_fault_count e + ucast (te_cache_misses e')"
proof (induction ops arbitrary: e rs)
  case (Cons op ops)
  obtain r e1 where one: "texture_step b ppb op e = (r, e1)" by fastforce
  obtain rs1 where rest: "run_ops (texture_step b ppb) ops e1 = (rs1, e')" "rs = r # rs1"
    using Cons.prems one by (auto split: prod.splits)
  note ih = Cons.IH [OF rest(1)] and step = texture_step_counts [OF one]
  have "te_cache_hits e' + te_cache_misses e' =
      te_cache_hits e + te_cache_misses e + of_nat (length (filter is_query (op # ops)))"
    using ih step(1) by (simp add: algebra_simps)
  moreover have "sum_list (map reported_faults rs) + te_fault_count e' + ucast (te_cache_misses e)
      = te_fault_count e + ucast (te_cache_misses e')"
    using telescope_sum [OF step(2) conjunct2 [OF ih]] rest(2) by simp
  ultimately show ?case by blast
qed simp

lemma texture_run_inv: "engine_inv e \<Longrightarrow> engine_inv (snd (run_ops (texture_step b ppb) ops e))"
proof (induction ops arbitrary: e)
  case (Cons op ops)
  from Cons.IH [OF texture_step_inv [OF Cons.prems, of b ppb op]] show ?case by (simp add: split_beta)
qed simp

section \<open>The cold engine\<close>

text \<open>An engine none of whose levels is resident, and that has answered no query with a hit.\<close>

definition engine_cold :: "TextureStreamingEngine \<Rightarrow> bool" where
  "engine_cold e \<longleftrightarrow> te_cache_hits e = 0 \<and>
     (\<forall>tex \<in> snd ` set (te_textures e). \<forall>mr \<in> set (tx_residency tex). \<not> mr_is_resident mr)"

lemma engine_coldD:
  "engine_cold e \<Longrightarrow> al_lookup (te_textures e) img = Some tex \<Longrightarrow> mr \<in> set (tx_residency tex) \<Longrightarrow> \<not> mr_is_resident mr"
  by (force simp: engine_cold_def dest: al_lookup_SomeD)

lemma engine_cold_update:
  assumes "engine_cold e" "\<forall>mr \<in> set (tx_residency tex). \<not> mr_is_resident mr"
    and "te_textures e' = al_update img tex (te_textures e)" "te_cache_hits e' = te_cache_hits e"
  shows "engine_cold e'"
  unfolding engine_cold_def
proof (intro conjI ballI)
  fix t mr
  assume "t \<in> snd ` set (te_textures e')" "mr \<in> set (tx_residency t)"
  moreover have "t = tex \<or> t \<in> snd ` set (te_textures e)"
    using values_al_update [of img tex "te_textures e"] assms(3) \<open>t \<in> _\<close> by auto
  ultimately show "\<not> mr_is_resident mr" using assms(1,2) by (auto simp: engine_cold_def)
qed (use assms(1,4) in \<open>simp add: engine_cold_def\<close>)

lemma texture_engine_init_cold [simp]: "engine_cold texture_engine_init"
  by (simp add: engine_cold_def texture_engine_init_def)

lemma engine_cold_power [simp]: "engine_cold (e\<lparr>te_power := pw\<rparr>) = engine_cold e"
  by (simp add: engine_cold_def)

lemma register_texture_cold: "engine_cold e \<Longrightarrow> engine_cold (register_texture img w h m tid e)"
  by (erule engine_cold_update [where img = img]) (simp_all add: register_texture_def MipResidencyState_default_def)

lemma unregister_texture_cold: "engine_cold e \<Longrightarrow> engine_cold (unregister_texture img e)"
  by (auto simp: engine_cold_def unregister_texture_def al_delete_def)

lemma hysteresis_loop_cold:
  "\<not> fp_lt kLoadThreshold demand \<Longrightarrow> \<forall>mr \<in> set mrs. \<not> mr_is_resident mr \<Longrightarrow>
     hysteresis_loop b ppb tex demand mrs pw = (mrs, pw)"
  by (induction mrs) (simp_all add: hysteresis_step_def)

lemma prepare_for_use_cold:
  assumes "engine_cold e" "\<not> fp_lt kLoadThreshold (get_mip_demand_probability a)"
  shows "engine_cold (prepare_for_use b ppb img a e)" "te_power (prepare_for_use b ppb img a e) = te_power e"
proof -
  have "engine_cold (prepare_for_use b ppb img a e) \<and> te_power (prepare_for_use b ppb img a e) = te_power e"
  proof (cases "al_lookup (te_textures e) img")
    case None
    with assms show ?thesis by (simp add: prepare_for_use_def)
  next
    case (Some tex)
    have cold: "\<forall>mr \<in> set (tx_residency tex). \<not> mr_is_resident mr" using engine_coldD [OF assms(1) Some] by blast
    have "prepare_for_use b ppb img a e = e\<lparr>te_textures := al_update img tex (te_textures e)\<rparr>"
      using Some hysteresis_loop_cold [OF assms(2) cold, of b ppb tex "te_power e"]
      by (simp add: prepare_for_use_def update_residency_with_hysteresis_def)
    with engine_cold_update [OF assms(1) cold, of "prepare_for_use b ppb img a e" img] show ?thesis by simp
  qed
  then show "engine_cold (prepare_for_use b ppb img a e)" "te_power (prepare_for_use b ppb img a e) = te_power e" by simp_all
qed

lemma get_safe_mip_level_cold:
  assumes "engine_cold e" "get_safe_mip_level b img e = (l, e')"
  shows "engine_cold e'" "te_fault_count e' = te_fault_count e + 1"
proof -
  have "first_safe_mip b 0 (take n (tx_residency tex)) = None" if "al_lookup (te_textures e) img = Some tex" for n tex
    using engine_coldD [OF assms(1) that] by (auto simp: first_safe_mip_None level_usable_def dest: in_set_takeD)
  then have "engine_cold e' \<and> te_fault_count e' = te_fault_count e + 1"
    using assms by (auto simp: get_safe_mip_level_def engine_cold_def Let_def split: option.splits)
  then show "engine_cold e'" "te_fault_count e' = te_fault_count e + 1" by simp_all
qed

lemma cold_demand: "get_mip_demand_probability (update_its_stats 0 0 a) = rnd32 (1 / 2)"
  using rnd32_nat [of 1] rnd32_nat [of 2]
  by (simp add: get_mip_demand_probability_def update_its_stats_def f32_of_word_def)

lemma fp_lt_not_le: "fp_le y x \<Longrightarrow> \<not> fp_lt x y"
  by (cases x; cases y) auto

lemma cold_demand_no_load: "\<not> fp_lt kLoadThreshold (get_mip_demand_probability (update_its_stats 0 0 a))"
  unfolding cold_demand kLoadThreshold_def by (intro fp_lt_not_le rnd32_mono) simp_all

lemma analyzer_init_stats: "update_its_stats 0 0 analyzer_init = analyzer_init"
  by (simp add: update_its_stats_def analyzer_init_def)

lemma use_image_cold:
  assumes "engine_cold e"
  shows "engine_cold (use_image b ppb analyzer_init img e)
     \<and> te_fault_count (use_image b ppb analyzer_init img e) = te_fault_count e + 1
     \<and> te_cache_misses (use_image b ppb analyzer_init img e) = te_cache_misses e + 1"
proof -
  let ?e = "prepare_for_use b ppb img analyzer_init e"
  obtain l e' where q: "get_safe_mip_level b img ?e = (l, e')" by fastforce
  have cold: "engine_cold ?e"
    using prepare_for_use_cold(1) [OF assms cold_demand_no_load [of analyzer_init, unfolded analyzer_init_stats]] .
  note c = get_safe_mip_level_cold [OF cold q] and n = get_safe_mip_level_counts(1) [OF q]
  have "te_cache_hits e' = 0" "te_cache_hits ?e = 0" using c(1) cold by (simp_all add: engine_cold_def)
  with n c show ?thesis by (simp add: use_image_def q)
qed

lemma panning_uses:
  "engine_cold e \<Longrightarrow> engine_cold (fold (use_image b ppb analyzer_init) imgs e)
     \<and> te_fault_count (fold (use_image b ppb analyzer_init) imgs e) = te_fault_count e + of_nat (length imgs)
     \<and> te_cache_misses (fold (use_image b ppb analyzer_init) imgs e) = te_cache_misses e + of_nat (length imgs)"
proof (induction imgs arbitrary: e)
  case (Cons img imgs)
  from Cons.IH [OF conjunct1 [OF use_image_cold [OF Cons.prems]], of b ppb img] use_image_cold [OF Cons.prems, of b ppb img]
  show ?case by (simp add: algebra_simps)
qed simp

lemma length_active_images: "length (active_images xy) = 17"
  by (cases xy) (simp add: active_images_def view_dim_def length_concat comp_def upt_rec)

lemma panning_frames:
  "engine_cold (snd s) \<Longrightarrow>
     (let e = snd (fold (panning_frame b ppb analyzer_init) fs s)
      in engine_cold e \<and> te_fault_count e = te_fault_count (snd s) + of_nat (17 * length fs)
         \<and> te_cache_misses e = te_cache_misses (snd s) + of_nat (17 * length fs))"
proof (induction fs arbitrary: s)
  case (Cons f fs)
  let ?s = "panning_frame b ppb analyzer_init f s"
  have "engine_cold (snd ?s) \<and> te_fault_count (snd ?s) = te_fault_count (snd s) + 17
      \<and> te_cache_misses (snd ?s) = te_cache_misses (snd s) + 17"
    using panning_uses [OF Cons.prems, of b ppb "active_images (pan f (fst s))"]
    by (simp add: panning_frame_def split_beta Let_def length_active_images)
  with Cons.IH [of ?s] show ?case by (simp add: Let_def algebra_simps)
qed simp

lemma register_texture_frame [simp, frame_simps]:
  "te_cache_hits (register_texture img w h m tid e) = te_cache_hits e"
  "te_cache_misses (register_texture img w h m tid e) = te_cache_misses e"
  "te_fault_count (register_texture img w h m tid e) = te_fault_count e"
  "te_cache_misses (unregister_texture img e) = te_cache_misses e"
  by (simp_all add: register_texture_def unregister_texture_def)

lemma registered_cold:
  "engine_cold e \<Longrightarrow> engine_cold (fold (\<lambda>i. register_texture (img i) w h m (tid i)) is e)
     \<and> te_fault_count (fold (\<lambda>i. register_texture (img i) w h m (tid i)) is e) = te_fault_count e
     \<and> te_cache_misses (fold (\<lambda>i. register_texture (img i) w h m (tid i)) is e) = te_cache_misses e"
  by (induction "is" arbitrary: e) (simp_all add: register_texture_cold)

lemma panning_textures_cold:
  "engine_cold (panning_textures texture_engine_init)"
  "te_fault_count (panning_textures texture_engine_init) = 0" "te_cache_misses (panning_textures texture_engine_init) = 0"
  using registered_cold [OF texture_engine_init_cold, of "\<lambda>i. of_nat (i + 1)" 256 256 8 of_nat "[0..<atlas_dim * atlas_dim]"]
  unfolding panning_textures_def
  by (auto simp only: register_texture_frame intro: register_texture_cold) (simp_all add: texture_engine_init_def)

section \<open>Properties\<close>

text \<open>C30: The mip level handed out is in range and, on a hit, is the most detailed level that is resident and
  whose transfer the fence reports complete, in every build. A miss is counted, with a fault, exactly when
  no level qualifies, and falls back to the coarsest level; otherwise a hit is counted and no miss. Nothing
  else of the engine changes.\<close>
theorem safe_mip_level_correct:
  assumes "engine_inv e" "al_lookup (te_textures e) img = Some tex" "0 < unat (tx_mip_count tex)"
    and "get_safe_mip_level b img e = (level, e')"
  shows "unat level < unat (tx_mip_count tex) \<and>
    (if \<exists>mr \<in> set (tx_residency tex). level_usable b mr
     then e' = e\<lparr>te_cache_hits := te_cache_hits e + 1\<rparr> \<and> te_cache_misses e' = te_cache_misses e \<and> level_usable b (tx_residency tex ! unat level)
       \<and> (\<forall>j < unat level. \<not> level_usable b (tx_residency tex ! j))
     else e' = e\<lparr>te_cache_misses := te_cache_misses e + 1, te_fault_count := te_fault_count e + 1\<rparr> \<and> unat level = unat (tx_mip_count tex) - 1)"
proof -
  have ok: "texture_ok tex" using assms(1,2) by (rule engine_invD)
  then have len: "length (tx_residency tex) = unat (tx_mip_count tex)" by (simp add: texture_ok_def)
  note all = take_residency [OF ok]
  show ?thesis
  proof (cases "first_safe_mip b 0 (tx_residency tex)")
    case None
    have "1 \<le> tx_mip_count tex" "0 < tx_mip_count tex" using assms(3) by (simp_all add: word_le_nat_alt word_less_nat_alt)
    then have "unat (tx_mip_count tex - 1) = unat (tx_mip_count tex) - 1" by (simp add: unat_sub)
    moreover have "\<forall>mr \<in> set (tx_residency tex). \<not> level_usable b mr" using None by (simp add: first_safe_mip_None)
    ultimately show ?thesis
      using None assms(2-4) \<open>0 < tx_mip_count tex\<close> by (auto simp: get_safe_mip_level_def all Let_def)
  next
    case (Some i)
    note spec = first_safe_mip_Some [OF Some]
    have "i < unat (tx_mip_count tex)" using spec len by simp
    also have "\<dots> < 4294967296" by (rule unat_lt_32)
    finally have "unat (of_nat i :: u32) = i" by (simp only: unat_of_nat) simp
    then show ?thesis using Some spec assms(2,4) len by (auto simp: get_safe_mip_level_def all Let_def)
  qed
qed

theorem safe_mip_level_correct_witness:
  "let b = default_build\<lparr>ib_fence := Fence_linux, ib_wait := (\<lambda>fd. if fd = 7 then Fence_pending else Fence_signalled)\<rparr>;
       e = snd (mark_dma_complete 9 8 3 (snd (mark_dma_complete 9 7 2 (register_texture 9 64 64 4 1 texture_engine_init))))
   in \<exists>level e'. get_safe_mip_level b 9 e = (level, e') \<and> unat level < 4
     \<and> te_cache_hits e' = te_cache_hits e + 1 \<and> te_cache_misses e' = te_cache_misses e"
proof -
  let ?b = "default_build\<lparr>ib_fence := Fence_linux, ib_wait := (\<lambda>fd. if fd = 7 then Fence_pending else Fence_signalled)\<rparr>"
  let ?e = "snd (mark_dma_complete 9 8 3 (snd (mark_dma_complete 9 7 2 (register_texture 9 64 64 4 1 texture_engine_init))))"
  let ?mr = "MipResidencyState_default\<lparr>mr_dma_fence_id := 8, mr_is_resident := True\<rparr>"
  have inv: "engine_inv ?e" by (intro invariant_intros)
  have "\<exists>tex. al_lookup (te_textures ?e) 9 = Some tex \<and> tx_mip_count tex = 4 \<and> ?mr \<in> set (tx_residency tex)"
    by (simp add: mark_dma_complete_def register_texture_def set_update_memI)
  then obtain tex where tex: "al_lookup (te_textures ?e) 9 = Some tex" "tx_mip_count tex = 4" "?mr \<in> set (tx_residency tex)"
    by blast
  have "level_usable ?b ?mr" by code_simp
  with tex(3) have usable: "\<exists>mr \<in> set (tx_residency tex). level_usable ?b mr" by (rule bexI [rotated])
  obtain level e' where g: "get_safe_mip_level ?b 9 ?e = (level, e')" by fastforce
  have "unat level < 4 \<and> te_cache_hits e' = te_cache_hits ?e + 1 \<and> te_cache_misses e' = te_cache_misses ?e"
    using safe_mip_level_correct [OF inv tex(1) _ g, unfolded if_P [OF usable]] tex(2) by simp
  with g show ?thesis unfolding Let_def by blast
qed

text \<open>C25: The engine's books balance: over any sequence of calls of its interface every query is counted once,
  as a hit or as a miss; the faults it has reported and those still unread are together its misses; and
  every texture keeps one entry per mip level, with the null fence where the level is not resident.\<close>
theorem engine_accounting:
  assumes "run_ops (texture_step b ppb) ops texture_engine_init = (rs, e)"
  shows "te_cache_hits e + te_cache_misses e = of_nat (length (filter is_query ops))
    \<and> sum_list (map reported_faults rs) + te_fault_count e = ucast (te_cache_misses e) \<and> engine_inv e"
proof -
  have "engine_inv e" using texture_run_inv [of texture_engine_init b ppb ops] assms by simp
  with texture_run_counts [OF assms] show ?thesis by (simp add: texture_engine_init_def)
qed

theorem engine_accounting_witness:
  "let ops = [Register_texture 9 64 64 4 1, Get_safe_mip 9, Mark_dma 9 1 2, Get_safe_mip 9, Take_faults, Get_safe_mip 5];
       e = snd (run_ops (texture_step default_build (Fin 0)) ops texture_engine_init)
   in te_cache_hits e + te_cache_misses e = 3"
  using engine_accounting [OF surjective_pairing, of default_build "Fin 0"
      "[Register_texture 9 64 64 4 1, Get_safe_mip 9, Mark_dma 9 1 2, Get_safe_mip 9, Take_faults, Get_safe_mip 5]"]
  unfolding Let_def by simp

text \<open>The residency hysteresis: a demand between the two thresholds changes nothing, so a level loads
  only above 0.85 and is evicted only below 0.15. A demand of 0.82 loads nothing and one of 0.18 evicts
  nothing, against the comment in \<open>prepare_for_use\<close>, which gives the thresholds as 0.8 and 0.2.\<close>
theorem residency_hysteresis_band:
  "(fp_le kEvictThreshold demand \<and> fp_le demand kLoadThreshold \<longrightarrow> hysteresis_step b ppb tex demand s = s)
   \<and> hysteresis_step b ppb tex (rnd32 (82 / 100)) s = s \<and> hysteresis_step b ppb tex (rnd32 (18 / 100)) s = s"
proof -
  have dead: "fp_le kEvictThreshold d \<and> fp_le d kLoadThreshold \<Longrightarrow> hysteresis_step b ppb tex d s = s" for d
    using fp_lt_not_le [of d kLoadThreshold] fp_lt_not_le [of kEvictThreshold d] by (simp add: hysteresis_step_def)
  have "fp_le kEvictThreshold (rnd32 (82 / 100)) \<and> fp_le (rnd32 (82 / 100)) kLoadThreshold"
    "fp_le kEvictThreshold (rnd32 (18 / 100)) \<and> fp_le (rnd32 (18 / 100)) kLoadThreshold"
    by (simp_all add: rnd32_mono kLoadThreshold_def kEvictThreshold_def)
  with dead show ?thesis by blast
qed

theorem residency_hysteresis_band_witness:
  "let s = (MipResidencyState_default, None); tex = \<lparr>tx_texture_id = 1, tx_width = 64, tx_height = 64, tx_mip_count = 4,
     tx_last_used_frame = 0, tx_residency = []\<rparr>
   in hysteresis_step default_build (Fin 0) tex (rnd32 (1 / 2)) s = s"
  using residency_hysteresis_band [of "rnd32 (1 / 2)"] by (simp add: Let_def rnd32_mono kLoadThreshold_def kEvictThreshold_def)

text \<open>The panning simulation cannot show streaming at work, in any build: the engine's demand estimate
  starts at one half, below the load threshold, and only hits could raise it, so no level is ever loaded.
  It reports a hit rate of 0 and a fault for each of its 3400 uses.\<close>
theorem panning_simulation_outcome: "simulate_panning b ppb = (Fin 0, 3400)"
proof -
  let ?e = "snd (fold (panning_frame b ppb analyzer_init) [0..<200] ((0, 0), panning_textures texture_engine_init))"
  have "engine_cold ?e" "te_fault_count ?e = 3400" "te_cache_misses ?e = 3400"
    using panning_frames [of "((0, 0), panning_textures texture_engine_init)" b ppb "[0..<200]"]
    by (simp_all add: Let_def panning_textures_cold)
  then show ?thesis
    using rnd32_nat [of 3400] rnd32_nat [of 0]
    by (simp add: simulate_panning_def engine_cache_hit_rate_def get_and_reset_fault_count_def engine_cold_def
        f32_of_word_def Let_def)
qed

end
