(* ===== verification/Ml.thy ===== *)
theory Ml
  imports Umd TelemetryTypes
begin

text \<open>
  The backend chooser: \<open>src/synapse/ml/feature_encoder.h\<close>, \<open>contextual_bandit.h\<close>,
  \<open>ml_sub_api.h\<close> and \<open>reward_calculator.h\<close>. Random draws of \<open>std::mt19937\<close> are arguments of the
  calls that consume them, and \<open>std::log10\<close> on floats is the parameter \<open>log10f\<close>. The trainer
  thread's loop is modelled one turn at a time. Checkpoint files are
  in \<open>MlCheckpoint\<close>.
\<close>

section \<open>Features\<close>

type_synonym features8 = "f32 list"

abbreviation clamp01 :: "f32 \<Rightarrow> f32" where
  "clamp01 x \<equiv> fp_clamp x (Fin 0) (Fin 1)"

definition dvfs_headroom :: "SynapseSessionReport \<Rightarrow> f32" where
  "dvfs_headroom r = clamp01 (f32_add
     (f32_sub (Fin 1) (f32_div (f32_of_word (total_transitions (rep_dvfs r))) (Fin 50)))
     (f32_mul (f32_of_word (emergency_overrides (rep_dvfs r))) (rnd32 (- (1 / 5)))))"

definition thermal_headroom :: "SynapseSessionReport \<Rightarrow> f32" where
  "thermal_headroom r =
     (let mitigation = f32_of_word (thermal_mitigation_events (rep_thermal r));
          proactive = f32_of_word (proactive_boosts (rep_thermal r));
          penalty = fp_min (Fin 1) (f32_mul mitigation (rnd32 (1 / 10)));
          boost = fp_min (Fin (1 / 2)) (f32_mul proactive (rnd32 (1 / 50)))
      in clamp01 (f32_add (f32_sub (Fin 1) penalty) boost))"

definition encode :: "(f32 \<Rightarrow> f32) \<Rightarrow> WorkloadSignature \<Rightarrow> SynapseSessionReport option \<Rightarrow> features8" where
  "encode log10f sig report =
     [clamp01 (f32_div (f32_of_word (shader_instruction_estimate sig)) (Fin 2000)),
      clamp01 (f32_div (log10f (f32_add (f32_of_word (vertex_count sig)) (Fin 1))) (Fin 4)),
      clamp01 (f32_div (f32_of_word (draw_call_count sig)) (Fin 100)),
      (case report of Some r \<Rightarrow> clamp01 (hit_rate (its_cache r)) | None \<Rightarrow> Fin (1 / 2)),
      (case report of Some r \<Rightarrow> dvfs_headroom r | None \<Rightarrow> Fin (1 / 2)),
      (case report of Some r \<Rightarrow> thermal_headroom r | None \<Rightarrow> Fin (1 / 2)),
      (case report of Some r \<Rightarrow> clamp01 (f32_of_f64 (accuracy_rate (its_predictor r))) | None \<Rightarrow> Fin (1 / 2)),
      (if is_compute_dispatch sig then Fin 1 else Fin 0)]"

section \<open>The bandit\<close>

record ContextualBandit =
  cb_weights :: "f32 list list"
  cb_epsilon :: f32
  cb_alpha :: f32
  cb_frozen :: bool
  cb_updates :: u64
  cb_cumulative_reward :: f32
  cb_selection_counts :: "u64 list"

text \<open>\<open>ws\<close> are the 24 values drawn for the initial weights.\<close>

definition bandit_init :: "f32 list list \<Rightarrow> ContextualBandit" where
  "bandit_init ws = \<lparr>cb_weights = ws, cb_epsilon = rnd32 (1 / 20), cb_alpha = rnd32 (1 / 100), cb_frozen = False,
     cb_updates = 0, cb_cumulative_reward = Fin 0, cb_selection_counts = [0, 0, 0]\<rparr>"

definition index_to_backend :: "nat \<Rightarrow> ExecutionBackend" where
  "index_to_backend i = (if i = 0 then JIT else if i = 1 then HAI else Oracle)"

fun backend_to_index :: "ExecutionBackend \<Rightarrow> nat" where
  "backend_to_index JIT = 0" | "backend_to_index HAI = 1" | "backend_to_index Oracle = 2"

definition dot :: "f32 list \<Rightarrow> features8 \<Rightarrow> f32" where
  "dot w f = foldl (\<lambda>s (a, b). f32_add s (f32_mul a b)) (Fin 0) (zip w f)"

definition argmax3 :: "f32 \<Rightarrow> f32 \<Rightarrow> f32 \<Rightarrow> nat" where
  "argmax3 s0 s1 s2 =
     (let best = 0; best = (if fp_lt s0 s1 then 1 else best);
          best = (if fp_lt ([s0, s1, s2] ! best) s2 then 2 else best)
      in best)"

text \<open>\<open>u\<close> is the uniform draw, \<open>n\<close> the generator's next integer, used only when exploring.\<close>

definition choose_action :: "f32 \<Rightarrow> u32 \<Rightarrow> features8 \<Rightarrow> ContextualBandit \<Rightarrow> ExecutionBackend" where
  "choose_action u n f b =
     (if fp_lt u (cb_epsilon b) then index_to_backend (unat (n mod 3))
      else index_to_backend (argmax3 (dot (cb_weights b ! 0) f) (dot (cb_weights b ! 1) f) (dot (cb_weights b ! 2) f)))"

definition bandit_observe :: "ExecutionBackend \<Rightarrow> f32 \<Rightarrow> features8 \<Rightarrow> ContextualBandit \<Rightarrow> ContextualBandit" where
  "bandit_observe action reward f b =
     (let a = backend_to_index action;
          pred = dot (cb_weights b ! a) f;
          err = f32_sub reward pred;
          w = map2 (\<lambda>wj fj. f32_add wj (f32_mul (f32_mul (cb_alpha b) err) fj)) (cb_weights b ! a) f
      in b\<lparr>cb_weights := (cb_weights b)[a := w],
           cb_updates := cb_updates b + 1,
           cb_cumulative_reward := f32_add (cb_cumulative_reward b) reward,
           cb_selection_counts := (cb_selection_counts b)[a := cb_selection_counts b ! a + 1]\<rparr>)"

definition set_learning_rate :: "f32 \<Rightarrow> ContextualBandit \<Rightarrow> ContextualBandit" where
  "set_learning_rate a b = b\<lparr>cb_alpha := a\<rparr>"

definition set_epsilon :: "f32 \<Rightarrow> ContextualBandit \<Rightarrow> ContextualBandit" where
  "set_epsilon e b = b\<lparr>cb_epsilon := e\<rparr>"

definition bandit_freeze :: "ContextualBandit \<Rightarrow> ContextualBandit" where
  "bandit_freeze b = b\<lparr>cb_frozen := True\<rparr>"

definition bandit_unfreeze :: "ContextualBandit \<Rightarrow> ContextualBandit" where
  "bandit_unfreeze b = b\<lparr>cb_frozen := False\<rparr>"

text \<open>The two loops that copy weights, whatever is copied.\<close>

definition flatten_weights :: "'a list list \<Rightarrow> 'a list" where
  "flatten_weights w = map (\<lambda>idx. w ! (idx div 8) ! (idx mod 8)) [0..<24]"

definition shape_weights :: "'a list \<Rightarrow> 'a list list" where
  "shape_weights ws = map (\<lambda>a. map (\<lambda>j. ws ! (8 * a + j)) [0..<8]) [0..<3]"

definition save_weights :: "ContextualBandit \<Rightarrow> f32 list" where
  "save_weights b = flatten_weights (cb_weights b)"

definition load_weights :: "f32 list \<Rightarrow> ContextualBandit \<Rightarrow> ContextualBandit" where
  "load_weights ws b = b\<lparr>cb_weights := shape_weights ws\<rparr>"

definition bandit_ok :: "ContextualBandit \<Rightarrow> bool" where
  "bandit_ok b \<longleftrightarrow> length (cb_weights b) = 3 \<and> (\<forall>w \<in> set (cb_weights b). length w = 8)
     \<and> length (cb_selection_counts b) = 3"

section \<open>The sub-API: decisions, observations, replay\<close>

record Experience =
  xp_features :: features8
  xp_action :: nat
  xp_reward :: f32

definition kReplaySize :: nat where "kReplaySize = 4096"

text \<open>\<open>replay_\<close> starts uninitialised; \<open>ml_init\<close> takes its contents.\<close>

record MLSubAPI =
  ml_bandit :: ContextualBandit
  ml_replay :: "Experience list"
  ml_replay_write :: u64
  ml_running :: bool

definition ml_init :: "f32 list list \<Rightarrow> Experience list \<Rightarrow> MLSubAPI" where
  "ml_init ws ring = \<lparr>ml_bandit = bandit_init ws, ml_replay = ring, ml_replay_write = 0, ml_running = True\<rparr>"

definition ml_decide :: "(f32 \<Rightarrow> f32) \<Rightarrow> f32 \<Rightarrow> u32 \<Rightarrow> WorkloadSignature \<Rightarrow> SynapseSessionReport option \<Rightarrow> MLSubAPI \<Rightarrow> ExecutionBackend" where
  "ml_decide log10f u n sig report m = choose_action u n (encode log10f sig report) (ml_bandit m)"

definition record_experience :: "features8 \<Rightarrow> nat \<Rightarrow> f32 \<Rightarrow> MLSubAPI \<Rightarrow> MLSubAPI" where
  "record_experience f action reward m =
     (let idx = ml_replay_write m
      in m\<lparr>ml_replay_write := idx + 1,
           ml_replay := (ml_replay m)[unat idx mod kReplaySize := \<lparr>xp_features = f, xp_action = action, xp_reward = reward\<rparr>]\<rparr>)"

definition ml_observe :: "ExecutionBackend \<Rightarrow> f32 \<Rightarrow> features8 \<Rightarrow> MLSubAPI \<Rightarrow> MLSubAPI" where
  "ml_observe a reward f m =
     record_experience f (backend_to_index a) reward (m\<lparr>ml_bandit := bandit_observe a reward f (ml_bandit m)\<rparr>)"

definition observe_from_signature ::
  "(f32 \<Rightarrow> f32) \<Rightarrow> ExecutionBackend \<Rightarrow> f32 \<Rightarrow> WorkloadSignature \<Rightarrow> SynapseSessionReport option \<Rightarrow> MLSubAPI \<Rightarrow> MLSubAPI" where
  "observe_from_signature log10f a reward sig report m = ml_observe a reward (encode log10f sig report) m"

definition replay_one :: "Experience \<Rightarrow> ContextualBandit \<Rightarrow> ContextualBandit" where
  "replay_one e = bandit_observe (index_to_backend (xp_action e)) (xp_reward e) (xp_features e)"

text \<open>One turn of the trainer thread's loop.\<close>

definition trainer_turn :: "MLSubAPI \<Rightarrow> MLSubAPI" where
  "trainer_turn m =
     (if \<not> ml_running m then m
      else
        let w = unat (ml_replay_write m); start = (if w > kReplaySize then w - kReplaySize else 0)
        in m\<lparr>ml_bandit := fold (\<lambda>r. replay_one (ml_replay m ! (r mod kReplaySize))) [start..<w] (ml_bandit m)\<rparr>)"

section \<open>Reward\<close>

record RewardConfig =
  frame_time_weight :: f32
  energy_saved_weight :: f32
  stall_penalty :: f32
  jit_stutter_penalty :: f32

definition reward_config_default :: RewardConfig where
  "reward_config_default = \<lparr>frame_time_weight = Fin 1, energy_saved_weight = Fin 1,
     stall_penalty = Fin (- 10), jit_stutter_penalty = Fin (- 5)\<rparr>"

definition reward_compute :: "RewardConfig \<Rightarrow> f32 \<Rightarrow> PowerReport \<Rightarrow> u32 \<Rightarrow> u32 \<Rightarrow> f32" where
  "reward_compute cfg frame_time_ms pr stalls jit_over_budget_count =
     (let r = Fin 0;
          r = f32_sub r (f32_mul frame_time_ms (frame_time_weight cfg));
          r = f32_add r (f32_mul (f32_of_f64 (joules_saved pr)) (energy_saved_weight cfg));
          r = f32_add r (f32_mul (f32_of_word stalls) (stall_penalty cfg));
          r = f32_add r (f32_mul (f32_of_word jit_over_budget_count) (jit_stutter_penalty cfg))
      in r)"

section \<open>Histories\<close>

datatype ml_event = Observed ExecutionBackend f32 features8 | Trainer_turn

fun ml_step :: "ml_event \<Rightarrow> MLSubAPI \<Rightarrow> MLSubAPI" where
  "ml_step (Observed a reward f) m = ml_observe a reward f m"
| "ml_step Trainer_turn m = trainer_turn m"

text \<open>How many updates a history causes: one per observation, and per trainer turn one for every
  experience still in the ring; \<open>n\<close> counts the observations so far.\<close>

fun update_total :: "nat \<Rightarrow> ml_event list \<Rightarrow> nat" where
  "update_total n [] = 0"
| "update_total n (Observed a r f # es) = 1 + update_total (n + 1) es"
| "update_total n (Trainer_turn # es) = min n 4096 + update_total n es"

fun observation_count :: "ml_event list \<Rightarrow> nat" where
  "observation_count [] = 0"
| "observation_count (Observed a r f # es) = Suc (observation_count es)"
| "observation_count (Trainer_turn # es) = observation_count es"

section \<open>Lemmas\<close>

lemma fp_clamp01_unit: "x \<noteq> NaN \<Longrightarrow> in_unit (clamp01 x)"
  by (simp add: in_unit_def fp_clamp_range)

lemma bandit_ok_observe [invariant_intros]:
  assumes "bandit_ok b" "length f = 8"
  shows "bandit_ok (bandit_observe a reward f b)"
proof -
  have "backend_to_index a < 3" by (cases a) simp_all
  with assms show ?thesis
    by (auto simp: bandit_ok_def bandit_observe_def Let_def dest!: set_update_subset_insert [THEN subsetD])
qed

lemma cb_updates_observe [simp]: "cb_updates (bandit_observe a reward f b) = cb_updates b + 1"
  by (simp add: bandit_observe_def Let_def)

lemma cb_updates_replay:
  "cb_updates (fold (\<lambda>r. replay_one (x r)) rs b) = cb_updates b + of_nat (length rs)"
  by (induction rs arbitrary: b) (simp_all add: replay_one_def)

lemma trainer_turn_updates:
  "ml_running m \<Longrightarrow>
   cb_updates (ml_bandit (trainer_turn m)) = cb_updates (ml_bandit m) + of_nat (min (unat (ml_replay_write m)) 4096)"
  by (simp add: trainer_turn_def Let_def cb_updates_replay kReplaySize_def min_def)

lemma trainer_turn_frame [simp, frame_simps]:
  "ml_running (trainer_turn m) = ml_running m" "ml_replay_write (trainer_turn m) = ml_replay_write m"
  by (simp_all add: trainer_turn_def Let_def)

lemma ml_observe_frame [simp, frame_simps]:
  "ml_running (ml_observe a r f m) = ml_running m"
  "ml_replay_write (ml_observe a r f m) = ml_replay_write m + 1"
  "cb_updates (ml_bandit (ml_observe a r f m)) = cb_updates (ml_bandit m) + 1"
  by (simp_all add: ml_observe_def record_experience_def Let_def)

lemma ml_updates_run:
  assumes "ml_running m" "unat (ml_replay_write m) = n" "n + observation_count es < 2 ^ 64"
  shows "cb_updates (ml_bandit (fold ml_step es m)) = cb_updates (ml_bandit m) + of_nat (update_total n es)"
  using assms
proof (induction es arbitrary: m n)
  case Nil
  then show ?case by simp
next
  case (Cons e es)
  show ?case
  proof (cases e)
    case (Observed a r f)
    have "unat (ml_replay_write m + 1) = n + 1"
      using Cons.prems Observed by (subst unat_add_lem [THEN iffD1]) simp_all
    with Cons.IH [of "ml_observe a r f m" "n + 1"] Cons.prems Observed show ?thesis by (simp add: algebra_simps)
  next
    case Trainer_turn
    with Cons.IH [of "trainer_turn m" n] Cons.prems show ?thesis
      by (simp add: trainer_turn_updates)
  qed
qed

lemma argmax3_greatest:
  assumes "s0 \<noteq> NaN" "s1 \<noteq> NaN" "s2 \<noteq> NaN" "j < 3"
  shows "argmax3 s0 s1 s2 < 3 \<and> fp_le ([s0, s1, s2] ! j) ([s0, s1, s2] ! argmax3 s0 s1 s2)"
proof -
  have "j = 0 \<or> j = 1 \<or> j = 2" using assms(4) by auto
  then show ?thesis using assms
    by (cases s0; cases s1; cases s2) (auto simp: argmax3_def Let_def)
qed

subsection \<open>Features are never NaN\<close>

lemma rnd32_bounded:
  assumes "rnd32 B = Fin B" "\<bar>x\<bar> \<le> B"
  obtains v where "rnd32 x = Fin v" "\<bar>v\<bar> \<le> B"
proof -
  have "fp_le (Fin 0) (rnd32 \<bar>x\<bar>)" "fp_le (rnd32 \<bar>x\<bar>) (Fin B)"
    using rnd32_mono [of 0 "\<bar>x\<bar>"] rnd32_mono [of "\<bar>x\<bar>" B] assms by simp_all
  then obtain v where v: "rnd32 \<bar>x\<bar> = Fin v" "0 \<le> v" "v \<le> B" by (rule fp_le_between_Fin)
  show thesis
  proof (cases "0 \<le> x")
    case True
    with v show ?thesis using that [of v] by simp
  next
    case False
    with v rnd32_neg [of "\<bar>x\<bar>"] show ?thesis using that [of "- v"] by simp
  qed
qed

lemma rnd32_2_65: "rnd32 (2 ^ 65) = Fin (2 ^ 65)"
  unfolding rnd32_def by (rule rnd_exact [where m = 1 and k = 65]; simp add: power_int_def)

lemma f32_of_word_finite:
  fixes w :: u32
  obtains v where "f32_of_word w = Fin v" "0 \<le> v" "v \<le> 2 ^ 64"
proof -
  have "unat w \<le> 2 ^ 64" using unat_lt_32 [of w] by (simp del: unat_lt_32)
  then have "(of_nat (unat w) :: rat) \<le> of_nat (2 ^ 64)" by (rule of_nat_mono)
  then have "\<bar>of_nat (unat w) :: rat\<bar> \<le> 2 ^ 64" by (simp only: abs_of_nat of_nat_power of_nat_numeral)
  then obtain v where v: "f32_of_word w = Fin v" "\<bar>v\<bar> \<le> 2 ^ 64"
    unfolding f32_of_word_def by (rule rnd32_bounded [OF rnd_2_64(1)])
  have "fp_le (Fin 0) (f32_of_word w)"
    unfolding f32_of_word_def using rnd32_mono [of 0 "of_nat (unat w)"] unfolding rnd_0 by (simp only: of_nat_0_le_iff order_refl)
  with v show thesis by (intro that [of v]) simp_all
qed

lemma f32_mul_small:
  fixes w :: u32
  assumes "\<bar>c\<bar> \<le> 1"
  obtains v where "f32_mul (f32_of_word w) (rnd32 c) = Fin v" "\<bar>v\<bar> \<le> 2 ^ 64"
proof -
  obtain a where a: "f32_of_word w = Fin a" "0 \<le> a" "a \<le> 2 ^ 64" by (rule f32_of_word_finite)
  obtain k where k: "rnd32 c = Fin k" "\<bar>k\<bar> \<le> 1" by (rule rnd32_bounded [of 1 c]) (use assms in simp_all)
  have "\<bar>a * k\<bar> \<le> 2 ^ 64 * 1" unfolding abs_mult by (rule mult_mono) (use a k in simp_all)
  then obtain v where "rnd32 (a * k) = Fin v" "\<bar>v\<bar> \<le> 2 ^ 64"
    unfolding mult_1_right by (erule rnd32_bounded [OF rnd_2_64(1)])
  with a k that show thesis by simp
qed

lemma f32_div_word_not_NaN:
  fixes w :: u32
  assumes "c \<noteq> 0"
  shows "f32_div (f32_of_word w) (Fin c) \<noteq> NaN"
  by (rule f32_of_word_finite [of w]) (use assms in simp)

lemma f32_one_minus_ratio_finite:
  fixes w :: u32
  obtains v where "f32_sub (Fin 1) (f32_div (f32_of_word w) (Fin 50)) = Fin v"
proof -
  obtain a where a: "f32_of_word w = Fin a" "0 \<le> a" "a \<le> 2 ^ 64" by (rule f32_of_word_finite)
  have "\<bar>a / 50\<bar> \<le> 2 ^ 64" using a by simp
  then obtain q where q: "rnd32 (a / 50) = Fin q" "\<bar>q\<bar> \<le> 2 ^ 64"
    by (erule rnd32_bounded [OF rnd_2_64(1)])
  then have "\<bar>1 + - q\<bar> \<le> 2 ^ 65" by (simp add: abs_le_iff)
  then obtain v where "rnd32 (1 + - q) = Fin v" by (metis rnd32_bounded [OF rnd32_2_65])
  with a q that show thesis by (simp add: fp_sub_def)
qed

lemma dvfs_headroom_unit: "in_unit (dvfs_headroom r)"
proof -
  obtain v where v: "f32_sub (Fin 1) (f32_div (f32_of_word (total_transitions (rep_dvfs r))) (Fin 50)) = Fin v"
    by (rule f32_one_minus_ratio_finite)
  obtain u where u: "f32_mul (f32_of_word (emergency_overrides (rep_dvfs r))) (rnd32 (- (1 / 5))) = Fin u"
    by (rule f32_mul_small [of "- (1 / 5)"]) simp_all
  show ?thesis unfolding dvfs_headroom_def v u by (rule fp_clamp01_unit) simp
qed

lemma thermal_headroom_unit: "in_unit (thermal_headroom r)"
proof -
  obtain v where v: "f32_mul (f32_of_word (thermal_mitigation_events (rep_thermal r))) (rnd32 (1 / 10)) = Fin v"
    and vb: "\<bar>v\<bar> \<le> 2 ^ 64"
    by (rule f32_mul_small [of "1 / 10"]) simp_all
  obtain u where u: "f32_mul (f32_of_word (proactive_boosts (rep_thermal r))) (rnd32 (1 / 50)) = Fin u"
    by (rule f32_mul_small [of "1 / 50"]) simp_all
  define pen where "pen = (if v < 1 then v else 1)"
  have pen: "fp_min (Fin 1) (Fin v) = Fin pen" by (simp add: fp_min_def pen_def)
  have "\<bar>1 + - pen\<bar> \<le> 2 ^ 65" using vb by (auto simp: pen_def abs_le_iff)
  then obtain d where d: "rnd32 (1 + - pen) = Fin d" by (metis rnd32_bounded [OF rnd32_2_65])
  have sub: "f32_sub (Fin 1) (Fin pen) = Fin d"
    unfolding fp_sub_def fp_neg.simps fp_add.simps by (rule d)
  have "f32_add (Fin d) (fp_min (Fin (1 / 2)) (Fin u)) \<noteq> NaN"
    by (simp add: fp_min_def)
  then show ?thesis unfolding thermal_headroom_def Let_def v u pen sub by (rule fp_clamp01_unit)
qed

lemma ratio_not_NaN:
  assumes mono: "\<And>x y. 0 \<le> x \<Longrightarrow> x \<le> y \<Longrightarrow> fp_le (r x) (r y)"
    and r: "r 0 = Fin 0" "r 1 = Fin 1" "r (2 ^ 64) = Fin (2 ^ 64)" "\<And>x. r x \<noteq> NaN"
    and n: "a \<le> (2 :: nat) ^ 64" "0 < b" "b \<le> (2 :: nat) ^ 64"
  shows "fp_div r (r (of_nat a)) (r (of_nat b)) \<noteq> NaN"
proof -
  have up: "fp_le (r (of_nat k)) (Fin (2 ^ 64))" if "k \<le> 2 ^ 64" for k
    using mono [of "of_nat k" "2 ^ 64"] r(3) of_nat_mono [OF that, where ?'a = rat] by simp
  have "fp_le (Fin 0) (r (of_nat a))" using mono [of 0 "of_nat a"] r by simp
  then obtain x where x: "r (of_nat a) = Fin x" using up [OF n(1)] by (rule fp_le_between_Fin)
  have "fp_le (Fin 1) (r (of_nat b))" using mono [of 1 "of_nat b"] r n(2) by simp
  then obtain y where y: "r (of_nat b) = Fin y" "1 \<le> y" using up [OF n(3)] by (rule fp_le_between_Fin)
  then show ?thesis using x r(4) by simp
qed

lemma rate_not_NaN:
  fixes a b :: u64
  assumes "b > 0"
  shows "f32_div (f32_of_word a) (f32_of_word b) \<noteq> NaN" "f64_div (f64_of_word a) (f64_of_word b) \<noteq> NaN"
proof -
  have "unat a \<le> 2 ^ 64" "0 < unat b" "unat b \<le> 2 ^ 64"
    using assms unat_lt_64 [of a] unat_lt_64 [of b] by (simp_all add: word_pos_unat less_imp_le del: unat_lt_64)
  note n = this
  show "f32_div (f32_of_word a) (f32_of_word b) \<noteq> NaN" unfolding f32_of_word_def
    by (rule ratio_not_NaN [of rnd32, OF rnd32_mono rnd_0(1) rnd_1(1) rnd_2_64(1) rnd_not_NaN(1) n])
  show "f64_div (f64_of_word a) (f64_of_word b) \<noteq> NaN" unfolding f64_of_word_def
    by (rule ratio_not_NaN [of rnd64, OF rnd64_mono rnd_0(2) rnd_1(2) rnd_2_64(2) rnd_not_NaN(2) n])
qed

lemma f32_of_f64_not_NaN: "x \<noteq> NaN \<Longrightarrow> f32_of_f64 x \<noteq> NaN"
  by (cases x) (simp_all add: f32_of_f64_def)

lemma hit_rate_not_NaN: "hit_rate m \<noteq> NaN"
  by (simp add: hit_rate_def Let_def rate_not_NaN)

lemma accuracy_rate_not_NaN: "accuracy_rate s \<noteq> NaN"
  by (simp add: accuracy_rate_def rate_not_NaN)

lemma vertex_term_ge_1: "fp_le (Fin 1) (f32_add (f32_of_word (w :: u32)) (Fin 1))"
proof -
  obtain v where "f32_of_word w = Fin v" "0 \<le> v" "v \<le> 2 ^ 64" by (rule f32_of_word_finite)
  then show ?thesis using rnd32_mono [of 1 "v + 1"] by simp
qed

lemma f32_div_not_NaN: "x \<noteq> NaN \<Longrightarrow> c \<noteq> 0 \<Longrightarrow> f32_div x (Fin c) \<noteq> NaN"
  by (cases x) simp_all

text \<open>Three rows of eight.\<close>

definition grid :: "'a list list \<Rightarrow> bool" where
  "grid w \<longleftrightarrow> length w = 3 \<and> list_all (\<lambda>r. length r = 8) w"

lemma length_flatten_weights [simp]: "length (flatten_weights w) = 24"
  by (simp add: flatten_weights_def)

lemma grid_shape_weights [simp]: "grid (shape_weights ws)"
  by (simp add: grid_def shape_weights_def list_all_iff)

lemma shape_flatten:
  assumes "grid w"
  shows "shape_weights (flatten_weights w) = w"
proof -
  have "shape_weights (flatten_weights w) = map (\<lambda>a. map (\<lambda>j. w ! a ! j) [0..<8]) [0..<3]"
    by (simp add: shape_weights_def flatten_weights_def cong: map_cong)
  also have "\<dots> = w"
    using assms by (intro nth_equalityI) (auto simp: grid_def list_all_length intro!: nth_equalityI)
  finally show ?thesis .
qed

lemma flatten_shape:
  assumes "length ws = 24"
  shows "flatten_weights (shape_weights ws) = ws"
proof (rule nth_equalityI)
  fix i
  assume "i < length (flatten_weights (shape_weights ws))"
  then have i: "i < 24" by simp
  then have "i div 8 < 3" "i mod 8 < 8" "8 * (i div 8) + i mod 8 = i" by simp_all
  then show "flatten_weights (shape_weights ws) ! i = ws ! i" using i by (simp add: flatten_weights_def shape_weights_def)
qed (simp add: assms)

lemma map_flatten_weights:
  assumes "grid w"
  shows "map f (flatten_weights w) = flatten_weights (map (map f) w)"
proof (rule nth_equalityI)
  fix i
  assume "i < length (map f (flatten_weights w))"
  then have i: "i < 24" by simp
  then have "i div 8 < 3" "i mod 8 < 8" by simp_all
  then show "map f (flatten_weights w) ! i = flatten_weights (map (map f) w) ! i"
    using assms i by (simp add: flatten_weights_def grid_def list_all_length)
qed simp

lemma map_shape_weights: "length ws = 24 \<Longrightarrow> map (map f) (shape_weights ws) = shape_weights (map f ws)"
  by (simp add: shape_weights_def)

section \<open>Properties\<close>

text \<open>The encoder produces eight features, each a number in [0,1], for every workload signature
  and every live report, whatever the counters (sums that wrap included): no NaN and no infinity
  reaches the bandit. Of \<open>log10\<close> only this is used: it is not NaN at or above 1.\<close>
theorem encode_features_unit:
  assumes "\<And>x. fp_le (Fin 1) x \<Longrightarrow> log10f x \<noteq> NaN"
  shows "length (encode log10f sig report) = 8 \<and> (\<forall>x \<in> set (encode log10f sig report). in_unit x)"
proof -
  have half: "in_unit (Fin (1 / 2))" "in_unit (Fin 1)" by (simp_all add: in_unit_def)
  show ?thesis
    by (cases report)
      (simp_all add: encode_def half fp_clamp01_unit f32_div_word_not_NaN f32_div_not_NaN assms vertex_term_ge_1
        hit_rate_not_NaN accuracy_rate_not_NaN f32_of_f64_not_NaN dvfs_headroom_unit thermal_headroom_unit)
qed

theorem encode_features_unit_witness:
  "length (encode (\<lambda>x. Fin 2) signature_zero None) = 8
   \<and> list_all in_unit (encode (\<lambda>x. Fin 2) signature_zero None)"
  using encode_features_unit [of "\<lambda>x. Fin 2" signature_zero None] by (simp add: list_all_iff)

text \<open>When the bandit does not explore and no score is NaN, the backend it returns has a score at
  least as high as that of every backend.\<close>
theorem choose_action_greedy:
  assumes "\<not> fp_lt u (cb_epsilon b)" "\<And>a. a < 3 \<Longrightarrow> dot (cb_weights b ! a) f \<noteq> NaN"
  shows "fp_le (dot (cb_weights b ! backend_to_index x) f)
               (dot (cb_weights b ! backend_to_index (choose_action u n f b)) f)"
proof -
  let ?s = "\<lambda>a. dot (cb_weights b ! a) f"
  let ?m = "argmax3 (?s 0) (?s 1) (?s 2)"
  have pick: "[?s 0, ?s 1, ?s 2] ! j = ?s j" if "j < 3" for j
    using that by (auto simp: less_Suc_eq numeral_3_eq_3 numeral_2_eq_2)
  have j: "backend_to_index x < 3" by (cases x) simp_all
  have m: "?m < 3" "fp_le (?s (backend_to_index x)) (?s ?m)"
    using argmax3_greatest [of "?s 0" "?s 1" "?s 2", OF assms(2) [of 0] assms(2) [of 1] assms(2) [of 2] j] pick [OF j]
    by (auto simp del: One_nat_def simp: pick)
  moreover have "backend_to_index (index_to_backend ?m) = ?m"
    using m(1) by (auto simp: index_to_backend_def)
  ultimately show ?thesis using assms(1) by (simp add: choose_action_def)
qed

text \<open>The trainer thread replays its whole window on every turn, so updates are counted again and
  again: over any history of observations and trainer turns, \<open>updates()\<close> (which the session report
  publishes as the total) is the number of observations plus, for each turn, the number of
  experiences then in the 4096-entry window, modulo 2^64.\<close>
theorem ml_updates_counts_replays:
  assumes "observation_count es < 2 ^ 64"
  shows "cb_updates (ml_bandit (fold ml_step es (ml_init ws ring))) = of_nat (update_total 0 es)"
  using ml_updates_run [of "ml_init ws ring" 0 es] assms by (simp add: ml_init_def bandit_init_def)

theorem ml_updates_counts_replays_witness:
  "cb_updates (ml_bandit (fold ml_step [Observed JIT (Fin 1) (replicate 8 (Fin 0)), Trainer_turn, Trainer_turn]
     (ml_init (replicate 3 (replicate 8 (Fin 0))) (replicate 4096 \<lparr>xp_features = [], xp_action = 0, xp_reward = Fin 0\<rparr>)))) = 3"
  using ml_updates_counts_replays [of "[Observed JIT (Fin 1) (replicate 8 (Fin 0)), Trainer_turn, Trainer_turn]"] by simp

text \<open>\<open>freeze()\<close> does not stop learning: the flag is never read, so a frozen bandit takes every
  observation exactly as an unfrozen one and makes the same choices.\<close>
theorem freeze_does_not_freeze:
  "bandit_observe a reward f (bandit_freeze b) = (bandit_observe a reward f b)\<lparr>cb_frozen := True\<rparr>
   \<and> choose_action u n f (bandit_freeze b) = choose_action u n f b"
  by (simp add: bandit_observe_def bandit_freeze_def choose_action_def Let_def)

text \<open>Loading the saved 24-float image restores the weights exactly, and any other bandit loaded
  with it chooses as the saved one, given the same exploration rate.\<close>
theorem weights_roundtrip:
  assumes "bandit_ok b"
  shows "cb_weights (load_weights (save_weights b) b') = cb_weights b"
  using assms shape_flatten [of "cb_weights b"] by (simp add: load_weights_def save_weights_def grid_def bandit_ok_def list_all_iff)

end
