(* ===== verification/Core.thy ===== *)
theory Core
  imports Text AtomicState Degradation CrashRecovery Profile Jit Hai Residency Ml PowerGov
begin

text \<open>
  The integration hub, \<open>src/synapse/synapse_core.h\<close> and \<open>synapse_core.cpp\<close>. Every original Vulkan
  entry point the core calls appends to a trace, in call order; \<open>PFN_table\<close> says which entry points
  are non-null, and calling a null one is the error \<open>Null_call\<close>. What a call takes from outside
  (clock readings, the bandit's random draws, struct padding) is the record \<open>call_env\<close>; the platform
  constants are \<open>core_params\<close>. \<open>std::stof\<close> is a parameter of the configuration reload; \<open>std::stoul\<close>
  is written out. The analyzer and trainer threads act through their own steps. The texture engine's
  estimator pointer, when wired, points at the core's own estimator.
\<close>

section \<open>State\<close>

datatype gpu_call =
    GDrawIndexed u64 u32 u32 u32 u32 u32
  | GDraw u64 u32 u32 u32 u32
  | GDispatch u64 u32 u32 u32
  | GPushConstants u64 u64 u32 u32 u32 bytes
  | GBindDescriptorSets u64 u32 u64 u32 "u64 list" "u32 list"

datatype core_error = Null_call | Invalid_argument | Out_of_range | Migration migrate_error

record PFN_table =
  pfn_draw_indexed :: bool
  pfn_draw :: bool
  pfn_dispatch :: bool
  pfn_push_constants :: bool
  pfn_bind_descriptor_sets :: bool

record JITStutterStats =
  jss_cold_cache_fallbacks :: u32
  jss_worst_fallback_ms :: f64
  jss_total_fallback_ms :: f64

definition is_over_budget :: "JITStutterStats \<Rightarrow> bool" where
  "is_over_budget s = fp_lt (Fin 2) (jss_worst_fallback_ms s)"

record CmdBufState =
  cbs_bound_pipeline :: u64
  cbs_bound_image :: u64
  cbs_shader_hash :: u64
  cbs_descriptor_sets :: "u64 list"

definition cmd_buf_default :: CmdBufState where
  "cmd_buf_default = \<lparr>cbs_bound_pipeline = 0, cbs_bound_image = 0, cbs_shader_hash = 0,
     cbs_descriptor_sets = [0, 0, 0, 0]\<rparr>"

record SynapseCore =
  sc_pfn :: PFN_table
  sc_trace :: "gpu_call list"
  sc_jit_stats :: JITStutterStats
  sc_jit_count :: u32
  sc_hai_count :: u32
  sc_oracle_count :: u32
  sc_cmd_state :: "(u64, CmdBufState) alist"
  sc_ml :: MLSubAPI
  sc_reward :: RewardConfig
  sc_power :: PowerEstimator
  sc_telemetry :: TelemetryRingBuffer
  sc_analyzer :: Analyzer
  sc_jit_cache :: jit_cache
  sc_hai :: HAIBytecodeBuilder
  sc_its :: TextureStreamingEngine
  sc_power_wired :: bool
  sc_state :: state_machine
  sc_config :: AtomicConfig
  sc_degrade :: GracefulDegradation
  sc_profile :: UserProfile
  sc_recovery :: "CrashRecoveryManager option"
  sc_draw_telemetry_allowed :: bool

record core_params =
  cp_log10 :: "f32 \<Rightarrow> f32"
  cp_pj_per_bit :: f64
  cp_its_build :: its_build

record call_env =
  ce_now :: u64
  ce_tid :: u32
  ce_padding :: bytes
  ce_explore :: f32
  ce_random :: u32
  ce_oracle_ms :: f64
  ce_elapsed_ms :: f64

section \<open>Configuration and features\<close>

definition availability_code :: "bool \<Rightarrow> u32" where
  "availability_code on = (if on then 0 else 2)"

definition propagate_flags :: "ConfigSnapshot \<Rightarrow> GracefulDegradation \<Rightarrow> GracefulDegradation" where
  "propagate_flags snap g =
     handle_error ''telemetry'' (availability_code (telemetry_enabled snap))
       (handle_error ''hai'' (availability_code (hai_enabled snap))
         (handle_error ''jit'' (availability_code (jit_enabled snap)) g))"

definition sync_config_from_profile :: "SynapseCore \<Rightarrow> SynapseCore" where
  "sync_config_from_profile c =
     (let cfg = snd (config_update (plan_mutator (up_plan (sc_profile c))) (sc_config c))
      in c\<lparr>sc_config := cfg, sc_degrade := propagate_flags (config_read cfg) (sc_degrade c)\<rparr>)"

definition wal_log :: "u64 \<Rightarrow> WALEventType \<Rightarrow> bytes option \<Rightarrow> u32 \<Rightarrow> SynapseCore \<Rightarrow> SynapseCore" where
  "wal_log now ty data sz c =
     (case sc_recovery c of
        None \<Rightarrow> c
      | Some r \<Rightarrow>
          if \<not> is_available ''telemetry'' (sc_degrade c) then c
          else c\<lparr>sc_recovery := Some (r\<lparr>cr_telemetry := snd (telemetry_write now ty data sz (cr_telemetry r))\<rparr>)\<rparr>)"

definition apply_preset :: "u64 \<Rightarrow> string \<Rightarrow> SynapseCore \<Rightarrow> SynapseCore" where
  "apply_preset now name c =
     wal_log now Ev_BackendChoice (Some (string_bytes name)) (of_nat (length name))
       (sync_config_from_profile (c\<lparr>sc_profile := profile_apply_preset name (sc_profile c)\<rparr>))"

subsection \<open>Reloading the configuration file\<close>

definition newline :: char where "newline = CHR 0x0A"

function getlines :: "string \<Rightarrow> string list" where
  "getlines s =
     (if s = [] then []
      else takeWhile (\<lambda>ch. ch \<noteq> newline) s # getlines (tl (dropWhile (\<lambda>ch. ch \<noteq> newline) s)))"
  by auto
termination
proof (relation "measure length")
  fix s :: string
  assume "s \<noteq> []"
  then show "(tl (dropWhile (\<lambda>ch. ch \<noteq> newline) s), s) \<in> measure length"
    using length_dropWhile_le [of "\<lambda>ch. ch \<noteq> newline" s] by (cases s) (auto simp: le_imp_less_Suc)
qed simp

declare getlines.simps [simp del]

definition lead_space :: "char \<Rightarrow> bool" where
  "lead_space ch \<longleftrightarrow> ch = CHR '' '' \<or> ch = CHR 0x09"

definition trail_space :: "char \<Rightarrow> bool" where
  "trail_space ch \<longleftrightarrow> ch = CHR '' '' \<or> ch = CHR 0x09 \<or> ch = CHR 0x0D \<or> ch = CHR 0x0A"

definition trim :: "string \<Rightarrow> string" where
  "trim s = rev (dropWhile trail_space (rev (dropWhile lead_space s)))"

definition is_space :: "char \<Rightarrow> bool" where
  "is_space ch \<longleftrightarrow> ch = CHR '' '' \<or> (9 \<le> (of_char ch :: nat) \<and> (of_char ch :: nat) \<le> 13)"

text \<open>\<open>std::stoul\<close> on a platform whose \<open>unsigned long\<close> has \<open>ulbits\<close> bits: leading white space, an
  optional sign, decimal digits; a minus sign negates modulo \<open>2 ^ ulbits\<close>.\<close>

definition stoul :: "nat \<Rightarrow> string \<Rightarrow> core_error + nat" where
  "stoul ulbits s =
     (let s = dropWhile is_space s;
          neg = (s \<noteq> [] \<and> hd s = CHR ''-'');
          s = (if s \<noteq> [] \<and> (hd s = CHR ''-'' \<or> hd s = CHR ''+'') then tl s else s);
          ds = takeWhile is_digit s;
          n = digits_value ds
      in if ds = [] then Inl Invalid_argument
         else if n \<ge> 2 ^ ulbits then Inl Out_of_range
         else Inr (if neg then (2 ^ ulbits - n) mod 2 ^ ulbits else n))"

definition flag_value :: "string \<Rightarrow> bool" where
  "flag_value val \<longleftrightarrow> val = ''true'' \<or> val = ''1''"

definition apply_config_key ::
  "nat \<Rightarrow> (string \<Rightarrow> core_error + f32) \<Rightarrow> string \<Rightarrow> string \<Rightarrow> ConfigSnapshot \<Rightarrow> core_error + ConfigSnapshot" where
  "apply_config_key ulbits stof key val snap =
     (if key = ''power_budget'' then
        (case stoul ulbits val of Inl e \<Rightarrow> Inl e
         | Inr n \<Rightarrow> let v = (of_nat n :: u32) in Inr (if v > 0 \<and> v \<le> 100 then snap\<lparr>power_budget_watts := v\<rparr> else snap))
      else if key = ''thermal_target'' then
        (case stoul ulbits val of Inl e \<Rightarrow> Inl e
         | Inr n \<Rightarrow> let v = (of_nat n :: u32) in Inr (if v \<ge> 40 \<and> v \<le> 105 then snap\<lparr>thermal_target_celsius := v\<rparr> else snap))
      else if key = ''ml_aggressive'' then Inr (snap\<lparr>ml_aggressive := flag_value val\<rparr>)
      else if key = ''jit_enabled'' then Inr (snap\<lparr>jit_enabled := flag_value val\<rparr>)
      else if key = ''hai_enabled'' then Inr (snap\<lparr>hai_enabled := flag_value val\<rparr>)
      else if key = ''telemetry_enabled'' then Inr (snap\<lparr>telemetry_enabled := flag_value val\<rparr>)
      else if key = ''learning_rate'' then
        (case stof val of Inl e \<Rightarrow> Inl e
         | Inr v \<Rightarrow> Inr (if fp_lt (Fin 0) v \<and> fp_le v (Fin 1) then snap\<lparr>learning_rate := v\<rparr> else snap))
      else if key = ''epsilon'' then
        (case stof val of Inl e \<Rightarrow> Inl e
         | Inr v \<Rightarrow> Inr (if fp_le (Fin 0) v \<and> fp_le v (Fin 1) then snap\<lparr>epsilon := v\<rparr> else snap))
      else Inr snap)"

definition apply_config_line ::
  "nat \<Rightarrow> (string \<Rightarrow> core_error + f32) \<Rightarrow> string \<Rightarrow> ConfigSnapshot \<Rightarrow> core_error + ConfigSnapshot" where
  "apply_config_line ulbits stof line snap =
     (if line = [] \<or> hd line = CHR ''#'' then Inr snap
      else
        let line = trim line; key = takeWhile (\<lambda>ch. ch \<noteq> CHR ''='') line; rest = dropWhile (\<lambda>ch. ch \<noteq> CHR ''='') line
        in if rest = [] then Inr snap
           else apply_config_key ulbits stof (trim key) (trim (tl rest)) snap)"

fun apply_config_lines ::
  "nat \<Rightarrow> (string \<Rightarrow> core_error + f32) \<Rightarrow> string list \<Rightarrow> ConfigSnapshot \<Rightarrow> core_error + ConfigSnapshot" where
  "apply_config_lines ulbits stof [] snap = Inr snap"
| "apply_config_lines ulbits stof (l # ls) snap =
     (case apply_config_line ulbits stof l snap of Inl e \<Rightarrow> Inl e | Inr snap' \<Rightarrow> apply_config_lines ulbits stof ls snap')"

text \<open>An exception from a number parser leaves the function before anything is published.\<close>

definition apply_config_content :: "nat \<Rightarrow> (string \<Rightarrow> core_error + f32) \<Rightarrow> string \<Rightarrow> SynapseCore \<Rightarrow> core_error + SynapseCore" where
  "apply_config_content ulbits stof content c =
     (case apply_config_lines ulbits stof (getlines content) (config_read (sc_config c)) of
        Inl e \<Rightarrow> Inl e
      | Inr snap \<Rightarrow>
          Inr (c\<lparr>sc_config := snd (config_update (\<lambda>dest. Some snap) (sc_config c)),
                 sc_degrade := propagate_flags snap (sc_degrade c)\<rparr>))"

section \<open>Construction, recovery, destruction\<close>

definition core_transition :: "ShimState \<Rightarrow> string \<Rightarrow> u64 \<Rightarrow> u32 \<Rightarrow> SynapseCore \<Rightarrow> SynapseCore" where
  "core_transition target why now tid c = c\<lparr>sc_state := snd (transition target why 0 now tid (sc_state c))\<rparr>"

definition core_features :: "string list" where
  "core_features = [''jit'', ''hai'', ''its'', ''ml'', ''telemetry'', ''power'']"

definition core_members :: "PFN_table \<Rightarrow> f32 list list \<Rightarrow> Experience list \<Rightarrow> SynapseCore" where
  "core_members pfn ws ring =
     \<lparr>sc_pfn = pfn, sc_trace = [],
      sc_jit_stats = \<lparr>jss_cold_cache_fallbacks = 0, jss_worst_fallback_ms = Fin 0, jss_total_fallback_ms = Fin 0\<rparr>,
      sc_jit_count = 0, sc_hai_count = 0, sc_oracle_count = 0, sc_cmd_state = [],
      sc_ml = ml_init ws ring, sc_reward = reward_config_default, sc_power = power_estimator_init,
      sc_telemetry = rb_init, sc_analyzer = analyzer_init, sc_jit_cache = [], sc_hai = hai_builder_init,
      sc_its = texture_engine_init, sc_power_wired = False,
      sc_state = state_machine_init Uninitialized, sc_config = AtomicConfig_init, sc_degrade = degradation_init,
      sc_profile = profile_init, sc_recovery = None, sc_draw_telemetry_allowed = True\<rparr>"

text \<open>The constructor; \<open>meta\<close> and \<open>wal\<close> are the files of the data directory, \<open>t1\<close> and \<open>t2\<close> the clock
  at the two transitions.\<close>

definition SynapseCore_init ::
  "PFN_table \<Rightarrow> f32 list list \<Rightarrow> Experience list \<Rightarrow> wal_disk \<Rightarrow> wal_disk \<Rightarrow> u64 \<Rightarrow> u64 \<Rightarrow> u32 \<Rightarrow> SynapseCore" where
  "SynapseCore_init pfn ws ring meta wal t1 t2 tid =
     (let c = core_members pfn ws ring;
          c = c\<lparr>sc_recovery := Some (recovery_init meta wal)\<rparr>;
          c = core_transition Initializing ''SynapseCore construction'' t1 tid c;
          c = c\<lparr>sc_degrade := fold (\<lambda>f. register_feature f Feat_Enabled) core_features (sc_degrade c)\<rparr>;
          c = sync_config_from_profile c
      in core_transition Active ''Initialization complete'' t2 tid c)"

record RecoveryInfo =
  ri_crash_detected :: bool
  ri_entries_recovered :: u64
  ri_recovery_count :: u64

definition check_and_recover :: "SynapseCore \<Rightarrow> (core_error + RecoveryInfo) \<times> SynapseCore" where
  "check_and_recover c =
     (let info = \<lparr>ri_crash_detected = False, ri_entries_recovered = 0, ri_recovery_count = 0\<rparr>
      in case sc_recovery c of
           None \<Rightarrow> (Inr info, c)
         | Some r \<Rightarrow>
             (case check_for_crash r of
                (Inl e, r) \<Rightarrow> (Inl (Migration e), c\<lparr>sc_recovery := Some r\<rparr>)
              | (Inr False, r) \<Rightarrow> (Inr info, c\<lparr>sc_recovery := Some r\<rparr>)
              | (Inr True, r) \<Rightarrow>
                  let g = handle_error ''telemetry'' 1 (sc_degrade c);
                      (result, r) = recover r;
                      g = handle_error ''telemetry'' 0 g
                  in (Inr \<lparr>ri_crash_detected = True, ri_entries_recovered = rr_entries_recovered result,
                           ri_recovery_count = total_recoveries (cr_metadata r)\<rparr>,
                      c\<lparr>sc_degrade := g, sc_recovery := Some r\<rparr>)))"

definition build_session_report :: "SynapseCore \<Rightarrow> SynapseSessionReport" where
  "build_session_report c =
     session_report_default
       \<lparr>rep_jit := (rep_jit session_report_default)
          \<lparr>cold_cache_fallbacks := jss_cold_cache_fallbacks (sc_jit_stats c),
           worst_fallback_ms := jss_worst_fallback_ms (sc_jit_stats c),
           total_fallback_ms := jss_total_fallback_ms (sc_jit_stats c)\<rparr>,
        its_cache := (its_cache session_report_default)
          \<lparr>cm_hits := te_cache_hits (sc_its c), cm_misses := te_cache_misses (sc_its c)\<rparr>,
        backend_routing := \<lparr>jit_dispatches = sc_jit_count c, hai_dispatches = sc_hai_count c,
          oracle_dispatches = sc_oracle_count c,
          total_draw_calls = sc_jit_count c + sc_hai_count c + sc_oracle_count c\<rparr>,
        ml_model := (ml_model session_report_default)
          \<lparr>ml_total_updates := cb_updates (ml_bandit (sc_ml c)),
           ml_cumulative_reward := cb_cumulative_reward (ml_bandit (sc_ml c))\<rparr>,
        rep_power := power_generate (sc_power c)\<rparr>"

definition core_mark_clean :: "u64 \<Rightarrow> SynapseCore \<Rightarrow> SynapseCore" where
  "core_mark_clean now c =
     (case sc_recovery c of
        Some r \<Rightarrow> if \<not> tl_clean_shutdown (cr_telemetry r)
          then c\<lparr>sc_recovery := Some (manager_mark_clean now r)\<rparr> else c
      | None \<Rightarrow> c)"

text \<open>The destructor, with the report it writes.\<close>

definition SynapseCore_destroy :: "u64 \<Rightarrow> u32 \<Rightarrow> SynapseCore \<Rightarrow> SynapseSessionReport \<times> SynapseCore" where
  "SynapseCore_destroy now tid c =
     (let c = core_transition ShuttingDown ''Destructor'' now tid c;
          c = core_mark_clean now c;
          report = build_session_report c;
          c = c\<lparr>sc_analyzer := analyzer_shutdown (sc_analyzer c)\<rparr>
      in (report, core_transition Uninitialized ''Destructor complete'' now tid c))"

section \<open>Notifications\<close>

definition cmd_state_of :: "u64 \<Rightarrow> SynapseCore \<Rightarrow> CmdBufState" where
  "cmd_state_of cmd c = (case al_lookup (sc_cmd_state c) cmd of Some s \<Rightarrow> s | None \<Rightarrow> cmd_buf_default)"

definition notify_bind_pipeline :: "u64 \<Rightarrow> u64 \<Rightarrow> u64 \<Rightarrow> SynapseCore \<Rightarrow> SynapseCore" where
  "notify_bind_pipeline cmd pipeline sh c =
     c\<lparr>sc_cmd_state := al_update cmd ((cmd_state_of cmd c)\<lparr>cbs_bound_pipeline := pipeline, cbs_shader_hash := sh\<rparr>)
         (sc_cmd_state c)\<rparr>"

definition notify_bind_image :: "u64 \<Rightarrow> u64 \<Rightarrow> SynapseCore \<Rightarrow> SynapseCore" where
  "notify_bind_image cmd img c =
     c\<lparr>sc_cmd_state := al_update cmd ((cmd_state_of cmd c)\<lparr>cbs_bound_image := img\<rparr>) (sc_cmd_state c)\<rparr>"

definition notify_bind_descriptor_set :: "u64 \<Rightarrow> u32 \<Rightarrow> u64 \<Rightarrow> SynapseCore \<Rightarrow> SynapseCore" where
  "notify_bind_descriptor_set cmd set_index descriptor_set c =
     (let s = cmd_state_of cmd c;
          s = (if unat set_index < length (cbs_descriptor_sets s)
               then s\<lparr>cbs_descriptor_sets := (cbs_descriptor_sets s)[unat set_index := descriptor_set]\<rparr> else s)
      in c\<lparr>sc_cmd_state := al_update cmd s (sc_cmd_state c)\<rparr>)"

definition notify_create_image :: "u64 \<Rightarrow> u32 \<Rightarrow> u32 \<Rightarrow> u32 \<Rightarrow> u64 \<Rightarrow> SynapseCore \<Rightarrow> SynapseCore" where
  "notify_create_image img width height mips texture_id c =
     c\<lparr>sc_its := register_texture img width height mips texture_id (sc_its c)\<rparr>"

definition notify_destroy_image :: "u64 \<Rightarrow> SynapseCore \<Rightarrow> SynapseCore" where
  "notify_destroy_image img c = c\<lparr>sc_its := unregister_texture img (sc_its c)\<rparr>"

definition notify_free_cmd_buf :: "u64 \<Rightarrow> SynapseCore \<Rightarrow> SynapseCore" where
  "notify_free_cmd_buf cmd c = c\<lparr>sc_cmd_state := al_delete cmd (sc_cmd_state c)\<rparr>"

definition wire_power_estimator :: "SynapseCore \<Rightarrow> SynapseCore" where
  "wire_power_estimator c = c\<lparr>sc_power_wired := True\<rparr>"

section \<open>Backends\<close>

definition issue :: "gpu_call \<Rightarrow> SynapseCore \<Rightarrow> SynapseCore" where
  "issue g c = c\<lparr>sc_trace := sc_trace c @ [g]\<rparr>"

definition execute_oracle_draw ::
  "f64 \<Rightarrow> u64 \<Rightarrow> u32 \<Rightarrow> u32 \<Rightarrow> u32 \<Rightarrow> u32 \<Rightarrow> u32 \<Rightarrow> SynapseCore \<Rightarrow> core_error + SynapseCore" where
  "execute_oracle_draw elapsed_ms cmd indexCount instanceCount firstIndex vertexOffset firstInstance c =
     (if \<not> pfn_draw_indexed (sc_pfn c) then Inl Null_call
      else
        let c = issue (GDrawIndexed cmd indexCount instanceCount firstIndex vertexOffset firstInstance) c;
            s = sc_jit_stats c
        in Inr (c\<lparr>sc_jit_stats := s\<lparr>jss_cold_cache_fallbacks := jss_cold_cache_fallbacks s + 1,
                  jss_total_fallback_ms := f64_add (jss_total_fallback_ms s) elapsed_ms,
                  jss_worst_fallback_ms := fp_max (jss_worst_fallback_ms s) elapsed_ms\<rparr>\<rparr>))"

fun increment_backend_counter :: "ExecutionBackend \<Rightarrow> SynapseCore \<Rightarrow> SynapseCore" where
  "increment_backend_counter JIT c = c\<lparr>sc_jit_count := sc_jit_count c + 1\<rparr>"
| "increment_backend_counter HAI c = c\<lparr>sc_hai_count := sc_hai_count c + 1\<rparr>"
| "increment_backend_counter Oracle c = c\<lparr>sc_oracle_count := sc_oracle_count c + 1\<rparr>"

text \<open>\<open>submit_isa_to_gpu\<close> has an empty body.\<close>

definition execute_jit_path :: "f64 \<Rightarrow> u64 \<Rightarrow> WorkloadSignature \<Rightarrow> SynapseCore \<Rightarrow> core_error + SynapseCore" where
  "execute_jit_path oracle_ms cmd sig c =
     (let ctx_hash = workload_context_hash sig;
          (specialized, cache) = get_optimized_shader (sc_analyzer c) (shader_hash sig) [] (sc_jit_cache c);
          c = c\<lparr>sc_jit_cache := cache\<rparr>
      in case specialized of
           Some s \<Rightarrow> Inr c
         | None \<Rightarrow>
             let c = c\<lparr>sc_degrade := handle_error ''jit'' 1 (sc_degrade c)\<rparr>
             in case execute_oracle_draw oracle_ms cmd (vertex_count sig) 1 0 0 0 c of
                  Inl e \<Rightarrow> Inl e
                | Inr c \<Rightarrow> Inr (c\<lparr>sc_degrade := handle_error ''jit'' 0 (sc_degrade c)\<rparr>))"

definition can_delta_update :: "WorkloadSignature \<Rightarrow> bool" where
  "can_delta_update sig \<longleftrightarrow> pipeline_state_changes sig = 0"

text \<open>\<open>write_delta_draw\<close> is called with its default mask.\<close>

definition execute_hai_path :: "WorkloadSignature \<Rightarrow> SynapseCore \<Rightarrow> SynapseCore" where
  "execute_hai_path sig c =
     (let b = begin_batch (sc_hai c);
          b = (if can_delta_update sig then write_delta_draw sig 3 b else write_full_draw sig b)
      in c\<lparr>sc_hai := flush_to_hardware b\<rparr>)"

definition get_bound_image :: "u64 \<Rightarrow> SynapseCore \<Rightarrow> u64" where
  "get_bound_image cmd c = (case al_lookup (sc_cmd_state c) cmd of Some s \<Rightarrow> cbs_bound_image s | None \<Rightarrow> 0)"

definition capture_current_signature :: "u64 \<Rightarrow> u32 \<Rightarrow> SynapseCore \<Rightarrow> WorkloadSignature" where
  "capture_current_signature cmd count c =
     (let sig = signature_zero\<lparr>vertex_count := count\<rparr>
      in case al_lookup (sc_cmd_state c) cmd of Some s \<Rightarrow> sig\<lparr>shader_hash := cbs_shader_hash s\<rparr> | None \<Rightarrow> sig)"

section \<open>Interception entry points\<close>

text \<open>The 32 bytes of a \<open>WorkloadSignature\<close>: five 32-bit counters, the flag, three bytes of padding, the
  hash.\<close>

definition encode_signature :: "bytes \<Rightarrow> WorkloadSignature \<Rightarrow> bytes" where
  "encode_signature padding s =
     le32 (draw_call_count s) @ le32 (pipeline_state_changes s) @ le32 (shader_instruction_estimate s)
     @ le32 (vertex_count s) @ le32 (texture_bindings s) @ [if is_compute_dispatch s then 1 else 0]
     @ padding @ le64 (shader_hash s)"

definition prepare_textures :: "core_params \<Rightarrow> u64 \<Rightarrow> SynapseCore \<Rightarrow> SynapseCore" where
  "prepare_textures p cmd c =
     (let a = update_its_stats (te_cache_hits (sc_its c)) (te_cache_misses (sc_its c)) (sc_analyzer c);
          engine = (sc_its c)\<lparr>te_power := (if sc_power_wired c then Some (sc_power c) else None)\<rparr>;
          engine = prepare_for_use (cp_its_build p) (cp_pj_per_bit p) (get_bound_image cmd c) a engine
      in c\<lparr>sc_analyzer := a, sc_its := engine,
           sc_power := (case te_power engine of Some e \<Rightarrow> e | None \<Rightarrow> sc_power c)\<rparr>)"

definition push_telemetry :: "WorkloadSignature \<Rightarrow> SynapseCore \<Rightarrow> SynapseCore" where
  "push_telemetry sig c = c\<lparr>sc_telemetry := snd (rb_push sig (sc_telemetry c))\<rparr>"

definition live_report_of :: "SynapseCore \<Rightarrow> SynapseSessionReport" where
  "live_report_of c =
     session_report_default
       \<lparr>rep_jit := (rep_jit session_report_default)
          \<lparr>cold_cache_fallbacks := jss_cold_cache_fallbacks (sc_jit_stats c),
           worst_fallback_ms := jss_worst_fallback_ms (sc_jit_stats c),
           total_fallback_ms := jss_total_fallback_ms (sc_jit_stats c)\<rparr>,
        its_cache := (its_cache session_report_default)
          \<lparr>cm_hits := te_cache_hits (sc_its c), cm_misses := te_cache_misses (sc_its c), cm_current_usage_bytes := 0\<rparr>\<rparr>"

definition forward_draw_indexed :: "draw_args \<Rightarrow> SynapseCore \<Rightarrow> SynapseCore" where
  "forward_draw_indexed d c =
     (if pfn_draw_indexed (sc_pfn c)
      then issue (GDrawIndexed (da_cb d) (da_indexCount d) (da_instanceCount d) (da_firstIndex d)
             (da_vertexOffset d) (da_firstInstance d)) c else c)"

definition oracle_draw_indexed :: "call_env \<Rightarrow> draw_args \<Rightarrow> SynapseCore \<Rightarrow> core_error + SynapseCore" where
  "oracle_draw_indexed env d =
     execute_oracle_draw (ce_oracle_ms env) (da_cb d) (da_indexCount d) (da_instanceCount d) (da_firstIndex d)
       (da_vertexOffset d) (da_firstInstance d)"

text \<open>The switch over the chosen backend.\<close>

definition route_draw_indexed ::
  "call_env \<Rightarrow> draw_args \<Rightarrow> WorkloadSignature \<Rightarrow> ExecutionBackend \<Rightarrow> SynapseCore \<Rightarrow> core_error + SynapseCore" where
  "route_draw_indexed env d sig backend c =
     (case backend of
        JIT \<Rightarrow> if is_available ''jit'' (sc_degrade c)
          then execute_jit_path (ce_oracle_ms env) (da_cb d) sig c else oracle_draw_indexed env d c
      | HAI \<Rightarrow> if is_available ''hai'' (sc_degrade c)
          then Inr (execute_hai_path sig c) else oracle_draw_indexed env d c
      | Oracle \<Rightarrow> oracle_draw_indexed env d c)"

text \<open>What follows the draw: frame count, reward, observation.\<close>

definition learn_from_draw ::
  "core_params \<Rightarrow> call_env \<Rightarrow> bool \<Rightarrow> ExecutionBackend \<Rightarrow> WorkloadSignature \<Rightarrow> SynapseSessionReport \<Rightarrow> SynapseCore \<Rightarrow> SynapseCore" where
  "learn_from_draw p env aggressive backend sig report c =
     (let c = c\<lparr>sc_power := increment_frame (sc_power c)\<rparr>;
          pr = power_generate (sc_power c);
          report = report\<lparr>rep_power := pr\<rparr>;
          over = (if is_over_budget (sc_jit_stats c) then 1 else 0);
          reward = reward_compute (sc_reward c) (f32_of_f64 (ce_elapsed_ms env)) pr 0 over;
          reward = (if \<not> aggressive then f32_mul reward (Fin (1 / 2)) else reward)
      in c\<lparr>sc_ml := observe_from_signature (cp_log10 p) backend reward sig (Some report) (sc_ml c)\<rparr>)"

definition handle_draw_indexed ::
  "core_params \<Rightarrow> call_env \<Rightarrow> draw_args \<Rightarrow> SynapseCore \<Rightarrow> core_error + SynapseCore" where
  "handle_draw_indexed p env d c =
     (if \<not> sc_draw_telemetry_allowed c then
        Inr (wal_log (ce_now env) Ev_DrawIndexed None 0 (forward_draw_indexed d c))
      else if \<not> is_available ''jit'' (sc_degrade c) then
        Inr (wal_log (ce_now env) Ev_DrawIndexed None 0 (forward_draw_indexed d c))
      else
        let sig = capture_current_signature (da_cb d) (da_indexCount d) c;
            c = wal_log (ce_now env) Ev_DrawIndexed (Some (encode_signature (ce_padding env) sig)) 32 c;
            c = prepare_textures p (da_cb d) (push_telemetry sig c);
            cfg = config_read (sc_config c);
            live_report = live_report_of c;
            backend = ml_decide (cp_log10 p) (ce_explore env) (ce_random env) sig (Some live_report) (sc_ml c);
            c = increment_backend_counter backend c
        in case route_draw_indexed env d sig backend c of
             Inl e \<Rightarrow> Inl e
           | Inr c \<Rightarrow> Inr (learn_from_draw p env (ml_aggressive cfg) backend sig live_report c))"

record plain_draw_args =
  pd_cb :: u64
  pd_vertexCount :: u32
  pd_instanceCount :: u32
  pd_firstVertex :: u32
  pd_firstInstance :: u32

definition forward_draw :: "plain_draw_args \<Rightarrow> SynapseCore \<Rightarrow> SynapseCore" where
  "forward_draw d c =
     (if pfn_draw (sc_pfn c)
      then issue (GDraw (pd_cb d) (pd_vertexCount d) (pd_instanceCount d) (pd_firstVertex d) (pd_firstInstance d)) c
      else c)"

definition route_draw ::
  "call_env \<Rightarrow> plain_draw_args \<Rightarrow> WorkloadSignature \<Rightarrow> ExecutionBackend \<Rightarrow> SynapseCore \<Rightarrow> core_error + SynapseCore" where
  "route_draw env d sig backend c =
     (case backend of
        JIT \<Rightarrow> if is_available ''jit'' (sc_degrade c)
          then execute_jit_path (ce_oracle_ms env) (pd_cb d) sig c else Inr (forward_draw d c)
      | HAI \<Rightarrow> if is_available ''hai'' (sc_degrade c)
          then Inr (execute_hai_path sig c) else Inr (forward_draw d c)
      | Oracle \<Rightarrow> Inr (forward_draw d c))"

definition handle_draw :: "core_params \<Rightarrow> call_env \<Rightarrow> plain_draw_args \<Rightarrow> SynapseCore \<Rightarrow> core_error + SynapseCore" where
  "handle_draw p env d c =
     (if \<not> sc_draw_telemetry_allowed c then
        Inr (wal_log (ce_now env) Ev_Draw None 0 (forward_draw d c))
      else
        let sig = (capture_current_signature (pd_cb d) (pd_vertexCount d) c)\<lparr>is_compute_dispatch := False\<rparr>;
            c = wal_log (ce_now env) Ev_Draw None 0 c;
            c = prepare_textures p (pd_cb d) (push_telemetry sig c);
            backend = ml_decide (cp_log10 p) (ce_explore env) (ce_random env) sig None (sc_ml c)
        in route_draw env d sig backend (increment_backend_counter backend c))"

record dispatch_args =
  di_cb :: u64
  di_x :: u32
  di_y :: u32
  di_z :: u32

definition forward_dispatch :: "dispatch_args \<Rightarrow> SynapseCore \<Rightarrow> SynapseCore" where
  "forward_dispatch d c = (if pfn_dispatch (sc_pfn c) then issue (GDispatch (di_cb d) (di_x d) (di_y d) (di_z d)) c else c)"

definition route_dispatch ::
  "call_env \<Rightarrow> dispatch_args \<Rightarrow> ConfigSnapshot \<Rightarrow> WorkloadSignature \<Rightarrow> ExecutionBackend \<Rightarrow> SynapseCore \<Rightarrow> core_error + SynapseCore" where
  "route_dispatch env d cfg sig backend c =
     (case backend of
        JIT \<Rightarrow> if is_available ''jit'' (sc_degrade c) \<and> jit_enabled cfg
          then execute_jit_path (ce_oracle_ms env) (di_cb d) sig c else Inr (forward_dispatch d c)
      | HAI \<Rightarrow> if is_available ''hai'' (sc_degrade c) \<and> hai_enabled cfg
          then Inr (execute_hai_path sig c) else Inr (forward_dispatch d c)
      | Oracle \<Rightarrow> Inr (forward_dispatch d c))"

definition learn_from_dispatch ::
  "core_params \<Rightarrow> ExecutionBackend \<Rightarrow> WorkloadSignature \<Rightarrow> SynapseCore \<Rightarrow> SynapseCore" where
  "learn_from_dispatch p backend sig c =
     (let pr = power_generate (sc_power c);
          over = (if is_over_budget (sc_jit_stats c) then 1 else 0);
          reward = reward_compute (sc_reward c) (Fin (1 / 2)) pr 0 over
      in c\<lparr>sc_ml := observe_from_signature (cp_log10 p) backend reward sig
             (Some (session_report_default\<lparr>rep_power := pr\<rparr>)) (sc_ml c)\<rparr>)"

definition dispatch_signature :: WorkloadSignature where
  "dispatch_signature = signature_zero\<lparr>is_compute_dispatch := True, draw_call_count := 1, shader_instruction_estimate := 500\<rparr>"

definition handle_dispatch :: "core_params \<Rightarrow> call_env \<Rightarrow> dispatch_args \<Rightarrow> SynapseCore \<Rightarrow> core_error + SynapseCore" where
  "handle_dispatch p env d c =
     (let cfg = config_read (sc_config c);
          sig = dispatch_signature;
          c = wal_log (ce_now env) Ev_Dispatch (Some (encode_signature (ce_padding env) sig)) 32 c;
          c = push_telemetry sig c;
          backend = ml_decide (cp_log10 p) (ce_explore env) (ce_random env) sig None (sc_ml c);
          c = increment_backend_counter backend c
      in case route_dispatch env d cfg sig backend c of
           Inl e \<Rightarrow> Inl e
         | Inr c \<Rightarrow> Inr (if ml_aggressive cfg then learn_from_dispatch p backend sig c else c))"

definition handle_push_constants ::
  "u64 \<Rightarrow> u64 \<Rightarrow> u64 \<Rightarrow> u32 \<Rightarrow> u32 \<Rightarrow> u32 \<Rightarrow> bytes \<Rightarrow> SynapseCore \<Rightarrow> SynapseCore" where
  "handle_push_constants now cmd layout stageFlags offset sz pValues c =
     (let c = wal_log now Ev_PushConstants (Some pValues) (min sz 240) c
      in if pfn_push_constants (sc_pfn c)
         then issue (GPushConstants cmd layout stageFlags offset sz pValues) c else c)"

definition handle_bind_descriptor_sets ::
  "u64 \<Rightarrow> u64 \<Rightarrow> u32 \<Rightarrow> u64 \<Rightarrow> u32 \<Rightarrow> u64 list \<Rightarrow> u32 list \<Rightarrow> SynapseCore \<Rightarrow> SynapseCore" where
  "handle_bind_descriptor_sets now cmd bindPoint layout firstSet sets dynamicOffsets c =
     (let c = fold (\<lambda>(i, ds). notify_bind_descriptor_set cmd (firstSet + of_nat i) ds) (enumerate 0 sets) c;
          c = wal_log now Ev_BindDescriptorSets None 0 c
      in if pfn_bind_descriptor_sets (sc_pfn c)
         then issue (GBindDescriptorSets cmd bindPoint layout firstSet sets dynamicOffsets) c else c)"

section \<open>Sequences of intercepted calls\<close>

datatype core_event =
    Draw_indexed call_env draw_args
  | Draw_plain call_env plain_draw_args
  | Dispatch_compute call_env dispatch_args
  | Push_constants u64 u64 u64 u32 u32 u32 bytes
  | Bind_sets u64 u64 u32 u64 u32 "u64 list" "u32 list"
  | Bind_pipeline u64 u64 u64
  | Create_image u64 u32 u32 u32 u64
  | Destroy_image u64
  | Free_cmd u64
  | Analyzer_turn
  | Trainer_tick

fun core_step :: "core_params \<Rightarrow> core_event \<Rightarrow> SynapseCore \<Rightarrow> core_error + SynapseCore" where
  "core_step p (Draw_indexed env d) c = handle_draw_indexed p env d c"
| "core_step p (Draw_plain env d) c = handle_draw p env d c"
| "core_step p (Dispatch_compute env d) c = handle_dispatch p env d c"
| "core_step p (Push_constants now cmd l st off sz vs) c = Inr (handle_push_constants now cmd l st off sz vs c)"
| "core_step p (Bind_sets now cmd bp l first sets offs) c = Inr (handle_bind_descriptor_sets now cmd bp l first sets offs c)"
| "core_step p (Bind_pipeline cmd pl sh) c = Inr (notify_bind_pipeline cmd pl sh c)"
| "core_step p (Create_image img w h m tid) c = Inr (notify_create_image img w h m tid c)"
| "core_step p (Destroy_image img) c = Inr (notify_destroy_image img c)"
| "core_step p (Free_cmd cmd) c = Inr (notify_free_cmd_buf cmd c)"
| "core_step p Analyzer_turn c =
     Inr (let (a, r) = process_telemetry_step (sc_analyzer c) (sc_telemetry c) in c\<lparr>sc_analyzer := a, sc_telemetry := r\<rparr>)"
| "core_step p Trainer_tick c = Inr (c\<lparr>sc_ml := trainer_turn (sc_ml c)\<rparr>)"

fun core_run :: "core_params \<Rightarrow> core_event list \<Rightarrow> SynapseCore \<Rightarrow> core_error + SynapseCore" where
  "core_run p [] c = Inr c"
| "core_run p (e # es) c = (case core_step p e c of Inl x \<Rightarrow> Inl x | Inr c' \<Rightarrow> core_run p es c')"

text \<open>Calls that reach the backend switch; draws and dispatches; and calls that are logged.\<close>

fun routed :: "SynapseCore \<Rightarrow> core_event \<Rightarrow> bool" where
  "routed c (Draw_indexed env d) = (sc_draw_telemetry_allowed c \<and> is_available ''jit'' (sc_degrade c))"
| "routed c (Draw_plain env d) = sc_draw_telemetry_allowed c"
| "routed c (Dispatch_compute env d) = True"
| "routed c e = False"

fun is_work :: "core_event \<Rightarrow> bool" where
  "is_work (Draw_indexed env d) = True"
| "is_work (Draw_plain env d) = True"
| "is_work (Dispatch_compute env d) = True"
| "is_work e = False"

fun logged :: "core_event \<Rightarrow> bool" where
  "logged (Draw_indexed env d) = True"
| "logged (Draw_plain env d) = True"
| "logged (Dispatch_compute env d) = True"
| "logged (Push_constants now cmd l st off sz vs) = True"
| "logged (Bind_sets now cmd bp l first sets offs) = True"
| "logged e = False"

definition total_routed :: "SynapseCore \<Rightarrow> u32" where
  "total_routed c = total_draw_calls (backend_routing (build_session_report c))"

definition wal_writes :: "SynapseCore \<Rightarrow> u64" where
  "wal_writes c = (case sc_recovery c of Some r \<Rightarrow> tl_sequence (cr_telemetry r) | None \<Rightarrow> 0)"

text \<open>What the handlers keep: no shader is ever compiled, the recovery manager exists, and the three
  switchable features were registered as enabled and are not in fallback.\<close>

definition core_inv :: "SynapseCore \<Rightarrow> bool" where
  "core_inv c \<longleftrightarrow> sc_jit_cache c = [] \<and> sc_recovery c \<noteq> None
     \<and> (\<forall>f \<in> {''jit'', ''hai'', ''telemetry''}. al_lookup (initial_states (sc_degrade c)) f = Some Feat_Enabled)"

text \<open>The fields a routed call may not disturb.\<close>

definition same_mode :: "SynapseCore \<Rightarrow> SynapseCore \<Rightarrow> bool" where
  "same_mode c c' \<longleftrightarrow> sc_pfn c' = sc_pfn c \<and> sc_draw_telemetry_allowed c' = sc_draw_telemetry_allowed c
     \<and> sc_config c' = sc_config c \<and> sc_state c' = sc_state c \<and> initial_states (sc_degrade c') = initial_states (sc_degrade c)
     \<and> (\<forall>f. is_available f (sc_degrade c') = is_available f (sc_degrade c))"

section \<open>Lemmas: frames\<close>

lemma same_mode_refl [simp]: "same_mode c c"
  by (simp add: same_mode_def)

lemma same_mode_trans: "same_mode a b \<Longrightarrow> same_mode b c \<Longrightarrow> same_mode a c"
  by (simp add: same_mode_def)

lemma wal_log_frame [simp, frame_simps]:
  "sc_trace (wal_log now ty pl sz c) = sc_trace c"
  "sc_pfn (wal_log now ty pl sz c) = sc_pfn c"
  "sc_jit_cache (wal_log now ty pl sz c) = sc_jit_cache c"
  "sc_degrade (wal_log now ty pl sz c) = sc_degrade c"
  "sc_config (wal_log now ty pl sz c) = sc_config c"
  "sc_state (wal_log now ty pl sz c) = sc_state c"
  "sc_draw_telemetry_allowed (wal_log now ty pl sz c) = sc_draw_telemetry_allowed c"
  "sc_jit_count (wal_log now ty pl sz c) = sc_jit_count c"
  "sc_hai_count (wal_log now ty pl sz c) = sc_hai_count c"
  "sc_oracle_count (wal_log now ty pl sz c) = sc_oracle_count c"
  "sc_ml (wal_log now ty pl sz c) = sc_ml c"
  "sc_jit_stats (wal_log now ty pl sz c) = sc_jit_stats c"
  "sc_its (wal_log now ty pl sz c) = sc_its c"
  "sc_cmd_state (wal_log now ty pl sz c) = sc_cmd_state c"
  "sc_recovery (wal_log now ty pl sz c) = None \<longleftrightarrow> sc_recovery c = None"
  by (simp_all add: wal_log_def split: option.split)

lemma wal_log_writes:
  assumes "unat sz \<le> 240" "sc_recovery c \<noteq> None"
  shows "wal_writes (wal_log now ty pl sz c) = wal_writes c + (if is_available ''telemetry'' (sc_degrade c) then 1 else 0)"
proof -
  have flush: "tl_sequence (flush_buffer_locked t) = tl_sequence t" for t
    by (simp add: flush_buffer_locked_def Let_def)
  show ?thesis using assms
    by (auto simp: wal_writes_def wal_log_def telemetry_write_def kWALDataSize_def Let_def flush not_less split: option.splits)
qed

lemma push_telemetry_frame [simp, frame_simps]:
  "sc_trace (push_telemetry s c) = sc_trace c" "sc_pfn (push_telemetry s c) = sc_pfn c"
  "sc_jit_cache (push_telemetry s c) = sc_jit_cache c" "sc_degrade (push_telemetry s c) = sc_degrade c"
  "sc_config (push_telemetry s c) = sc_config c" "sc_state (push_telemetry s c) = sc_state c" "sc_recovery (push_telemetry s c) = sc_recovery c"
  "sc_draw_telemetry_allowed (push_telemetry s c) = sc_draw_telemetry_allowed c"
  "sc_jit_count (push_telemetry s c) = sc_jit_count c" "sc_hai_count (push_telemetry s c) = sc_hai_count c"
  "sc_oracle_count (push_telemetry s c) = sc_oracle_count c" "sc_ml (push_telemetry s c) = sc_ml c"
  "sc_jit_stats (push_telemetry s c) = sc_jit_stats c" "sc_its (push_telemetry s c) = sc_its c"
  by (simp_all add: push_telemetry_def)

lemma prepare_textures_frame [simp, frame_simps]:
  "sc_trace (prepare_textures p cmd c) = sc_trace c" "sc_pfn (prepare_textures p cmd c) = sc_pfn c"
  "sc_jit_cache (prepare_textures p cmd c) = sc_jit_cache c" "sc_degrade (prepare_textures p cmd c) = sc_degrade c"
  "sc_config (prepare_textures p cmd c) = sc_config c" "sc_state (prepare_textures p cmd c) = sc_state c" "sc_recovery (prepare_textures p cmd c) = sc_recovery c"
  "sc_draw_telemetry_allowed (prepare_textures p cmd c) = sc_draw_telemetry_allowed c"
  "sc_jit_count (prepare_textures p cmd c) = sc_jit_count c" "sc_hai_count (prepare_textures p cmd c) = sc_hai_count c"
  "sc_oracle_count (prepare_textures p cmd c) = sc_oracle_count c" "sc_ml (prepare_textures p cmd c) = sc_ml c"
  "sc_jit_stats (prepare_textures p cmd c) = sc_jit_stats c"
  "te_cache_hits (sc_its (prepare_textures p cmd c)) = te_cache_hits (sc_its c)"
  "te_cache_misses (sc_its (prepare_textures p cmd c)) = te_cache_misses (sc_its c)"
  by (simp_all add: prepare_textures_def Let_def)

lemma increment_frame_simps [simp, frame_simps]:
  "sc_trace (increment_backend_counter b c) = sc_trace c" "sc_pfn (increment_backend_counter b c) = sc_pfn c"
  "sc_jit_cache (increment_backend_counter b c) = sc_jit_cache c" "sc_degrade (increment_backend_counter b c) = sc_degrade c"
  "sc_config (increment_backend_counter b c) = sc_config c" "sc_state (increment_backend_counter b c) = sc_state c" "sc_recovery (increment_backend_counter b c) = sc_recovery c"
  "sc_draw_telemetry_allowed (increment_backend_counter b c) = sc_draw_telemetry_allowed c"
  "sc_ml (increment_backend_counter b c) = sc_ml c"
  by (cases b; simp)+

lemma increment_total [simp]: "total_routed (increment_backend_counter b c) = total_routed c + 1"
  by (cases b) (simp_all add: total_routed_def build_session_report_def)

lemma total_routed_cong:
  "sc_jit_count a = sc_jit_count b \<Longrightarrow> sc_hai_count a = sc_hai_count b \<Longrightarrow> sc_oracle_count a = sc_oracle_count b
   \<Longrightarrow> total_routed a = total_routed b"
  by (simp add: total_routed_def build_session_report_def)

lemma wal_writes_cong: "sc_recovery a = sc_recovery b \<Longrightarrow> wal_writes a = wal_writes b"
  by (simp add: wal_writes_def)

section \<open>Lemmas: effects\<close>

text \<open>\<open>effect c gs r w c'\<close>: the step from \<open>c\<close> to \<open>c'\<close> issued the calls \<open>gs\<close>, counted \<open>r\<close> routed calls,
  logged \<open>w\<close> records, and kept the invariant and the mode.\<close>

definition effect :: "SynapseCore \<Rightarrow> gpu_call list \<Rightarrow> u32 \<Rightarrow> u64 \<Rightarrow> SynapseCore \<Rightarrow> bool" where
  "effect c gs r w c' \<longleftrightarrow> sc_trace c' = sc_trace c @ gs \<and> same_mode c c' \<and> core_inv c'
     \<and> total_routed c' = total_routed c + r \<and> wal_writes c' = wal_writes c + w"

lemma effect_trans: "effect a g r w b \<Longrightarrow> effect b h r' w' c \<Longrightarrow> effect a (g @ h) (r + r') (w + w') c"
  by (auto simp: effect_def add.assoc intro: same_mode_trans)

lemma effect_then_quiet: "effect a g r w b \<Longrightarrow> effect b [] 0 0 c \<Longrightarrow> effect a g r w c"
  using effect_trans [of a g r w b "[]" 0 0 c] by simp

lemma effectI:
  assumes "core_inv c" "sc_trace c' = sc_trace c @ gs" "sc_pfn c' = sc_pfn c" "sc_degrade c' = sc_degrade c"
    "sc_config c' = sc_config c" "sc_state c' = sc_state c" "sc_draw_telemetry_allowed c' = sc_draw_telemetry_allowed c"
    "sc_jit_cache c' = sc_jit_cache c" "sc_recovery c' = sc_recovery c"
    "sc_jit_count c' = sc_jit_count c" "sc_hai_count c' = sc_hai_count c" "sc_oracle_count c' = sc_oracle_count c"
  shows "effect c gs 0 0 c'"
  using assms total_routed_cong [of c' c] wal_writes_cong [of c' c]
  by (simp add: effect_def same_mode_def core_inv_def)

lemma available_handle_error:
  "is_available f (handle_error g code d) =
     (if f = g then error_target (al_lookup (initial_states d) g) code \<in> {Feat_Enabled, Feat_Degraded}
      else is_available f d)"
  by (auto simp: is_available_def feature_state_def handle_error_def Let_def)

lemma handle_error_initial [simp]: "initial_states (handle_error g code d) = initial_states d"
  by (simp add: handle_error_def)

lemma jit_restored:
  assumes "al_lookup (initial_states d) ''jit'' = Some Feat_Enabled" "is_available ''jit'' d"
  shows "is_available f (handle_error ''jit'' 0 (handle_error ''jit'' 1 d)) = is_available f d"
  using assms by (simp add: available_handle_error error_target_def)

lemma oracle_draw_effect:
  assumes "core_inv c" "pfn_draw_indexed (sc_pfn c)"
  shows "\<exists>c'. execute_oracle_draw ms cmd ic n fi vo fn c = Inr c' \<and> effect c [GDrawIndexed cmd ic n fi vo fn] 0 0 c'"
  using assms by (auto simp: execute_oracle_draw_def issue_def Let_def intro!: effectI)

lemma hai_path_effect: "core_inv c \<Longrightarrow> effect c [] 0 0 (execute_hai_path sig c)"
  by (rule effectI) (simp_all add: execute_hai_path_def Let_def)

lemma forward_draw_effect: "core_inv c \<Longrightarrow> pfn_draw (sc_pfn c) \<Longrightarrow>
  effect c [GDraw (pd_cb d) (pd_vertexCount d) (pd_instanceCount d) (pd_firstVertex d) (pd_firstInstance d)] 0 0 (forward_draw d c)"
  by (rule effectI) (simp_all add: forward_draw_def issue_def)

lemma forward_dispatch_effect: "core_inv c \<Longrightarrow> pfn_dispatch (sc_pfn c) \<Longrightarrow>
  effect c [GDispatch (di_cb d) (di_x d) (di_y d) (di_z d)] 0 0 (forward_dispatch d c)"
  by (rule effectI) (simp_all add: forward_dispatch_def issue_def)

lemma forward_draw_indexed_effect: "core_inv c \<Longrightarrow> pfn_draw_indexed (sc_pfn c) \<Longrightarrow>
  effect c [GDrawIndexed (da_cb d) (da_indexCount d) (da_instanceCount d) (da_firstIndex d)
             (da_vertexOffset d) (da_firstInstance d)] 0 0 (forward_draw_indexed d c)"
  by (rule effectI) (simp_all add: forward_draw_indexed_def issue_def)

lemma jit_path_effect:
  assumes inv: "core_inv c" and pfn: "pfn_draw_indexed (sc_pfn c)" and av: "is_available ''jit'' (sc_degrade c)"
  shows "\<exists>c'. execute_jit_path ms cmd sig c = Inr c' \<and> effect c [GDrawIndexed cmd (vertex_count sig) 1 0 0 0] 0 0 c'"
proof -
  let ?c1 = "c\<lparr>sc_jit_cache := [], sc_degrade := handle_error ''jit'' 1 (sc_degrade c)\<rparr>"
  have miss: "get_optimized_shader (sc_analyzer c) (shader_hash sig) [] (sc_jit_cache c) = (None, [])"
    using inv by (simp add: core_inv_def get_optimized_shader_def compile_specialized_def Let_def)
  have inv1: "core_inv ?c1" using inv by (simp add: core_inv_def)
  obtain c2 where c2: "execute_oracle_draw ms cmd (vertex_count sig) 1 0 0 0 ?c1 = Inr c2"
    "effect ?c1 [GDrawIndexed cmd (vertex_count sig) 1 0 0 0] 0 0 c2"
    using oracle_draw_effect [OF inv1, of ms cmd "vertex_count sig" 1 0 0 0] pfn by auto
  have deg: "sc_degrade c2 = handle_error ''jit'' 1 (sc_degrade c)"
    using c2(1) pfn by (auto simp: execute_oracle_draw_def issue_def Let_def)
  let ?c3 = "c2\<lparr>sc_degrade := handle_error ''jit'' 0 (sc_degrade c2)\<rparr>"
  have "execute_jit_path ms cmd sig c = Inr ?c3"
    using c2(1) by (simp add: execute_jit_path_def miss Let_def)
  moreover have "effect c [GDrawIndexed cmd (vertex_count sig) 1 0 0 0] 0 0 ?c3"
    using c2(2) inv av jit_restored [of "sc_degrade c"] total_routed_cong [of ?c3 c2] total_routed_cong [of ?c1 c]
      wal_writes_cong [of ?c3 c2] wal_writes_cong [of ?c1 c]
    by (simp add: effect_def same_mode_def core_inv_def deg)
  ultimately show ?thesis by blast
qed

lemma push_telemetry_effect: "core_inv c \<Longrightarrow> effect c [] 0 0 (push_telemetry sig c)"
  by (rule effectI) simp_all

lemma prepare_textures_effect: "core_inv c \<Longrightarrow> effect c [] 0 0 (prepare_textures p cmd c)"
  by (rule effectI) simp_all

lemma ml_update_effect: "core_inv c \<Longrightarrow> effect c [] 0 0 (c\<lparr>sc_power := e, sc_ml := m\<rparr>)"
  by (rule effectI) simp_all

lemma learn_effect:
  "core_inv c \<Longrightarrow> effect c [] 0 0 (learn_from_draw p env ag b sig r c)"
  "core_inv c \<Longrightarrow> effect c [] 0 0 (learn_from_dispatch p b sig c)"
  by (rule effectI; simp add: learn_from_draw_def learn_from_dispatch_def Let_def)+

lemma increment_effect: "core_inv c \<Longrightarrow> effect c [] 1 0 (increment_backend_counter b c)"
  by (simp add: effect_def core_inv_def same_mode_def wal_writes_def)

definition log_count :: "SynapseCore \<Rightarrow> u64" where
  "log_count c = (if is_available ''telemetry'' (sc_degrade c) then 1 else 0)"

lemma wal_log_effect:
  assumes "core_inv c" "unat sz \<le> 240"
  shows "effect c [] 0 (log_count c) (wal_log now ty pl sz c)"
  using assms wal_log_writes [OF assms(2), of c now ty pl]
  by (auto simp: effect_def core_inv_def same_mode_def log_count_def intro!: total_routed_cong)

lemma effect_inv: "effect c gs r w c' \<Longrightarrow> core_inv c'"
  by (simp add: effect_def)

lemma effect_mode: "effect c gs r w c' \<Longrightarrow> same_mode c c'"
  by (simp add: effect_def)

text \<open>The prologue of the routed handlers: one log record, one routing count.\<close>

lemma draw_prologue_effect:
  assumes "core_inv c" "unat sz \<le> 240"
  shows "effect c [] 1 (log_count c)
    (increment_backend_counter b (prepare_textures p cmd (push_telemetry sig (wal_log now ty pl sz c))))"
proof -
  note l = wal_log_effect [OF assms, of now ty pl]
  note l = effect_then_quiet [OF l push_telemetry_effect [OF effect_inv [OF l], of sig]]
  note l = effect_then_quiet [OF l prepare_textures_effect [OF effect_inv [OF l], of p cmd]]
  show ?thesis using effect_trans [OF l increment_effect [OF effect_inv [OF l], of b]] by simp
qed

lemma dispatch_prologue_effect:
  assumes "core_inv c" "unat sz \<le> 240"
  shows "effect c [] 1 (log_count c) (increment_backend_counter b (push_telemetry sig (wal_log now ty pl sz c)))"
proof -
  note l = wal_log_effect [OF assms, of now ty pl]
  note l = effect_then_quiet [OF l push_telemetry_effect [OF effect_inv [OF l], of sig]]
  show ?thesis using effect_trans [OF l increment_effect [OF effect_inv [OF l], of b]] by simp
qed

section \<open>What the handlers issue\<close>

definition draw_indexed_choice :: "core_params \<Rightarrow> call_env \<Rightarrow> draw_args \<Rightarrow> SynapseCore \<Rightarrow> ExecutionBackend" where
  "draw_indexed_choice p env d c =
     ml_decide (cp_log10 p) (ce_explore env) (ce_random env) (capture_current_signature (da_cb d) (da_indexCount d) c)
       (Some (live_report_of c)) (sc_ml c)"

definition same_draw_indexed :: "draw_args \<Rightarrow> gpu_call" where
  "same_draw_indexed d = GDrawIndexed (da_cb d) (da_indexCount d) (da_instanceCount d) (da_firstIndex d)
     (da_vertexOffset d) (da_firstInstance d)"

definition draw_indexed_calls :: "core_params \<Rightarrow> call_env \<Rightarrow> draw_args \<Rightarrow> SynapseCore \<Rightarrow> gpu_call list" where
  "draw_indexed_calls p env d c =
     (if \<not> routed c (Draw_indexed env d) then [same_draw_indexed d]
      else case draw_indexed_choice p env d c of
             JIT \<Rightarrow> [GDrawIndexed (da_cb d) (da_indexCount d) 1 0 0 0]
           | HAI \<Rightarrow> if is_available ''hai'' (sc_degrade c) then [] else [same_draw_indexed d]
           | Oracle \<Rightarrow> [same_draw_indexed d])"

definition draw_choice :: "core_params \<Rightarrow> call_env \<Rightarrow> plain_draw_args \<Rightarrow> SynapseCore \<Rightarrow> ExecutionBackend" where
  "draw_choice p env d c =
     ml_decide (cp_log10 p) (ce_explore env) (ce_random env)
       ((capture_current_signature (pd_cb d) (pd_vertexCount d) c)\<lparr>is_compute_dispatch := False\<rparr>) None (sc_ml c)"

definition draw_calls :: "core_params \<Rightarrow> call_env \<Rightarrow> plain_draw_args \<Rightarrow> SynapseCore \<Rightarrow> gpu_call list" where
  "draw_calls p env d c =
     (let same = [GDraw (pd_cb d) (pd_vertexCount d) (pd_instanceCount d) (pd_firstVertex d) (pd_firstInstance d)]
      in if \<not> sc_draw_telemetry_allowed c then same
         else case draw_choice p env d c of
                JIT \<Rightarrow> if is_available ''jit'' (sc_degrade c) then [GDrawIndexed (pd_cb d) (pd_vertexCount d) 1 0 0 0] else same
              | HAI \<Rightarrow> if is_available ''hai'' (sc_degrade c) then [] else same
              | Oracle \<Rightarrow> same)"

definition dispatch_choice :: "core_params \<Rightarrow> call_env \<Rightarrow> SynapseCore \<Rightarrow> ExecutionBackend" where
  "dispatch_choice p env c = ml_decide (cp_log10 p) (ce_explore env) (ce_random env) dispatch_signature None (sc_ml c)"

definition dispatch_calls :: "core_params \<Rightarrow> call_env \<Rightarrow> dispatch_args \<Rightarrow> SynapseCore \<Rightarrow> gpu_call list" where
  "dispatch_calls p env d c =
     (let same = [GDispatch (di_cb d) (di_x d) (di_y d) (di_z d)]; cfg = config_read (sc_config c)
      in case dispatch_choice p env c of
           JIT \<Rightarrow> if is_available ''jit'' (sc_degrade c) \<and> jit_enabled cfg then [GDrawIndexed (di_cb d) 0 1 0 0 0] else same
         | HAI \<Rightarrow> if is_available ''hai'' (sc_degrade c) \<and> hai_enabled cfg then [] else same
         | Oracle \<Rightarrow> same)"

definition count_if :: "bool \<Rightarrow> u32" where
  "count_if b = (if b then 1 else 0)"

lemma live_report_prepared:
  "live_report_of (prepare_textures p cmd (push_telemetry sig (wal_log now ty pl sz c))) = live_report_of c"
  by (simp add: live_report_of_def)

lemma capture_vertex_count [simp]: "vertex_count (capture_current_signature cmd n c) = n"
  by (simp add: capture_current_signature_def Let_def split: option.split)

lemma route_draw_indexed_effect:
  assumes "core_inv c" "pfn_draw_indexed (sc_pfn c)" "is_available ''jit'' (sc_degrade c)"
  shows "\<exists>c'. route_draw_indexed env d sig b c = Inr c' \<and>
    effect c (case b of JIT \<Rightarrow> [GDrawIndexed (da_cb d) (vertex_count sig) 1 0 0 0]
              | HAI \<Rightarrow> if is_available ''hai'' (sc_degrade c) then [] else [same_draw_indexed d]
              | Oracle \<Rightarrow> [same_draw_indexed d]) 0 0 c'"
  using assms oracle_draw_effect [OF assms(1,2)] jit_path_effect [OF assms] hai_path_effect [OF assms(1)]
  by (cases b) (auto simp: route_draw_indexed_def oracle_draw_indexed_def same_draw_indexed_def)

lemma handle_draw_indexed_effect:
  assumes inv: "core_inv c" and pfn: "pfn_draw_indexed (sc_pfn c)"
  shows "\<exists>c'. handle_draw_indexed p env d c = Inr c' \<and>
    effect c (draw_indexed_calls p env d c) (count_if (routed c (Draw_indexed env d))) (log_count c) c'"
proof (cases "routed c (Draw_indexed env d)")
  case False
  let ?f = "forward_draw_indexed d c"
  have f: "effect c [same_draw_indexed d] 0 0 ?f"
    unfolding same_draw_indexed_def by (rule forward_draw_indexed_effect [OF inv pfn])
  have "log_count ?f = log_count c"
    using effect_mode [OF f] by (simp add: same_mode_def log_count_def)
  then have "effect c [same_draw_indexed d] 0 (log_count c) (wal_log (ce_now env) Ev_DrawIndexed None 0 ?f)"
    using effect_trans [OF f wal_log_effect [OF effect_inv [OF f], of 0]] by simp
  with False show ?thesis by (auto simp: handle_draw_indexed_def draw_indexed_calls_def count_if_def)
next
  case True
  let ?sig = "capture_current_signature (da_cb d) (da_indexCount d) c"
  let ?b = "draw_indexed_choice p env d c"
  let ?c1 = "prepare_textures p (da_cb d) (push_telemetry ?sig
    (wal_log (ce_now env) Ev_DrawIndexed (Some (encode_signature (ce_padding env) ?sig)) 32 c))"
  let ?c2 = "increment_backend_counter ?b ?c1"
  have e2: "effect c [] 1 (log_count c) ?c2" by (rule draw_prologue_effect [OF inv]) simp
  have calls: "draw_indexed_calls p env d c =
      (case ?b of JIT \<Rightarrow> [GDrawIndexed (da_cb d) (vertex_count ?sig) 1 0 0 0]
       | HAI \<Rightarrow> if is_available ''hai'' (sc_degrade ?c2) then [] else [same_draw_indexed d]
       | Oracle \<Rightarrow> [same_draw_indexed d])"
    using True by (cases ?b) (simp_all add: draw_indexed_calls_def)
  have "pfn_draw_indexed (sc_pfn ?c2)" "is_available ''jit'' (sc_degrade ?c2)" using pfn True by simp_all
  from route_draw_indexed_effect [OF effect_inv [OF e2] this, of env d ?sig ?b]
  obtain c3 where c3: "route_draw_indexed env d ?sig ?b ?c2 = Inr c3"
    "effect ?c2 (draw_indexed_calls p env d c) 0 0 c3"
    unfolding calls by blast
  have e3: "effect c (draw_indexed_calls p env d c) 1 (log_count c) c3" using effect_trans [OF e2 c3(2)] by simp
  have run: "handle_draw_indexed p env d c =
      Inr (learn_from_draw p env (ml_aggressive (config_read (sc_config c))) ?b ?sig (live_report_of c) c3)"
    using True c3(1)
    by (simp add: handle_draw_indexed_def Let_def live_report_prepared draw_indexed_choice_def)
  show ?thesis
    unfolding run using effect_then_quiet [OF e3 learn_effect(1) [OF effect_inv [OF e3]]] True
    by (simp add: count_if_def)
qed

lemma route_draw_effect:
  assumes "core_inv c" "pfn_draw_indexed (sc_pfn c)" "pfn_draw (sc_pfn c)"
  shows "\<exists>c'. route_draw env d sig b c = Inr c' \<and>
    effect c (let same = [GDraw (pd_cb d) (pd_vertexCount d) (pd_instanceCount d) (pd_firstVertex d) (pd_firstInstance d)]
      in case b of
           JIT \<Rightarrow> if is_available ''jit'' (sc_degrade c) then [GDrawIndexed (pd_cb d) (vertex_count sig) 1 0 0 0] else same
         | HAI \<Rightarrow> if is_available ''hai'' (sc_degrade c) then [] else same
         | Oracle \<Rightarrow> same) 0 0 c'"
  using assms jit_path_effect [OF assms(1,2)] hai_path_effect [OF assms(1)] forward_draw_effect [OF assms(1,3)]
  by (cases b) (auto simp: route_draw_def)

lemma route_dispatch_effect:
  assumes "core_inv c" "pfn_draw_indexed (sc_pfn c)" "pfn_dispatch (sc_pfn c)"
  shows "\<exists>c'. route_dispatch env d cfg sig b c = Inr c' \<and>
    effect c (let same = [GDispatch (di_cb d) (di_x d) (di_y d) (di_z d)]
      in case b of
           JIT \<Rightarrow> if is_available ''jit'' (sc_degrade c) \<and> jit_enabled cfg then [GDrawIndexed (di_cb d) (vertex_count sig) 1 0 0 0] else same
         | HAI \<Rightarrow> if is_available ''hai'' (sc_degrade c) \<and> hai_enabled cfg then [] else same
         | Oracle \<Rightarrow> same) 0 0 c'"
  using assms jit_path_effect [OF assms(1,2)] hai_path_effect [OF assms(1)] forward_dispatch_effect [OF assms(1,3)]
  by (cases b) (auto simp: route_dispatch_def)

lemma handle_draw_effect:
  assumes inv: "core_inv c" and pfn: "pfn_draw_indexed (sc_pfn c)" "pfn_draw (sc_pfn c)"
  shows "\<exists>c'. handle_draw p env d c = Inr c' \<and>
    effect c (draw_calls p env d c) (count_if (routed c (Draw_plain env d))) (log_count c) c'"
proof (cases "sc_draw_telemetry_allowed c")
  case False
  let ?f = "forward_draw d c"
  note f = forward_draw_effect [OF inv pfn(2), of d]
  have "log_count ?f = log_count c"
    using effect_mode [OF f] by (simp add: same_mode_def log_count_def)
  then show ?thesis
    using False effect_trans [OF f wal_log_effect [OF effect_inv [OF f], of 0 "ce_now env" Ev_Draw None]]
    by (simp add: handle_draw_def draw_calls_def count_if_def Let_def)
next
  case True
  let ?sig = "(capture_current_signature (pd_cb d) (pd_vertexCount d) c)\<lparr>is_compute_dispatch := False\<rparr>"
  let ?b = "draw_choice p env d c"
  let ?c2 = "increment_backend_counter ?b (prepare_textures p (pd_cb d) (push_telemetry ?sig (wal_log (ce_now env) Ev_Draw None 0 c)))"
  have e2: "effect c [] 1 (log_count c) ?c2" by (rule draw_prologue_effect [OF inv]) simp
  have run: "handle_draw p env d c = route_draw env d ?sig ?b ?c2"
    using True by (simp add: handle_draw_def Let_def draw_choice_def)
  have "\<exists>c3. route_draw env d ?sig ?b ?c2 = Inr c3 \<and> effect ?c2 (draw_calls p env d c) 0 0 c3"
    using True pfn route_draw_effect [OF effect_inv [OF e2], of env d ?sig ?b]
    by (simp add: draw_calls_def Let_def cong del: ExecutionBackend.case_cong_weak if_weak_cong)
  with effect_trans [OF e2] True show ?thesis unfolding run by (fastforce simp: count_if_def)
qed

lemma handle_dispatch_effect:
  assumes inv: "core_inv c" and pfn: "pfn_draw_indexed (sc_pfn c)" "pfn_dispatch (sc_pfn c)"
  shows "\<exists>c'. handle_dispatch p env d c = Inr c' \<and> effect c (dispatch_calls p env d c) 1 (log_count c) c'"
proof -
  let ?b = "dispatch_choice p env c"
  let ?cfg = "config_read (sc_config c)"
  let ?c2 = "increment_backend_counter ?b (push_telemetry dispatch_signature
    (wal_log (ce_now env) Ev_Dispatch (Some (encode_signature (ce_padding env) dispatch_signature)) 32 c))"
  have e2: "effect c [] 1 (log_count c) ?c2" by (rule dispatch_prologue_effect [OF inv]) simp
  have vc: "vertex_count dispatch_signature = 0" by (simp add: dispatch_signature_def signature_zero_def)
  obtain c3 where c3: "route_dispatch env d ?cfg dispatch_signature ?b ?c2 = Inr c3"
    "effect ?c2 (dispatch_calls p env d c) 0 0 c3"
    using pfn route_dispatch_effect [OF effect_inv [OF e2], of env d ?cfg dispatch_signature ?b]
    by (auto simp: dispatch_calls_def Let_def vc cong del: ExecutionBackend.case_cong_weak if_weak_cong)
  have e3: "effect c (dispatch_calls p env d c) 1 (log_count c) c3" using effect_trans [OF e2 c3(2)] by simp
  then show ?thesis
    using c3(1) effect_then_quiet [OF e3 learn_effect(2) [OF effect_inv [OF e3]]]
    by (simp add: handle_dispatch_def Let_def dispatch_choice_def)
qed

fun event_calls :: "core_params \<Rightarrow> core_event \<Rightarrow> SynapseCore \<Rightarrow> gpu_call list" where
  "event_calls p (Draw_indexed env d) c = draw_indexed_calls p env d c"
| "event_calls p (Draw_plain env d) c = draw_calls p env d c"
| "event_calls p (Dispatch_compute env d) c = dispatch_calls p env d c"
| "event_calls p (Push_constants now cmd l st off sz vs) c = [GPushConstants cmd l st off sz vs]"
| "event_calls p (Bind_sets now cmd bp l first sets offs) c = [GBindDescriptorSets cmd bp l first sets offs]"
| "event_calls p e c = []"

definition all_entry_points :: "SynapseCore \<Rightarrow> bool" where
  "all_entry_points c \<longleftrightarrow> pfn_draw_indexed (sc_pfn c) \<and> pfn_draw (sc_pfn c) \<and> pfn_dispatch (sc_pfn c)
     \<and> pfn_push_constants (sc_pfn c) \<and> pfn_bind_descriptor_sets (sc_pfn c)"

lemma bind_sets_effect:
  "core_inv c \<Longrightarrow> effect c [] 0 0 (fold (\<lambda>(i, ds). notify_bind_descriptor_set cmd (first + of_nat i) ds) xs c)"
proof (induction xs arbitrary: c)
  case Nil
  then show ?case by (auto intro: effectI)
next
  case (Cons x xs)
  have step: "effect c [] 0 0 (notify_bind_descriptor_set cmd (first + of_nat (fst x)) (snd x) c)"
    by (rule effectI) (use Cons.prems in \<open>simp_all add: notify_bind_descriptor_set_def Let_def\<close>)
  show ?case
    using effect_then_quiet [OF step Cons.IH [OF effect_inv [OF step]]] by (simp add: case_prod_beta)
qed

lemma log_then_issue_effect:
  assumes "core_inv c" "unat sz \<le> 240"
  shows "effect c [g] 0 (log_count c) (issue g (wal_log now ty pl sz c))"
proof -
  note l = wal_log_effect [OF assms, of now ty pl]
  have "effect (wal_log now ty pl sz c) [g] 0 0 (issue g (wal_log now ty pl sz c))"
    by (rule effectI [OF effect_inv [OF l]]) (simp_all add: issue_def)
  then show ?thesis using effect_trans [OF l] by fastforce
qed

lemma log_count_mode: "same_mode c c' \<Longrightarrow> log_count c' = log_count c"
  by (simp add: same_mode_def log_count_def)

lemma routed_mode: "same_mode c c' \<Longrightarrow> routed c' e = routed c e"
  by (cases e) (simp_all add: same_mode_def)

lemma all_entry_points_mode: "same_mode c c' \<Longrightarrow> all_entry_points c' = all_entry_points c"
  by (simp add: same_mode_def all_entry_points_def)

lemma core_step_effect:
  assumes inv: "core_inv c" and all: "all_entry_points c"
  shows "\<exists>c'. core_step p e c = Inr c' \<and>
    effect c (event_calls p e c) (count_if (routed c e)) (if logged e then log_count c else 0) c'"
proof (cases e)
  case (Push_constants now cmd l st off sz vs)
  have "unat (min sz 240) \<le> 240" by (simp add: min_def word_le_nat_alt)
  then show ?thesis
    using Push_constants all log_then_issue_effect [OF inv]
    by (simp add: handle_push_constants_def all_entry_points_def Let_def count_if_def)
next
  case (Bind_sets now cmd bp l first sets offs)
  note b = bind_sets_effect [OF inv, of cmd first "enumerate 0 sets"]
  note g = effect_trans [OF b log_then_issue_effect [OF effect_inv [OF b], of 0]]
  from Bind_sets all g [unfolded log_count_mode [OF effect_mode [OF b]]] effect_mode [OF b] show ?thesis
    by (simp add: handle_bind_descriptor_sets_def all_entry_points_def Let_def count_if_def same_mode_def)
next
  case (Draw_indexed env d)
  then show ?thesis using handle_draw_indexed_effect [OF inv] all by (simp add: all_entry_points_def)
next
  case (Draw_plain env d)
  then show ?thesis using handle_draw_effect [OF inv] all by (simp add: all_entry_points_def)
next
  case (Dispatch_compute env d)
  then show ?thesis using handle_dispatch_effect [OF inv] all by (simp add: all_entry_points_def count_if_def)
qed (use inv in \<open>auto intro!: effectI simp: count_if_def notify_bind_pipeline_def notify_create_image_def
    notify_destroy_image_def notify_free_cmd_buf_def Let_def split: prod.split\<close>)

lemma core_run_effect:
  assumes "core_inv c" "all_entry_points c"
  shows "\<exists>c' gs. core_run p es c = Inr c' \<and>
    effect c gs (of_nat (length (filter (routed c) es))) (of_nat (length (filter logged es)) * log_count c) c'"
  using assms
proof (induction es arbitrary: c)
  case Nil
  then show ?case by (auto intro!: exI [of _ "[]"] effectI)
next
  case (Cons e es)
  obtain c1 where c1: "core_step p e c = Inr c1"
    "effect c (event_calls p e c) (count_if (routed c e)) (if logged e then log_count c else 0) c1"
    using core_step_effect [OF Cons.prems] by blast
  note mode = effect_mode [OF c1(2)]
  have "all_entry_points c1" using Cons.prems(2) all_entry_points_mode [OF mode] by simp
  from Cons.IH [OF effect_inv [OF c1(2)] this] obtain c2 gs where c2: "core_run p es c1 = Inr c2"
    "effect c1 gs (of_nat (length (filter (routed c) es))) (of_nat (length (filter logged es)) * log_count c) c2"
    unfolding log_count_mode [OF mode] routed_mode [OF mode] by blast
  have "effect c (event_calls p e c @ gs) (of_nat (length (filter (routed c) (e # es))))
      (of_nat (length (filter logged (e # es))) * log_count c) c2"
    using effect_trans [OF c1(2) c2(2)] by (auto simp: count_if_def algebra_simps)
  then show ?case using c1(1) c2(1) by auto
qed

subsection \<open>Construction\<close>

lemma config_validate_flags [simp]:
  "config_validate (c\<lparr>cs_version := v\<rparr>) = config_validate c"
  "config_validate (c\<lparr>ml_aggressive := b\<rparr>) = config_validate c"
  "config_validate (c\<lparr>jit_enabled := b\<rparr>) = config_validate c"
  "config_validate (c\<lparr>hai_enabled := b\<rparr>) = config_validate c"
  "config_validate (c\<lparr>telemetry_enabled := b\<rparr>) = config_validate c"
  by (simp_all add: config_validate_def)

lemma sync_config_default:
  assumes "sc_config c = AtomicConfig_init" "sc_profile c = profile_init"
  shows "config_validate (config_read (sc_config (sync_config_from_profile c)))
    \<and> config_read (sc_config (sync_config_from_profile c)) = ConfigSnapshot_default\<lparr>cs_version := 1\<rparr>
    \<and> sc_degrade (sync_config_from_profile c) =
       handle_error ''telemetry'' 0 (handle_error ''hai'' 0 (handle_error ''jit'' 0 (sc_degrade c)))"
proof -
  let ?s = "ConfigSnapshot_default\<lparr>cs_version := 1, power_budget_watts := 15, thermal_target_celsius := 80, ml_aggressive := True\<rparr>"
  have s: "?s = ConfigSnapshot_default\<lparr>cs_version := 1\<rparr>" by (simp add: ConfigSnapshot_default_def)
  have v: "config_validate ?s" unfolding s by simp
  have "config_update (plan_mutator (up_plan (sc_profile c))) (sc_config c) = (Inr True, \<lparr>cfg_current = ?s, cfg_version = 1\<rparr>)"
    using v by (simp add: assms config_update_def prepare_update_def plan_mutator_def AtomicConfig_init_def profile_init_def)
  then show ?thesis
    using v by (simp add: sync_config_from_profile_def propagate_flags_def config_read_def availability_code_def
        ConfigSnapshot_default_def)
qed

definition fresh_core :: "PFN_table \<Rightarrow> f32 list list \<Rightarrow> Experience list \<Rightarrow> wal_disk \<Rightarrow> wal_disk \<Rightarrow> SynapseCore \<Rightarrow> bool" where
  "fresh_core pfn ws ring meta wal c \<longleftrightarrow> core_inv c \<and> sc_pfn c = pfn \<and> sc_trace c = [] \<and> total_routed c = 0
     \<and> wal_writes c = 0 \<and> sc_draw_telemetry_allowed c \<and> config_validate (config_read (sc_config c))
     \<and> config_read (sc_config c) = ConfigSnapshot_default\<lparr>cs_version := 1\<rparr>
     \<and> (\<forall>f \<in> set core_features. is_available f (sc_degrade c))
     \<and> sc_recovery c = Some (recovery_init meta wal)"

lemma core_features_registered:
  assumes "f \<in> set core_features"
  shows "al_lookup (initial_states (fold (\<lambda>f. register_feature f Feat_Enabled) core_features g)) f = Some Feat_Enabled
    \<and> is_available f (fold (\<lambda>f. register_feature f Feat_Enabled) core_features g)"
  using assms by (auto simp: core_features_def register_feature_def is_available_def feature_state_def)

lemma features_re_enabled:
  assumes "\<And>f. f \<in> set core_features \<Longrightarrow> al_lookup (initial_states g) f = Some Feat_Enabled \<and> is_available f g"
    and "f \<in> set core_features"
  shows "is_available f (handle_error ''telemetry'' 0 (handle_error ''hai'' 0 (handle_error ''jit'' 0 g)))"
proof -
  have "al_lookup (initial_states g) x = Some Feat_Enabled" if "x \<in> {''jit'', ''hai'', ''telemetry''}" for x
    using assms(1) [of x] that by (auto simp: core_features_def)
  then show ?thesis using assms(1) [OF assms(2)] by (simp add: available_handle_error error_target_def)
qed

lemma SynapseCore_init_fresh: "fresh_core pfn ws ring meta wal (SynapseCore_init pfn ws ring meta wal t1 t2 tid)"
proof -
  define c1 where "c1 = core_transition Initializing ''SynapseCore construction'' t1 tid
    ((core_members pfn ws ring)\<lparr>sc_recovery := Some (recovery_init meta wal)\<rparr>)"
  define g where "g = fold (\<lambda>f. register_feature f Feat_Enabled) core_features (sc_degrade c1)"
  define c2 where "c2 = sync_config_from_profile (c1\<lparr>sc_degrade := g\<rparr>)"
  have init: "SynapseCore_init pfn ws ring meta wal t1 t2 tid = core_transition Active ''Initialization complete'' t2 tid c2"
    unfolding SynapseCore_init_def Let_def c1_def [symmetric] g_def [symmetric] c2_def [symmetric] ..
  have sync: "sc_degrade c2 = handle_error ''telemetry'' 0 (handle_error ''hai'' 0 (handle_error ''jit'' 0 g))"
    "config_validate (config_read (sc_config c2))" "config_read (sc_config c2) = ConfigSnapshot_default\<lparr>cs_version := 1\<rparr>"
    using sync_config_default [of "c1\<lparr>sc_degrade := g\<rparr>"]
    by (simp_all add: c1_def c2_def core_transition_def core_members_def)
  note reg = core_features_registered [where g = "sc_degrade c1", folded g_def]
  have av: "is_available f (sc_degrade c2)" if "f \<in> set core_features" for f
    unfolding sync by (rule features_re_enabled [OF reg that])
  have reg3: "al_lookup (initial_states (sc_degrade c2)) f = Some Feat_Enabled" if "f \<in> {''jit'', ''hai'', ''telemetry''}" for f
    unfolding sync using that reg [of f] by (auto simp: core_features_def)
  have rest: "sc_jit_cache c2 = []" "sc_recovery c2 = Some (recovery_init meta wal)" "sc_pfn c2 = pfn" "sc_trace c2 = []"
    "sc_draw_telemetry_allowed c2" "sc_jit_count c2 = 0" "sc_hai_count c2 = 0" "sc_oracle_count c2 = 0"
    by (simp_all add: c2_def c1_def core_transition_def core_members_def sync_config_from_profile_def Let_def)
  show ?thesis
    unfolding init fresh_core_def using av reg3 rest sync(2,3)
    by (simp add: core_inv_def core_transition_def total_routed_def build_session_report_def wal_writes_def
        recovery_init_def telemetry_init_def)
qed

subsection \<open>Reload\<close>

lemma config_validate_fields:
  "config_validate c \<longleftrightarrow> \<not> (power_budget_watts c = 0 \<or> power_budget_watts c > 100)
     \<and> \<not> (thermal_target_celsius c < 40 \<or> thermal_target_celsius c > 105)
     \<and> \<not> (fp_le (learning_rate c) (Fin 0) \<or> fp_lt (Fin 1) (learning_rate c))
     \<and> \<not> (fp_lt (epsilon c) (Fin 0) \<or> fp_lt (Fin 1) (epsilon c))
     \<and> \<not> (replay_buffer_size c < 256 \<or> replay_buffer_size c > 65536)"
  unfolding config_validate_def by presburger

lemma fp_guard:
  "fp_lt (Fin 0) v \<Longrightarrow> \<not> fp_le v (Fin 0)" "fp_le v (Fin 1) \<Longrightarrow> \<not> fp_lt (Fin 1) v" "fp_le (Fin 0) v \<Longrightarrow> \<not> fp_lt v (Fin 0)"
  by (cases v; auto)+

lemma validate_updates:
  "config_validate c \<Longrightarrow> v > 0 \<Longrightarrow> v \<le> 100 \<Longrightarrow> config_validate (c\<lparr>power_budget_watts := v\<rparr>)"
  "config_validate c \<Longrightarrow> v \<ge> 40 \<Longrightarrow> v \<le> 105 \<Longrightarrow> config_validate (c\<lparr>thermal_target_celsius := v\<rparr>)"
  "config_validate c \<Longrightarrow> fp_lt (Fin 0) x \<Longrightarrow> fp_le x (Fin 1) \<Longrightarrow> config_validate (c\<lparr>learning_rate := x\<rparr>)"
  "config_validate c \<Longrightarrow> fp_le (Fin 0) x \<Longrightarrow> fp_le x (Fin 1) \<Longrightarrow> config_validate (c\<lparr>epsilon := x\<rparr>)"
  unfolding config_validate_fields by (simp_all add: fp_guard not_less word_gt_0)

lemma apply_config_key_valid:
  assumes "config_validate snap" "apply_config_key ulbits stof key val snap = Inr snap'"
  shows "config_validate snap' \<and> cs_version snap' = cs_version snap"
  using assms unfolding apply_config_key_def Let_def
  by (auto simp: validate_updates split: if_splits sum.splits)

lemma apply_config_lines_valid:
  assumes "config_validate snap" "apply_config_lines ulbits stof ls snap = Inr snap'"
  shows "config_validate snap' \<and> cs_version snap' = cs_version snap"
  using assms
proof (induction ls arbitrary: snap)
  case Nil
  then show ?case by simp
next
  case (Cons l ls)
  from Cons.prems(2) obtain s1 where s1: "apply_config_line ulbits stof l snap = Inr s1"
    "apply_config_lines ulbits stof ls s1 = Inr snap'"
    by (auto split: sum.splits)
  then have "config_validate s1 \<and> cs_version s1 = cs_version snap"
    using Cons.prems(1) apply_config_key_valid
    by (auto simp: apply_config_line_def Let_def split: if_splits)
  with Cons.IH [of s1] s1(2) show ?case by simp
qed

lemma propagate_flags_available:
  assumes "al_lookup (initial_states g) ''jit'' = Some Feat_Enabled" "al_lookup (initial_states g) ''hai'' = Some Feat_Enabled"
    "al_lookup (initial_states g) ''telemetry'' = Some Feat_Enabled"
  shows "is_available ''jit'' (propagate_flags s g) = jit_enabled s"
    "is_available ''hai'' (propagate_flags s g) = hai_enabled s"
    "is_available ''telemetry'' (propagate_flags s g) = telemetry_enabled s"
  using assms by (simp_all add: propagate_flags_def available_handle_error availability_code_def error_target_def)

subsection \<open>Lifecycle\<close>

definition lifecycle :: "Transition list \<Rightarrow> (u32 \<times> u32) list" where
  "lifecycle h = map (\<lambda>t. (from_state t, to_state t)) h"

lemma core_transition_valid:
  assumes "is_valid_transition (current_state (sc_state c)) target"
  shows "current_state (sc_state (core_transition target why now tid c)) = target
    \<and> lifecycle (history (sc_state (core_transition target why now tid c))) =
      lifecycle (history (sc_state c)) @ [(shim_code (current_state (sc_state c)), shim_code target)]"
  using assms
  by (simp add: core_transition_def transition_def compare_exchange_def log_transition_def Let_def lifecycle_def)

lemma SynapseCore_init_state:
  "current_state (sc_state (SynapseCore_init pfn ws ring meta wal t1 t2 tid)) = Active
   \<and> lifecycle (history (sc_state (SynapseCore_init pfn ws ring meta wal t1 t2 tid))) = [(0, 1), (1, 2)]"
proof -
  have sync: "sc_state (sync_config_from_profile c) = sc_state c" for c
    by (simp add: sync_config_from_profile_def Let_def)
  show ?thesis
    by (simp add: SynapseCore_init_def Let_def core_transition_valid sync core_members_def state_machine_init_def)
      (simp add: lifecycle_def)
qed

lemma SynapseCore_destroy_state:
  assumes "current_state (sc_state c) = Active" "SynapseCore_destroy now tid c = (report, c')"
  shows "current_state (sc_state c') = Uninitialized
    \<and> lifecycle (history (sc_state c')) = lifecycle (history (sc_state c)) @ [(2, 5), (5, 0)]"
proof -
  let ?c1 = "core_transition ShuttingDown ''Destructor'' now tid c"
  let ?c2 = "core_mark_clean now ?c1"
  let ?c3 = "?c2\<lparr>sc_analyzer := analyzer_shutdown (sc_analyzer ?c2)\<rparr>"
  have c3: "c' = core_transition Uninitialized ''Destructor complete'' now tid ?c3" "sc_state ?c3 = sc_state ?c1"
    using assms(2) by (simp_all add: SynapseCore_destroy_def Let_def core_mark_clean_def split: option.split)
  have "current_state (sc_state ?c1) = ShuttingDown"
    "lifecycle (history (sc_state ?c1)) = lifecycle (history (sc_state c)) @ [(2, 5)]"
    using core_transition_valid [of c ShuttingDown] assms(1) by simp_all
  then show ?thesis
    unfolding c3(1) using core_transition_valid [of ?c3 Uninitialized] by (simp add: c3(2))
qed

section \<open>A concrete core\<close>

definition demo_core :: SynapseCore where
  "demo_core = SynapseCore_init
     \<lparr>pfn_draw_indexed = True, pfn_draw = True, pfn_dispatch = True, pfn_push_constants = True, pfn_bind_descriptor_sets = True\<rparr>
     (replicate 3 (replicate 8 (Fin 0))) (replicate 4096 \<lparr>xp_features = [], xp_action = 0, xp_reward = Fin 0\<rparr>)
     fresh_disk fresh_disk 0 0 1"

definition demo_params :: core_params where
  "demo_params = \<lparr>cp_log10 = (\<lambda>x. Fin 0), cp_pj_per_bit = Fin 0, cp_its_build = default_build\<rparr>"

definition demo_env :: call_env where
  "demo_env = \<lparr>ce_now = 0, ce_tid = 1, ce_padding = [0, 0, 0], ce_explore = Fin 1, ce_random = 0,
     ce_oracle_ms = Fin 0, ce_elapsed_ms = Fin 0\<rparr>"

definition demo_draw :: draw_args where
  "demo_draw = \<lparr>da_cb = 1, da_indexCount = 36, da_instanceCount = 4, da_firstIndex = 6, da_vertexOffset = 2, da_firstInstance = 1\<rparr>"

definition demo_dispatch :: dispatch_args where
  "demo_dispatch = \<lparr>di_cb = 1, di_x = 8, di_y = 8, di_z = 1\<rparr>"

lemma demo_core_ok: "core_inv demo_core" "all_entry_points demo_core" "config_validate (config_read (sc_config demo_core))"
  using SynapseCore_init_fresh [of _ "replicate 3 (replicate 8 (Fin 0))" _ fresh_disk fresh_disk 0 0 1]
  by (simp_all add: fresh_core_def demo_core_def all_entry_points_def)

lemma big_budget_line:
  "trim ''power_budget = 4294967311'' = ''power_budget = 4294967311''"
  "trim (takeWhile (\<lambda>ch. ch \<noteq> CHR ''='') ''power_budget = 4294967311'') = ''power_budget''"
  "trim (tl (dropWhile (\<lambda>ch. ch \<noteq> CHR ''='') ''power_budget = 4294967311'')) = ''4294967311''"
  "trim ''thermal_target = hot'' = ''thermal_target = hot''"
  "trim (takeWhile (\<lambda>ch. ch \<noteq> CHR ''='') ''thermal_target = hot'') = ''thermal_target''"
  "trim (tl (dropWhile (\<lambda>ch. ch \<noteq> CHR ''='') ''thermal_target = hot'')) = ''hot''"
  by code_simp+

lemma jit_off_line:
  "getlines ''jit_enabled = 0'' = [''jit_enabled = 0'']"
  "trim ''jit_enabled = 0'' = ''jit_enabled = 0''"
  "trim (takeWhile (\<lambda>ch. ch \<noteq> CHR ''='') ''jit_enabled = 0'') = ''jit_enabled''"
  "trim (tl (dropWhile (\<lambda>ch. ch \<noteq> CHR ''='') ''jit_enabled = 0'')) = ''0''"
  by code_simp+

lemma jit_off_applied: "apply_config_line ulbits stof ''jit_enabled = 0'' snap = Inr (snap\<lparr>jit_enabled := False\<rparr>)"
  unfolding apply_config_line_def Let_def jit_off_line by (simp add: apply_config_key_def flag_value_def)

lemma big_budget_digits:
  "dropWhile is_space ''4294967311'' = ''4294967311''" "takeWhile is_digit ''4294967311'' = ''4294967311''"
  "dropWhile is_space ''hot'' = ''hot''" "takeWhile is_digit ''hot'' = []"
  by code_simp+

lemma big_budget_value: "digits_value ''4294967311'' = 4294967311"
  by (simp add: digits_value_def)

lemma stoul_examples:
  "stoul 64 ''4294967311'' = Inr 4294967311" "stoul 32 ''4294967311'' = Inl Out_of_range"
  "stoul ulbits ''hot'' = Inl Invalid_argument"
proof -
  have strip: "(if ''4294967311'' \<noteq> [] \<and> (hd ''4294967311'' = CHR ''-'' \<or> hd ''4294967311'' = CHR ''+'') then tl ''4294967311'' else ''4294967311'') = ''4294967311''"
    "(if ''hot'' \<noteq> [] \<and> (hd ''hot'' = CHR ''-'' \<or> hd ''hot'' = CHR ''+'') then tl ''hot'' else ''hot'') = ''hot''"
    by simp_all
  show "stoul 64 ''4294967311'' = Inr 4294967311" "stoul 32 ''4294967311'' = Inl Out_of_range"
    unfolding stoul_def Let_def big_budget_digits strip big_budget_value by simp_all
  show "stoul ulbits ''hot'' = Inl Invalid_argument"
    unfolding stoul_def Let_def big_budget_digits strip by simp
qed

section \<open>Properties\<close>

text \<open>C9: What an intercepted indexed draw does to the GPU, on every path. On blocked hardware, with the
  jit feature unavailable, when the chooser picks the oracle, or when it picks an unavailable hai, the
  application's call is issued once with all its parameters. When it picks jit, the draw that is
  issued has one instance, first index 0, vertex offset 0 and first instance 0 whatever the
  application asked for (the shader cache never hits, because the source handed to the compiler is
  empty). When it picks an available hai, no GPU call is issued at all. The handler always returns.\<close>
theorem core_draw_indexed_issues:
  assumes "core_inv c" "pfn_draw_indexed (sc_pfn c)"
  shows "\<exists>c'. handle_draw_indexed p env d c = Inr c' \<and> core_inv c' \<and>
    sc_trace c' = sc_trace c @
      (if \<not> sc_draw_telemetry_allowed c \<or> \<not> is_available ''jit'' (sc_degrade c) then [same_draw_indexed d]
       else case draw_indexed_choice p env d c of
              JIT \<Rightarrow> [GDrawIndexed (da_cb d) (da_indexCount d) 1 0 0 0]
            | HAI \<Rightarrow> if is_available ''hai'' (sc_degrade c) then [] else [same_draw_indexed d]
            | Oracle \<Rightarrow> [same_draw_indexed d])"
  using handle_draw_indexed_effect [OF assms, of p env d]
  by (auto simp: effect_def draw_indexed_calls_def cong del: if_weak_cong)

theorem core_draw_indexed_issues_witness:
  "\<exists>c'. handle_draw_indexed demo_params demo_env demo_draw demo_core = Inr c' \<and> core_inv c' \<and>
    sc_trace c' = sc_trace demo_core @
      (if \<not> sc_draw_telemetry_allowed demo_core \<or> \<not> is_available ''jit'' (sc_degrade demo_core) then [same_draw_indexed demo_draw]
       else case draw_indexed_choice demo_params demo_env demo_draw demo_core of
              JIT \<Rightarrow> [GDrawIndexed (da_cb demo_draw) (da_indexCount demo_draw) 1 0 0 0]
            | HAI \<Rightarrow> if is_available ''hai'' (sc_degrade demo_core) then [] else [same_draw_indexed demo_draw]
            | Oracle \<Rightarrow> [same_draw_indexed demo_draw])"
  by (rule core_draw_indexed_issues) (use demo_core_ok in \<open>simp_all add: all_entry_points_def\<close>)

text \<open>What an intercepted dispatch does to the GPU. The oracle path, and the jit and hai paths when
  the feature is unavailable or switched off in the configuration, issue the application's dispatch
  unchanged. The jit path issues no dispatch: it issues an indexed draw of zero indices instead; the
  hai path issues nothing.\<close>
theorem core_dispatch_issues:
  assumes "core_inv c" "pfn_draw_indexed (sc_pfn c)" "pfn_dispatch (sc_pfn c)"
  shows "\<exists>c'. handle_dispatch p env d c = Inr c' \<and> core_inv c' \<and>
    sc_trace c' = sc_trace c @
      (let same = [GDispatch (di_cb d) (di_x d) (di_y d) (di_z d)]; cfg = config_read (sc_config c)
       in case dispatch_choice p env c of
            JIT \<Rightarrow> if is_available ''jit'' (sc_degrade c) \<and> jit_enabled cfg then [GDrawIndexed (di_cb d) 0 1 0 0 0] else same
          | HAI \<Rightarrow> if is_available ''hai'' (sc_degrade c) \<and> hai_enabled cfg then [] else same
          | Oracle \<Rightarrow> same)"
  using handle_dispatch_effect [OF assms, of p env d]
  by (auto simp: effect_def dispatch_calls_def)

theorem core_dispatch_issues_witness:
  "\<exists>c'. handle_dispatch demo_params demo_env demo_dispatch demo_core = Inr c' \<and> core_inv c' \<and>
    sc_trace c' = sc_trace demo_core @
      (let same = [GDispatch (di_cb demo_dispatch) (di_x demo_dispatch) (di_y demo_dispatch) (di_z demo_dispatch)]; cfg = config_read (sc_config demo_core)
       in case dispatch_choice demo_params demo_env demo_core of
            JIT \<Rightarrow> if is_available ''jit'' (sc_degrade demo_core) \<and> jit_enabled cfg then [GDrawIndexed (di_cb demo_dispatch) 0 1 0 0 0] else same
          | HAI \<Rightarrow> if is_available ''hai'' (sc_degrade demo_core) \<and> hai_enabled cfg then [] else same
          | Oracle \<Rightarrow> same)"
  by (rule core_dispatch_issues) (use demo_core_ok in \<open>simp_all add: all_entry_points_def\<close>)

text \<open>C5: Accounting over a session. From a freshly constructed core with all entry points resolved,
  any sequence of intercepted calls, notifications, analyzer turns and trainer turns runs to the end;
  the reported total of routed calls equals the number of indexed draws, draws and dispatches
  (modulo 2^32), and the log's sequence number equals the number of draws, dispatches, push-constant
  and descriptor-set calls (modulo 2^64): each is logged exactly once, whichever backend is chosen.\<close>
theorem core_session_accounting:
  assumes "pfn = \<lparr>pfn_draw_indexed = True, pfn_draw = True, pfn_dispatch = True, pfn_push_constants = True,
      pfn_bind_descriptor_sets = True\<rparr>"
  shows "\<exists>c'. core_run p es (SynapseCore_init pfn ws ring meta wal t1 t2 tid) = Inr c'
    \<and> total_draw_calls (backend_routing (build_session_report c')) =
        of_nat (length (filter is_work es))
    \<and> wal_writes c' = of_nat (length (filter logged es))"
proof -
  let ?c = "SynapseCore_init pfn ws ring meta wal t1 t2 tid"
  have fresh: "fresh_core pfn ws ring meta wal ?c" by (rule SynapseCore_init_fresh)
  then have "core_inv ?c" "all_entry_points ?c"
    using assms by (simp_all add: fresh_core_def all_entry_points_def)
  from core_run_effect [OF this, of p es] obtain c' gs where c': "core_run p es ?c = Inr c'"
    "effect ?c gs (of_nat (length (filter (routed ?c) es))) (of_nat (length (filter logged es)) * log_count ?c) c'"
    by blast
  have "sc_draw_telemetry_allowed ?c" "is_available ''jit'' (sc_degrade ?c)" "log_count ?c = 1"
    using fresh by (simp_all add: fresh_core_def core_features_def log_count_def)
  then have "routed ?c e = is_work e" for e
    by (cases e) simp_all
  then have "routed ?c = is_work" by (rule ext)
  with c' fresh \<open>log_count ?c = 1\<close> show ?thesis
    by (simp add: effect_def fresh_core_def total_routed_def)
qed

theorem core_session_accounting_witness:
  "\<exists>c'. core_run demo_params [Draw_indexed demo_env demo_draw, Analyzer_turn, Dispatch_compute demo_env demo_dispatch,
         Push_constants 0 1 2 3 0 4 [1, 2, 3, 4]] demo_core = Inr c'
    \<and> total_draw_calls (backend_routing (build_session_report c')) = 2 \<and> wal_writes c' = 3"
  unfolding demo_core_def
  using core_session_accounting [OF refl, of demo_params "[Draw_indexed demo_env demo_draw, Analyzer_turn,
      Dispatch_compute demo_env demo_dispatch, Push_constants 0 1 2 3 0 4 [1, 2, 3, 4]]"] by simp

text \<open>The life of a core. Construction, any sequence of intercepted calls and destruction leave the
  audit log with exactly Uninitialized to Initializing to Active to ShuttingDown to Uninitialized;
  no intercepted call changes the shim's state.\<close>
theorem core_lifecycle_audit:
  assumes "core_run p es (SynapseCore_init pfn ws ring meta wal t1 t2 tid) = Inr c"
    and "all_entry_points (SynapseCore_init pfn ws ring meta wal t1 t2 tid)"
    and "SynapseCore_destroy now tid' c = (report, c')"
  shows "current_state (sc_state c) = Active \<and> current_state (sc_state c') = Uninitialized
    \<and> map (\<lambda>t. (from_state t, to_state t)) (history (sc_state c')) = [(0, 1), (1, 2), (2, 5), (5, 0)]"
proof -
  let ?c0 = "SynapseCore_init pfn ws ring meta wal t1 t2 tid"
  have "core_inv ?c0" using SynapseCore_init_fresh by (simp add: fresh_core_def)
  from core_run_effect [OF this assms(2), of p es] assms(1) have "sc_state c = sc_state ?c0"
    by (auto simp: effect_def same_mode_def)
  then show ?thesis
    using SynapseCore_init_state [of pfn ws ring meta wal t1 t2 tid] SynapseCore_destroy_state [OF _ assms(3)]
    by (simp add: lifecycle_def)
qed

theorem core_lifecycle_audit_witness:
  "map (\<lambda>t. (from_state t, to_state t)) (history (sc_state (snd (SynapseCore_destroy 0 1 demo_core)))) = [(0, 1), (1, 2), (2, 5), (5, 0)]"
  using core_lifecycle_audit [of demo_params "[]", unfolded core_run.simps, OF refl demo_core_ok(2) [unfolded demo_core_def]
      prod.collapse [symmetric], of 0 1]
  by (simp add: demo_core_def)

text \<open>Reloading the configuration file. If the current configuration is valid and the file parses,
  the parsed settings are always accepted and published (whatever values the file asked for: those
  out of range are skipped), and the jit, hai and telemetry features become available exactly as the
  file says. But the published snapshot keeps the old snapshot's version number while the
  configuration's version advances.\<close>
theorem config_reload_accepted:
  assumes "core_inv c" "config_validate (config_read (sc_config c))"
    and "apply_config_content ulbits stof content c = Inr c'"
  shows "\<exists>snap. apply_config_lines ulbits stof (getlines content) (config_read (sc_config c)) = Inr snap
    \<and> config_read (sc_config c') = snap \<and> config_validate snap
    \<and> is_available ''jit'' (sc_degrade c') = jit_enabled snap
    \<and> is_available ''hai'' (sc_degrade c') = hai_enabled snap
    \<and> is_available ''telemetry'' (sc_degrade c') = telemetry_enabled snap
    \<and> cfg_version (sc_config c') = cfg_version (sc_config c) + 1
    \<and> cs_version snap = cs_version (config_read (sc_config c))"
proof -
  obtain snap where snap: "apply_config_lines ulbits stof (getlines content) (config_read (sc_config c)) = Inr snap"
    and c': "c' = c\<lparr>sc_config := snd (config_update (\<lambda>dest. Some snap) (sc_config c)),
                 sc_degrade := propagate_flags snap (sc_degrade c)\<rparr>"
    using assms(3) by (auto simp: apply_config_content_def split: sum.splits)
  note v = apply_config_lines_valid [OF assms(2) snap]
  show ?thesis
    using snap v assms(1)
    by (simp add: c' config_update_def prepare_update_def config_read_def propagate_flags_available core_inv_def)
qed

theorem config_reload_accepted_witness:
  "\<exists>c'. apply_config_content 64 (\<lambda>s. Inl Invalid_argument) ''jit_enabled = 0'' demo_core = Inr c'
    \<and> \<not> is_available ''jit'' (sc_degrade c') \<and> config_validate (config_read (sc_config c'))"
proof -
  let ?stof = "\<lambda>s. Inl Invalid_argument"
  obtain c' where c': "apply_config_content 64 ?stof ''jit_enabled = 0'' demo_core = Inr c'"
    by (simp add: apply_config_content_def jit_off_line(1) jit_off_applied)
  then show ?thesis
    using config_reload_accepted [OF demo_core_ok(1,3) c'] by (auto simp: jit_off_line(1) jit_off_applied)
qed

text \<open>Numbers in the configuration file are read with \<open>std::stoul\<close> and then cut to 32 bits. Where
  \<open>unsigned long\<close> has 64 bits, a power budget of 4294967311 is therefore taken as 15 watts; where it
  has 32 bits the same line throws out of the reload, and a value that does not start with a number
  throws on every platform. Nothing in the reload or its callers catches the exception.\<close>
theorem config_reload_numbers:
  "apply_config_line 64 stof ''power_budget = 4294967311'' snap = Inr (snap\<lparr>power_budget_watts := 15\<rparr>)
   \<and> apply_config_line 32 stof ''power_budget = 4294967311'' snap = Inl Out_of_range
   \<and> apply_config_line ulbits stof ''thermal_target = hot'' snap = Inl Invalid_argument"
  unfolding apply_config_line_def Let_def big_budget_line
  by (simp add: apply_config_key_def stoul_examples)

end
