(* ===== verification/CoreShape.thy ===== *)
theory CoreShape
  imports Core
begin

text \<open>
  Two invariants of a session of the core, kept by every intercepted call and by the analyzer and trainer
  threads' turns.

  \<^item> \<open>core_shape\<close>: the data the code indexes has the size the code indexes it with, so that no access of the
    model falls outside a list. Rings have their 1024 slots and their indices below 1024, weights are three
    vectors of eight, replay records that will be read hold eight features, textures have one residency
    entry per mip level, command buffers four descriptor slots; no log batch reaches its limit and no
    bytecode batch outlives its call.
  \<^item> \<open>core_dormant\<close>: the residency engine has never loaded a level and the energy estimator has never been
    credited with a transaction.
\<close>

section \<open>Shapes\<close>

definition ml_shape :: "MLSubAPI \<Rightarrow> bool" where
  "ml_shape m \<longleftrightarrow> bandit_ok (ml_bandit m) \<and> length (ml_replay m) = kReplaySize
     \<and> (\<forall>i < min (unat (ml_replay_write m)) kReplaySize. length (xp_features (ml_replay m ! i)) = 8)"

definition cmd_shape :: "(u64, CmdBufState) alist \<Rightarrow> bool" where
  "cmd_shape m \<longleftrightarrow> (\<forall>s \<in> snd ` set m. length (cbs_descriptor_sets s) = 4)"

definition wal_shape :: "AtomicTelemetry \<Rightarrow> bool" where
  "wal_shape t \<longleftrightarrow> tr_inv (tl_ring t) \<and> length (tl_write_buffer t) < kWALFlushBatch"

definition core_shape :: "SynapseCore \<Rightarrow> bool" where
  "core_shape c \<longleftrightarrow> rb_inv (sc_telemetry c) \<and> ml_shape (sc_ml c) \<and> engine_inv (sc_its c) \<and> cmd_shape (sc_cmd_state c)
     \<and> (\<forall>r. sc_recovery c = Some r \<longrightarrow> wal_shape (cr_telemetry r)) \<and> hb_current_batch (sc_hai c) = []"

text \<open>The fields the shape depends on, apart from those an operation is about.\<close>

lemma core_shapeI:
  "core_shape c \<Longrightarrow> sc_telemetry c' = sc_telemetry c \<Longrightarrow> sc_ml c' = sc_ml c \<Longrightarrow> sc_its c' = sc_its c
     \<Longrightarrow> sc_cmd_state c' = sc_cmd_state c \<Longrightarrow> sc_recovery c' = sc_recovery c \<Longrightarrow> sc_hai c' = sc_hai c \<Longrightarrow> core_shape c'"
  by (simp add: core_shape_def)

lemma pred_sum_then:
  "pred_sum (\<lambda>_. True) P r \<Longrightarrow> (\<And>c. P c \<Longrightarrow> P (f c)) \<Longrightarrow> pred_sum (\<lambda>_. True) P (case r of Inl e \<Rightarrow> Inl e | Inr c \<Rightarrow> Inr (f c))"
  by (cases r) simp_all

section \<open>Learning\<close>

lemma length_encode [simp]: "length (encode log10f sig report) = 8"
  by (simp add: encode_def)

lemma ml_init_shape [invariant_intros]: "map length ws = [8, 8, 8] \<Longrightarrow> length ring = kReplaySize \<Longrightarrow> ml_shape (ml_init ws ring)"
  by (auto simp: ml_shape_def ml_init_def bandit_ok_def bandit_init_def in_set_conv_nth dest!: map_eq_imp_length_eq)

lemma record_experience_shape:
  assumes "ml_shape m" "length f = 8"
  shows "ml_shape (record_experience f a r m)"
proof -
  let ?w = "ml_replay_write m" and ?x = "\<lparr>xp_features = f, xp_action = a, xp_reward = r\<rparr>"
  have "length (xp_features ((ml_replay m)[unat ?w mod kReplaySize := ?x] ! i)) = 8"
    if "i < min (unat (?w + 1)) kReplaySize" for i
  proof (cases "i = unat ?w mod kReplaySize")
    case False
    have "unat (?w + 1) \<le> unat ?w + 1" by (simp add: unat_word_ariths)
    with that have "i < unat ?w \<or> i = unat ?w" "i < kReplaySize" by linarith+
    with False have "i < min (unat ?w) kReplaySize" by auto
    with False assms(1) show ?thesis by (simp add: ml_shape_def)
  qed (use assms that in \<open>simp add: ml_shape_def\<close>)
  with assms(1) show ?thesis by (simp add: ml_shape_def record_experience_def Let_def)
qed

lemma observe_shape [invariant_intros]: "ml_shape m \<Longrightarrow> ml_shape (observe_from_signature log10f a r sig report m)"
  unfolding observe_from_signature_def ml_observe_def
  by (rule record_experience_shape) (simp_all add: ml_shape_def bandit_ok_observe)

lemma replay_keeps_bandit:
  "bandit_ok b \<Longrightarrow> \<forall>r \<in> set rs. length (xp_features (x r)) = 8 \<Longrightarrow> bandit_ok (fold (\<lambda>r. replay_one (x r)) rs b)"
  by (induction rs arbitrary: b) (simp_all add: replay_one_def bandit_ok_observe)

lemma trainer_turn_shape [invariant_intros]:
  assumes "ml_shape m"
  shows "ml_shape (trainer_turn m)"
proof -
  let ?w = "unat (ml_replay_write m)"
  have "length (xp_features (ml_replay m ! (r mod kReplaySize))) = 8"
    if "r \<in> set [(if ?w > kReplaySize then ?w - kReplaySize else 0)..<?w]" for r
  proof -
    have "r < ?w" using that by simp
    with mod_less_eq_dividend [of r kReplaySize] have "r mod kReplaySize < ?w" by (rule le_less_trans)
    then have "r mod kReplaySize < min ?w kReplaySize" by (simp add: kReplaySize_def)
    with assms show ?thesis by (simp add: ml_shape_def)
  qed
  with assms show ?thesis
    by (simp add: ml_shape_def trainer_turn_def Let_def replay_keeps_bandit)
qed

section \<open>The log\<close>

lemma telemetry_init_shape [invariant_intros]: "wal_shape (telemetry_init d)"
  by (simp add: wal_shape_def telemetry_init_def kWALFlushBatch_def)

lemma telemetry_write_shape [invariant_intros]: "wal_shape t \<Longrightarrow> wal_shape (snd (telemetry_write now ty pl sz t))"
  by (auto simp: wal_shape_def telemetry_write_def flush_buffer_locked_def Let_def kWALFlushBatch_def
      dest: tr_push_refines [OF _ prod.collapse [symmetric]])

lemma wal_log_shape [invariant_intros]: "core_shape c \<Longrightarrow> core_shape (wal_log now ty pl sz c)"
  by (auto simp: core_shape_def wal_log_def telemetry_write_shape split: option.split)

section \<open>Telemetry, textures, command buffers\<close>

lemma push_telemetry_shape [invariant_intros]: "core_shape c \<Longrightarrow> core_shape (push_telemetry sig c)"
  by (simp add: core_shape_def push_telemetry_def rb_push_inv)

lemma prepare_textures_shape [invariant_intros]: "core_shape c \<Longrightarrow> core_shape (prepare_textures p cmd c)"
  by (simp add: core_shape_def prepare_textures_def Let_def prepare_for_use_inv)

lemma increment_shape [invariant_intros]: "core_shape c \<Longrightarrow> core_shape (increment_backend_counter b c)"
  by (cases b) (simp_all add: core_shape_def)

lemma issue_shape [invariant_intros]: "core_shape c \<Longrightarrow> core_shape (issue g c)"
  by (simp add: core_shape_def issue_def)

lemma cmd_state_of_shape: "cmd_shape (sc_cmd_state c) \<Longrightarrow> length (cbs_descriptor_sets (cmd_state_of cmd c)) = 4"
  by (force simp: cmd_shape_def cmd_state_of_def cmd_buf_default_def dest: al_lookup_SomeD split: option.split)

lemma cmd_shape_update: "cmd_shape m \<Longrightarrow> length (cbs_descriptor_sets s) = 4 \<Longrightarrow> cmd_shape (al_update cmd s m)"
  using values_al_update [of cmd s m] unfolding cmd_shape_def by blast

lemma notify_shape [invariant_intros]:
  assumes "core_shape c"
  shows "core_shape (notify_bind_pipeline cmd pl sh c)" "core_shape (notify_bind_image cmd img c)"
    "core_shape (notify_bind_descriptor_set cmd i ds c)" "core_shape (notify_create_image img w h m tid c)"
    "core_shape (notify_destroy_image img c)" "core_shape (notify_free_cmd_buf cmd c)"
  using assms cmd_state_of_shape [of c cmd]
  by (simp_all add: core_shape_def notify_bind_pipeline_def notify_bind_image_def notify_bind_descriptor_set_def
      notify_create_image_def notify_destroy_image_def notify_free_cmd_buf_def Let_def cmd_shape_update
      register_texture_inv unregister_texture_inv) (auto simp: cmd_shape_def al_delete_def)

section \<open>What every call keeps\<close>

text \<open>The contract: an invariant that the building blocks of the handlers keep is kept by every handler and
  by a whole session. The building blocks other than the log come first; they suffice for the routing.\<close>

locale quiet_invariant =
  fixes P :: "SynapseCore \<Rightarrow> bool"
  assumes keeps_push: "P c \<Longrightarrow> P (push_telemetry sig c)"
    and keeps_prepare: "P c \<Longrightarrow> P (prepare_textures p cmd c)"
    and keeps_counter: "P c \<Longrightarrow> P (increment_backend_counter b c)"
    and keeps_issue: "P c \<Longrightarrow> P (issue g c)"
    and keeps_stats: "P c \<Longrightarrow> P (c\<lparr>sc_jit_stats := stats\<rparr>)"
    and keeps_jit: "P c \<Longrightarrow> P (c\<lparr>sc_jit_cache := jit\<rparr>)"
    and keeps_degrade: "P c \<Longrightarrow> P (c\<lparr>sc_degrade := deg\<rparr>)"
    and keeps_hai: "P c \<Longrightarrow> P (execute_hai_path sig c)"
    and keeps_learn: "P c \<Longrightarrow> P (learn_from_draw p env ag b sig rep c)" "P c \<Longrightarrow> P (learn_from_dispatch p b sig c)"
    and keeps_notify: "P c \<Longrightarrow> P (notify_bind_pipeline cmd pl sh c)" "P c \<Longrightarrow> P (notify_bind_descriptor_set cmd i ds c)"
      "P c \<Longrightarrow> P (notify_create_image img w h m tid c)" "P c \<Longrightarrow> P (notify_destroy_image img c)"
      "P c \<Longrightarrow> P (notify_free_cmd_buf cmd c)"
    and keeps_analyzer: "P c \<Longrightarrow> process_telemetry_step (sc_analyzer c) (sc_telemetry c) = (an, ring)
      \<Longrightarrow> P (c\<lparr>sc_analyzer := an, sc_telemetry := ring\<rparr>)"
    and keeps_trainer: "P c \<Longrightarrow> P (c\<lparr>sc_ml := trainer_turn (sc_ml c)\<rparr>)"
begin

lemmas keeps = keeps_push keeps_prepare keeps_counter keeps_issue keeps_stats keeps_jit keeps_degrade keeps_hai
  keeps_learn keeps_notify keeps_trainer

lemma oracle_draw_keeps: "P c \<Longrightarrow> pred_sum (\<lambda>_. True) P (execute_oracle_draw ms cmd ic n fi vo fn c)"
  by (simp add: execute_oracle_draw_def Let_def keeps)

lemma jit_path_keeps:
  assumes "P c"
  shows "pred_sum (\<lambda>_. True) P (execute_jit_path ms cmd sig c)"
  using assms unfolding execute_jit_path_def Let_def
  by (auto intro!: keeps oracle_draw_keeps pred_sum_then split: prod.split option.split)

lemma forward_keeps:
  "P c \<Longrightarrow> P (forward_draw_indexed d c)" "P c \<Longrightarrow> P (forward_draw d' c)" "P c \<Longrightarrow> P (forward_dispatch d'' c)"
  by (simp_all add: forward_draw_indexed_def forward_draw_def forward_dispatch_def keeps)

lemma route_keeps:
  "P c \<Longrightarrow> pred_sum (\<lambda>_. True) P (route_draw_indexed env d sig b c)"
  "P c \<Longrightarrow> pred_sum (\<lambda>_. True) P (route_draw env d' sig b c)"
  "P c \<Longrightarrow> pred_sum (\<lambda>_. True) P (route_dispatch env d'' cfg sig b c)"
  by (cases b; simp add: route_draw_indexed_def route_draw_def route_dispatch_def oracle_draw_indexed_def
      keeps forward_keeps oracle_draw_keeps jit_path_keeps)+

lemma bind_sets_keeps: "P c \<Longrightarrow> P (fold (\<lambda>(i, ds). notify_bind_descriptor_set cmd (first + of_nat i) ds) xs c)"
  by (induction xs arbitrary: c) (auto simp: keeps)

end

locale call_invariant = quiet_invariant +
  assumes keeps_log: "P c \<Longrightarrow> P (wal_log now ty data sz c)"
begin

lemma handlers_keep:
  "P c \<Longrightarrow> pred_sum (\<lambda>_. True) P (handle_draw_indexed p env d c)"
  "P c \<Longrightarrow> pred_sum (\<lambda>_. True) P (handle_draw p env d' c)"
  "P c \<Longrightarrow> pred_sum (\<lambda>_. True) P (handle_dispatch p env d'' c)"
  by (auto simp: handle_draw_indexed_def handle_draw_def handle_dispatch_def Let_def
      intro!: pred_sum_then keeps keeps_log forward_keeps route_keeps)

lemma core_step_keeps: "P c \<Longrightarrow> pred_sum (\<lambda>_. True) P (core_step p e c)"
  by (cases e) (auto simp: handlers_keep keeps keeps_log keeps_analyzer bind_sets_keeps handle_push_constants_def
      handle_bind_descriptor_sets_def Let_def split: prod.split)

lemma core_run_keeps: "P c \<Longrightarrow> core_run p es c = Inr c' \<Longrightarrow> P c'"
proof (induction es arbitrary: c)
  case (Cons e es)
  from core_step_keeps [OF Cons.prems(1), of p e] Cons show ?case by (cases "core_step p e c") auto
qed simp

end

section \<open>The shape is kept\<close>

lemma hai_path_shape: "core_shape c \<Longrightarrow> core_shape (execute_hai_path sig c)"
  by (simp add: execute_hai_path_def core_shape_def Let_def flush_to_hardware_def)

lemma learn_shape:
  "core_shape c \<Longrightarrow> core_shape (learn_from_draw p env ag b sig r c)"
  "core_shape c \<Longrightarrow> core_shape (learn_from_dispatch p b sig c)"
  by (simp_all add: core_shape_def learn_from_draw_def learn_from_dispatch_def Let_def observe_shape)

lemma analyzer_shape:
  assumes "core_shape c" "process_telemetry_step (sc_analyzer c) (sc_telemetry c) = (a, r)"
  shows "core_shape (c\<lparr>sc_analyzer := a, sc_telemetry := r\<rparr>)"
  using assms rb_pop_refines [of "sc_telemetry c"]
  by (auto simp: core_shape_def process_telemetry_step_def split: if_splits prod.splits option.splits)

interpretation shape: call_invariant core_shape
  by unfold_locales (simp_all add: invariant_intros hai_path_shape learn_shape analyzer_shape,
      simp_all add: core_shape_def trainer_turn_shape)

lemma SynapseCore_init_shape:
  assumes "map length ws = [8, 8, 8]" "length ring = kReplaySize"
  shows "core_shape (SynapseCore_init pfn ws ring meta wal t1 t2 tid)"
  using ml_init_shape [OF assms]
  by (simp add: SynapseCore_init_def core_members_def core_transition_def sync_config_from_profile_def Let_def core_shape_def
      cmd_shape_def recovery_init_def telemetry_init_shape hai_builder_init_def)

section \<open>The dormant engine\<close>

definition core_dormant :: "SynapseCore \<Rightarrow> bool" where
  "core_dormant c \<longleftrightarrow> engine_cold (sc_its c) \<and> te_cache_misses (sc_its c) = 0
     \<and> pe_potential_pj (sc_power c) = Fin 0 \<and> pe_actual_pj (sc_power c) = Fin 0"

lemma prepare_textures_dormant:
  assumes "core_dormant c"
  shows "core_dormant (prepare_textures p cmd c)"
proof -
  let ?e = "(sc_its c)\<lparr>te_power := (if sc_power_wired c then Some (sc_power c) else None)\<rparr>"
  have "engine_cold ?e" "te_cache_hits (sc_its c) = 0" "te_cache_misses (sc_its c) = 0"
    using assms by (simp_all add: core_dormant_def engine_cold_def)
  with prepare_for_use_cold [OF this(1) cold_demand_no_load] assms show ?thesis
    by (simp add: core_dormant_def prepare_textures_def Let_def)
qed

lemma increment_dormant: "core_dormant c \<Longrightarrow> core_dormant (increment_backend_counter b c)"
  by (cases b) (simp_all add: core_dormant_def)

interpretation dormant: call_invariant core_dormant
  by unfold_locales (simp_all add: prepare_textures_dormant increment_dormant,
      simp_all add: core_dormant_def wal_log_def push_telemetry_def issue_def execute_hai_path_def learn_from_draw_def
        learn_from_dispatch_def increment_frame_def notify_bind_pipeline_def notify_bind_descriptor_set_def
        notify_create_image_def notify_destroy_image_def notify_free_cmd_buf_def register_texture_cold
        unregister_texture_cold Let_def split: option.split)

lemma SynapseCore_init_dormant: "core_dormant (wire_power_estimator (SynapseCore_init pfn ws ring meta wal t1 t2 tid))"
  by (simp add: SynapseCore_init_def core_members_def core_transition_def sync_config_from_profile_def Let_def
      core_dormant_def wire_power_estimator_def power_estimator_init_def) (simp add: texture_engine_init_def)

section \<open>Properties\<close>

text \<open>C8: The data of a core keeps its type. Whatever calls arrive and however the analyzer's and trainer's turns
  fall between them, a core built with three weight vectors of eight and a replay buffer of 4096 records has,
  when the calls have been served, ring indices below their capacity, weights, replayed features, mip
  entries and descriptor slots of the lengths the code indexes them with, fewer than 64 log records
  waiting, and no half-built bytecode batch.\<close>
theorem core_data_shape:
  assumes "map length ws = [8, 8, 8]" "length ring = kReplaySize"
    and "core_run p es (SynapseCore_init pfn ws ring meta wal t1 t2 tid) = Inr c"
  shows "core_shape c"
  using shape.core_run_keeps [OF SynapseCore_init_shape [OF assms(1,2)] assms(3)] .

theorem core_data_shape_witness:
  "\<exists>c. core_run demo_params [Draw_indexed demo_env demo_draw, Trainer_tick, Analyzer_turn,
       Dispatch_compute demo_env demo_dispatch, Create_image 9 64 64 4 1] demo_core = Inr c \<and> core_shape c"
proof -
  let ?es = "[Draw_indexed demo_env demo_draw, Trainer_tick, Analyzer_turn,
       Dispatch_compute demo_env demo_dispatch, Create_image 9 64 64 4 1]"
  obtain c where c: "core_run demo_params ?es demo_core = Inr c"
    using core_run_effect [OF demo_core_ok(1,2), of demo_params ?es] by blast
  have "length (replicate n (x :: Experience)) = n" for n x by simp
  then have "length (replicate 4096 (x :: Experience)) = kReplaySize" for x by (simp only: kReplaySize_def)
  moreover have "map length (replicate 3 (replicate 8 (Fin 0))) = [8, 8, 8]" by (simp add: numeral_3_eq_3)
  ultimately have "core_shape c"
    using c unfolding demo_core_def by (intro core_data_shape)
  with c show ?thesis by blast
qed

text \<open>C24: Texture streaming never starts. The demand estimate is the engine's own hit rate, which nothing in the
  core ever raises (no call queries a safe mip level or reports a finished transfer), so it stays at one
  half, between the thresholds: in any session and any build no level of any texture is ever loaded, the
  cache statistics stay 0, and the energy report, whose only source is the engine's transfers, credits
  nothing.\<close>
theorem core_streaming_dormant:
  assumes "core_run p es (wire_power_estimator (SynapseCore_init pfn ws ring meta wal t1 t2 tid)) = Inr c"
  shows "(al_lookup (te_textures (sc_its c)) img = Some tex \<longrightarrow> list_all (\<lambda>mr. \<not> mr_is_resident mr) (tx_residency tex))
    \<and> cm_hits (its_cache (build_session_report c)) = 0 \<and> cm_misses (its_cache (build_session_report c)) = 0
    \<and> joules_saved (rep_power (build_session_report c)) = Fin 0
    \<and> battery_extension_factor (rep_power (build_session_report c)) = Fin 0"
proof -
  have d: "core_dormant c" by (rule dormant.core_run_keeps [OF SynapseCore_init_dormant assms])
  then have "engine_cold (sc_its c)" "te_cache_misses (sc_its c) = 0"
    "pe_potential_pj (sc_power c) = Fin 0" "pe_actual_pj (sc_power c) = Fin 0"
    by (simp_all add: core_dormant_def)
  moreover from this(1) have "te_cache_hits (sc_its c) = 0" by (simp add: engine_cold_def)
  ultimately show ?thesis
    using engine_coldD [of "sc_its c" img tex]
    by (auto simp: build_session_report_def power_generate_def fp_sub_def Let_def list_all_iff)
qed

theorem core_streaming_dormant_witness:
  "\<exists>c. core_run demo_params [Create_image 9 64 64 4 1, Draw_indexed demo_env demo_draw] (wire_power_estimator demo_core) = Inr c
     \<and> joules_saved (rep_power (build_session_report c)) = Fin 0"
proof -
  let ?es = "[Create_image 9 64 64 4 1, Draw_indexed demo_env demo_draw]" and ?c0 = "wire_power_estimator demo_core"
  have "core_inv ?c0" "all_entry_points ?c0"
    using demo_core_ok by (simp_all add: wire_power_estimator_def core_inv_def all_entry_points_def)
  then obtain c where c: "core_run demo_params ?es ?c0 = Inr c" using core_run_effect [of ?c0 demo_params ?es] by blast
  with core_streaming_dormant [OF c [unfolded demo_core_def]] show ?thesis by blast
qed

end
