(* ===== verification/Layer.thy ===== *)
theory Layer
  imports CoreShape
begin

text \<open>
  The Vulkan layer's entry points, \<open>src/synapse/layer_entry.cpp\<close>, and the hardware blocklist,
  \<open>src/synapse/hardware/hardware_blocklist.h\<close>. \<open>key\<close> is the loader's dispatch key of a handle. Calls
  that reach the next layer are recorded in one trace, in order, whether the core or the layer itself
  makes them. What the next layer, the loader and the file system answer during \<open>vkCreateDevice\<close> is
  the record \<open>device_env\<close>. \<open>vkDestroyDevice\<close> writes the profile to \<open>user_profile.dat\<close>, which is here the
  object written; reading it yields whatever profile \<open>device_env\<close> says: the file is a raw image of an object
  that holds \<open>std::string\<close>s, and what C++ makes of it is undefined. \<open>intercept_step\<close> is one call of the application,
  or one turn of a thread of a core.
\<close>

section \<open>Hardware blocklist\<close>

record GPUConfig =
  vendor_id :: u32
  device_id :: u32
  driver_version :: u32

definition kIntelVendorId :: u32 where "kIntelVendorId = 0x8086"
definition kUHD630DeviceId :: u32 where "kUHD630DeviceId = 0x9B41"
definition kDriver9466 :: u32 where "kDriver9466 = 0x01B006E02"

definition kDrawTelemetryBlocklist :: "GPUConfig list" where
  "kDrawTelemetryBlocklist = [\<lparr>vendor_id = kIntelVendorId, device_id = kUHD630DeviceId, driver_version = kDriver9466\<rparr>]"

definition hw_draw_telemetry_allowed :: "GPUConfig \<Rightarrow> bool" where
  "hw_draw_telemetry_allowed gpu \<longleftrightarrow>
     \<not> list_ex (\<lambda>e. vendor_id gpu = vendor_id e \<and> device_id gpu = device_id e \<and> driver_version gpu = driver_version e)
         kDrawTelemetryBlocklist"

definition pack_driver_version :: "u32 \<Rightarrow> u32 \<Rightarrow> u32 \<Rightarrow> u32" where
  "pack_driver_version major minor patch = push_bit 22 major OR push_bit 12 minor OR patch"

text \<open>State of the scan: the four parts, the index of the next one, the number being read.\<close>

definition scan_version_char :: "char \<Rightarrow> u32 list \<times> nat \<times> u32 \<Rightarrow> u32 list \<times> nat \<times> u32" where
  "scan_version_char ch st =
     (let (parts, idx, current) = st
      in if ch = CHR ''.'' then (if idx < 4 then (parts[idx := current], idx + 1, 0) else (parts, idx, 0))
         else if is_digit ch then (parts, idx, current * 10 + (of_nat (of_char ch) - 48))
         else (parts, idx, current))"

definition parse_driver_version :: "string \<Rightarrow> u32" where
  "parse_driver_version s =
     (let (parts, idx, current) = fold scan_version_char s ([0, 0, 0, 0], 0, 0);
          parts = (if idx < 4 then parts[idx := current] else parts)
      in push_bit 22 (parts ! 0) OR push_bit 12 (parts ! 1) OR parts ! 2)"

definition VK_VERSION_MAJOR :: "u32 \<Rightarrow> u32" where "VK_VERSION_MAJOR v = drop_bit 22 v"
definition VK_VERSION_MINOR :: "u32 \<Rightarrow> u32" where "VK_VERSION_MINOR v = drop_bit 12 v AND 0x3FF"
definition VK_VERSION_PATCH :: "u32 \<Rightarrow> u32" where "VK_VERSION_PATCH v = v AND 0xFFF"

section \<open>State\<close>

datatype layer_call =
    Issued gpu_call
  | Next_bind_pipeline u64 u32 u64
  | Next_bind_shaders u64 u32
  | Next_free_command_buffers u64 u64 "u64 list"
  | Next_create_image u64
  | Next_destroy_image u64 u64
  | Next_destroy_device u64
  | Next_destroy_instance u64

record device_pfns =
  dp_core :: PFN_table
  dp_bind_pipeline :: bool
  dp_bind_shaders :: bool
  dp_free_cmd_bufs :: bool
  dp_create_image :: bool
  dp_destroy_image :: bool
  dp_destroy_device :: bool

record DeviceCtx =
  dc_pfns :: device_pfns
  dc_core :: "SynapseCore option"

text \<open>An instance context records whether the next layer resolves \<open>vkDestroyInstance\<close>.\<close>

record layer =
  ly_instances :: "(u64, bool) alist"
  ly_devices :: "(u64, DeviceCtx) alist"
  ly_trace :: "layer_call list"

definition layer_init :: layer where
  "layer_init = \<lparr>ly_instances = [], ly_devices = [], ly_trace = []\<rparr>"

definition next_call :: "layer_call \<Rightarrow> layer \<Rightarrow> layer" where
  "next_call g l = l\<lparr>ly_trace := ly_trace l @ [g]\<rparr>"

text \<open>A core of a device has run: store it and record the calls it made.\<close>

definition put_core :: "u64 \<Rightarrow> DeviceCtx \<Rightarrow> SynapseCore \<Rightarrow> SynapseCore \<Rightarrow> layer \<Rightarrow> layer" where
  "put_core k ctx c c' l =
     l\<lparr>ly_devices := al_update k (ctx\<lparr>dc_core := Some c'\<rparr>) (ly_devices l),
       ly_trace := ly_trace l @ map Issued (drop (length (sc_trace c)) (sc_trace c'))\<rparr>"

section \<open>Instances and devices\<close>

type_synonym vk_result = int

definition VK_SUCCESS :: vk_result where "VK_SUCCESS = 0"
definition VK_ERROR_INITIALIZATION_FAILED :: vk_result where "VK_ERROR_INITIALIZATION_FAILED = -3"

record instance_env =
  ie_link :: bool
  ie_has_create :: bool
  ie_result :: vk_result
  ie_instance :: u64
  ie_has_destroy :: bool

definition layer_vkCreateInstance :: "(u64 \<Rightarrow> u64) \<Rightarrow> instance_env \<Rightarrow> layer \<Rightarrow> vk_result \<times> layer" where
  "layer_vkCreateInstance key e l =
     (if \<not> ie_link e then (VK_ERROR_INITIALIZATION_FAILED, l)
      else if \<not> ie_has_create e then (VK_ERROR_INITIALIZATION_FAILED, l)
      else if ie_result e \<noteq> VK_SUCCESS then (ie_result e, l)
      else (VK_SUCCESS, l\<lparr>ly_instances := al_update (key (ie_instance e)) (ie_has_destroy e) (ly_instances l)\<rparr>))"

definition layer_vkDestroyInstance :: "(u64 \<Rightarrow> u64) \<Rightarrow> u64 \<Rightarrow> layer \<Rightarrow> layer" where
  "layer_vkDestroyInstance key inst l =
     (case al_lookup (ly_instances l) (key inst) of
        None \<Rightarrow> l
      | Some has \<Rightarrow>
          let l = l\<lparr>ly_instances := al_delete (key inst) (ly_instances l)\<rparr>
          in if has then next_call (Next_destroy_instance inst) l else l)"

record device_env =
  de_link :: bool
  de_has_create :: bool
  de_result :: vk_result
  de_device :: u64
  de_pfns :: device_pfns
  de_props :: "(u32 \<times> u32 \<times> u32) option"
  de_weights :: "f32 list list"
  de_replay :: "Experience list"
  de_meta :: wal_disk
  de_wal :: wal_disk
  de_t1 :: u64
  de_t2 :: u64
  de_tid :: u32
  de_profile :: "UserProfile option"

definition apply_blocklist :: "(u32 \<times> u32 \<times> u32) option \<Rightarrow> SynapseCore \<Rightarrow> SynapseCore" where
  "apply_blocklist props c =
     (case props of
        None \<Rightarrow> c
      | Some (vendor, device, driver) \<Rightarrow>
          let gpu = \<lparr>vendor_id = vendor, device_id = device,
                     driver_version = pack_driver_version (VK_VERSION_MAJOR driver) (VK_VERSION_MINOR driver) (VK_VERSION_PATCH driver)\<rparr>
          in if \<not> hw_draw_telemetry_allowed gpu then c\<lparr>sc_draw_telemetry_allowed := False\<rparr> else c)"

definition load_profile :: "UserProfile option \<Rightarrow> SynapseCore \<Rightarrow> SynapseCore" where
  "load_profile prof c =
     (case prof of None \<Rightarrow> c
      | Some data \<Rightarrow> sync_config_from_profile (c\<lparr>sc_profile := import_profile data (sc_profile c)\<rparr>))"

text \<open>\<open>check_and_recover\<close> may throw; the device's context is in the table by then and stays there.\<close>

definition layer_vkCreateDevice :: "(u64 \<Rightarrow> u64) \<Rightarrow> device_env \<Rightarrow> layer \<Rightarrow> (core_error + vk_result) \<times> layer" where
  "layer_vkCreateDevice key e l =
     (if \<not> de_link e then (Inr VK_ERROR_INITIALIZATION_FAILED, l)
      else if \<not> de_has_create e then (Inr VK_ERROR_INITIALIZATION_FAILED, l)
      else if de_result e \<noteq> VK_SUCCESS then (Inr (de_result e), l)
      else
        let k = key (de_device e);
            c = SynapseCore_init (dp_core (de_pfns e)) (de_weights e) (de_replay e) (de_meta e) (de_wal e)
                  (de_t1 e) (de_t2 e) (de_tid e);
            c = apply_blocklist (de_props e) c;
            put = (\<lambda>c. l\<lparr>ly_devices := al_update k \<lparr>dc_pfns = de_pfns e, dc_core = Some c\<rparr> (ly_devices l)\<rparr>)
        in case check_and_recover c of
             (Inl err, c) \<Rightarrow> (Inl err, put c)
           | (Inr info, c) \<Rightarrow> (Inr VK_SUCCESS, put (wire_power_estimator (load_profile (de_profile e) c))))"

text \<open>Destroying a device returns the profile file of its core's data directory, which held \<open>file\<close>, and the
  report its core wrote. The profile is written before the core is destroyed, and the core before the next
  layer is called.\<close>

definition write_profile :: "bool \<Rightarrow> SynapseCore option \<Rightarrow> UserProfile option \<Rightarrow> UserProfile option" where
  "write_profile can_write core file =
     (case core of None \<Rightarrow> file | Some c \<Rightarrow> if can_write then Some (export_profile (sc_profile c)) else file)"

definition layer_vkDestroyDevice ::
  "(u64 \<Rightarrow> u64) \<Rightarrow> u64 \<Rightarrow> u32 \<Rightarrow> bool \<Rightarrow> UserProfile option \<Rightarrow> u64 \<Rightarrow> layer
     \<Rightarrow> (UserProfile option \<times> SynapseSessionReport option) \<times> layer" where
  "layer_vkDestroyDevice key now tid can_write file dev l =
     (case al_lookup (ly_devices l) (key dev) of
        None \<Rightarrow> ((file, None), l)
      | Some ctx \<Rightarrow>
          let file = write_profile can_write (dc_core ctx) file;
              report = map_option (\<lambda>c. fst (SynapseCore_destroy now tid c)) (dc_core ctx);
              l = l\<lparr>ly_devices := al_delete (key dev) (ly_devices l)\<rparr>
          in ((file, report), if dp_destroy_device (dc_pfns ctx) then next_call (Next_destroy_device dev) l else l))"

section \<open>Commands\<close>

definition layer_vkCmdDrawIndexed ::
  "(u64 \<Rightarrow> u64) \<Rightarrow> core_params \<Rightarrow> call_env \<Rightarrow> draw_args \<Rightarrow> layer \<Rightarrow> core_error + layer" where
  "layer_vkCmdDrawIndexed key p env d l =
     (case al_lookup (ly_devices l) (key (da_cb d)) of
        None \<Rightarrow> Inr l
      | Some ctx \<Rightarrow>
          (case dc_core ctx of
             Some c \<Rightarrow> (case handle_draw_indexed p env d c of
                 Inl e \<Rightarrow> Inl e | Inr c' \<Rightarrow> Inr (put_core (key (da_cb d)) ctx c c' l))
           | None \<Rightarrow> Inr (if pfn_draw_indexed (dp_core (dc_pfns ctx))
               then next_call (Issued (same_draw_indexed d)) l else l)))"

definition layer_vkCmdDraw ::
  "(u64 \<Rightarrow> u64) \<Rightarrow> core_params \<Rightarrow> call_env \<Rightarrow> plain_draw_args \<Rightarrow> layer \<Rightarrow> core_error + layer" where
  "layer_vkCmdDraw key p env d l =
     (case al_lookup (ly_devices l) (key (pd_cb d)) of
        None \<Rightarrow> Inr l
      | Some ctx \<Rightarrow>
          (case dc_core ctx of
             Some c \<Rightarrow> (case handle_draw p env d c of
                 Inl e \<Rightarrow> Inl e | Inr c' \<Rightarrow> Inr (put_core (key (pd_cb d)) ctx c c' l))
           | None \<Rightarrow> Inr (if pfn_draw (dp_core (dc_pfns ctx))
               then next_call (Issued (GDraw (pd_cb d) (pd_vertexCount d) (pd_instanceCount d) (pd_firstVertex d) (pd_firstInstance d))) l
               else l)))"

definition layer_vkCmdDispatch ::
  "(u64 \<Rightarrow> u64) \<Rightarrow> core_params \<Rightarrow> call_env \<Rightarrow> dispatch_args \<Rightarrow> layer \<Rightarrow> core_error + layer" where
  "layer_vkCmdDispatch key p env d l =
     (case al_lookup (ly_devices l) (key (di_cb d)) of
        None \<Rightarrow> Inr l
      | Some ctx \<Rightarrow>
          (case dc_core ctx of
             Some c \<Rightarrow> (case handle_dispatch p env d c of
                 Inl e \<Rightarrow> Inl e | Inr c' \<Rightarrow> Inr (put_core (key (di_cb d)) ctx c c' l))
           | None \<Rightarrow> Inr (if pfn_dispatch (dp_core (dc_pfns ctx))
               then next_call (Issued (GDispatch (di_cb d) (di_x d) (di_y d) (di_z d))) l else l)))"

definition layer_vkCmdPushConstants ::
  "(u64 \<Rightarrow> u64) \<Rightarrow> u64 \<Rightarrow> u64 \<Rightarrow> u64 \<Rightarrow> u32 \<Rightarrow> u32 \<Rightarrow> u32 \<Rightarrow> bytes \<Rightarrow> layer \<Rightarrow> layer" where
  "layer_vkCmdPushConstants key now cmd layout stageFlags offset sz pValues l =
     (case al_lookup (ly_devices l) (key cmd) of
        None \<Rightarrow> l
      | Some ctx \<Rightarrow>
          let l = (case dc_core ctx of
                     Some c \<Rightarrow> put_core (key cmd) ctx c (handle_push_constants now cmd layout stageFlags offset sz pValues c) l
                   | None \<Rightarrow> l)
          in if pfn_push_constants (dp_core (dc_pfns ctx))
             then next_call (Issued (GPushConstants cmd layout stageFlags offset sz pValues)) l else l)"

definition layer_vkCmdBindDescriptorSets ::
  "(u64 \<Rightarrow> u64) \<Rightarrow> u64 \<Rightarrow> u64 \<Rightarrow> u32 \<Rightarrow> u64 \<Rightarrow> u32 \<Rightarrow> u64 list \<Rightarrow> u32 list \<Rightarrow> layer \<Rightarrow> layer" where
  "layer_vkCmdBindDescriptorSets key now cmd bindPoint layout firstSet sets offsets l =
     (case al_lookup (ly_devices l) (key cmd) of
        None \<Rightarrow> l
      | Some ctx \<Rightarrow>
          let l = (case dc_core ctx of
                     Some c \<Rightarrow> put_core (key cmd) ctx c (handle_bind_descriptor_sets now cmd bindPoint layout firstSet sets offsets c) l
                   | None \<Rightarrow> l)
          in if pfn_bind_descriptor_sets (dp_core (dc_pfns ctx))
             then next_call (Issued (GBindDescriptorSets cmd bindPoint layout firstSet sets offsets)) l else l)"

definition layer_vkCmdBindShadersEXT :: "(u64 \<Rightarrow> u64) \<Rightarrow> u64 \<Rightarrow> u32 \<Rightarrow> layer \<Rightarrow> layer" where
  "layer_vkCmdBindShadersEXT key cmd stageCount l =
     (case al_lookup (ly_devices l) (key cmd) of
        None \<Rightarrow> l
      | Some ctx \<Rightarrow> if dp_bind_shaders (dc_pfns ctx) then next_call (Next_bind_shaders cmd stageCount) l else l)"

text \<open>\<open>result\<close> and \<open>img\<close> are what the next layer's \<open>vkCreateImage\<close> returns (\<open>pImage\<close> is not null).\<close>

definition layer_vkCreateImage ::
  "(u64 \<Rightarrow> u64) \<Rightarrow> u64 \<Rightarrow> u32 \<Rightarrow> u32 \<Rightarrow> u32 \<Rightarrow> vk_result \<Rightarrow> u64 \<Rightarrow> layer \<Rightarrow> vk_result \<times> layer" where
  "layer_vkCreateImage key dev width height mips result img l =
     (case al_lookup (ly_devices l) (key dev) of
        None \<Rightarrow> (VK_ERROR_INITIALIZATION_FAILED, l)
      | Some ctx \<Rightarrow>
          if \<not> dp_create_image (dc_pfns ctx) then (VK_ERROR_INITIALIZATION_FAILED, l)
          else
            let l = next_call (Next_create_image dev) l
            in if result = VK_SUCCESS \<and> img \<noteq> 0
               then (result, case dc_core ctx of
                       Some c \<Rightarrow> put_core (key dev) ctx c (notify_create_image img width height mips img c) l
                     | None \<Rightarrow> l)
               else (result, l))"

definition layer_vkDestroyImage :: "(u64 \<Rightarrow> u64) \<Rightarrow> u64 \<Rightarrow> u64 \<Rightarrow> layer \<Rightarrow> layer" where
  "layer_vkDestroyImage key dev img l =
     (case al_lookup (ly_devices l) (key dev) of
        None \<Rightarrow> l
      | Some ctx \<Rightarrow>
          let l = (case dc_core ctx of Some c \<Rightarrow> put_core (key dev) ctx c (notify_destroy_image img c) l | None \<Rightarrow> l)
          in if dp_destroy_image (dc_pfns ctx) then next_call (Next_destroy_image dev img) l else l)"

definition layer_vkCmdBindPipeline :: "(u64 \<Rightarrow> u64) \<Rightarrow> u64 \<Rightarrow> u32 \<Rightarrow> u64 \<Rightarrow> layer \<Rightarrow> layer" where
  "layer_vkCmdBindPipeline key cmd bindPoint pipeline l =
     (case al_lookup (ly_devices l) (key cmd) of
        None \<Rightarrow> l
      | Some ctx \<Rightarrow>
          let l = (case dc_core ctx of
                     Some c \<Rightarrow> put_core (key cmd) ctx c (notify_bind_pipeline cmd pipeline pipeline c) l | None \<Rightarrow> l)
          in if dp_bind_pipeline (dc_pfns ctx) then next_call (Next_bind_pipeline cmd bindPoint pipeline) l else l)"

definition layer_vkFreeCommandBuffers :: "(u64 \<Rightarrow> u64) \<Rightarrow> u64 \<Rightarrow> u64 \<Rightarrow> u64 list \<Rightarrow> layer \<Rightarrow> layer" where
  "layer_vkFreeCommandBuffers key dev pool cmds l =
     (case al_lookup (ly_devices l) (key dev) of
        None \<Rightarrow> l
      | Some ctx \<Rightarrow>
          let l = (case dc_core ctx of
                     Some c \<Rightarrow> put_core (key dev) ctx c (fold notify_free_cmd_buf (filter (\<lambda>cmd. cmd \<noteq> 0) cmds) c) l
                   | None \<Rightarrow> l)
          in if dp_free_cmd_bufs (dc_pfns ctx) then next_call (Next_free_command_buffers dev pool cmds) l else l)"

section \<open>Name resolution\<close>

datatype resolved = Layer_function string | Next_function string | Null_function

definition device_hooks :: "string list" where
  "device_hooks = [''vkGetDeviceProcAddr'', ''vkCreateDevice'', ''vkDestroyDevice'', ''vkCmdDrawIndexed'', ''vkCmdDraw'',
     ''vkCmdDispatch'', ''vkCmdBindPipeline'', ''vkCmdBindDescriptorSets'', ''vkCmdPushConstants'', ''vkFreeCommandBuffers'']"

definition instance_hooks :: "string list" where
  "instance_hooks = [''vkGetInstanceProcAddr'', ''vkCreateInstance'', ''vkDestroyInstance'', ''vkGetDeviceProcAddr'',
     ''vkCreateDevice'', ''vkDestroyDevice'', ''vkCmdDrawIndexed'', ''vkCmdDraw'', ''vkCmdDispatch'', ''vkCmdPushConstants'',
     ''vkCmdBindDescriptorSets'', ''vkCmdBindPipeline'', ''vkCmdBindShadersEXT'', ''vkFreeCommandBuffers'', ''vkCreateImage'',
     ''vkDestroyImage'']"

definition layer_vkGetDeviceProcAddr :: "(u64 \<Rightarrow> u64) \<Rightarrow> u64 \<Rightarrow> string \<Rightarrow> layer \<Rightarrow> resolved" where
  "layer_vkGetDeviceProcAddr key dev name l =
     (if name \<in> set device_hooks then Layer_function name
      else case al_lookup (ly_devices l) (key dev) of Some ctx \<Rightarrow> Next_function name | None \<Rightarrow> Null_function)"

definition layer_vkGetInstanceProcAddr :: "(u64 \<Rightarrow> u64) \<Rightarrow> u64 \<Rightarrow> string \<Rightarrow> layer \<Rightarrow> resolved" where
  "layer_vkGetInstanceProcAddr key inst name l =
     (if name \<in> set instance_hooks then Layer_function name
      else if inst = 0 then Null_function
      else case al_lookup (ly_instances l) (key inst) of Some b \<Rightarrow> Next_function name | None \<Rightarrow> Null_function)"

section \<open>Sequences of calls\<close>

text \<open>The calls of an application and, between them, the turns of a core's threads: the analyzer, the trainer and
  the watcher of the configuration file, each for the device with key \<open>k\<close>. An exception ends the process.\<close>

datatype layer_event =
    Call_create_instance instance_env
  | Call_destroy_instance u64
  | Call_create_device device_env
  | Call_destroy_device u64 u32 bool "UserProfile option" u64
  | Call_draw_indexed call_env draw_args
  | Call_draw call_env plain_draw_args
  | Call_dispatch call_env dispatch_args
  | Call_push_constants u64 u64 u64 u32 u32 u32 bytes
  | Call_bind_sets u64 u64 u32 u64 u32 "u64 list" "u32 list"
  | Call_bind_shaders u64 u32
  | Call_bind_pipeline u64 u32 u64
  | Call_create_image u64 u32 u32 u32 vk_result u64
  | Call_destroy_image u64 u64
  | Call_free_command_buffers u64 u64 "u64 list"
  | Analyzer_of u64
  | Trainer_of u64
  | Reload_of u64 nat "string \<Rightarrow> core_error + f32" string

definition thread_turn :: "u64 \<Rightarrow> (SynapseCore \<Rightarrow> core_error + SynapseCore) \<Rightarrow> layer \<Rightarrow> core_error + layer" where
  "thread_turn k f l =
     (case al_lookup (ly_devices l) k of
        None \<Rightarrow> Inr l
      | Some ctx \<Rightarrow>
          (case dc_core ctx of
             None \<Rightarrow> Inr l
           | Some c \<Rightarrow> (case f c of Inl e \<Rightarrow> Inl e | Inr c' \<Rightarrow> Inr (put_core k ctx c c' l))))"

fun intercept_step :: "(u64 \<Rightarrow> u64) \<Rightarrow> core_params \<Rightarrow> layer_event \<Rightarrow> layer \<Rightarrow> core_error + layer" where
  "intercept_step key p (Call_create_instance e) l = Inr (snd (layer_vkCreateInstance key e l))"
| "intercept_step key p (Call_destroy_instance inst) l = Inr (layer_vkDestroyInstance key inst l)"
| "intercept_step key p (Call_create_device e) l = (case layer_vkCreateDevice key e l of (Inl err, l') \<Rightarrow> Inl err | (Inr r, l') \<Rightarrow> Inr l')"
| "intercept_step key p (Call_destroy_device now tid can_write file dev) l = Inr (snd (layer_vkDestroyDevice key now tid can_write file dev l))"
| "intercept_step key p (Call_draw_indexed env d) l = layer_vkCmdDrawIndexed key p env d l"
| "intercept_step key p (Call_draw env d) l = layer_vkCmdDraw key p env d l"
| "intercept_step key p (Call_dispatch env d) l = layer_vkCmdDispatch key p env d l"
| "intercept_step key p (Call_push_constants now cmd layout st off sz vs) l = Inr (layer_vkCmdPushConstants key now cmd layout st off sz vs l)"
| "intercept_step key p (Call_bind_sets now cmd bp layout first sets offs) l =
     Inr (layer_vkCmdBindDescriptorSets key now cmd bp layout first sets offs l)"
| "intercept_step key p (Call_bind_shaders cmd n) l = Inr (layer_vkCmdBindShadersEXT key cmd n l)"
| "intercept_step key p (Call_bind_pipeline cmd bp pl) l = Inr (layer_vkCmdBindPipeline key cmd bp pl l)"
| "intercept_step key p (Call_create_image dev w h mips res img) l = Inr (snd (layer_vkCreateImage key dev w h mips res img l))"
| "intercept_step key p (Call_destroy_image dev img) l = Inr (layer_vkDestroyImage key dev img l)"
| "intercept_step key p (Call_free_command_buffers dev pool cmds) l = Inr (layer_vkFreeCommandBuffers key dev pool cmds l)"
| "intercept_step key p (Analyzer_of k) l = thread_turn k (core_step p Analyzer_turn) l"
| "intercept_step key p (Trainer_of k) l = thread_turn k (core_step p Trainer_tick) l"
| "intercept_step key p (Reload_of k ulbits stof content) l = thread_turn k (apply_config_content ulbits stof content) l"

fun intercept_run :: "(u64 \<Rightarrow> u64) \<Rightarrow> core_params \<Rightarrow> layer_event list \<Rightarrow> layer \<Rightarrow> core_error + layer" where
  "intercept_run key p [] l = Inr l"
| "intercept_run key p (e # es) l = (case intercept_step key p e l of Inl err \<Rightarrow> Inl err | Inr l' \<Rightarrow> intercept_run key p es l')"

text \<open>The calls that put another core behind a key, or none.\<close>

fun replaces :: "(u64 \<Rightarrow> u64) \<Rightarrow> u64 \<Rightarrow> layer_event \<Rightarrow> bool" where
  "replaces key k (Call_create_device e) = (key (de_device e) = k)"
| "replaces key k (Call_destroy_device now tid can_write file dev) = (key dev = k)"
| "replaces key k e = False"

section \<open>Lemmas\<close>

lemma put_core_appends:
  "sc_trace c' = sc_trace c @ gs \<Longrightarrow> ly_trace (put_core k ctx c c' l) = ly_trace l @ map Issued gs"
  by (simp add: put_core_def)

lemma put_core_lookup [simp]:
  "al_lookup (ly_devices (put_core k ctx c c' l)) k = Some (ctx\<lparr>dc_core := Some c'\<rparr>)"
  by (simp add: put_core_def)

lemma next_call_frame [simp, frame_simps]:
  "ly_trace (next_call g l) = ly_trace l @ [g]" "ly_devices (next_call g l) = ly_devices l"
  "ly_instances (next_call g l) = ly_instances l"
  by (simp_all add: next_call_def)

lemma push_constants_trace:
  "sc_trace (handle_push_constants now cmd lo st off sz vs c) =
     sc_trace c @ (if pfn_push_constants (sc_pfn c) then [GPushConstants cmd lo st off sz vs] else [])"
  by (simp add: handle_push_constants_def issue_def Let_def)

lemma bind_sets_trace:
  assumes "core_inv c"
  shows "sc_trace (handle_bind_descriptor_sets now cmd bp lo first sets offs c) =
     sc_trace c @ (if pfn_bind_descriptor_sets (sc_pfn c) then [GBindDescriptorSets cmd bp lo first sets offs] else [])"
  using bind_sets_effect [OF assms, of cmd first "enumerate 0 sets"]
  by (simp add: handle_bind_descriptor_sets_def issue_def Let_def effect_def same_mode_def)

lemma version_fields_repack:
  "pack_driver_version (VK_VERSION_MAJOR v) (VK_VERSION_MINOR v) (VK_VERSION_PATCH v) = v"
  unfolding pack_driver_version_def VK_VERSION_MAJOR_def VK_VERSION_MINOR_def VK_VERSION_PATCH_def
proof (rule bit_word_eqI)
  fix n
  assume "n < LENGTH(32)"
  have m1: "(0x3FF :: u32) = mask 10" and m2: "(0xFFF :: u32) = mask 12" by (simp_all add: mask_eq_exp_minus_1)
  show "bit (push_bit 22 (drop_bit 22 v) OR push_bit 12 (drop_bit 12 v AND 0x3FF) OR v AND 0xFFF) n = bit v n"
    unfolding m1 m2 using \<open>n < LENGTH(32)\<close>
    by (cases "n < 22") (auto simp: bit_or_iff bit_and_iff bit_push_bit_iff bit_drop_bit_eq bit_mask_iff)
qed

lemma only_extra_hooks: "I = D \<union> (A \<union> B) \<Longrightarrow> B \<inter> D = {} \<Longrightarrow> n \<notin> A \<Longrightarrow> n \<in> I \<and> n \<notin> D \<longleftrightarrow> n \<in> B"
  by blast

text \<open>What \<open>check_and_recover\<close> and the profile can change of a core.\<close>

lemma check_and_recover_frame:
  assumes "check_and_recover c = (res, c')"
  shows "sc_draw_telemetry_allowed c' = sc_draw_telemetry_allowed c \<and> sc_pfn c' = sc_pfn c \<and> sc_trace c' = sc_trace c
    \<and> sc_jit_cache c' = sc_jit_cache c \<and> (sc_recovery c \<noteq> None \<longrightarrow> sc_recovery c' \<noteq> None)
    \<and> initial_states (sc_degrade c') = initial_states (sc_degrade c)"
  using assms
  by (auto simp: check_and_recover_def Let_def handle_error_def split: option.splits prod.splits sum.splits bool.splits)

lemma load_profile_frame:
  "sc_draw_telemetry_allowed (load_profile prof c) = sc_draw_telemetry_allowed c"
  "sc_pfn (load_profile prof c) = sc_pfn c" "sc_trace (load_profile prof c) = sc_trace c"
  "sc_jit_cache (load_profile prof c) = sc_jit_cache c" "sc_recovery (load_profile prof c) = sc_recovery c"
  "initial_states (sc_degrade (load_profile prof c)) = initial_states (sc_degrade c)"
  by (simp_all add: load_profile_def sync_config_from_profile_def propagate_flags_def Let_def split: option.split)

definition created_core :: "device_env \<Rightarrow> SynapseCore \<Rightarrow> bool" where
  "created_core e c \<longleftrightarrow> core_inv c \<and> sc_trace c = [] \<and> sc_pfn c = dp_core (de_pfns e)
     \<and> sc_draw_telemetry_allowed c = (case de_props e of None \<Rightarrow> True
         | Some (vendor, device, driver) \<Rightarrow>
             hw_draw_telemetry_allowed \<lparr>vendor_id = vendor, device_id = device, driver_version = driver\<rparr>)"

lemma create_device_installs_core:
  assumes "layer_vkCreateDevice key e l = (Inr VK_SUCCESS, l')"
  shows "\<exists>c. al_lookup (ly_devices l') (key (de_device e)) = Some \<lparr>dc_pfns = de_pfns e, dc_core = Some c\<rparr>
    \<and> created_core e c \<and> ly_trace l' = ly_trace l"
proof -
  let ?c0 = "SynapseCore_init (dp_core (de_pfns e)) (de_weights e) (de_replay e) (de_meta e) (de_wal e) (de_t1 e) (de_t2 e) (de_tid e)"
  let ?c1 = "apply_blocklist (de_props e) ?c0"
  have f0: "core_inv ?c0" "sc_trace ?c0 = []" "sc_pfn ?c0 = dp_core (de_pfns e)" "sc_draw_telemetry_allowed ?c0"
    using SynapseCore_init_fresh by (simp_all add: fresh_core_def)
  then have "created_core e ?c1"
    by (auto simp: created_core_def apply_blocklist_def core_inv_def version_fields_repack Let_def split: option.split prod.split)
  moreover obtain res c2 where c2: "check_and_recover ?c1 = (res, c2)" by fastforce
  ultimately have ok: "created_core e (wire_power_estimator (load_profile (de_profile e) c2))"
    using check_and_recover_frame [OF c2]
    by (auto simp: created_core_def core_inv_def wire_power_estimator_def load_profile_frame)
  have ok_result: "de_link e" "de_has_create e" "de_result e = VK_SUCCESS"
    using assms by (auto simp: layer_vkCreateDevice_def VK_ERROR_INITIALIZATION_FAILED_def VK_SUCCESS_def split: if_splits)
  then obtain info where "res = Inr info"
    using assms c2 by (cases res) (auto simp: layer_vkCreateDevice_def Let_def)
  then show ?thesis
    using assms c2 ok ok_result by (auto simp: layer_vkCreateDevice_def Let_def)
qed

subsection \<open>A blocked device stays blocked\<close>

text \<open>No call of the core lifts the block or changes the entry points.\<close>

definition blocked_core :: "PFN_table \<Rightarrow> SynapseCore \<Rightarrow> bool" where
  "blocked_core pfn c \<longleftrightarrow> \<not> sc_draw_telemetry_allowed c \<and> sc_pfn c = pfn"

interpretation blocked: call_invariant "blocked_core pfn" for pfn
  by unfold_locales
    (simp_all add: blocked_core_def wal_log_def push_telemetry_def issue_def execute_hai_path_def learn_from_draw_def learn_from_dispatch_def
      increment_frame_def notify_bind_pipeline_def notify_bind_descriptor_set_def notify_create_image_def
      notify_destroy_image_def notify_free_cmd_buf_def prepare_textures_def Let_def split: option.split)

definition blocked_device :: "PFN_table \<Rightarrow> u64 \<Rightarrow> layer \<Rightarrow> bool" where
  "blocked_device pfn k l \<longleftrightarrow> (\<exists>ctx c. al_lookup (ly_devices l) k = Some ctx \<and> dc_core ctx = Some c
     \<and> blocked_core pfn c)"

lemma blocked_device_next [simp]: "blocked_device pfn k (next_call g l) = blocked_device pfn k l"
  by (simp add: blocked_device_def)

lemma blocked_device_instances [simp]: "blocked_device pfn k (l\<lparr>ly_instances := is\<rparr>) = blocked_device pfn k l"
  by (simp add: blocked_device_def)

text \<open>Storing the result of a call that keeps the block.\<close>

lemma put_core_blocked:
  assumes "blocked_device pfn k l" "al_lookup (ly_devices l) k' = Some ctx" "dc_core ctx = Some c"
    and "blocked_core pfn c \<Longrightarrow> blocked_core pfn c'"
  shows "blocked_device pfn k (put_core k' ctx c c' l)"
  using assms by (cases "k' = k") (auto simp: blocked_device_def put_core_def)

lemma free_bufs_blocked: "blocked_core pfn c \<Longrightarrow> blocked_core pfn (fold notify_free_cmd_buf cmds c)"
  by (induction cmds arbitrary: c) (simp_all add: blocked.keeps_notify)

lemma core_step_blocked:
  "core_step p e c = Inr c' \<Longrightarrow> blocked_core pfn c \<Longrightarrow> blocked_core pfn c'"
  using blocked.core_step_keeps [of pfn c p e] by simp

lemmas core_calls_blocked =
  core_step_blocked [of p "Draw_indexed env d" for p env d, unfolded core_step.simps]
  core_step_blocked [of p "Draw_plain env d" for p env d, unfolded core_step.simps]
  core_step_blocked [of p "Dispatch_compute env d" for p env d, unfolded core_step.simps]

lemmas quiet_calls_blocked =
  core_step_blocked [OF core_step.simps(4)] core_step_blocked [OF core_step.simps(5)] blocked.keeps_notify free_bufs_blocked

lemma thread_turn_blocked:
  assumes "blocked_device pfn k l" "thread_turn k' f l = Inr l'"
    and "\<And>c c'. f c = Inr c' \<Longrightarrow> blocked_core pfn c \<Longrightarrow> blocked_core pfn c'"
  shows "blocked_device pfn k l'"
  using assms(1,2)
  by (auto simp: thread_turn_def split: option.splits sum.splits intro: put_core_blocked dest: assms(3))

lemma reload_blocked:
  "apply_config_content ulbits stof content c = Inr c' \<Longrightarrow> blocked_core pfn c \<Longrightarrow> blocked_core pfn c'"
  by (auto simp: blocked_core_def apply_config_content_def split: sum.splits)

lemma create_device_blocked:
  assumes "blocked_device pfn k l" "key (de_device e) \<noteq> k" "layer_vkCreateDevice key e l = (r, l')"
  shows "blocked_device pfn k l'"
  using assms by (auto simp: layer_vkCreateDevice_def blocked_device_def Let_def split: if_splits prod.splits sum.splits)

lemma destroy_device_blocked:
  "blocked_device pfn k l \<Longrightarrow> key dev \<noteq> k \<Longrightarrow> blocked_device pfn k (snd (layer_vkDestroyDevice key now tid can_write file dev l))"
  by (auto simp: layer_vkDestroyDevice_def blocked_device_def Let_def split: option.split)

lemma intercept_step_blocked:
  assumes "blocked_device pfn k l" "intercept_step key p ev l = Inr l'" "\<not> replaces key k ev"
  shows "blocked_device pfn k l'"
proof (cases ev)
  case (Call_create_device e)
  then show ?thesis using assms by (auto split: prod.splits sum.splits intro: create_device_blocked)
next
  case (Call_destroy_device now tid can_write f dev)
  then show ?thesis using assms by (auto intro: destroy_device_blocked)
next
  case (Call_create_instance e)
  then show ?thesis using assms by (auto simp: layer_vkCreateInstance_def split: if_splits)
next
  case (Call_destroy_instance inst)
  then show ?thesis using assms by (auto simp: layer_vkDestroyInstance_def Let_def split: option.splits if_splits)
next
  case (Analyzer_of k')
  then show ?thesis using assms by (auto intro: thread_turn_blocked dest: core_step_blocked)
next
  case (Trainer_of k')
  then show ?thesis using assms by (auto intro: thread_turn_blocked dest: core_step_blocked)
next
  case (Reload_of k' ulbits stof content)
  then show ?thesis using assms by (auto intro: thread_turn_blocked dest: reload_blocked)
qed (use assms in \<open>auto simp: layer_vkCmdDrawIndexed_def layer_vkCmdDraw_def layer_vkCmdDispatch_def layer_vkCmdPushConstants_def
      layer_vkCmdBindDescriptorSets_def layer_vkCmdBindShadersEXT_def layer_vkCmdBindPipeline_def layer_vkCreateImage_def
      layer_vkDestroyImage_def layer_vkFreeCommandBuffers_def Let_def
      split: option.splits sum.splits if_splits intro!: put_core_blocked intro: quiet_calls_blocked dest: core_calls_blocked\<close>)

lemma intercept_run_blocked:
  "blocked_device pfn k l \<Longrightarrow> intercept_run key p evs l = Inr l' \<Longrightarrow> list_all (\<lambda>ev. \<not> replaces key k ev) evs \<Longrightarrow> blocked_device pfn k l'"
proof (induction evs arbitrary: l)
  case (Cons ev evs)
  then show ?case using intercept_step_blocked [of pfn k l key p ev] by (auto split: sum.splits)
qed simp

text \<open>A draw on a blocked device goes to the next layer as it is.\<close>

lemma blocked_device_draws:
  assumes "blocked_device pfn k l" "key (da_cb d) = k" "key (pd_cb d') = k"
  shows "\<exists>l'. layer_vkCmdDrawIndexed key p env d l = Inr l'
      \<and> ly_trace l' = ly_trace l @ (if pfn_draw_indexed pfn then [Issued (same_draw_indexed d)] else [])"
    and "\<exists>l'. layer_vkCmdDraw key p env d' l = Inr l'
      \<and> ly_trace l' = ly_trace l @ (if pfn_draw pfn
          then [Issued (GDraw (pd_cb d') (pd_vertexCount d') (pd_instanceCount d') (pd_firstVertex d') (pd_firstInstance d'))] else [])"
proof -
  obtain ctx c where c: "al_lookup (ly_devices l) k = Some ctx" "dc_core ctx = Some c" "\<not> sc_draw_telemetry_allowed c" "sc_pfn c = pfn"
    using assms(1) by (auto simp: blocked_device_def blocked_core_def)
  have log: "sc_trace (wal_log now ty data sz c) = sc_trace c" for now ty data sz c
    by (simp add: wal_log_def split: option.split)
  have "sc_trace (wal_log now ty data sz (forward_draw_indexed d c))
      = sc_trace c @ (if pfn_draw_indexed pfn then [same_draw_indexed d] else [])" for now ty data sz
    by (simp add: log forward_draw_indexed_def issue_def same_draw_indexed_def c(4))
  then show "\<exists>l'. layer_vkCmdDrawIndexed key p env d l = Inr l'
      \<and> ly_trace l' = ly_trace l @ (if pfn_draw_indexed pfn then [Issued (same_draw_indexed d)] else [])"
    using c assms(2) by (simp add: layer_vkCmdDrawIndexed_def handle_draw_indexed_def put_core_appends)
  have "sc_trace (wal_log now ty data sz (forward_draw d' c))
      = sc_trace c @ (if pfn_draw pfn
          then [GDraw (pd_cb d') (pd_vertexCount d') (pd_instanceCount d') (pd_firstVertex d') (pd_firstInstance d')] else [])" for now ty data sz
    by (simp add: log forward_draw_def issue_def c(4))
  then show "\<exists>l'. layer_vkCmdDraw key p env d' l = Inr l'
      \<and> ly_trace l' = ly_trace l @ (if pfn_draw pfn
          then [Issued (GDraw (pd_cb d') (pd_vertexCount d') (pd_instanceCount d') (pd_firstVertex d') (pd_firstInstance d'))] else [])"
    using c assms(3) by (simp add: layer_vkCmdDraw_def handle_draw_def put_core_appends)
qed

section \<open>Properties\<close>

text \<open>Push constants are forwarded twice. On a device the layer knows, whose core exists and whose
  next layer provides the call, one \<open>vkCmdPushConstants\<close> of the application reaches the next layer
  twice, first from the core and then from the layer itself. The same holds of
  \<open>vkCmdBindDescriptorSets\<close>.\<close>
theorem layer_push_and_bind_forwarded_twice:
  assumes "al_lookup (ly_devices l) (key cmd) = Some ctx" "dc_core ctx = Some c" "core_inv c"
    and "sc_pfn c = dp_core (dc_pfns ctx)"
    and "pfn_push_constants (sc_pfn c)" "pfn_bind_descriptor_sets (sc_pfn c)"
  shows "ly_trace (layer_vkCmdPushConstants key now cmd lo st off sz vs l) =
      ly_trace l @ [Issued (GPushConstants cmd lo st off sz vs), Issued (GPushConstants cmd lo st off sz vs)]
    \<and> ly_trace (layer_vkCmdBindDescriptorSets key now cmd bp lo first sets offs l) =
      ly_trace l @ [Issued (GBindDescriptorSets cmd bp lo first sets offs), Issued (GBindDescriptorSets cmd bp lo first sets offs)]"
  using assms
    put_core_appends [OF push_constants_trace [of now cmd lo st off sz vs c], of "key cmd" ctx l]
    put_core_appends [OF bind_sets_trace [OF assms(3), of now cmd bp lo first sets offs], of "key cmd" ctx l]
  by (simp add: layer_vkCmdPushConstants_def layer_vkCmdBindDescriptorSets_def Let_def)

definition demo_pfns :: device_pfns where
  "demo_pfns = \<lparr>dp_core = sc_pfn demo_core, dp_bind_pipeline = True, dp_bind_shaders = True, dp_free_cmd_bufs = True,
     dp_create_image = True, dp_destroy_image = True, dp_destroy_device = True\<rparr>"

definition demo_layer :: layer where
  "demo_layer = \<lparr>ly_instances = [], ly_devices = [(7, \<lparr>dc_pfns = demo_pfns, dc_core = Some demo_core\<rparr>)], ly_trace = []\<rparr>"

theorem layer_push_and_bind_forwarded_twice_witness:
  "ly_trace (layer_vkCmdPushConstants (\<lambda>_. 7) 0 1 2 3 0 4 [1, 2, 3, 4] demo_layer) =
     [Issued (GPushConstants 1 2 3 0 4 [1, 2, 3, 4]), Issued (GPushConstants 1 2 3 0 4 [1, 2, 3, 4])]"
proof -
  have "ly_trace (layer_vkCmdPushConstants (\<lambda>_. 7) 0 1 2 3 0 4 [1, 2, 3, 4] demo_layer) = ly_trace demo_layer @
     [Issued (GPushConstants 1 2 3 0 4 [1, 2, 3, 4]), Issued (GPushConstants 1 2 3 0 4 [1, 2, 3, 4])]"
    by (rule layer_push_and_bind_forwarded_twice [of demo_layer "\<lambda>_. 7" 1
          "\<lparr>dc_pfns = demo_pfns, dc_core = Some demo_core\<rparr>" demo_core, THEN conjunct1])
      (use demo_core_ok in \<open>simp_all add: demo_layer_def demo_pfns_def all_entry_points_def\<close>)
  then show ?thesis by (simp only: demo_layer_def layer.simps append_Nil)
qed

text \<open>C32: A blocked device draws through. Suppose \<open>vkCreateDevice\<close> has succeeded, the next layer answered the
  layer's query of the device's properties (it is made through a null instance, and skipped when that
  resolves to nothing), and the answer is hardware the blocklist names. Then, whatever the recovery found on
  disk and whatever profile was loaded, after any sequence of intercepted calls on this and other devices
  (pipelines and shaders bound, images, draws, dispatches, pushes, other devices created and destroyed) and
  turns of the cores' threads (analyzer, trainer, a reload of the configuration) that does not destroy or
  replace the device, every indexed and every plain draw on it reaches the next layer exactly once and with
  all its parameters unchanged (not at all when the next layer has no such entry point), whatever the
  chooser would have picked.\<close>
theorem blocklisted_device_forwards_draw:
  assumes "layer_vkCreateDevice key e l = (Inr VK_SUCCESS, l1)"
    and "de_props e = Some (vendor, device, driver)"
    and "\<not> hw_draw_telemetry_allowed \<lparr>vendor_id = vendor, device_id = device, driver_version = driver\<rparr>"
    and "intercept_run key p evs l1 = Inr l2" "list_all (\<lambda>ev. \<not> replaces key (key (de_device e)) ev) evs"
    and "key (da_cb d) = key (de_device e)" "key (pd_cb d') = key (de_device e)"
  shows "(\<exists>l3. layer_vkCmdDrawIndexed key p env d l2 = Inr l3 \<and> ly_trace l3 = ly_trace l2 @
        (if pfn_draw_indexed (dp_core (de_pfns e)) then [Issued (same_draw_indexed d)] else []))
    \<and> (\<exists>l3. layer_vkCmdDraw key p env d' l2 = Inr l3 \<and> ly_trace l3 = ly_trace l2 @
        (if pfn_draw (dp_core (de_pfns e))
         then [Issued (GDraw (pd_cb d') (pd_vertexCount d') (pd_instanceCount d') (pd_firstVertex d') (pd_firstInstance d'))] else []))"
proof -
  obtain c where c: "al_lookup (ly_devices l1) (key (de_device e)) = Some \<lparr>dc_pfns = de_pfns e, dc_core = Some c\<rparr>" "created_core e c"
    using create_device_installs_core [OF assms(1)] by blast
  then have "blocked_device (dp_core (de_pfns e)) (key (de_device e)) l1"
    using assms(2,3) by (simp add: blocked_device_def blocked_core_def created_core_def)
  from intercept_run_blocked [OF this assms(4,5)] have "blocked_device (dp_core (de_pfns e)) (key (de_device e)) l2" .
  from blocked_device_draws [OF this assms(6,7)] show ?thesis by blast
qed

definition demo_device :: device_env where
  "demo_device = \<lparr>de_link = True, de_has_create = True, de_result = VK_SUCCESS, de_device = 9, de_pfns = demo_pfns,
     de_props = Some (0x8086, 0x9B41, 0x1B006E02), de_weights = replicate 3 (replicate 8 (Fin 0)), de_replay = [],
     de_meta = fresh_disk, de_wal = fresh_disk, de_t1 = 0, de_t2 = 0, de_tid = 1, de_profile = None\<rparr>"

lemma fresh_recovery_quiet:
  assumes "sc_recovery c = Some (recovery_init fresh_disk fresh_disk)"
  shows "\<exists>info c'. check_and_recover c = (Inr info, c')"
proof -
  have "\<exists>r. check_for_crash (recovery_init fresh_disk fresh_disk) = (Inr False, r)"
    by (simp add: check_for_crash_def load_metadata_def recovery_init_def fresh_disk_def check_recovery_def read_wal_def
        telemetry_init_def disk_contents_def Let_def)
  then show ?thesis using assms by (auto simp: check_and_recover_def Let_def)
qed

lemma demo_device_created: "\<exists>l'. layer_vkCreateDevice (\<lambda>_. 7) demo_device layer_init = (Inr VK_SUCCESS, l')"
proof -
  let ?e = demo_device
  let ?c0 = "SynapseCore_init (dp_core (de_pfns ?e)) (de_weights ?e) (de_replay ?e) (de_meta ?e) (de_wal ?e) (de_t1 ?e) (de_t2 ?e) (de_tid ?e)"
  have "sc_recovery ?c0 = Some (recovery_init (de_meta ?e) (de_wal ?e))"
    using SynapseCore_init_fresh by (simp add: fresh_core_def)
  then have "sc_recovery (apply_blocklist (de_props ?e) ?c0) = Some (recovery_init fresh_disk fresh_disk)"
    by (simp add: apply_blocklist_def Let_def demo_device_def)
  then obtain info c' where "check_and_recover (apply_blocklist (de_props ?e) ?c0) = (Inr info, c')"
    using fresh_recovery_quiet by blast
  moreover have "de_link ?e" "de_has_create ?e" "de_result ?e = VK_SUCCESS" by (simp_all add: demo_device_def)
  ultimately show ?thesis unfolding layer_vkCreateDevice_def Let_def by simp
qed

definition demo_plain_draw :: plain_draw_args where
  "demo_plain_draw = \<lparr>pd_cb = 3, pd_vertexCount = 6, pd_instanceCount = 1, pd_firstVertex = 0, pd_firstInstance = 0\<rparr>"

theorem blocklisted_device_forwards_draw_witness:
  "\<exists>l1 l2 l3. layer_vkCreateDevice (\<lambda>_. 7) demo_device layer_init = (Inr VK_SUCCESS, l1)
    \<and> intercept_run (\<lambda>_. 7) demo_params [Call_bind_pipeline 3 0 5, Call_create_image 9 64 64 4 0 11, Call_bind_shaders 3 2, Trainer_of 7] l1 = Inr l2
    \<and> layer_vkCmdDrawIndexed (\<lambda>_. 7) demo_params demo_env demo_draw l2 = Inr l3
    \<and> ly_trace l3 = ly_trace l2 @ [Issued (same_draw_indexed demo_draw)]"
proof -
  let ?evs = "[Call_bind_pipeline 3 0 5, Call_create_image 9 64 64 4 0 11, Call_bind_shaders 3 2, Trainer_of 7]"
  obtain l1 where l1: "layer_vkCreateDevice (\<lambda>_. 7) demo_device layer_init = (Inr VK_SUCCESS, l1)"
    using demo_device_created by blast
  have props: "de_props demo_device = Some (0x8086, 0x9B41, 0x1B006E02)" "pfn_draw_indexed (dp_core (de_pfns demo_device))"
    using demo_core_ok(2) by (simp_all add: demo_device_def demo_pfns_def all_entry_points_def)
  have blocked: "\<not> hw_draw_telemetry_allowed \<lparr>vendor_id = 0x8086, device_id = 0x9B41, driver_version = 0x1B006E02\<rparr>"
    by (simp add: hw_draw_telemetry_allowed_def kDrawTelemetryBlocklist_def kDriver9466_def kIntelVendorId_def kUHD630DeviceId_def)
  have trainer: "\<exists>l'. thread_turn 7 (core_step demo_params Trainer_tick) l = Inr l'" for l
    by (simp add: thread_turn_def split: option.split)
  have "\<exists>l2. intercept_run (\<lambda>_. 7) demo_params ?evs l1 = Inr l2"
    using trainer [of "layer_vkCmdBindShadersEXT (\<lambda>_. 7) 3 2 (snd (layer_vkCreateImage (\<lambda>_. 7) 9 64 64 4 0 11
        (layer_vkCmdBindPipeline (\<lambda>_. 7) 3 0 5 l1)))"] by auto
  then obtain l2 where l2: "intercept_run (\<lambda>_. 7) demo_params ?evs l1 = Inr l2" by blast
  from blocklisted_device_forwards_draw [OF l1 props(1) blocked l2, where d = demo_draw and d' = demo_plain_draw and env = demo_env] props(2) l1 l2
  show ?thesis by auto
qed

text \<open>The blocklist does not match the driver it names. Its entry's packed version, said to be
  27.20.100.9466, is not what the file's own packing makes of that string: the string packs to
  0x06C14064, the entry holds 0x1B006E02, and an Intel UHD 630 with driver 27.20.100.9466 is allowed.
  The layer's own query passes the device's 32-bit version through unchanged, so only a device that
  reports exactly 0x1B006E02 is ever blocked.\<close>
theorem blocklist_misses_named_driver:
  "parse_driver_version ''27.20.100.9466'' = 0x06C14064
   \<and> hw_draw_telemetry_allowed \<lparr>vendor_id = kIntelVendorId, device_id = kUHD630DeviceId,
        driver_version = parse_driver_version ''27.20.100.9466''\<rparr>
   \<and> (sc_draw_telemetry_allowed (apply_blocklist (Some (kIntelVendorId, kUHD630DeviceId, v)) (core_members pfn ws ring))
        = (v \<noteq> 0x1B006E02))"
proof -
  have "parse_driver_version ''27.20.100.9466'' = 0x06C14064" by code_simp
  then show ?thesis
    by (simp add: hw_draw_telemetry_allowed_def kDrawTelemetryBlocklist_def kDriver9466_def apply_blocklist_def
        version_fields_repack core_members_def Let_def)
qed

text \<open>The two resolvers disagree. A name is hooked when it is asked for through
  \<open>vkGetInstanceProcAddr\<close> but handed to the next layer when it is asked for through
  \<open>vkGetDeviceProcAddr\<close> of a known device exactly for \<open>vkCmdBindShadersEXT\<close>, \<open>vkCreateImage\<close> and
  \<open>vkDestroyImage\<close>, apart from the three instance-level functions: an application that resolves
  device functions the usual way never registers its images with the texture engine.\<close>
theorem device_resolver_misses_hooks:
  assumes "al_lookup (ly_devices l) (key dev) = Some ctx"
    and "name \<notin> {''vkGetInstanceProcAddr'', ''vkCreateInstance'', ''vkDestroyInstance''}"
  shows "layer_vkGetInstanceProcAddr key inst name l = Layer_function name
      \<and> layer_vkGetDeviceProcAddr key dev name l = Next_function name
    \<longleftrightarrow> name \<in> {''vkCmdBindShadersEXT'', ''vkCreateImage'', ''vkDestroyImage''}"
proof -
  have i: "layer_vkGetInstanceProcAddr key inst name l = Layer_function name \<longleftrightarrow> name \<in> set instance_hooks"
    by (simp add: layer_vkGetInstanceProcAddr_def split: option.split)
  have d: "layer_vkGetDeviceProcAddr key dev name l = Next_function name \<longleftrightarrow> name \<notin> set device_hooks"
    using assms(1) by (simp add: layer_vkGetDeviceProcAddr_def)
  have "set instance_hooks = set (device_hooks @ [''vkGetInstanceProcAddr'', ''vkCreateInstance'', ''vkDestroyInstance'',
      ''vkCmdBindShadersEXT'', ''vkCreateImage'', ''vkDestroyImage''])"
    by code_simp
  then have sets: "set instance_hooks = set device_hooks \<union> ({''vkGetInstanceProcAddr'', ''vkCreateInstance'', ''vkDestroyInstance''} \<union>
      {''vkCmdBindShadersEXT'', ''vkCreateImage'', ''vkDestroyImage''})"
    by (simp only: set_append list.set Un_insert_left Un_empty_left)
  have new: "{''vkCmdBindShadersEXT'', ''vkCreateImage'', ''vkDestroyImage''} \<inter> set device_hooks = {}"
    by (simp add: device_hooks_def)
  show ?thesis unfolding i d by (rule only_extra_hooks [OF sets new assms(2)])
qed

theorem device_resolver_misses_hooks_witness:
  "layer_vkGetInstanceProcAddr (\<lambda>_. 7) 1 ''vkCreateImage'' demo_layer = Layer_function ''vkCreateImage''
   \<and> layer_vkGetDeviceProcAddr (\<lambda>_. 7) 9 ''vkCreateImage'' demo_layer = Next_function ''vkCreateImage''"
  using device_resolver_misses_hooks [of demo_layer "\<lambda>_. 7" 9 "\<lparr>dc_pfns = demo_pfns, dc_core = Some demo_core\<rparr>" "''vkCreateImage''" 1]
  by (simp add: demo_layer_def)

end
