(* ===== verification/LayerChain.thy ===== *)
theory LayerChain
  imports Layer
begin

text \<open>
  How a layer finds the next one: \<open>find_instance_link\<close>, \<open>find_device_link\<close> and the consumption of a link in
  \<open>SynapseLayer_vkCreateInstance\<close> and \<open>SynapseLayer_vkCreateDevice\<close> (\<open>src/synapse/layer_entry.cpp\<close>). The
  create-info's \<open>pNext\<close> chain is a list of structures, a link structure's \<open>pLayerInfo\<close> the list of the layers
  below; the layer overwrites it in place. \<open>None\<close> is the dereference of a null \<open>pLayerInfo\<close>. Theory \<open>Layer\<close> has
  the calls themselves, with the existence of a link as an argument; here it is computed, and several layers
  with this code are put on top of each other.
\<close>

section \<open>The chain\<close>

record layer_link =
  li_gipa :: u64
  li_gdpa :: u64

record chain_struct =
  cs_stype :: u32
  cs_function :: u32
  cs_layer_info :: "layer_link list"

definition VK_LAYER_LINK_INFO :: u32 where "VK_LAYER_LINK_INFO = 0"

fun find_link :: "u32 \<Rightarrow> chain_struct list \<Rightarrow> nat option" where
  "find_link stype [] = None"
| "find_link stype (p # ps) =
     (if cs_stype p = stype \<and> cs_function p = VK_LAYER_LINK_INFO then Some 0 else map_option Suc (find_link stype ps))"

definition find_instance_link :: "chain_struct list \<Rightarrow> nat option" where
  "find_instance_link pNext = find_link 47 pNext"

definition find_device_link :: "chain_struct list \<Rightarrow> nat option" where
  "find_device_link pNext = find_link 48 pNext"

definition consume_link :: "nat \<Rightarrow> chain_struct list \<Rightarrow> (layer_link \<times> chain_struct list) option" where
  "consume_link i pNext =
     (case cs_layer_info (pNext ! i) of
        [] \<Rightarrow> None
      | link # rest \<Rightarrow> Some (link, pNext[i := (pNext ! i)\<lparr>cs_layer_info := rest\<rparr>]))"

section \<open>Instances\<close>

text \<open>What lies below: for a \<open>vkGetInstanceProcAddr\<close>, the \<open>vkCreateInstance\<close> it resolves, which may change more
  state of type \<open>'w\<close> and may itself be undefined; and whether it resolves \<open>vkDestroyInstance\<close> for an instance.\<close>

record 'w below =
  bl_create_instance :: "u64 \<Rightarrow> (chain_struct list \<Rightarrow> 'w \<Rightarrow> ((vk_result \<times> u64) \<times> 'w) option) option"
  bl_has_destroy :: "u64 \<Rightarrow> u64 \<Rightarrow> bool"

definition chained_vkCreateInstance ::
  "(u64 \<Rightarrow> u64) \<Rightarrow> 'w below \<Rightarrow> chain_struct list \<Rightarrow> layer \<Rightarrow> 'w \<Rightarrow> ((vk_result \<times> u64) \<times> layer \<times> 'w) option" where
  "chained_vkCreateInstance key b pNext l w =
     (case find_instance_link pNext of
        None \<Rightarrow> Some ((VK_ERROR_INITIALIZATION_FAILED, 0), l, w)
      | Some i \<Rightarrow>
          (case consume_link i pNext of
             None \<Rightarrow> None
           | Some (link, pNext) \<Rightarrow>
               (case bl_create_instance b (li_gipa link) of
                  None \<Rightarrow> Some ((VK_ERROR_INITIALIZATION_FAILED, 0), l, w)
                | Some create \<Rightarrow>
                    (case create pNext w of
                       None \<Rightarrow> None
                     | Some ((r, inst), w) \<Rightarrow>
                         if r \<noteq> VK_SUCCESS then Some ((r, inst), l, w)
                         else Some ((VK_SUCCESS, inst),
                           l\<lparr>ly_instances := al_update (key inst) (bl_has_destroy b (li_gipa link) inst) (ly_instances l)\<rparr>, w)))))"

text \<open>Layers on top of each other, the top first; \<open>b\<close> is what lies below the last. Each reaches the next through the
  \<open>vkGetInstanceProcAddr\<close> of its link, whose address the loader has put there.\<close>

fun stacked_create ::
  "(u64 \<Rightarrow> u64) \<Rightarrow> (u64 \<Rightarrow> u64 \<Rightarrow> bool) \<Rightarrow> (chain_struct list \<Rightarrow> (vk_result \<times> u64) option) \<Rightarrow> chain_struct list \<Rightarrow> layer list
     \<Rightarrow> ((vk_result \<times> u64) \<times> layer list) option" where
  "stacked_create key has_destroy driver pNext [] = map_option (\<lambda>r. (r, [])) (driver pNext)"
| "stacked_create key has_destroy driver pNext (l # ls) =
     map_option (\<lambda>(r, l, ls). (r, l # ls))
       (chained_vkCreateInstance key
          \<lparr>bl_create_instance = (\<lambda>gipa. Some (\<lambda>pNext below. stacked_create key has_destroy driver pNext ls)),
           bl_has_destroy = has_destroy\<rparr> pNext l ls)"

section \<open>Devices\<close>

text \<open>The device is made through the \<open>vkGetInstanceProcAddr\<close> of the link; the functions of the next layer are
  resolved through its \<open>vkGetDeviceProcAddr\<close>. The other inputs of the construction are those of \<open>Layer\<close>.\<close>

definition chained_vkCreateDevice ::
  "(u64 \<Rightarrow> u64) \<Rightarrow> (u64 \<Rightarrow> (chain_struct list \<Rightarrow> (vk_result \<times> u64) option) option) \<Rightarrow> (u64 \<Rightarrow> u64 \<Rightarrow> device_pfns)
     \<Rightarrow> chain_struct list \<Rightarrow> device_env \<Rightarrow> layer \<Rightarrow> ((core_error + vk_result) \<times> layer) option" where
  "chained_vkCreateDevice key create_device pfns pNext e l =
     (case find_device_link pNext of
        None \<Rightarrow> Some (layer_vkCreateDevice key (e\<lparr>de_link := False\<rparr>) l)
      | Some i \<Rightarrow>
          (case consume_link i pNext of
             None \<Rightarrow> None
           | Some (link, pNext) \<Rightarrow>
               (case create_device (li_gipa link) of
                  None \<Rightarrow> Some (layer_vkCreateDevice key (e\<lparr>de_link := True, de_has_create := False\<rparr>) l)
                | Some create \<Rightarrow>
                    map_option (\<lambda>(r, dev). layer_vkCreateDevice key
                        (e\<lparr>de_link := True, de_has_create := True, de_result := r, de_device := dev,
                          de_pfns := pfns (li_gdpa link) dev\<rparr>) l)
                      (create pNext))))"

section \<open>Lemmas\<close>

lemma find_link_spec:
  "find_link stype ps = Some i \<Longrightarrow> i < length ps \<and> cs_stype (ps ! i) = stype \<and> cs_function (ps ! i) = VK_LAYER_LINK_INFO
     \<and> (\<forall>j < i. \<not> (cs_stype (ps ! j) = stype \<and> cs_function (ps ! j) = VK_LAYER_LINK_INFO))"
  by (induction ps arbitrary: i) (auto simp: nth_Cons' split: if_splits)

lemma find_link_consumed [simp]: "find_link stype (ps[i := (ps ! i)\<lparr>cs_layer_info := infos\<rparr>]) = find_link stype ps"
proof (induction ps arbitrary: i)
  case (Cons p ps)
  then show ?case by (cases i) simp_all
qed simp

text \<open>One layer's call is the call of \<open>Layer\<close>, for the environment that its chain gives.\<close>

lemma chained_is_layer_call:
  assumes "chained_vkCreateInstance key b pNext l w = Some ((r, inst), l', w')"
  shows "\<exists>e. ie_link e = (find_instance_link pNext \<noteq> None) \<and> layer_vkCreateInstance key e l = (r, l')"
proof (cases "find_instance_link pNext")
  case None
  then show ?thesis using assms
    by (intro exI [of _ "\<lparr>ie_link = False, ie_has_create = False, ie_result = 0, ie_instance = 0, ie_has_destroy = False\<rparr>"])
      (simp add: chained_vkCreateInstance_def layer_vkCreateInstance_def)
next
  case (Some i)
  then obtain link rest where link: "consume_link i pNext = Some (link, rest)"
    using assms by (auto simp: chained_vkCreateInstance_def split: option.splits)
  show ?thesis using assms Some link
    by (intro exI [of _ "\<lparr>ie_link = True, ie_has_create = bl_create_instance b (li_gipa link) \<noteq> None, ie_result = r, ie_instance = inst,
         ie_has_destroy = bl_has_destroy b (li_gipa link) inst\<rparr>"])
      (auto simp: chained_vkCreateInstance_def layer_vkCreateInstance_def split: option.splits if_splits)
qed

definition recorded :: "(u64 \<Rightarrow> u64) \<Rightarrow> (u64 \<Rightarrow> u64 \<Rightarrow> bool) \<Rightarrow> u64 \<Rightarrow> layer \<Rightarrow> layer_link \<Rightarrow> layer" where
  "recorded key has_destroy inst l link =
     l\<lparr>ly_instances := al_update (key inst) (has_destroy (li_gipa link) inst) (ly_instances l)\<rparr>"

definition chain_left :: "nat \<Rightarrow> nat \<Rightarrow> chain_struct list \<Rightarrow> chain_struct list" where
  "chain_left i n pNext = pNext[i := (pNext ! i)\<lparr>cs_layer_info := drop n (cs_layer_info (pNext ! i))\<rparr>]"

lemma stacked_create_chain:
  assumes "find_instance_link pNext = Some i"
  shows "stacked_create key has_destroy driver pNext ls =
    (if length (cs_layer_info (pNext ! i)) < length ls then None
     else map_option (\<lambda>(r, inst). ((r, inst),
         if r = VK_SUCCESS then map2 (recorded key has_destroy inst) ls (cs_layer_info (pNext ! i)) else ls))
       (driver (chain_left i (length ls) pNext)))"
  using assms
proof (induction ls arbitrary: pNext)
  case Nil
  have "(pNext ! i)\<lparr>cs_layer_info := cs_layer_info (pNext ! i)\<rparr> = pNext ! i" by simp
  then show ?case by (auto simp: chain_left_def intro!: option.map_cong)
next
  case (Cons l ls)
  show ?case
  proof (cases "cs_layer_info (pNext ! i)")
    case Nil
    then show ?thesis using Cons.prems by (simp add: chained_vkCreateInstance_def consume_link_def)
  next
    case (Cons link rest)
    let ?next = "pNext[i := (pNext ! i)\<lparr>cs_layer_info := rest\<rparr>]"
    have i: "i < length pNext" using find_link_spec Cons.prems unfolding find_instance_link_def by blast
    have "find_instance_link ?next = Some i" using Cons.prems by (simp add: find_instance_link_def)
    note step = Cons.IH [OF this]
    have "cs_layer_info (?next ! i) = rest" using i by simp
    then have IH: "stacked_create key has_destroy driver ?next ls =
        (if length rest < length ls then None
         else map_option (\<lambda>(r, inst). ((r, inst), if r = VK_SUCCESS then map2 (recorded key has_destroy inst) ls rest else ls))
           (driver (chain_left i (length ls) ?next)))" using step by (simp only:)
    have left: "chain_left i (length ls) ?next = chain_left i (length (l # ls)) pNext"
      using i Cons by (simp add: chain_left_def)
    show ?thesis using Cons.prems Cons IH unfolding left
      by (cases "driver (chain_left i (length (l # ls)) pNext)")
        (auto simp: chained_vkCreateInstance_def consume_link_def recorded_def)
  qed
qed

section \<open>Properties\<close>

text \<open>C40: Layers on top of each other reach the driver. When an instance is created through any number of layers with
  this code, each takes the next link of the chain, in order, and leaves every other structure alone; the
  driver is called once, with the links that remain; when it succeeds every layer has recorded the instance
  under the functions of its own link, and when it fails no layer has recorded anything. Too few links end
  in the dereference of a null pointer, and a chain without a link structure in an error that reaches no one
  below.\<close>
theorem stacked_layers_reach_driver:
  "stacked_create key has_destroy driver pNext (l # ls) =
    (case find_instance_link pNext of
       None \<Rightarrow> Some ((VK_ERROR_INITIALIZATION_FAILED, 0), l # ls)
     | Some i \<Rightarrow>
         if length (cs_layer_info (pNext ! i)) < length (l # ls) then None
         else map_option (\<lambda>(r, inst). ((r, inst),
             if r = VK_SUCCESS then map2 (recorded key has_destroy inst) (l # ls) (cs_layer_info (pNext ! i)) else l # ls))
           (driver (chain_left i (length (l # ls)) pNext)))"
proof (cases "find_instance_link pNext")
  case None
  then show ?thesis by (simp add: chained_vkCreateInstance_def)
next
  case (Some i)
  then show ?thesis unfolding stacked_create_chain [OF Some] by simp
qed

end
