(* ===== verification/HotReload.thy ===== *)
theory HotReload
  imports IeeeFloat
begin

text \<open>
  Hot reload: the configuration watcher (\<open>hotreload/config_watcher.h\<close>), the model swap
  (\<open>hotreload/ml_hotreload.h\<close>) and the shader cache swap (\<open>hotreload/shader_hotreload.h\<close>).

  A watcher's callbacks act on a state of their own, of any type, and may throw (\<open>None\<close>); the
  modification time and the contents the file system answers are arguments of each turn. Models and
  shader binaries are whatever the loader and the compiler, arguments too, produce. Loading a model and
  replacing the shader cache are modelled as whole calls and as the accesses of racing threads to the
  shared variables; a shader version is shared between caches, so versions live in a store of
  addresses. The deletion of an old cache five seconds after its replacement is not modelled.
\<close>

section \<open>Configuration watcher\<close>

record 's ConfigWatcher =
  cw_watching :: bool
  cw_last_modified :: u64
  cw_callbacks :: "(string \<Rightarrow> 's \<Rightarrow> 's option) list"
  cw_validators :: "(string \<Rightarrow> bool) list"

definition watcher_init :: "'s ConfigWatcher" where
  "watcher_init = \<lparr>cw_watching = False, cw_last_modified = 0, cw_callbacks = [], cw_validators = []\<rparr>"

definition on_change :: "(string \<Rightarrow> 's \<Rightarrow> 's option) \<Rightarrow> 's ConfigWatcher \<Rightarrow> 's ConfigWatcher" where
  "on_change cb w = w\<lparr>cw_callbacks := cw_callbacks w @ [cb]\<rparr>"

definition add_validator :: "(string \<Rightarrow> bool) \<Rightarrow> 's ConfigWatcher \<Rightarrow> 's ConfigWatcher" where
  "add_validator v w = w\<lparr>cw_validators := cw_validators w @ [v]\<rparr>"

definition read_file :: "string option \<Rightarrow> string" where
  "read_file file = (case file of None \<Rightarrow> '''' | Some s \<Rightarrow> s)"

fun run_validators :: "(string \<Rightarrow> bool) list \<Rightarrow> string \<Rightarrow> bool" where
  "run_validators [] content = True"
| "run_validators (v # vs) content = (if \<not> v content then False else run_validators vs content)"

definition watcher_validate :: "'s ConfigWatcher \<Rightarrow> string \<Rightarrow> bool" where
  "watcher_validate w content = run_validators (cw_validators w) content"

fun run_callbacks :: "(string \<Rightarrow> 's \<Rightarrow> 's option) list \<Rightarrow> string \<Rightarrow> 's \<Rightarrow> 's option" where
  "run_callbacks [] content s = Some s"
| "run_callbacks (cb # cbs) content s =
     (case cb content s of None \<Rightarrow> None | Some s' \<Rightarrow> run_callbacks cbs content s')"

definition notify_all :: "'s ConfigWatcher \<Rightarrow> string \<Rightarrow> 's \<Rightarrow> 's option" where
  "notify_all w content s = run_callbacks (cw_callbacks w) content s"

definition force_reload :: "string option \<Rightarrow> 's ConfigWatcher \<Rightarrow> 's \<Rightarrow> 's option" where
  "force_reload file w s =
     (let content = read_file file
      in if watcher_validate w content then notify_all w content s else Some s)"

definition watcher_start :: "'s ConfigWatcher \<Rightarrow> 's ConfigWatcher" where
  "watcher_start w = (if cw_watching w then w else w\<lparr>cw_watching := True\<rparr>)"

definition watch_begin :: "u64 \<Rightarrow> 's ConfigWatcher \<Rightarrow> 's ConfigWatcher" where
  "watch_begin mtime w = w\<lparr>cw_last_modified := mtime\<rparr>"

definition watcher_stop :: "'s ConfigWatcher \<Rightarrow> 's ConfigWatcher" where
  "watcher_stop w = w\<lparr>cw_watching := False\<rparr>"

text \<open>One turn of the loop. \<open>None\<close>: a callback threw, which ends the process, since nothing in the
  thread catches it.\<close>

definition watch_turn ::
  "u64 \<times> string option \<Rightarrow> 's ConfigWatcher \<times> 's \<Rightarrow> ('s ConfigWatcher \<times> 's) option" where
  "watch_turn obs ws =
     (let (current, file) = obs; (w, s) = ws
      in if \<not> cw_watching w then Some (w, s)
         else if current \<noteq> cw_last_modified w \<and> current \<noteq> 0 then
           (let content = read_file file
            in if watcher_validate w content
               then (case notify_all w content s of
                       None \<Rightarrow> None
                     | Some s' \<Rightarrow> Some (w\<lparr>cw_last_modified := current\<rparr>, s'))
               else Some (w, s))
         else Some (w, s))"

fun watch_run :: "(u64 \<times> string option) list \<Rightarrow> 's ConfigWatcher \<times> 's \<Rightarrow> ('s ConfigWatcher \<times> 's) option" where
  "watch_run [] ws = Some ws"
| "watch_run (ob # obs) ws = (case watch_turn ob ws of None \<Rightarrow> None | Some ws' \<Rightarrow> watch_run obs ws')"

section \<open>Model swap\<close>

record 'm ModelVersion =
  mv_version :: u64
  mv_model :: "'m option"
  mv_inference_count :: u64
  mv_total_reward :: f64

definition model_version_empty :: "'m ModelVersion" where
  "model_version_empty = \<lparr>mv_version = 0, mv_model = None, mv_inference_count = 0, mv_total_reward = Fin 0\<rparr>"

definition kMaxVersions :: nat where "kMaxVersions = 4"

record 'm AtomicModelSwap =
  ms_slots :: "'m ModelVersion list"
  ms_current_version :: u64
  ms_previous_version :: u64

definition model_swap_init :: "'m AtomicModelSwap" where
  "model_swap_init = \<lparr>ms_slots = replicate kMaxVersions model_version_empty,
     ms_current_version = 0, ms_previous_version = 0\<rparr>"

definition slot_of :: "u64 \<Rightarrow> nat" where
  "slot_of ver = unat ver mod kMaxVersions"

definition validate_model :: "'m option \<Rightarrow> bool" where
  "validate_model model \<longleftrightarrow> model \<noteq> None"

definition new_version :: "'m option \<Rightarrow> u64 \<Rightarrow> 'm ModelVersion" where
  "new_version model current = model_version_empty\<lparr>mv_version := current + 1, mv_model := model\<rparr>"

definition install_version :: "'m ModelVersion \<Rightarrow> 'm AtomicModelSwap \<Rightarrow> 'm AtomicModelSwap" where
  "install_version new_ver m =
     m\<lparr>ms_previous_version := ms_current_version m,
       ms_slots := (ms_slots m)[slot_of (mv_version new_ver) := new_ver],
       ms_current_version := mv_version new_ver\<rparr>"

definition load_model :: "'m option \<Rightarrow> 'm AtomicModelSwap \<Rightarrow> bool \<times> 'm AtomicModelSwap" where
  "load_model model m =
     (if model = None then (False, m)
      else if \<not> validate_model model then (False, m)
      else (True, install_version (new_version model (ms_current_version m)) m))"

definition current_model :: "'m AtomicModelSwap \<Rightarrow> 'm option" where
  "current_model m = mv_model (ms_slots m ! slot_of (ms_current_version m))"

definition decide_with_ab :: "f64 \<Rightarrow> f64 \<Rightarrow> 'm AtomicModelSwap \<Rightarrow> 'm option" where
  "decide_with_ab random test_pct m =
     (if fp_lt random test_pct \<and> ms_previous_version m \<noteq> ms_current_version m
      then mv_model (ms_slots m ! slot_of (ms_previous_version m)) else current_model m)"

definition record_inference :: "f64 \<Rightarrow> 'm AtomicModelSwap \<Rightarrow> 'm AtomicModelSwap" where
  "record_inference reward m =
     (let i = slot_of (ms_current_version m); v = ms_slots m ! i
      in m\<lparr>ms_slots := (ms_slots m)[i := v\<lparr>mv_inference_count := mv_inference_count v + 1,
             mv_total_reward := f64_add (mv_total_reward v) reward\<rparr>]\<rparr>)"

record ModelStats =
  mst_version :: u64
  mst_inference_count :: u64
  mst_avg_reward :: f64
  mst_loaded :: bool

definition model_stats :: "'m AtomicModelSwap \<Rightarrow> ModelStats" where
  "model_stats m =
     (let v = ms_slots m ! slot_of (ms_current_version m)
      in \<lparr>mst_version = mv_version v, mst_inference_count = mv_inference_count v,
          mst_avg_reward = (if mv_inference_count v > 0
             then f64_div (mv_total_reward v) (f64_of_word (mv_inference_count v)) else Fin 0),
          mst_loaded = mv_model v \<noteq> None\<rparr>)"

datatype 'm model_op = Load "'m option" | Infer f64

fun model_step :: "'m model_op \<Rightarrow> 'm AtomicModelSwap \<Rightarrow> 'm AtomicModelSwap" where
  "model_step (Load model) m = snd (load_model model m)"
| "model_step (Infer reward) m = record_inference reward m"

text \<open>Loads by several threads: the new version is built before the lock is taken, from an unlocked
  read of the current version.\<close>

datatype 'm load_pc = L_idle | L_built "'m ModelVersion" | L_done

record 'm model_sys =
  my_swap :: "'m AtomicModelSwap"
  my_pcs :: "'m load_pc list"

inductive load_step :: "'m model_sys \<Rightarrow> 'm model_sys \<Rightarrow> bool" where
  load_build: "\<lbrakk>i < length (my_pcs s); my_pcs s ! i = L_idle; model \<noteq> None; validate_model model\<rbrakk> \<Longrightarrow>
    load_step s (s\<lparr>my_pcs := (my_pcs s)[i := L_built (new_version model (ms_current_version (my_swap s)))]\<rparr>)"
| load_publish: "\<lbrakk>i < length (my_pcs s); my_pcs s ! i = L_built v\<rbrakk> \<Longrightarrow>
    load_step s (s\<lparr>my_swap := install_version v (my_swap s), my_pcs := (my_pcs s)[i := L_done]\<rparr>)"

abbreviation load_reachable :: "'m model_sys \<Rightarrow> 'm model_sys \<Rightarrow> bool" where
  "load_reachable \<equiv> reaches load_step "

section \<open>Shader cache swap\<close>

record ShaderVersion =
  sv_hash :: u64
  sv_version :: u32
  sv_isa_binary :: bytes
  sv_use_count :: u64

type_synonym ShaderCache = "(u64, nat) alist"

record ShaderHotReload =
  sh_versions :: "ShaderVersion list"
  sh_caches :: "ShaderCache list"
  sh_active_cache :: nat

definition shader_reload_init :: ShaderHotReload where
  "shader_reload_init = \<lparr>sh_versions = [], sh_caches = [[]], sh_active_cache = 0\<rparr>"

definition active_shaders :: "ShaderHotReload \<Rightarrow> ShaderCache" where
  "active_shaders s = sh_caches s ! sh_active_cache s"

definition shader_lookup :: "u64 \<Rightarrow> ShaderHotReload \<Rightarrow> ShaderVersion option \<times> ShaderHotReload" where
  "shader_lookup hash s =
     (case al_lookup (active_shaders s) hash of
        None \<Rightarrow> (None, s)
      | Some p \<Rightarrow>
          let v = (sh_versions s ! p)\<lparr>sv_use_count := sv_use_count (sh_versions s ! p) + 1\<rparr>
          in (Some v, s\<lparr>sh_versions := (sh_versions s)[p := v]\<rparr>))"

text \<open>Building the new cache: a fresh version object in a copy of the active cache. The new cache's
  address is returned.\<close>

definition build_cache :: "u64 \<Rightarrow> u32 \<Rightarrow> bytes \<Rightarrow> ShaderHotReload \<Rightarrow> nat \<times> ShaderHotReload" where
  "build_cache hash version isa s =
     (let p = length (sh_versions s);
          new_cache = al_update hash p (active_shaders s)
      in (length (sh_caches s),
          s\<lparr>sh_versions := sh_versions s @ [\<lparr>sv_hash = hash, sv_version = version, sv_isa_binary = isa, sv_use_count = 0\<rparr>],
            sh_caches := sh_caches s @ [new_cache]\<rparr>))"

definition next_shader_version :: "u64 \<Rightarrow> ShaderHotReload \<Rightarrow> u32" where
  "next_shader_version hash s =
     (case al_lookup (active_shaders s) hash of None \<Rightarrow> 1 | Some p \<Rightarrow> sv_version (sh_versions s ! p) + 1)"

definition swap_cas :: "nat \<Rightarrow> nat \<Rightarrow> ShaderHotReload \<Rightarrow> bool \<times> ShaderHotReload" where
  "swap_cas expected new_cache s =
     (if sh_active_cache s = expected then (True, s\<lparr>sh_active_cache := new_cache\<rparr>) else (False, s))"

definition swap_cache :: "nat \<Rightarrow> ShaderHotReload \<Rightarrow> bool \<times> ShaderHotReload" where
  "swap_cache new_cache s = swap_cas (sh_active_cache s) new_cache s"

definition compile_and_add :: "bytes \<Rightarrow> u64 \<Rightarrow> ShaderHotReload \<Rightarrow> bool \<times> ShaderHotReload" where
  "compile_and_add isa hash s =
     (if isa = [] then (False, s) else let (c, s) = build_cache hash 0 isa s in swap_cache c s)"

definition recompile_shader :: "bytes \<Rightarrow> u64 \<Rightarrow> ShaderHotReload \<Rightarrow> bool \<times> ShaderHotReload" where
  "recompile_shader isa hash s =
     (if isa = [] then (False, s)
      else let (c, s) = build_cache hash (next_shader_version hash s) isa s in swap_cache c s)"

definition shader_count :: "ShaderHotReload \<Rightarrow> nat" where
  "shader_count s = length (active_shaders s)"

definition shader_stats :: "ShaderHotReload \<Rightarrow> u64 \<times> u64" where
  "shader_stats s = fold (\<lambda>(h, p) (n, u). (n + 1, u + sv_use_count (sh_versions s ! p))) (active_shaders s) (0, 0)"

datatype shader_op = Add bytes u64 | Recompile bytes u64 | Lookup u64

datatype shader_out = Compiled bool | Found "(u32 \<times> bytes) option"

fun shader_step :: "shader_op \<Rightarrow> ShaderHotReload \<Rightarrow> shader_out \<times> ShaderHotReload" where
  "shader_step (Add isa h) s = (let (b, s) = compile_and_add isa h s in (Compiled b, s))"
| "shader_step (Recompile isa h) s = (let (b, s) = recompile_shader isa h s in (Compiled b, s))"
| "shader_step (Lookup h) s = (let (v, s) = shader_lookup h s
     in (Found (map_option (\<lambda>v. (sv_version v, sv_isa_binary v)) v), s))"

text \<open>Compilations by several threads: copy of the active cache, load of the expected pointer,
  compare-exchange.\<close>

datatype compile_pc = C_idle | C_built nat | C_loaded nat nat | C_done bool

record shader_sys =
  ss_reload :: ShaderHotReload
  ss_pcs :: "compile_pc list"

inductive compile_step :: "shader_sys \<Rightarrow> shader_sys \<Rightarrow> bool" where
  compile_build: "\<lbrakk>i < length (ss_pcs s); ss_pcs s ! i = C_idle; isa \<noteq> [];
      build_cache hash 0 isa (ss_reload s) = (c, r)\<rbrakk> \<Longrightarrow>
    compile_step s (s\<lparr>ss_reload := r, ss_pcs := (ss_pcs s)[i := C_built c]\<rparr>)"
| compile_load: "\<lbrakk>i < length (ss_pcs s); ss_pcs s ! i = C_built c\<rbrakk> \<Longrightarrow>
    compile_step s (s\<lparr>ss_pcs := (ss_pcs s)[i := C_loaded (sh_active_cache (ss_reload s)) c]\<rparr>)"
| compile_cas: "\<lbrakk>i < length (ss_pcs s); ss_pcs s ! i = C_loaded e c; swap_cas e c (ss_reload s) = (b, r)\<rbrakk> \<Longrightarrow>
    compile_step s (s\<lparr>ss_reload := r, ss_pcs := (ss_pcs s)[i := C_done b]\<rparr>)"

abbreviation compile_reachable :: "shader_sys \<Rightarrow> shader_sys \<Rightarrow> bool" where
  "compile_reachable \<equiv> reaches compile_step "

text \<open>What a single client sees: a map from hashes to a version number and a binary.\<close>

type_synonym shader_map = "u64 \<rightharpoonup> u32 \<times> bytes"

fun shader_spec :: "shader_op \<Rightarrow> shader_map \<Rightarrow> shader_out \<times> shader_map" where
  "shader_spec (Add isa h) m = (if isa = [] then (Compiled False, m) else (Compiled True, m(h \<mapsto> (0, isa))))"
| "shader_spec (Recompile isa h) m = (if isa = [] then (Compiled False, m)
     else (Compiled True, m(h \<mapsto> (case m h of None \<Rightarrow> 1 | Some (v, _) \<Rightarrow> v + 1, isa))))"
| "shader_spec (Lookup h) m = (Found (m h), m)"

definition shader_abs :: "ShaderHotReload \<Rightarrow> shader_map" where
  "shader_abs s h = map_option (\<lambda>p. (sv_version (sh_versions s ! p), sv_isa_binary (sh_versions s ! p)))
     (al_lookup (active_shaders s) h)"

definition shader_inv :: "ShaderHotReload \<Rightarrow> bool" where
  "shader_inv s \<longleftrightarrow> sh_active_cache s < length (sh_caches s) \<and> distinct (map fst (active_shaders s))
     \<and> (\<forall>h p. al_lookup (active_shaders s) h = Some p \<longrightarrow> p < length (sh_versions s))"

section \<open>The shader cache, one thread at a time\<close>

lemma build_swap:
  assumes "shader_inv s"
  obtains s' where "(let (c, s) = build_cache h v isa s in swap_cache c s) = (True, s')"
    "shader_inv s'" "shader_abs s' = (shader_abs s)(h \<mapsto> (v, isa))"
proof -
  obtain b s' where s': "(let (c, s) = build_cache h v isa s in swap_cache c s) = (b, s')" by fastforce
  then have act: "active_shaders s' = al_update h (length (sh_versions s)) (active_shaders s)"
    and vs: "\<And>p. p < length (sh_versions s) \<Longrightarrow> sh_versions s' ! p = sh_versions s ! p"
    and len: "length (sh_versions s') = Suc (length (sh_versions s))"
    and new: "sh_versions s' ! length (sh_versions s)
      = \<lparr>sv_hash = h, sv_version = v, sv_isa_binary = isa, sv_use_count = 0\<rparr>"
    and b: b and ok: "sh_active_cache s' < length (sh_caches s')"
    using assms by (auto simp: build_cache_def swap_cache_def swap_cas_def active_shaders_def Let_def nth_append)
  have "shader_inv s'"
    using assms ok by (auto simp: shader_inv_def act len less_Suc_eq)
  moreover have "shader_abs s' = (shader_abs s)(h \<mapsto> (v, isa))"
    using assms by (auto simp: shader_abs_def act new fun_eq_iff shader_inv_def vs map_option_case split: option.splits)
  ultimately show thesis using that s' b by simp
qed

lemma shader_step_refines:
  assumes "shader_inv s" "shader_step a s = (r, s')"
  shows "shader_inv s' \<and> shader_spec a (shader_abs s) = (r, shader_abs s')"
proof (cases a)
  case (Add isa h)
  show ?thesis
  proof (cases "isa = []")
    case False
    obtain s1 where "(let (c, s) = build_cache h 0 isa s in swap_cache c s) = (True, s1)"
      "shader_inv s1" "shader_abs s1 = (shader_abs s)(h \<mapsto> (0, isa))" using build_swap [OF assms(1)] by blast
    then show ?thesis using assms(2) Add False by (simp add: compile_and_add_def)
  qed (use assms Add in \<open>auto simp: compile_and_add_def\<close>)
next
  case (Recompile isa h)
  have ver: "next_shader_version h s = (case shader_abs s h of None \<Rightarrow> 1 | Some (v, _) \<Rightarrow> v + 1)"
    by (simp add: next_shader_version_def shader_abs_def split: option.splits)
  show ?thesis
  proof (cases "isa = []")
    case False
    obtain s1 where "(let (c, s) = build_cache h (next_shader_version h s) isa s in swap_cache c s) = (True, s1)"
      "shader_inv s1" "shader_abs s1 = (shader_abs s)(h \<mapsto> (next_shader_version h s, isa))"
      using build_swap [OF assms(1)] by blast
    then show ?thesis using assms(2) Recompile False by (simp add: recompile_shader_def ver)
  qed (use assms Recompile in \<open>auto simp: recompile_shader_def\<close>)
next
  case (Lookup h)
  show ?thesis
  proof (cases "al_lookup (active_shaders s) h")
    case (Some p)
    let ?v = "(sh_versions s ! p)\<lparr>sv_use_count := sv_use_count (sh_versions s ! p) + 1\<rparr>"
    have s': "s' = s\<lparr>sh_versions := (sh_versions s)[p := ?v]\<rparr>"
      and r: "r = Found (Some (sv_version ?v, sv_isa_binary ?v))"
      using assms(2) Lookup Some by (auto simp: shader_lookup_def Let_def)
    have "shader_abs s' = shader_abs s"
      using assms(1) Some
      by (auto simp: shader_abs_def s' active_shaders_def fun_eq_iff shader_inv_def nth_list_update map_option_case
          split: option.splits)
    moreover have "shader_abs s h = Some (sv_version ?v, sv_isa_binary ?v)" using Some by (simp add: shader_abs_def)
    moreover have "shader_inv s'" using assms(1) by (simp add: shader_inv_def s' active_shaders_def)
    ultimately show ?thesis by (simp add: Lookup r)
  qed (use assms Lookup in \<open>auto simp: shader_lookup_def shader_abs_def\<close>)
qed

interpretation shaders: simulation shader_step shader_spec shader_abs shader_inv "\<lambda>_ _. True"
  by unfold_locales (rule shader_step_refines)

lemma shader_init_inv: "shader_inv shader_reload_init" "shader_abs shader_reload_init = Map.empty"
  by (simp_all add: shader_inv_def shader_reload_init_def active_shaders_def shader_abs_def fun_eq_iff)

lemma shader_count_abs:
  assumes "shader_inv s"
  shows "shader_count s = card (dom (shader_abs s))"
proof -
  have "dom (shader_abs s) = fst ` set (active_shaders s)"
    by (auto simp: shader_abs_def dom_def al_lookup_None)
  also have "card \<dots> = length (active_shaders s)"
    using assms distinct_card [of "map fst (active_shaders s)"] by (simp add: shader_inv_def)
  finally show ?thesis by (simp add: shader_count_def)
qed

text \<open>C13: Used from one thread, the shader cache is a map. For any sequence of additions,
  recompilations and look-ups, every answer is that of the map from hashes to a version number and a
  binary in which a successful addition sets version 0, a successful recompilation the next version (1
  for a new shader), and an empty binary changes nothing; and the reported number of shaders is the
  map's size.\<close>
theorem shader_reload_refines_map:
  "fst (run_ops shader_step ops shader_reload_init) = fst (run_ops shader_spec ops Map.empty)
   \<and> shader_abs (snd (run_ops shader_step ops shader_reload_init)) = snd (run_ops shader_spec ops Map.empty)
   \<and> shader_count (snd (run_ops shader_step ops shader_reload_init)) = card (dom (snd (run_ops shader_spec ops Map.empty)))"
  using shaders.run_answers [OF shader_init_inv(1), of ops] shaders.run_state [OF shader_init_inv(1), of ops]
    shader_count_abs [OF shaders.run_invar [OF shader_init_inv(1), of ops]]
  by (simp add: shader_init_inv)

section \<open>The shader cache, two threads\<close>

definition race_start :: shader_sys where
  "race_start = \<lparr>ss_reload = shader_reload_init, ss_pcs = [C_idle, C_idle]\<rparr>"

definition race_at :: "bytes \<Rightarrow> u64 \<Rightarrow> bytes \<Rightarrow> u64 \<Rightarrow> nat \<Rightarrow> compile_pc \<Rightarrow> compile_pc \<Rightarrow> shader_sys" where
  "race_at isa1 h1 isa2 h2 act p q = \<lparr>ss_reload = \<lparr>sh_versions =
       [\<lparr>sv_hash = h1, sv_version = 0, sv_isa_binary = isa1, sv_use_count = 0\<rparr>,
        \<lparr>sv_hash = h2, sv_version = 0, sv_isa_binary = isa2, sv_use_count = 0\<rparr>],
       sh_caches = [[], [(h1, 0)], [(h2, 1)]], sh_active_cache = act\<rparr>, ss_pcs = [p, q]\<rparr>"

lemma race_steps:
  assumes "isa1 \<noteq> []" "isa2 \<noteq> []"
  shows "\<exists>s. compile_step race_start s \<and> compile_step s (race_at isa1 h1 isa2 h2 0 (C_built 1) (C_built 2))"
    and "compile_step (race_at isa1 h1 isa2 h2 0 (C_built 1) (C_built 2)) (race_at isa1 h1 isa2 h2 0 (C_loaded 0 1) (C_built 2))"
    and "compile_step (race_at isa1 h1 isa2 h2 0 (C_loaded 0 1) (C_built 2)) (race_at isa1 h1 isa2 h2 1 (C_done True) (C_built 2))"
    and "compile_step (race_at isa1 h1 isa2 h2 1 (C_done True) (C_built 2)) (race_at isa1 h1 isa2 h2 1 (C_done True) (C_loaded 1 2))"
    and "compile_step (race_at isa1 h1 isa2 h2 1 (C_done True) (C_loaded 1 2)) (race_at isa1 h1 isa2 h2 2 (C_done True) (C_done True))"
proof -
  let ?mid = "\<lparr>ss_reload = \<lparr>sh_versions = [\<lparr>sv_hash = h1, sv_version = 0, sv_isa_binary = isa1, sv_use_count = 0\<rparr>],
    sh_caches = [[], [(h1, 0)]], sh_active_cache = 0\<rparr>, ss_pcs = [C_built 1, C_idle]\<rparr>"
  have "compile_step race_start ?mid"
    using compile_build [of 0 race_start isa1 h1 1 "ss_reload ?mid"] assms
    by (simp add: race_start_def build_cache_def shader_reload_init_def active_shaders_def Let_def)
  moreover have "compile_step ?mid (race_at isa1 h1 isa2 h2 0 (C_built 1) (C_built 2))"
    using compile_build [of 1 ?mid isa2 h2 2 "ss_reload (race_at isa1 h1 isa2 h2 0 (C_built 1) (C_built 2))"] assms
    by (simp add: race_at_def build_cache_def active_shaders_def Let_def)
  ultimately show "\<exists>s. compile_step race_start s \<and> compile_step s (race_at isa1 h1 isa2 h2 0 (C_built 1) (C_built 2))"
    by blast
qed (use compile_load [of 0 "race_at isa1 h1 isa2 h2 0 (C_built 1) (C_built 2)" 1]
      compile_cas [of 0 "race_at isa1 h1 isa2 h2 0 (C_loaded 0 1) (C_built 2)" 0 1 True]
      compile_load [of 1 "race_at isa1 h1 isa2 h2 1 (C_done True) (C_built 2)" 2]
      compile_cas [of 1 "race_at isa1 h1 isa2 h2 1 (C_done True) (C_loaded 1 2)" 1 2 True]
    in \<open>simp_all add: race_at_def swap_cas_def\<close>)

text \<open>Concurrent compilations are lost. The compare-exchange of \<open>swap_cache\<close> expects the pointer
  that is active when it runs, not the one the new cache was copied from, so it never detects that
  another thread has replaced the cache in between: two threads that add different shaders to an empty
  cache can both be told that they succeeded while only the second one's shader is there.\<close>
theorem shader_update_can_be_lost:
  fixes isa1 isa2 :: bytes
  assumes "isa1 \<noteq> []" "isa2 \<noteq> []" "h1 \<noteq> h2"
  shows "\<exists>s. compile_reachable race_start s \<and> ss_pcs s = [C_done True, C_done True]
     \<and> shader_abs (ss_reload s) h1 = None \<and> shader_abs (ss_reload s) h2 = Some (0, isa2)"
proof (intro exI conjI)
  show "compile_reachable race_start (race_at isa1 h1 isa2 h2 2 (C_done True) (C_done True))"
    using race_steps [OF assms(1,2)] reaches.intros by meson
qed (use assms in \<open>simp_all add: race_at_def shader_abs_def active_shaders_def\<close>)

theorem shader_update_can_be_lost_witness:
  "\<exists>s. compile_reachable race_start s \<and> ss_pcs s = [C_done True, C_done True]
     \<and> shader_abs (ss_reload s) 10 = None \<and> shader_abs (ss_reload s) 20 = Some (0, [2])"
  using shader_update_can_be_lost [of "[1]" "[2]" 10 20] by simp

section \<open>The watcher\<close>

definition recorder :: "string \<Rightarrow> string list \<Rightarrow> string list option" where
  "recorder content dl = Some (dl @ [content])"

definition stamped :: "(u64 \<times> string option) list \<Rightarrow> bool" where
  "stamped obs \<longleftrightarrow> (\<forall>o1 \<in> set obs. \<forall>o2 \<in> set obs. fst o1 = fst o2 \<longrightarrow> snd o1 = snd o2)"

definition seen_contents :: "(u64 \<times> string option) list \<Rightarrow> string list" where
  "seen_contents obs = map (\<lambda>ob. read_file (snd ob)) (filter (\<lambda>ob. fst ob \<noteq> 0) obs)"

lemma stamped_tail:
  assumes "stamped ((m, c) # obs)"
  shows "stamped obs" "\<forall>ob \<in> set obs. fst ob = m \<longrightarrow> snd ob = c"
proof -
  show "stamped obs" using assms unfolding stamped_def by (meson list.set_intros(2))
  have "snd ob = snd (m, c)" if "ob \<in> set obs" "fst ob = fst (m, c)" for ob
    using assms that unfolding stamped_def by (meson list.set_intros)
  then show "\<forall>ob \<in> set obs. fst ob = m \<longrightarrow> snd ob = c" by simp
qed

text \<open>The contract of a callback that keeps up with the file: from any state in which some contents are in force
  it takes over every acceptable contents it is given. A watcher with that callback alone then keeps the last
  contents it let through in force.\<close>

locale reloading =
  fixes cb :: "string \<Rightarrow> 's \<Rightarrow> 's option"
    and acceptable :: "string \<Rightarrow> bool"
    and in_force :: "string \<Rightarrow> 's \<Rightarrow> bool"
  assumes reload: "acceptable x \<Longrightarrow> in_force a s \<Longrightarrow> \<exists>s'. cb x s = Some s' \<and> in_force x s'"
begin

lemma watch_run_tracks:
  assumes "stamped obs" "\<forall>ob \<in> set obs. fst ob = cw_last_modified w \<longrightarrow> read_file (snd ob) = a"
    "cw_watching w" "cw_callbacks w = [cb]" "list_all acceptable (filter (watcher_validate w) (seen_contents obs))" "in_force a s"
  shows "\<exists>w' s'. watch_run obs (w, s) = Some (w', s')
    \<and> in_force (last (a # filter (watcher_validate w) (seen_contents obs))) s'"
  using assms
proof (induction obs arbitrary: w s a)
  case (Cons ob obs)
  obtain m c where ob: "ob = (m, c)" by fastforce
  let ?c = "read_file c"
  have st: "stamped obs" "\<forall>ob \<in> set obs. fst ob = m \<longrightarrow> snd ob = c"
    using stamped_tail Cons.prems(1) unfolding ob by blast+
  consider (skip) "m = cw_last_modified w \<or> m = 0" | (valid) "m \<noteq> cw_last_modified w" "m \<noteq> 0" "watcher_validate w ?c"
    | (invalid) "m \<noteq> cw_last_modified w" "m \<noteq> 0" "\<not> watcher_validate w ?c" by blast
  then show ?case
  proof cases
    case skip
    then have "watch_run (ob # obs) (w, s) = watch_run obs (w, s)" by (auto simp: ob watch_turn_def)
    moreover have "last (a # filter (watcher_validate w) (seen_contents (ob # obs)))
        = last (a # filter (watcher_validate w) (seen_contents obs))"
      using skip Cons.prems(2) by (auto simp: seen_contents_def ob)
    moreover have "list_all acceptable (filter (watcher_validate w) (seen_contents obs))"
      using Cons.prems(5) by (auto simp: seen_contents_def ob split: if_splits)
    ultimately show ?thesis using Cons.IH [of w a s] st Cons.prems by simp
  next
    case valid
    let ?w = "w\<lparr>cw_last_modified := m\<rparr>"
    have v: "watcher_validate ?w = watcher_validate w" by (simp add: watcher_validate_def fun_eq_iff)
    have seen: "filter (watcher_validate w) (seen_contents (ob # obs)) = ?c # filter (watcher_validate w) (seen_contents obs)"
      using valid by (simp add: seen_contents_def ob)
    obtain s1 where s1: "cb ?c s = Some s1" "in_force ?c s1"
      using reload [of ?c a s] Cons.prems(5,6) unfolding seen by auto
    have "watch_run (ob # obs) (w, s) = watch_run obs (?w, s1)"
      using valid Cons.prems(3,4) s1(1) by (simp add: ob watch_turn_def notify_all_def)
    moreover have "\<exists>w' s'. watch_run obs (?w, s1) = Some (w', s')
        \<and> in_force (last (?c # filter (watcher_validate ?w) (seen_contents obs))) s'"
      using Cons.prems(3,4) Cons.prems(5) [unfolded seen] st s1(2) v by (intro Cons.IH) auto
    ultimately show ?thesis unfolding seen v by simp
  next
    case invalid
    then have "watch_run (ob # obs) (w, s) = watch_run obs (w, s)"
      using Cons.prems(3) by (simp add: ob watch_turn_def)
    moreover have "filter (watcher_validate w) (seen_contents (ob # obs))
        = filter (watcher_validate w) (seen_contents obs)"
      using invalid by (simp add: seen_contents_def ob)
    ultimately show ?thesis using Cons.IH [of w a s] st Cons.prems by simp
  qed
qed (simp add: seen_contents_def)

end

interpretation recording: reloading recorder valid "\<lambda>a dl. a = last (c0 # dl) \<and> list_all valid dl" for valid c0
  by unfold_locales (simp add: recorder_def)

text \<open>C26: The watcher converges to the file. Suppose the file's modification time changes whenever its
  contents do, and no callback throws. Then after any polls, including ones that saw the file missing,
  the contents delivered last (the initial contents, when nothing was delivered) are the last contents
  seen that pass every validator; and nothing else is ever delivered.\<close>
theorem watcher_converges:
  assumes "stamped ((m0, c0) # obs)" "cw_watching w" "cw_callbacks w = [recorder]"
  shows "\<exists>w' dl. watch_run obs (watch_begin m0 w, []) = Some (w', dl)
    \<and> last (read_file c0 # dl) = last (read_file c0 # filter (watcher_validate w) (seen_contents obs))
    \<and> list_all (watcher_validate w) dl"
proof -
  have "list_all v (filter v xs)" for v :: "string \<Rightarrow> bool" and xs by (simp add: list_all_iff)
  then have "\<exists>w' dl. watch_run obs (watch_begin m0 w, []) = Some (w', dl)
      \<and> last (read_file c0 # filter (watcher_validate (watch_begin m0 w)) (seen_contents obs)) = last (read_file c0 # dl)
      \<and> list_all (watcher_validate (watch_begin m0 w)) dl"
    using stamped_tail [OF assms(1)] assms(2,3) by (intro recording.watch_run_tracks) (simp_all add: watch_begin_def)
  moreover have "watcher_validate (watch_begin m0 w) = watcher_validate w"
    by (simp add: watch_begin_def watcher_validate_def fun_eq_iff)
  ultimately show ?thesis by metis
qed

theorem watcher_converges_witness:
  "\<exists>w' dl. watch_run [(5, Some ''a''), (6, Some ''''), (0, None), (7, Some ''b''), (7, Some ''b'')]
       (watch_begin 5 (watcher_start (add_validator (\<lambda>c. c \<noteq> '''') (on_change recorder watcher_init))), []) = Some (w', dl)
     \<and> last (''a'' # dl) = ''b''"
proof -
  let ?w = "watcher_start (add_validator (\<lambda>c. c \<noteq> '''') (on_change recorder watcher_init))"
  let ?obs = "[(5, Some ''a''), (6, Some ''''), (0, None), (7, Some ''b''), (7, Some ''b'')]"
  have "last (read_file (Some ''a'') # filter (watcher_validate ?w) (seen_contents ?obs)) = ''b''"
    by (simp add: seen_contents_def read_file_def watcher_validate_def watcher_start_def
        add_validator_def on_change_def watcher_init_def)
  moreover have "stamped ((5, Some ''a'') # ?obs)" "cw_watching ?w" "cw_callbacks ?w = [recorder]"
    by (simp_all add: stamped_def watcher_start_def add_validator_def on_change_def watcher_init_def)
  ultimately show ?thesis
    using watcher_converges [of 5 "Some ''a''" ?obs ?w] unfolding read_file_def option.case by metis
qed

text \<open>Modification times are compared in whole seconds. An edit in the second of the last delivery is
  never seen, however often the file is polled.\<close>
lemma same_second_edit_missed:
  assumes "cw_last_modified w = m"
  shows "watch_run (replicate n (m, file)) (w, s) = Some (w, s)"
  using assms by (induction n) (simp_all add: watch_turn_def)

section \<open>The model swap\<close>

fun loaded_models :: "'m model_op list \<Rightarrow> 'm list" where
  "loaded_models [] = []"
| "loaded_models (Load (Some x) # ops) = x # loaded_models ops"
| "loaded_models (_ # ops) = loaded_models ops"

definition inferences_since_load :: "'m model_op list \<Rightarrow> nat" where
  "inferences_since_load ops = length (filter (\<lambda>op. \<exists>r. op = Infer r)
     (takeWhile (\<lambda>op. \<forall>x. op \<noteq> Load (Some x)) (rev ops)))"

definition swap_inv :: "'m list \<Rightarrow> nat \<Rightarrow> 'm AtomicModelSwap \<Rightarrow> bool" where
  "swap_inv ms k m \<longleftrightarrow> length (ms_slots m) = 4 \<and> ms_current_version m = of_nat (length ms)
     \<and> ms_previous_version m = of_nat (length ms - 1)
     \<and> mv_inference_count (ms_slots m ! (length ms mod 4)) = of_nat k
     \<and> (\<forall>i. i \<le> length ms \<and> length ms < i + 4 \<longrightarrow>
          mv_model (ms_slots m ! (i mod 4)) = (if i = 0 then None else Some (ms ! (i - 1))))"

lemma loaded_models_append: "loaded_models (xs @ ys) = loaded_models xs @ loaded_models ys"
  by (induction xs rule: loaded_models.induct) simp_all

lemma slot_of_nat [simp]: "slot_of (of_nat n) = n mod 4"
  by (simp add: slot_of_def kMaxVersions_def unat_of_nat mod_mod_cancel)

lemma slot_of_Suc [simp]: "slot_of (1 + of_nat n) = Suc n mod 4"
  using slot_of_nat [of "Suc n"] by simp

lemma swap_inv_load:
  assumes "swap_inv ms k m"
  shows "swap_inv (ms @ [x]) 0 (snd (load_model (Some x) m))"
proof -
  let ?n = "length ms" and ?m = "snd (load_model (Some x) m)"
  have slots: "ms_slots ?m = (ms_slots m)[Suc ?n mod 4 := new_version (Some x) (of_nat ?n)]"
    and cur: "ms_current_version ?m = of_nat (Suc ?n)" and prev: "ms_previous_version ?m = of_nat ?n"
    using assms by (simp_all add: swap_inv_def load_model_def validate_model_def install_version_def new_version_def
        model_version_empty_def add.commute)
  have "mv_model (ms_slots ?m ! (i mod 4)) = (if i = 0 then None else Some ((ms @ [x]) ! (i - 1)))"
    if i: "i \<le> Suc ?n" "Suc ?n < i + 4" for i
  proof (cases "i = Suc ?n")
    case True
    then show ?thesis using assms by (simp add: slots swap_inv_def new_version_def model_version_empty_def)
  next
    case False
    then have "Suc ?n mod 4 \<noteq> i mod 4"
      using i mod_eq_dvd_iff_nat [of i "Suc ?n" 4] by (auto dest!: dvd_imp_le)
    then show ?thesis using assms i False by (auto simp: slots swap_inv_def nth_append)
  qed
  then show ?thesis
    using assms cur prev by (simp add: swap_inv_def slots new_version_def model_version_empty_def)
qed

lemma swap_inv_infer:
  assumes "swap_inv ms k m"
  shows "swap_inv ms (Suc k) (record_inference r m)"
  using assms
  by (auto simp: swap_inv_def record_inference_def Let_def nth_list_update add.commute)

lemma swap_inv_run: "swap_inv (loaded_models ops) (inferences_since_load ops) (fold model_step ops model_swap_init)"
proof (induction ops rule: rev_induct)
  case Nil
  show ?case
    by (simp add: swap_inv_def model_swap_init_def kMaxVersions_def inferences_since_load_def model_version_empty_def)
next
  case (snoc op ops)
  show ?case
  proof (cases op)
    case (Load mo)
    then show ?thesis
      using snoc swap_inv_load [OF snoc]
      by (cases mo) (simp_all add: loaded_models_append inferences_since_load_def load_model_def)
  next
    case (Infer r)
    then show ?thesis
      using swap_inv_infer [OF snoc] by (simp add: loaded_models_append inferences_since_load_def)
  qed
qed

text \<open>The model swap, used by one loader at a time. After any loads (those whose loader returned
  nothing are refused) and inferences, the version counts the models loaded, the current model is the
  last one loaded, its inference count is the number of inferences since, and A/B test traffic goes to
  the model before it. When exactly one model has been loaded there is none before it: test traffic is
  then handed a null model, although a model is loaded.\<close>
theorem model_swap_serves_latest:
  fixes ops :: "'m model_op list"
  defines "m \<equiv> fold model_step ops model_swap_init" and "ms \<equiv> loaded_models ops"
  shows "ms_current_version m = of_nat (length ms)
    \<and> current_model m = (if ms = [] then None else Some (last ms))
    \<and> mst_inference_count (model_stats m) = of_nat (inferences_since_load ops)
    \<and> decide_with_ab random pct m = (if fp_lt random pct \<and> ms \<noteq> []
         then (if length ms = 1 then None else Some (ms ! (length ms - 2))) else current_model m)"
proof -
  let ?n = "length ms"
  have inv: "swap_inv ms (inferences_since_load ops) m" unfolding m_def ms_def by (rule swap_inv_run)
  have mdl: "mv_model (ms_slots m ! (i mod 4)) = (if i = 0 then None else Some (ms ! (i - 1)))"
    if "i = ?n \<or> i = ?n - 1" for i
    using inv that by (auto simp: swap_inv_def)
  have cur: "current_model m = (if ms = [] then None else Some (last ms))"
    using inv mdl [of ?n] by (simp add: current_model_def swap_inv_def last_conv_nth)
  have neq: "ms_previous_version m \<noteq> ms_current_version m \<longleftrightarrow> ms \<noteq> []"
  proof (cases ms rule: rev_cases)
    case (snoc xs x)
    have "(of_nat (length xs) :: u64) \<noteq> 1 + of_nat (length xs)" by simp
    then show ?thesis using inv snoc by (simp add: swap_inv_def)
  qed (use inv in \<open>simp add: swap_inv_def\<close>)
  have "mv_model (ms_slots m ! slot_of (ms_previous_version m))
      = (if length ms = 1 then None else Some (ms ! (length ms - 2)))" if "ms \<noteq> []"
    using inv mdl [of "?n - 1"] that
    by (cases ms rule: rev_cases) (auto simp: swap_inv_def numeral_2_eq_2)
  with inv cur neq show ?thesis
    by (auto simp: decide_with_ab_def swap_inv_def model_stats_def Let_def)
qed

text \<open>Two loads that overlap take the same version number. From any state, two threads that load
  different models can both succeed while the version grows by one only; the first model is replaced in
  its slot and is not kept as the previous version either.\<close>
theorem model_load_can_be_lost:
  fixes y :: 'm
  assumes "length (ms_slots m) = 4"
  shows "\<exists>s. load_reachable \<lparr>my_swap = m, my_pcs = [L_idle, L_idle]\<rparr> s \<and> my_pcs s = [L_done, L_done]
    \<and> ms_current_version (my_swap s) = ms_current_version m + 1
    \<and> ms_previous_version (my_swap s) = ms_current_version m + 1
    \<and> ms_slots (my_swap s) = (ms_slots m)[slot_of (ms_current_version m + 1) := new_version (Some y) (ms_current_version m)]
    \<and> current_model (my_swap s) = Some y"
proof -
  fix x :: 'm
  let ?x = "new_version (Some x) (ms_current_version m)" and ?y = "new_version (Some y) (ms_current_version m)"
  let ?s = "\<lambda>w p q. \<lparr>my_swap = w, my_pcs = [p, q]\<rparr>"
  let ?m = "install_version ?y (install_version ?x m)"
  have "load_step (?s m L_idle L_idle) (?s m (L_built ?x) L_idle)"
    using load_build [of 0 "?s m L_idle L_idle" "Some x"] by (simp add: validate_model_def)
  moreover have "load_step (?s m (L_built ?x) L_idle) (?s m (L_built ?x) (L_built ?y))"
    using load_build [of 1 "?s m (L_built ?x) L_idle" "Some y"] by (simp add: validate_model_def)
  moreover have "load_step (?s m (L_built ?x) (L_built ?y)) (?s (install_version ?x m) L_done (L_built ?y))"
    using load_publish [of 0 "?s m (L_built ?x) (L_built ?y)" ?x] by simp
  moreover have "load_step (?s (install_version ?x m) L_done (L_built ?y)) (?s ?m L_done L_done)"
    using load_publish [of 1 "?s (install_version ?x m) L_done (L_built ?y)" ?y] by simp
  ultimately have "load_reachable (?s m L_idle L_idle) (?s ?m L_done L_done)"
    using reaches.intros by meson
  moreover have "slot_of (ms_current_version m + 1) < 4" by (simp add: slot_of_def kMaxVersions_def)
  ultimately show ?thesis
    using assms by (intro exI [of _ "?s ?m L_done L_done"])
      (simp add: install_version_def new_version_def model_version_empty_def current_model_def)
qed

theorem model_load_can_be_lost_witness:
  "\<exists>s. load_reachable \<lparr>my_swap = model_swap_init, my_pcs = [L_idle, L_idle]\<rparr> s \<and> my_pcs s = [L_done, L_done]
    \<and> ms_current_version (my_swap s) = 1 \<and> current_model (my_swap s) = Some True"
proof -
  have "length (ms_slots (model_swap_init :: bool AtomicModelSwap)) = 4"
    by (simp add: model_swap_init_def kMaxVersions_def)
  from model_load_can_be_lost [OF this, of True] show ?thesis
    by (auto simp: model_swap_init_def)
qed

end
