(* ===== verification/JsonReport.thy ===== *)
theory JsonReport
  imports Text TelemetryTypes
begin

text \<open>
  The JSON report writer, \<open>src/synapse/json_report_writer.cpp\<close>: one \<open>to_json\<close> per record, as string
  concatenation. \<open>fmt\<close> is how the standard library prints a double at 15 significant digits. The
  inductive predicate \<open>json\<close> is the grammar of RFC 8259 for values without insignificant white space,
  and \<open>json_unescape\<close> decodes a string's characters; both are specifications. The file is what the
  stream leaves behind: \<open>None\<close> when it cannot be opened.
\<close>

section \<open>The writer\<close>

definition hex_digit :: "nat \<Rightarrow> char" where
  "hex_digit d = (if d < 10 then char_of (48 + d) else char_of (87 + d))"

definition hex4 :: "nat \<Rightarrow> string" where
  "hex4 n = [hex_digit (n div 4096 mod 16), hex_digit (n div 256 mod 16), hex_digit (n div 16 mod 16), hex_digit (n mod 16)]"

definition escape_char :: "char \<Rightarrow> string" where
  "escape_char c =
     (if c = CHR 0x22 then [CHR 0x5C, CHR 0x22]
      else if c = CHR 0x5C then [CHR 0x5C, CHR 0x5C]
      else if c = CHR 0x0A then [CHR 0x5C, CHR ''n'']
      else if c = CHR 0x0D then [CHR 0x5C, CHR ''r'']
      else if c = CHR 0x09 then [CHR 0x5C, CHR ''t'']
      else if (of_char c :: nat) < 0x20 then [CHR 0x5C, CHR ''u''] @ hex4 (of_char c)
      else [c])"

definition escape_json :: "string \<Rightarrow> string" where
  "escape_json s = CHR 0x22 # concat (map escape_char s) @ [CHR 0x22]"

text \<open>An object is printed as its keys, quoted as they stand in the source, and its values.\<close>

fun comma_separated :: "string list \<Rightarrow> string" where
  "comma_separated [] = []"
| "comma_separated [s] = s"
| "comma_separated (s # ss) = s @ '','' @ comma_separated ss"

definition json_field :: "string \<times> string \<Rightarrow> string" where
  "json_field f = CHR 0x22 # fst f @ [CHR 0x22, CHR '':''] @ snd f"

definition json_object :: "(string \<times> string) list \<Rightarrow> string" where
  "json_object fs = ''{'' @ comma_separated (map json_field fs) @ ''}''"

definition json_array :: "string list \<Rightarrow> string" where
  "json_array vs = ''['' @ comma_separated vs @ '']''"

definition json_u32 :: "u32 \<Rightarrow> string" where
  "json_u32 v = to_string (unat v)"

definition json_u64 :: "u64 \<Rightarrow> string" where
  "json_u64 v = to_string (unat v)"

definition json_horizon :: "(f64 \<Rightarrow> string) \<Rightarrow> HorizonStats \<Rightarrow> string" where
  "json_horizon fmt v = json_object
     [(''window'', json_u32 (hz_window v)), (''stalls_avoided'', json_u32 (stalls_avoided v)),
      (''false_positives'', json_u32 (false_positives v)), (''energy_efficiency'', fmt (energy_efficiency v))]"

definition json_horizons :: "(f64 \<Rightarrow> string) \<Rightarrow> HorizonStats list \<Rightarrow> string" where
  "json_horizons fmt vs = json_array (map (json_horizon fmt) vs)"

definition json_prediction :: "(f64 \<Rightarrow> string) \<Rightarrow> PredictionStats \<Rightarrow> string" where
  "json_prediction fmt v = json_object
     [(''total_predictions'', json_u64 (total_predictions v)),
      (''accurate_predictions'', json_u64 (accurate_predictions v)),
      (''wasted_predictions'', json_u64 (wasted_predictions v)),
      (''accuracy_rate'', fmt (accuracy_rate v)), (''waste_rate'', fmt (waste_rate v))]"

definition json_cache :: "(f64 \<Rightarrow> string) \<Rightarrow> CacheMetrics \<Rightarrow> string" where
  "json_cache fmt v = json_object
     [(''hits'', json_u64 (cm_hits v)), (''misses'', json_u64 (cm_misses v)),
      (''sync_stalls'', json_u32 (cm_sync_stalls v)),
      (''current_usage_bytes'', json_u64 (cm_current_usage_bytes v)), (''hit_rate'', fmt (hit_rate v))]"

definition json_ml :: "(f64 \<Rightarrow> string) \<Rightarrow> MLTrainingStats \<Rightarrow> string" where
  "json_ml fmt v = json_object
     [(''total_updates'', json_u64 (ml_total_updates v)), (''cumulative_reward'', fmt (ml_cumulative_reward v)),
      (''selection_counts'', json_array [json_u64 (ml_selection_counts v ! 0),
         json_u64 (ml_selection_counts v ! 1), json_u64 (ml_selection_counts v ! 2)]),
      (''current_epsilon'', fmt (ml_current_epsilon v)), (''current_alpha'', fmt (ml_current_alpha v)),
      (''training_status'', escape_json (ml_training_status v))]"

definition json_dvfs :: "(f64 \<Rightarrow> string) \<Rightarrow> DVFSStats \<Rightarrow> string" where
  "json_dvfs fmt v = json_object
     [(''total_transitions'', json_u32 (total_transitions v)), (''emergency_overrides'', json_u32 (emergency_overrides v)),
      (''hysteresis_drops'', json_u32 (hysteresis_drops v)), (''total_switch_energy_nj'', fmt (total_switch_energy_nj v))]"

definition json_jit :: "(f64 \<Rightarrow> string) \<Rightarrow> JITStats \<Rightarrow> string" where
  "json_jit fmt v = json_object
     [(''cold_cache_fallbacks'', json_u32 (cold_cache_fallbacks v)), (''cache_hits'', json_u32 (jit_cache_hits v)),
      (''worst_fallback_ms'', fmt (worst_fallback_ms v)), (''total_fallback_ms'', fmt (total_fallback_ms v))]"

definition json_hai :: "(f64 \<Rightarrow> string) \<Rightarrow> HAIStats \<Rightarrow> string" where
  "json_hai fmt v = json_object
     [(''full_draws_emitted'', json_u64 (full_draws_emitted v)), (''delta_draws_emitted'', json_u64 (delta_draws_emitted v)),
      (''raw_bytes_equivalent'', json_u64 (raw_bytes_equivalent v)),
      (''actual_bytes_emitted'', json_u64 (actual_bytes_emitted v)), (''compression_ratio'', fmt (compression_ratio v))]"

definition json_thermal :: "ThermalStats \<Rightarrow> string" where
  "json_thermal v = json_object
     [(''thermal_mitigation_events'', json_u32 (thermal_mitigation_events v)),
      (''stability_overrides'', json_u32 (stability_overrides v)), (''proactive_boosts'', json_u32 (proactive_boosts v))]"

definition json_power :: "(f64 \<Rightarrow> string) \<Rightarrow> PowerReport \<Rightarrow> string" where
  "json_power fmt v = json_object
     [(''joules_saved'', fmt (joules_saved v)),
      (''avg_milliwatts_saved_at_60fps'', fmt (avg_milliwatts_saved_at_60fps v)),
      (''battery_extension_factor'', fmt (battery_extension_factor v))]"

definition json_routing :: "BackendRoutingSummary \<Rightarrow> string" where
  "json_routing v = json_object
     [(''jit_dispatches'', json_u32 (jit_dispatches v)), (''hai_dispatches'', json_u32 (hai_dispatches v)),
      (''oracle_dispatches'', json_u32 (oracle_dispatches v)), (''total_draw_calls'', json_u32 (total_draw_calls v))]"

definition json_report :: "(f64 \<Rightarrow> string) \<Rightarrow> SynapseSessionReport \<Rightarrow> string" where
  "json_report fmt r = json_object
     [(''schema_version'', CHR 0x22 # ''v2.0.0'' @ [CHR 0x22]),
      (''heuristic'', escape_json (rep_heuristic r)),
      (''temporal_window_frames'', json_u32 (rep_temporal_window_frames r)),
      (''its_predictor'', json_prediction fmt (its_predictor r)), (''its_cache'', json_cache fmt (its_cache r)),
      (''best_horizon'', json_horizon fmt (best_horizon r)), (''horizon_windows'', json_horizons fmt (horizon_windows r)),
      (''total_frames_analyzed'', json_u64 (total_frames_analyzed r)), (''ml_model'', json_ml fmt (ml_model r)),
      (''dvfs'', json_dvfs fmt (rep_dvfs r)), (''jit'', json_jit fmt (rep_jit r)), (''hai'', json_hai fmt (rep_hai r)),
      (''thermal'', json_thermal (rep_thermal r)), (''power'', json_power fmt (rep_power r)),
      (''backend_routing'', json_routing (backend_routing r))]"

definition write_session_report ::
  "bool \<Rightarrow> (f64 \<Rightarrow> string) \<Rightarrow> SynapseSessionReport \<Rightarrow> string option \<Rightarrow> bool \<times> string option" where
  "write_session_report can_open fmt report file =
     (if \<not> can_open then (False, file) else (True, Some (json_report fmt report)))"

section \<open>JSON\<close>

definition json_digits :: "string \<Rightarrow> bool" where
  "json_digits s \<longleftrightarrow> s \<noteq> [] \<and> list_all is_digit s"

definition json_int :: "string \<Rightarrow> bool" where
  "json_int s \<longleftrightarrow> json_digits s \<and> (hd s = CHR ''0'' \<longrightarrow> length s = 1)"

definition json_number :: "string \<Rightarrow> bool" where
  "json_number s \<longleftrightarrow> (\<exists>sign i frac e. s = sign @ i @ frac @ e \<and> sign \<in> {'''', ''-''} \<and> json_int i
     \<and> (frac = [] \<or> (\<exists>ds. frac = CHR ''.'' # ds \<and> json_digits ds))
     \<and> (e = [] \<or> (\<exists>x esign ds. e = x # esign @ ds \<and> x \<in> {CHR ''e'', CHR ''E''}
           \<and> esign \<in> {'''', ''+'', ''-''} \<and> json_digits ds)))"

definition is_hex :: "char \<Rightarrow> bool" where
  "is_hex c \<longleftrightarrow> is_digit c \<or> (65 \<le> (of_char c :: nat) \<and> (of_char c :: nat) \<le> 70)
     \<or> (97 \<le> (of_char c :: nat) \<and> (of_char c :: nat) \<le> 102)"

inductive json_chars :: "string \<Rightarrow> bool" where
  chars_end: "json_chars []"
| chars_plain: "\<lbrakk>0x20 \<le> (of_char c :: nat); c \<noteq> CHR 0x22; c \<noteq> CHR 0x5C; json_chars s\<rbrakk> \<Longrightarrow> json_chars (c # s)"
| chars_escape: "\<lbrakk>c \<in> {CHR 0x22, CHR 0x5C} \<union> set ''/bfnrt''; json_chars s\<rbrakk> \<Longrightarrow> json_chars (CHR 0x5C # c # s)"
| chars_unicode: "\<lbrakk>list_all is_hex [a, b, c, d]; json_chars s\<rbrakk> \<Longrightarrow>
    json_chars (CHR 0x5C # CHR ''u'' # a # b # c # d # s)"

inductive json :: "string \<Rightarrow> bool" where
  json_num: "json_number s \<Longrightarrow> json s"
| json_str: "json_chars s \<Longrightarrow> json (CHR 0x22 # s @ [CHR 0x22])"
| json_arr: "(\<And>v. v \<in> set vs \<Longrightarrow> json v) \<Longrightarrow> json (json_array vs)"
| json_obj: "(\<And>f. f \<in> set fs \<Longrightarrow> json_chars (fst f) \<and> json (snd f)) \<Longrightarrow> json (json_object fs)"

definition hex_value :: "char \<Rightarrow> nat option" where
  "hex_value c =
     (let n = of_char c :: nat
      in if is_digit c then Some (n - 48) else if 97 \<le> n \<and> n \<le> 102 then Some (n - 87)
         else if 65 \<le> n \<and> n \<le> 70 then Some (n - 55) else None)"

fun hex_quad :: "string \<Rightarrow> nat option" where
  "hex_quad [a, b, c, d] =
     (case (hex_value a, hex_value b, hex_value c, hex_value d) of
        (Some a, Some b, Some c, Some d) \<Rightarrow> Some (((a * 16 + b) * 16 + c) * 16 + d)
      | _ \<Rightarrow> None)"
| "hex_quad _ = None"

definition simple_escape :: "char \<Rightarrow> char option" where
  "simple_escape c =
     (if c = CHR 0x22 \<or> c = CHR 0x5C \<or> c = CHR ''/'' then Some c else if c = CHR ''b'' then Some (CHR 0x08)
      else if c = CHR ''f'' then Some (CHR 0x0C) else if c = CHR ''n'' then Some (CHR 0x0A)
      else if c = CHR ''r'' then Some (CHR 0x0D) else if c = CHR ''t'' then Some (CHR 0x09) else None)"

fun json_unescape :: "string \<Rightarrow> string option" where
  "json_unescape [] = Some []"
| "json_unescape (c # cs) =
     (if c \<noteq> CHR 0x5C then map_option (Cons c) (json_unescape cs)
      else case cs of
        [] \<Rightarrow> None
      | e # cs' \<Rightarrow>
          if e = CHR ''u''
          then (case hex_quad (take 4 cs') of None \<Rightarrow> None
                | Some n \<Rightarrow> map_option (Cons (char_of n)) (json_unescape (drop 4 cs')))
          else (case simple_escape e of None \<Rightarrow> None
                | Some x \<Rightarrow> map_option (Cons x) (json_unescape cs')))"

definition json_string_value :: "string \<Rightarrow> string option" where
  "json_string_value s =
     (if length s \<ge> 2 \<and> hd s = CHR 0x22 \<and> last s = CHR 0x22 then json_unescape (butlast (tl s)) else None)"

section \<open>Strings\<close>

lemma hex_digit_value:
  assumes "d < 16"
  shows "hex_value (hex_digit d) = Some d" "is_hex (hex_digit d)"
  using assms by (auto simp: hex_digit_def hex_value_def is_hex_def is_digit_def of_char_of Let_def)

lemma hex4_value:
  assumes "n < 256"
  shows "hex_quad (hex4 n) = Some n"
proof -
  have "n div 16 < 16" using assms by (simp add: less_mult_imp_div_less)
  then show ?thesis using assms by (simp add: hex4_def hex_digit_value)
qed

lemma hex4_hex: "list_all is_hex (hex4 n)"
  by (simp add: hex4_def hex_digit_value)

lemma length_hex4: "length (hex4 n) = 4"
  by (simp add: hex4_def)

lemma unescape_escape_char:
  "json_unescape (escape_char c @ rest) = map_option (Cons c) (json_unescape rest)"
proof -
  consider (simple) "c = CHR 0x22 \<or> c = CHR 0x5C \<or> c = CHR 0x0A \<or> c = CHR 0x0D \<or> c = CHR 0x09"
    | (control) "escape_char c = [CHR 0x5C, CHR ''u''] @ hex4 (of_char c)" "(of_char c :: nat) < 32"
    | (plain) "escape_char c = [c]" "c \<noteq> CHR 0x5C"
    unfolding escape_char_def by argo
  then show ?thesis
  proof cases
    case simple
    then show ?thesis by (elim disjE) (simp_all add: escape_char_def simple_escape_def)
  next
    case control
    have "hex_quad (hex4 (of_char c)) = Some (of_char c)" using control(2) by (intro hex4_value) simp
    with control(1) show ?thesis by (simp add: length_hex4)
  qed simp
qed

lemma chars_append: "json_chars s \<Longrightarrow> json_chars t \<Longrightarrow> json_chars (s @ t)"
  by (induction rule: json_chars.induct) (auto intro: json_chars.intros)

lemma chars_escape_char: "json_chars (escape_char c)"
proof (cases "escape_char c = [CHR 0x5C, CHR ''u''] @ hex4 (of_char c) \<and> (of_char c :: nat) < 32")
  case True
  then show ?thesis using hex4_hex [of "of_char c"] by (simp add: hex4_def chars_unicode chars_end)
next
  case False
  then show ?thesis by (auto simp: escape_char_def intro!: json_chars.intros)
qed

lemma chars_escape_string: "json_chars (concat (map escape_char s))"
  by (induction s) (simp_all add: chars_end chars_append chars_escape_char)

lemma json_escape: "json (escape_json s)"
  unfolding escape_json_def by (rule json_str [OF chars_escape_string])

text \<open>Strings survive the report. Whatever bytes a string holds (control characters, quotes and
  backslashes included), the written string literal is well-formed JSON, and decoding it gives the string
  back.\<close>
theorem escape_json_roundtrip:
  "json (escape_json s) \<and> json_string_value (escape_json s) = Some s"
proof -
  have "json_unescape (concat (map escape_char s)) = Some s"
    by (induction s) (simp_all add: unescape_escape_char)
  then show ?thesis by (simp add: json_escape json_string_value_def) (simp add: escape_json_def butlast_append)
qed

section \<open>Numbers\<close>

definition fp_finite :: "fp \<Rightarrow> bool" where
  "fp_finite x \<longleftrightarrow> (\<exists>q. x = Fin q)"

lemma fp_finite_Fin [simp]: "fp_finite (Fin q)"
  by (simp add: fp_finite_def)

lemma json_to_string: "json (to_string n)"
proof (rule json_num)
  have "json_int (to_string n)"
  proof (cases "n = 0")
    case True
    then show ?thesis by (simp add: json_int_def json_digits_def) (simp add: to_string.simps)
  qed (simp add: json_int_def json_digits_def to_string_no_leading_zero)
  then show "json_number (to_string n)"
    unfolding json_number_def by (intro exI [of _ "''''"] exI [of _ "to_string n"]) simp
qed

lemma rnd32_unit_finite:
  assumes "0 \<le> x" "x \<le> 1"
  shows "fp_finite (rnd32 x)"
proof -
  have "fp_le (Fin 0) (rnd32 x)" "fp_le (rnd32 x) (Fin 1)"
    using rnd32_mono [of 0 x] rnd32_mono [of x 1] assms by simp_all
  then show ?thesis by (rule fp_le_between_Fin) simp
qed

lemma ratio_finite:
  assumes mono: "\<And>x y. 0 \<le> x \<Longrightarrow> x \<le> y \<Longrightarrow> fp_le (r x) (r y)"
    and r0: "r 0 = Fin 0" and r1: "r 1 = Fin 1" and top: "r (2 ^ 64) = Fin (2 ^ 64)"
    and ht: "h < (2 :: nat) ^ 64" "0 < t" "t < (2 :: nat) ^ 64"
  shows "fp_finite (fp_div r (r (of_nat h)) (r (of_nat t)))"
proof -
  have le: "(of_nat n :: rat) \<le> 2 ^ 64" if "n < 2 ^ 64" for n :: nat
    using that of_nat_le_iff [of n "2 ^ 64", where ?'a = rat] by simp
  have "fp_le (Fin 0) (r (of_nat h))" using mono [of 0 "of_nat h"] r0 by simp
  moreover have "fp_le (r (of_nat h)) (Fin (2 ^ 64))" using mono [of "of_nat h" "2 ^ 64"] top le [OF ht(1)] by simp
  ultimately obtain x where x: "r (of_nat h) = Fin x" "0 \<le> x" "x \<le> 2 ^ 64" by (rule fp_le_between_Fin)
  have "fp_le (Fin 1) (r (of_nat t))" using mono [of 1 "of_nat t"] r1 ht(2) by simp
  moreover have "fp_le (r (of_nat t)) (Fin (2 ^ 64))" using mono [of "of_nat t" "2 ^ 64"] top le [OF ht(3)] by simp
  ultimately obtain y where y: "r (of_nat t) = Fin y" "1 \<le> y" by (rule fp_le_between_Fin)
  have "x / y \<le> x / 1" using x y by (intro divide_left_mono) simp_all
  then have q: "0 \<le> x / y" "x / y \<le> 2 ^ 64" using x y by simp_all
  have "fp_le (Fin 0) (r (x / y))" using mono [of 0 "x / y"] r0 q by simp
  moreover have "fp_le (r (x / y)) (Fin (2 ^ 64))" using mono [of "x / y" "2 ^ 64"] top q by simp
  ultimately obtain v where "r (x / y) = Fin v" by (rule fp_le_between_Fin)
  with x y show ?thesis by simp
qed

lemma ratio64_finite: "0 < w \<Longrightarrow> fp_finite (f64_div (f64_of_word (v :: u64)) (f64_of_word (w :: u64)))"
  unfolding f64_of_word_def
  by (rule ratio_finite) (simp_all add: rnd64_mono rnd_2_64 [simplified] word_pos_unat)

lemma ratio32_finite: "0 < w \<Longrightarrow> fp_finite (f32_div (f32_of_word (v :: u64)) (f32_of_word (w :: u64)))"
  unfolding f32_of_word_def
  by (rule ratio_finite) (simp_all add: rnd32_mono rnd_2_64 [simplified] word_pos_unat)

lemma ratio64_finite_32: "0 < w \<Longrightarrow> fp_finite (f64_div (f64_of_word (v :: u32)) (f64_of_word (w :: u32)))"
  unfolding f64_of_word_def
  by (rule ratio_finite)
    (use unat_lt_32 [of v] unat_lt_32 [of w] in \<open>simp_all add: rnd64_mono rnd_2_64 [simplified] word_pos_unat del: unat_lt_32\<close>)

lemma rates_finite:
  "fp_finite (accuracy_rate p)" "fp_finite (waste_rate p)" "fp_finite (hit_rate m)"
  "fp_finite (energy_efficiency h)" "fp_finite (compression_ratio s)"
  by (simp_all add: accuracy_rate_def waste_rate_def hit_rate_def energy_efficiency_def compression_ratio_def
      Let_def ratio64_finite ratio32_finite ratio64_finite_32)

section \<open>The report\<close>

lemma json_object_fields:
  "list_all (\<lambda>f. json_chars (fst f) \<and> json (snd f)) fs \<Longrightarrow> json (json_object fs)"
  by (rule json_obj) (simp add: list_all_iff)

lemma json_array_values: "list_all json vs \<Longrightarrow> json (json_array vs)"
  by (rule json_arr) (simp add: list_all_iff)

lemma json_words: "json (json_u32 a)" "json (json_u64 b)"
  by (simp_all add: json_u32_def json_u64_def json_to_string)

definition plain_key :: "string \<Rightarrow> bool" where
  "plain_key s \<longleftrightarrow> list_all (\<lambda>c. 32 \<le> (of_char c :: nat) \<and> c \<noteq> CHR 0x22 \<and> c \<noteq> CHR 0x5C) s"

lemma plain_key_chars: "plain_key s \<Longrightarrow> json_chars s"
  by (induction s) (auto simp: plain_key_def intro: json_chars.intros)

lemma json_object_plain:
  "list_all (\<lambda>f. plain_key (fst f)) fs \<Longrightarrow> list_all json (map snd fs) \<Longrightarrow> json (json_object fs)"
  by (rule json_object_fields) (auto simp: list_all_iff plain_key_chars)

definition finite_report :: "SynapseSessionReport \<Rightarrow> bool" where
  "finite_report r \<longleftrightarrow> list_all fp_finite
     [ml_cumulative_reward (ml_model r), ml_current_epsilon (ml_model r), ml_current_alpha (ml_model r),
      total_switch_energy_nj (rep_dvfs r), worst_fallback_ms (rep_jit r), total_fallback_ms (rep_jit r),
      joules_saved (rep_power r), avg_milliwatts_saved_at_60fps (rep_power r), battery_extension_factor (rep_power r)]"

lemma sections_json:
  assumes fmt: "\<And>x. fp_finite x \<Longrightarrow> json (fmt x)"
  shows "json (json_horizon fmt h)" "json (json_prediction fmt p)" "json (json_cache fmt c)" "json (json_hai fmt a)"
    "json (json_thermal t)" "json (json_routing b)"
  unfolding json_horizon_def json_prediction_def json_cache_def json_hai_def json_thermal_def json_routing_def
  by (rule json_object_plain; simp add: plain_key_def json_words fmt rates_finite)+

lemma measured_sections_json:
  assumes fmt: "\<And>x. fp_finite x \<Longrightarrow> json (fmt x)" and fin: "finite_report r"
  shows "json (json_ml fmt (ml_model r))" "json (json_dvfs fmt (rep_dvfs r))" "json (json_jit fmt (rep_jit r))"
    "json (json_power fmt (rep_power r))"
  using fin unfolding json_ml_def json_dvfs_def json_jit_def json_power_def
  by - (rule json_object_plain; simp add: finite_report_def plain_key_def json_words json_escape fmt
      json_array_values)+

text \<open>C18: The session report is JSON. If the library prints every finite double as a JSON number, and the
  doubles that were measured (as opposed to the rates the report computes itself, which are always
  finite) are finite, then the file written is a well-formed JSON value whatever the counters, the
  strings and the number of horizon windows; when the file cannot be opened, the call says so and leaves
  it alone.\<close>
theorem session_report_is_json:
  assumes "\<And>x. fp_finite x \<Longrightarrow> json_number (fmt x)" "finite_report r"
  shows "write_session_report can_open fmt r file
      = (can_open, if can_open then Some (json_report fmt r) else file) \<and> json (json_report fmt r)"
proof
  have fmt: "json (fmt x)" if "fp_finite x" for x using assms(1) that by (intro json_num) blast
  have "json_chars ''v2.0.0''" by (rule plain_key_chars) (simp add: plain_key_def)
  then have "json (CHR 0x22 # ''v2.0.0'' @ [CHR 0x22])" by (rule json_str)
  moreover have "json (json_horizons fmt (horizon_windows r))"
    unfolding json_horizons_def
    by (rule json_array_values) (simp add: list_all_iff sections_json fmt)
  ultimately show "json (json_report fmt r)"
    unfolding json_report_def
    by (intro json_object_plain)
      (simp_all add: plain_key_def json_words json_escape sections_json fmt
        measured_sections_json fmt assms(2))
qed (simp add: write_session_report_def)

definition whole_part :: "f64 \<Rightarrow> string" where
  "whole_part x = (case x of Fin q \<Rightarrow> (if q < 0 then ''-'' else '''') @ to_string (nat \<lfloor>\<bar>q\<bar>\<rfloor>) | _ \<Rightarrow> ''nan'')"

theorem session_report_is_json_witness:
  "fst (write_session_report True whole_part session_report_default None)
   \<and> json (json_report whole_part session_report_default)"
proof -
  have "json_number (whole_part x)" if fin: "fp_finite x" for x
  proof -
    obtain q where q: "x = Fin q" using fin unfolding fp_finite_def by blast
    let ?n = "nat \<lfloor>\<bar>q\<bar>\<rfloor>"
    have int: "json_int (to_string ?n)"
      by (cases "?n = 0") (simp_all add: json_int_def json_digits_def to_string_no_leading_zero,
          simp_all add: to_string.simps)
    show ?thesis
      unfolding json_number_def q whole_part_def
      by (rule exI [of _ "if q < 0 then ''-'' else ''''"], rule exI [of _ "to_string ?n"],
          rule exI [of _ "''''"], rule exI [of _ "''''"]) (simp add: int)
  qed
  moreover have "finite_report session_report_default"
    by (simp add: finite_report_def session_report_default_def rnd32_unit_finite)
  ultimately show ?thesis
    using session_report_is_json [of whole_part session_report_default True None] by simp
qed

end
