(* ===== verification/D3d12.thy ===== *)
theory D3d12
  imports Prelude "HOL-Library.Monad_Syntax"
begin

text \<open>
  Interception of Direct3D 12: the helper library (\<open>synapse_d3d12_helper_dll.cpp\<close>), which replaces
  function pointers in memory, and the vtable interceptors (\<open>synapse_d3d12_layer.cpp\<close>), both in their
  Windows build. Memory is a function from addresses to contents. \<open>VirtualProtect\<close> is an argument of
  every operation that calls it: for an address, \<open>None\<close> when it succeeds and the code of
  \<open>GetLastError\<close> when it fails. A call through a vtable slot is \<open>invoke\<close>, a partial function: it has no
  value when the call recurses for ever or jumps through a null pointer. Driver functions and hook
  callbacks are opaque and record their calls in a trace.

  The locale \<open>slot_patcher\<close> is the contract the helper and the queue interceptor share: whatever is
  installed, the memory underneath the patches stays what it was.
\<close>

datatype HRESULT = S_OK | E_FAIL | E_INVALIDARG | E_ABORT | E_OUTOFMEMORY | Win32_error u32

definition hresult_from_win32 :: "u32 \<Rightarrow> HRESULT" where
  "hresult_from_win32 e = (if e = 0 then S_OK else Win32_error e)"

section \<open>Helper library\<close>

type_synonym protect = "u64 \<Rightarrow> u32 option"

record HookRecord =
  hk_target :: u64
  hk_original :: u64
  hk_replacement :: u64
  hk_active :: bool

definition hook_zero :: HookRecord where
  "hook_zero = \<lparr>hk_target = 0, hk_original = 0, hk_replacement = 0, hk_active = False\<rparr>"

record helper =
  hp_init_hr :: HRESULT
  hp_ready :: bool
  hp_hooks :: "HookRecord list"
  hp_hook_count :: nat
  hp_mem :: "u64 \<Rightarrow> u64"

definition helper_start :: "(u64 \<Rightarrow> u64) \<Rightarrow> helper" where
  "helper_start mem = \<lparr>hp_init_hr = S_OK, hp_ready = False, hp_hooks = replicate 8 hook_zero,
     hp_hook_count = 0, hp_mem = mem\<rparr>"

definition replace_function_pointer :: "protect \<Rightarrow> u64 \<Rightarrow> u64 \<Rightarrow> (u64 \<Rightarrow> u64) \<Rightarrow> u32 + u64 \<times> (u64 \<Rightarrow> u64)" where
  "replace_function_pointer vp target replacement mem =
     (case vp target of Some e \<Rightarrow> Inl e | None \<Rightarrow> Inr (mem target, mem(target := replacement)))"

definition restore_function_pointer :: "protect \<Rightarrow> u64 \<Rightarrow> u64 \<Rightarrow> (u64 \<Rightarrow> u64) \<Rightarrow> u32 + (u64 \<Rightarrow> u64)" where
  "restore_function_pointer vp target original mem =
     (case vp target of Some e \<Rightarrow> Inl e | None \<Rightarrow> Inr (mem(target := original)))"

definition find_hook :: "u64 \<Rightarrow> helper \<Rightarrow> nat option" where
  "find_hook target h = List.find (\<lambda>i. hk_target (hp_hooks h ! i) = target) [0..<hp_hook_count h]"

definition helper_initialize :: "helper \<Rightarrow> HRESULT \<times> helper" where
  "helper_initialize h = (S_OK, h\<lparr>hp_init_hr := S_OK\<rparr>)"

definition shutdown_hook :: "protect \<Rightarrow> nat \<Rightarrow> helper \<Rightarrow> helper" where
  "shutdown_hook vp i h =
     (let r = hp_hooks h ! i
      in if hk_active r
         then (case restore_function_pointer vp (hk_target r) (hk_original r) (hp_mem h) of
                 Inl _ \<Rightarrow> h | Inr mem \<Rightarrow> h\<lparr>hp_mem := mem\<rparr>)
              \<lparr>hp_hooks := (hp_hooks h)[i := r\<lparr>hk_active := False\<rparr>]\<rparr>
         else h)"

definition helper_shutdown :: "protect \<Rightarrow> helper \<Rightarrow> helper" where
  "helper_shutdown vp h =
     (fold (shutdown_hook vp) [0..<hp_hook_count h] h)\<lparr>hp_hook_count := 0, hp_ready := False\<rparr>"

definition helper_is_ready :: "helper \<Rightarrow> bool" where
  "helper_is_ready h = hp_ready h"

definition install_hook ::
  "protect \<Rightarrow> u64 \<Rightarrow> u64 \<Rightarrow> u64 \<Rightarrow> helper \<Rightarrow> HRESULT \<times> u64 option \<times> helper" where
  "install_hook vp target replacement out h =
     (if target = 0 \<or> replacement = 0 \<or> out = 0 then (E_INVALIDARG, None, h)
      else if find_hook target h \<noteq> None then (hresult_from_win32 1247, None, h)
      else if hp_hook_count h \<ge> 8 then (E_OUTOFMEMORY, None, h)
      else case replace_function_pointer vp target replacement (hp_mem h) of
             Inl e \<Rightarrow> (hresult_from_win32 e, None, h)
           | Inr (original, mem) \<Rightarrow>
               (S_OK, Some original,
                h\<lparr>hp_mem := mem,
                  hp_hooks := (hp_hooks h)[hp_hook_count h :=
                    \<lparr>hk_target = target, hk_original = original, hk_replacement = replacement, hk_active = True\<rparr>],
                  hp_hook_count := hp_hook_count h + 1, hp_ready := True\<rparr>))"

function shift_hooks :: "nat \<Rightarrow> nat \<Rightarrow> HookRecord list \<Rightarrow> HookRecord list" where
  "shift_hooks i n hs = (if i + 1 < n then shift_hooks (i + 1) n (hs[i := hs ! (i + 1)]) else hs)"
  by pat_completeness auto
termination by (relation "measure (\<lambda>(i, n, hs). n - i)") auto

declare shift_hooks.simps [simp del]

definition remove_hook :: "protect \<Rightarrow> u64 \<Rightarrow> u64 \<Rightarrow> helper \<Rightarrow> HRESULT \<times> helper" where
  "remove_hook vp target original h =
     (if target = 0 \<or> original = 0 then (E_INVALIDARG, h)
      else case find_hook target h of
        None \<Rightarrow> (E_INVALIDARG, h)
      | Some i \<Rightarrow>
          if hk_original (hp_hooks h ! i) \<noteq> original then (E_INVALIDARG, h)
          else case restore_function_pointer vp target original (hp_mem h) of
            Inl e \<Rightarrow> (hresult_from_win32 e, h)
          | Inr mem \<Rightarrow>
              let hs = (hp_hooks h)[i := (hp_hooks h ! i)\<lparr>hk_active := False\<rparr>];
                  hs = (shift_hooks i (hp_hook_count h) hs)[hp_hook_count h - 1 := hook_zero];
                  n = hp_hook_count h - 1
              in (S_OK, h\<lparr>hp_mem := mem, hp_hooks := hs, hp_hook_count := n, hp_ready := n > 0\<rparr>))"

definition attach_process_hooks :: "helper \<Rightarrow> HRESULT \<times> helper" where
  "attach_process_hooks h =
     (let (_, h) = helper_initialize h; h = h\<lparr>hp_ready := True\<rparr> in (hp_init_hr h, h))"

definition detach_process_hooks :: "protect \<Rightarrow> helper \<Rightarrow> helper" where
  "detach_process_hooks vp h = helper_shutdown vp h"

definition helper_test :: "u32 \<Rightarrow> u32" where
  "helper_test value' = value' + 1"

datatype helper_op =
    Install protect u64 u64 u64
  | Remove protect u64 u64
  | Attach_process
  | Detach_process

fun helper_step :: "helper_op \<Rightarrow> helper \<Rightarrow> helper" where
  "helper_step (Install vp t r out) h = snd (snd (install_hook vp t r out h))"
| "helper_step (Remove vp t orig) h = snd (remove_hook vp t orig h)"
| "helper_step Attach_process h = snd (attach_process_hooks h)"
| "helper_step Detach_process h = detach_process_hooks (\<lambda>_. None) h"

section \<open>Vtable interceptors\<close>

datatype trampoline = T_execute_command_lists | T_draw_indexed_instanced | T_draw_instanced | T_dispatch

datatype fnptr = Fn_null | Fn_driver u64 | Fn_trampoline trampoline

record HookState =
  hs_original :: fnptr
  hs_patched :: fnptr

datatype dx_event = Driver_call u64 u64 "u64 list" | Hook_call u64 u64 u64

record d3d12 =
  dd_init_hr :: HRESULT
  dd_enabled :: bool
  dd_queue_hooks :: "(u64, HookState) alist"
  dd_list_hooks :: "(u64, HookState) alist"
  dd_queue_hook :: u64
  dd_list_hook :: u64
  dd_vtable :: "u64 \<Rightarrow> u64"
  dd_slots :: "u64 \<times> nat \<Rightarrow> fnptr"
  dd_trace :: "dx_event list"

definition kQueue_ExecuteCommandLists :: nat where "kQueue_ExecuteCommandLists = 10"
definition kList_DrawIndexedInstanced :: nat where "kList_DrawIndexedInstanced = 13"
definition kList_DrawInstanced :: nat where "kList_DrawInstanced = 12"
definition kList_Dispatch :: nat where "kList_Dispatch = 14"

definition vtable_patch :: "u64 \<Rightarrow> nat \<Rightarrow> fnptr \<Rightarrow> d3d12 \<Rightarrow> fnptr \<times> d3d12" where
  "vtable_patch vt i replace d =
     (if vt = 0 \<or> replace = Fn_null then (Fn_null, d)
      else (dd_slots d (vt, i), d\<lparr>dd_slots := (dd_slots d)((vt, i) := replace)\<rparr>))"

definition vtable_restore :: "u64 \<Rightarrow> nat \<Rightarrow> fnptr \<Rightarrow> d3d12 \<Rightarrow> d3d12" where
  "vtable_restore vt i original d =
     (if vt = 0 \<or> original = Fn_null then d else d\<lparr>dd_slots := (dd_slots d)((vt, i) := original)\<rparr>)"

definition d3d12_initialize :: "d3d12 \<Rightarrow> HRESULT \<times> d3d12" where
  "d3d12_initialize d = (S_OK, d\<lparr>dd_init_hr := S_OK\<rparr>)"

definition d3d12_shutdown :: "d3d12 \<Rightarrow> d3d12" where
  "d3d12_shutdown d = d\<lparr>dd_enabled := False, dd_queue_hook := 0, dd_list_hook := 0,
     dd_queue_hooks := [], dd_list_hooks := []\<rparr>"

definition enable_d3d12_interception :: "bool \<Rightarrow> d3d12 \<Rightarrow> HRESULT \<times> d3d12" where
  "enable_d3d12_interception e d =
     (if dd_init_hr d \<noteq> S_OK then (E_FAIL, d) else (S_OK, d\<lparr>dd_enabled := e\<rparr>))"

definition patch_slot :: "u64 \<Rightarrow> nat \<Rightarrow> fnptr \<Rightarrow> d3d12 \<Rightarrow> d3d12" where
  "patch_slot obj i f d = d\<lparr>dd_slots := (dd_slots d)((dd_vtable d obj, i) := f)\<rparr>"

definition queue_attach :: "u64 \<Rightarrow> u64 \<Rightarrow> d3d12 \<Rightarrow> HRESULT \<times> d3d12" where
  "queue_attach queue hook d =
     (if queue = 0 \<or> hook = 0 \<or> \<not> dd_enabled d then (E_INVALIDARG, d)
      else if al_lookup (dd_queue_hooks d) queue \<noteq> None then (E_ABORT, d)
      else
        let state = \<lparr>hs_original = dd_slots d (dd_vtable d queue, kQueue_ExecuteCommandLists),
                     hs_patched = Fn_trampoline T_execute_command_lists\<rparr>;
            d = patch_slot queue kQueue_ExecuteCommandLists (hs_patched state) d
        in (S_OK, d\<lparr>dd_queue_hooks := al_update queue state (dd_queue_hooks d), dd_queue_hook := hook\<rparr>))"

definition queue_detach :: "u64 \<Rightarrow> d3d12 \<Rightarrow> d3d12" where
  "queue_detach queue d =
     (if queue = 0 then d
      else case al_lookup (dd_queue_hooks d) queue of
        None \<Rightarrow> d
      | Some st \<Rightarrow>
          (patch_slot queue kQueue_ExecuteCommandLists (hs_original st) d)
            \<lparr>dd_queue_hooks := al_delete queue (dd_queue_hooks d)\<rparr>)"

definition list_attach :: "u64 \<Rightarrow> u64 \<Rightarrow> d3d12 \<Rightarrow> HRESULT \<times> d3d12" where
  "list_attach lst hook d =
     (if lst = 0 \<or> hook = 0 \<or> \<not> dd_enabled d then (E_INVALIDARG, d)
      else if al_lookup (dd_list_hooks d) lst \<noteq> None then (E_ABORT, d)
      else
        let vt = dd_vtable d lst;
            state = \<lparr>hs_original = dd_slots d (vt, kList_DrawIndexedInstanced),
                     hs_patched = Fn_trampoline T_draw_indexed_instanced\<rparr>;
            d = patch_slot lst kList_DrawIndexedInstanced (hs_patched state) d;
            state = \<lparr>hs_original = dd_slots d (vt, kList_DrawInstanced),
                     hs_patched = Fn_trampoline T_draw_instanced\<rparr>;
            d = patch_slot lst kList_DrawInstanced (hs_patched state) d;
            state = \<lparr>hs_original = dd_slots d (vt, kList_Dispatch),
                     hs_patched = Fn_trampoline T_dispatch\<rparr>;
            d = patch_slot lst kList_Dispatch (hs_patched state) d
        in (S_OK, d\<lparr>dd_list_hooks := al_update lst state (dd_list_hooks d), dd_list_hook := hook\<rparr>))"

definition list_detach :: "u64 \<Rightarrow> d3d12 \<Rightarrow> d3d12" where
  "list_detach lst d =
     (if lst = 0 then d
      else case al_lookup (dd_list_hooks d) lst of
        None \<Rightarrow> d
      | Some st \<Rightarrow>
          let d = patch_slot lst kList_DrawIndexedInstanced (hs_original st) d;
              d = patch_slot lst kList_DrawInstanced (hs_original st) d;
              d = patch_slot lst kList_Dispatch (hs_original st) d
          in d\<lparr>dd_list_hooks := al_delete lst (dd_list_hooks d)\<rparr>)"

text \<open>What a trampoline finds, forwards and reports. The trampoline for \<open>DrawInstanced\<close> declares
  three parameters after the list, where the slot's callers pass four.\<close>

definition tramp_hooks :: "trampoline \<Rightarrow> d3d12 \<Rightarrow> (u64, HookState) alist" where
  "tramp_hooks t d = (if t = T_execute_command_lists then dd_queue_hooks d else dd_list_hooks d)"

definition tramp_original :: "trampoline \<Rightarrow> u64 \<Rightarrow> d3d12 \<Rightarrow> fnptr" where
  "tramp_original t obj d =
     (case al_lookup (tramp_hooks t d) obj of None \<Rightarrow> Fn_null | Some st \<Rightarrow> hs_original st)"

fun tramp_args :: "trampoline \<Rightarrow> u64 list \<Rightarrow> u64 list" where
  "tramp_args T_execute_command_lists as = take 2 as"
| "tramp_args T_draw_indexed_instanced as = take 5 as"
| "tramp_args T_draw_instanced as = take 3 as"
| "tramp_args T_dispatch as = take 3 as"

definition tramp_notify :: "trampoline \<Rightarrow> u64 \<Rightarrow> u64 list \<Rightarrow> d3d12 \<Rightarrow> d3d12" where
  "tramp_notify t obj as d =
     (if t = T_execute_command_lists
      then (if dd_queue_hook d \<noteq> 0
            then d\<lparr>dd_trace := dd_trace d @ [Hook_call (dd_queue_hook d) obj (as ! 1)]\<rparr> else d)
      else (if dd_list_hook d \<noteq> 0
            then d\<lparr>dd_trace := dd_trace d @ [Hook_call (dd_list_hook d) obj 0]\<rparr> else d))"

partial_function (option) invoke :: "fnptr \<Rightarrow> u64 \<Rightarrow> u64 list \<Rightarrow> d3d12 \<Rightarrow> d3d12 option" where
  "invoke f obj as d =
     (case f of
        Fn_null \<Rightarrow> None
      | Fn_driver g \<Rightarrow> Some (d\<lparr>dd_trace := dd_trace d @ [Driver_call g obj as]\<rparr>)
      | Fn_trampoline t \<Rightarrow>
          (if tramp_original t obj d = Fn_null then Some (tramp_notify t obj as d)
           else do { d' \<leftarrow> invoke (tramp_original t obj d) obj (tramp_args t as) d;
                     Some (tramp_notify t obj as d') }))"

definition call_slot :: "u64 \<Rightarrow> nat \<Rightarrow> u64 list \<Rightarrow> d3d12 \<Rightarrow> d3d12 option" where
  "call_slot obj i as d = invoke (dd_slots d (dd_vtable d obj, i)) obj as d"

datatype queue_op = Q_initialize | Q_enable bool | Q_attach u64 u64 | Q_detach u64

fun queue_step :: "queue_op \<Rightarrow> d3d12 \<Rightarrow> d3d12" where
  "queue_step Q_initialize d = snd (d3d12_initialize d)"
| "queue_step (Q_enable e) d = snd (enable_d3d12_interception e d)"
| "queue_step (Q_attach q hook) d = snd (queue_attach q hook d)"
| "queue_step (Q_detach q) d = queue_detach q d"

section \<open>The contract of a patcher\<close>

definition underlying :: "('a \<Rightarrow> 'v) \<Rightarrow> ('a \<rightharpoonup> 'v) \<Rightarrow> 'a \<Rightarrow> 'v" where
  "underlying mem saved a = (case saved a of None \<Rightarrow> mem a | Some v \<Rightarrow> v)"

lemma underlying_empty [simp]: "underlying m Map.empty = m"
  by (simp add: underlying_def fun_eq_iff)

locale slot_patcher =
  fixes step :: "'op \<Rightarrow> 's \<Rightarrow> 's"
    and mem :: "'s \<Rightarrow> 'a \<Rightarrow> 'v"
    and saved :: "'s \<Rightarrow> 'a \<rightharpoonup> 'v"
    and invar :: "'s \<Rightarrow> bool"
  assumes step_invar: "invar s \<Longrightarrow> invar (step op s)"
    and step_underlying: "invar s \<Longrightarrow> underlying (mem (step op s)) (saved (step op s)) = underlying (mem s) (saved s)"
begin

lemma run_underlying:
  assumes "invar s"
  shows "invar (fold step ops s)
    \<and> underlying (mem (fold step ops s)) (saved (fold step ops s)) = underlying (mem s) (saved s)"
  using assms by (induction ops arbitrary: s) (simp_all add: step_invar step_underlying)

lemma run_restores:
  assumes "invar s" "saved s = Map.empty" "saved (fold step ops s) = Map.empty"
  shows "mem (fold step ops s) = mem s"
  using run_underlying [OF assms(1), of ops] assms(2,3) by (simp add: underlying_def fun_eq_iff)

end

section \<open>The helper keeps the memory underneath its hooks\<close>

definition live_hooks :: "helper \<Rightarrow> HookRecord list" where
  "live_hooks h = take (hp_hook_count h) (hp_hooks h)"

definition originals :: "HookRecord list \<Rightarrow> (u64 \<times> u64) list" where
  "originals rs = map (\<lambda>r. (hk_target r, hk_original r)) rs"

definition helper_saved :: "helper \<Rightarrow> u64 \<rightharpoonup> u64" where
  "helper_saved h = map_of (originals (live_hooks h))"

definition helper_inv :: "helper \<Rightarrow> bool" where
  "helper_inv h \<longleftrightarrow> length (hp_hooks h) = 8 \<and> hp_hook_count h \<le> 8
     \<and> distinct (map hk_target (live_hooks h)) \<and> list_all hk_active (live_hooks h)"

lemma helper_start_inv: "helper_inv (helper_start mem)" "helper_saved (helper_start mem) = Map.empty"
  by (simp_all add: helper_inv_def helper_start_def live_hooks_def helper_saved_def originals_def)

lemma length_shift_hooks [simp]: "length (shift_hooks i n hs) = length hs"
  by (induction i n hs rule: shift_hooks.induct) (subst shift_hooks.simps, simp)

lemma take_shift_hooks:
  assumes "i < n" "n \<le> length hs"
  shows "take (n - 1) (shift_hooks i n hs) = take i hs @ drop (Suc i) (take n hs)"
  using assms
proof (induction i n hs rule: shift_hooks.induct)
  case (1 i n hs)
  show ?case
  proof (cases "i + 1 < n")
    case True
    have "take (n - 1) (shift_hooks i n hs) = take (i + 1) (hs[i := hs ! (i + 1)]) @ drop (Suc (Suc i)) (take n hs)"
      using 1 True by (subst shift_hooks.simps) (simp add: drop_take)
    also have "\<dots> = take i hs @ (hs ! (i + 1)) # drop (Suc (Suc i)) (take n hs)"
      using 1 True by (simp add: take_Suc_conv_app_nth)
    also have "(hs ! (i + 1)) # drop (Suc (Suc i)) (take n hs) = drop (Suc i) (take n hs)"
      using 1 True Cons_nth_drop_Suc [of "Suc i" "take n hs"] by simp
    finally show ?thesis .
  next
    case False
    then have "n = Suc i" using 1 by simp
    then show ?thesis by (subst shift_hooks.simps) simp
  qed
qed

lemma find_hook_None:
  assumes "hp_hook_count h \<le> length (hp_hooks h)"
  shows "find_hook t h = None \<longleftrightarrow> t \<notin> hk_target ` set (live_hooks h)"
  using assms by (fastforce simp: find_hook_def find_None_iff live_hooks_def in_set_conv_nth image_iff)

lemma find_hook_Some:
  assumes "find_hook t h = Some i"
  shows "i < hp_hook_count h" "hk_target (hp_hooks h ! i) = t"
  using assms by (auto simp: find_hook_def find_Some_iff)

lemma set_originals: "fst ` set (originals rs) = hk_target ` set rs"
  by (simp add: originals_def image_image)

lemma map_of_originals_None: "map_of (originals rs) t = None \<longleftrightarrow> t \<notin> hk_target ` set rs"
  by (simp add: map_of_eq_None_iff set_originals)

lemma originals_Nil [simp]: "originals [] = []"
  by (simp add: originals_def)

lemma originals_append [simp]: "originals (xs @ ys) = originals xs @ originals ys"
  by (simp add: originals_def)

lemma originals_Cons [simp]: "originals (r # rs) = (hk_target r, hk_original r) # originals rs"
  by (simp add: originals_def)

lemma install_live:
  assumes "helper_inv h" "install_hook vp t r out h = (hr, res, h')"
  shows "h' = h \<or> (find_hook t h = None \<and> live_hooks h' = live_hooks h
      @ [\<lparr>hk_target = t, hk_original = hp_mem h t, hk_replacement = r, hk_active = True\<rparr>]
    \<and> hp_mem h' = (hp_mem h)(t := r) \<and> length (hp_hooks h') = 8 \<and> hp_hook_count h' \<le> 8)"
  using assms
  by (auto simp: install_hook_def replace_function_pointer_def helper_inv_def live_hooks_def
      take_Suc_conv_app_nth split: if_splits option.splits)

lemma remove_live:
  assumes inv: "helper_inv h" and rm: "remove_hook vp t orig h = (hr, h')"
  shows "h' = h \<or> (\<exists>xs r ys. live_hooks h = xs @ r # ys \<and> live_hooks h' = xs @ ys \<and> hk_target r = t
      \<and> hk_original r = orig \<and> hp_mem h' = (hp_mem h)(t := orig)
      \<and> length (hp_hooks h') = 8 \<and> hp_hook_count h' \<le> 8)"
proof (cases "h' = h")
  case False
  then obtain i where i: "find_hook t h = Some i" "hk_original (hp_hooks h ! i) = orig"
    using rm by (auto simp: remove_hook_def split: if_splits option.splits)
  let ?n = "hp_hook_count h" let ?r = "hp_hooks h ! i"
  let ?hs = "(hp_hooks h)[i := ?r\<lparr>hk_active := False\<rparr>]"
  have h': "h' = h\<lparr>hp_mem := (hp_mem h)(t := orig),
      hp_hooks := (shift_hooks i ?n ?hs)[?n - 1 := hook_zero],
      hp_hook_count := ?n - 1, hp_ready := ?n - 1 > 0\<rparr>"
    using rm False i
    by (auto simp: remove_hook_def restore_function_pointer_def Let_def split: if_splits option.splits)
  note i' = find_hook_Some [OF i(1)]
  have len: "?n \<le> length (hp_hooks h)" "i < length (hp_hooks h)" using inv i' by (auto simp: helper_inv_def)
  have "live_hooks h = take i (hp_hooks h) @ ?r # drop (Suc i) (take ?n (hp_hooks h))"
    using i' len id_take_nth_drop [of i "take ?n (hp_hooks h)"] by (simp add: live_hooks_def min_def)
  moreover have "live_hooks h' = take i (hp_hooks h) @ drop (Suc i) (take ?n (hp_hooks h))"
    using i' len take_shift_hooks [of i ?n ?hs] by (simp add: live_hooks_def h' drop_take)
  ultimately show ?thesis
    using i i' inv len by (intro disjI2 exI [of _ "take i (hp_hooks h)"]) (force simp: h' helper_inv_def)
qed simp

lemma shutdown_fold:
  assumes "distinct (map hk_target (take k (hp_hooks h)))" "k \<le> length (hp_hooks h)"
    "list_all hk_active (take k (hp_hooks h))"
  shows "fold (shutdown_hook (\<lambda>_. None)) [0..<k] h
    = h\<lparr>hp_mem := underlying (hp_mem h) (map_of (originals (take k (hp_hooks h)))),
        hp_hooks := map (\<lambda>r. r\<lparr>hk_active := False\<rparr>) (take k (hp_hooks h)) @ drop k (hp_hooks h)\<rparr>"
  using assms
proof (induction k)
  case 0
  then show ?case by (simp add: underlying_def originals_def)
next
  case (Suc k)
  let ?r = "hp_hooks h ! k"
  have tk: "take (Suc k) (hp_hooks h) = take k (hp_hooks h) @ [?r]"
    using Suc.prems by (simp add: take_Suc_conv_app_nth)
  have dr: "drop k (hp_hooks h) = ?r # drop (Suc k) (hp_hooks h)"
    using Suc.prems by (simp add: Cons_nth_drop_Suc)
  have notin: "hk_target ?r \<notin> hk_target ` set (take k (hp_hooks h))"
    using Suc.prems(1) by (simp add: tk)
  have "underlying (hp_mem h) (map_of (originals (take k (hp_hooks h) @ [?r])))
      = (underlying (hp_mem h) (map_of (originals (take k (hp_hooks h)))))(hk_target ?r := hk_original ?r)"
    using notin map_of_originals_None [of "take k (hp_hooks h)" "hk_target ?r"]
    by (auto simp: underlying_def fun_eq_iff map_add_def split: option.splits)
  then show ?case
    using Suc by (simp add: tk dr shutdown_hook_def restore_function_pointer_def nth_append list_update_append
        Let_def fun_upd_def)
qed

lemma shutdown_saved:
  assumes "helper_inv h"
  shows "helper_inv (helper_shutdown (\<lambda>_. None) h)" "helper_saved (helper_shutdown (\<lambda>_. None) h) = Map.empty"
    "hp_mem (helper_shutdown (\<lambda>_. None) h) = underlying (hp_mem h) (helper_saved h)"
  using assms shutdown_fold [of "hp_hook_count h" h]
  by (simp_all add: helper_shutdown_def helper_inv_def helper_saved_def live_hooks_def originals_def)

lemma install_step:
  assumes inv: "helper_inv h"
  shows "helper_inv (snd (snd (install_hook vp t r out h)))" (is "helper_inv ?h'")
    and "underlying (hp_mem (snd (snd (install_hook vp t r out h)))) (helper_saved (snd (snd (install_hook vp t r out h))))
      = underlying (hp_mem h) (helper_saved h)"
proof -
  obtain hr res where "install_hook vp t r out h = (hr, res, ?h')" by (metis prod.collapse)
  note live = install_live [OF inv this]
  show "helper_inv ?h'"
    using live inv find_hook_None [of h t] by (auto simp: helper_inv_def)
  have "map_of (originals (live_hooks h)) t = None" if "find_hook t h = None"
    using that inv find_hook_None [of h t] by (simp add: helper_inv_def map_of_originals_None)
  then show "underlying (hp_mem ?h') (helper_saved ?h') = underlying (hp_mem h) (helper_saved h)"
    using live
    by (auto simp: underlying_def helper_saved_def fun_eq_iff map_add_def split: option.splits if_splits)
qed

lemma helper_remove_step:
  assumes inv: "helper_inv h"
  shows "helper_inv (snd (remove_hook vp t orig h))" (is "helper_inv ?h'")
    and "underlying (hp_mem (snd (remove_hook vp t orig h))) (helper_saved (snd (remove_hook vp t orig h)))
      = underlying (hp_mem h) (helper_saved h)"
proof -
  obtain hr where "remove_hook vp t orig h = (hr, ?h')" by (metis prod.collapse)
  note live = remove_live [OF inv this]
  show "helper_inv ?h'" using live inv by (auto simp: helper_inv_def)
  have "map_of (originals xs) t = None \<and> map_of (originals ys) t = None"
    if "live_hooks h = xs @ r # ys" "hk_target r = t" for xs r ys
    using that inv by (auto simp: helper_inv_def map_of_originals_None)
  then show "underlying (hp_mem ?h') (helper_saved ?h') = underlying (hp_mem h) (helper_saved h)"
    using live
    by (auto simp: underlying_def helper_saved_def fun_eq_iff map_add_def split: option.splits if_splits)
qed

lemma attach_process_step:
  "helper_inv (snd (attach_process_hooks h)) = helper_inv h"
  "hp_mem (snd (attach_process_hooks h)) = hp_mem h"
  "helper_saved (snd (attach_process_hooks h)) = helper_saved h"
  by (simp_all add: attach_process_hooks_def helper_initialize_def helper_inv_def live_hooks_def helper_saved_def)

interpretation hook_table: slot_patcher helper_step hp_mem helper_saved helper_inv
proof unfold_locales
  fix h op
  assume inv: "helper_inv h"
  show "helper_inv (helper_step op h)"
    using inv by (cases op) (simp_all add: install_step helper_remove_step attach_process_step
        detach_process_hooks_def shutdown_saved)
  show "underlying (hp_mem (helper_step op h)) (helper_saved (helper_step op h)) = underlying (hp_mem h) (helper_saved h)"
    using inv by (cases op) (simp_all add: install_step helper_remove_step attach_process_step
        detach_process_hooks_def shutdown_saved underlying_def)
qed

text \<open>C10: The helper never loses an original. Whatever hooks were installed and removed before, in
  whatever order and with whatever failures of \<open>VirtualProtect\<close> during installation and removal, at
  most eight are installed at a time and a shutdown during which \<open>VirtualProtect\<close> succeeds leaves memory
  exactly as it was at the start.\<close>
theorem helper_shutdown_restores:
  "hp_hook_count (fold helper_step ops (helper_start mem)) \<le> 8 \<and>
   hp_mem (helper_shutdown (\<lambda>_. None) (fold helper_step ops (helper_start mem))) = mem"
proof -
  let ?h = "fold helper_step ops (helper_start mem)"
  have inv: "helper_inv ?h" using hook_table.run_underlying [OF helper_start_inv(1)] by blast
  have "hp_mem (fold helper_step (ops @ [Detach_process]) (helper_start mem)) = hp_mem (helper_start mem)"
    using inv by (intro hook_table.run_restores)
      (simp_all add: helper_start_inv shutdown_saved detach_process_hooks_def)
  with inv show ?thesis by (simp add: detach_process_hooks_def helper_inv_def helper_start_def)
qed

section \<open>The queue interceptor does, when no two queues share a vtable\<close>

definition queue_saved :: "d3d12 \<Rightarrow> u64 \<times> nat \<rightharpoonup> fnptr" where
  "queue_saved d = map_of (map (\<lambda>(q, st). ((dd_vtable d q, kQueue_ExecuteCommandLists), hs_original st)) (dd_queue_hooks d))"

definition queue_inv :: "d3d12 \<Rightarrow> bool" where
  "queue_inv d \<longleftrightarrow> inj (dd_vtable d) \<and> distinct (map fst (dd_queue_hooks d))
     \<and> (dd_queue_hooks d \<noteq> [] \<longrightarrow> dd_queue_hook d \<noteq> 0)
     \<and> (\<forall>q. al_lookup (dd_queue_hooks d) q \<noteq> None \<longrightarrow>
          dd_slots d (dd_vtable d q, kQueue_ExecuteCommandLists) = Fn_trampoline T_execute_command_lists)"

lemma al_update_absent: "al_lookup m k = None \<Longrightarrow> al_update k v m = m @ [(k, v)]"
  by (induction k v m rule: al_update.induct) (auto split: if_splits)

lemma queue_saved_lookup:
  assumes "inj (dd_vtable d)"
  shows "queue_saved d (vt, i) = (if i = kQueue_ExecuteCommandLists \<and> vt \<in> range (dd_vtable d)
     then map_option hs_original (al_lookup (dd_queue_hooks d) (inv (dd_vtable d) vt)) else None)"
proof -
  have "map_of (map (\<lambda>(q, st). ((dd_vtable d q, kQueue_ExecuteCommandLists), hs_original st)) m) (vt, i)
      = (if i = kQueue_ExecuteCommandLists \<and> vt \<in> range (dd_vtable d)
         then map_option hs_original (al_lookup m (inv (dd_vtable d) vt)) else None)" for m
    using assms by (induction m) (auto simp: inv_f_f)
  then show ?thesis by (simp only: queue_saved_def)
qed

lemma queue_attach_step:
  assumes "queue_inv d"
  shows "queue_inv (snd (queue_attach q hook d))"
    and "underlying (dd_slots (snd (queue_attach q hook d))) (queue_saved (snd (queue_attach q hook d)))
      = underlying (dd_slots d) (queue_saved d)"
proof -
  show inv: "queue_inv (snd (queue_attach q hook d))"
    using assms by (auto simp: queue_inv_def queue_attach_def patch_slot_def Let_def)
  have "underlying (dd_slots (snd (queue_attach q hook d))) (queue_saved (snd (queue_attach q hook d))) (vt, i)
      = underlying (dd_slots d) (queue_saved d) (vt, i)" for vt i
    using assms inv
    by (auto simp: underlying_def queue_saved_lookup queue_inv_def queue_attach_def patch_slot_def Let_def
        inv_f_f split: option.splits)
  then show "underlying (dd_slots (snd (queue_attach q hook d))) (queue_saved (snd (queue_attach q hook d)))
      = underlying (dd_slots d) (queue_saved d)"
    by (simp add: fun_eq_iff)
qed

lemma queue_detach_step:
  assumes "queue_inv d"
  shows "queue_inv (queue_detach q d)"
    and "underlying (dd_slots (queue_detach q d)) (queue_saved (queue_detach q d))
      = underlying (dd_slots d) (queue_saved d)"
proof -
  show inv: "queue_inv (queue_detach q d)"
  proof (cases "al_lookup (dd_queue_hooks d) q")
    case (Some st)
    then have "dd_queue_hooks d \<noteq> []" by auto
    then show ?thesis
      using assms Some by (auto simp: queue_inv_def queue_detach_def patch_slot_def inj_eq)
  qed (use assms in \<open>simp add: queue_detach_def\<close>)
  have "underlying (dd_slots (queue_detach q d)) (queue_saved (queue_detach q d)) (vt, i)
      = underlying (dd_slots d) (queue_saved d) (vt, i)" for vt i
    using assms inv
    by (auto simp: underlying_def queue_saved_lookup queue_inv_def queue_detach_def patch_slot_def
        inv_f_f split: option.splits)
  then show "underlying (dd_slots (queue_detach q d)) (queue_saved (queue_detach q d))
      = underlying (dd_slots d) (queue_saved d)"
    by (simp add: fun_eq_iff)
qed

interpretation queue_table: slot_patcher queue_step dd_slots queue_saved queue_inv
proof unfold_locales
  fix d op
  assume inv: "queue_inv d"
  show "queue_inv (queue_step op d)"
    using inv by (cases op) (simp_all add: queue_attach_step queue_detach_step, simp_all add: queue_inv_def
        d3d12_initialize_def enable_d3d12_interception_def)
  show "underlying (dd_slots (queue_step op d)) (queue_saved (queue_step op d)) = underlying (dd_slots d) (queue_saved d)"
    using inv by (cases op) (simp_all add: queue_attach_step queue_detach_step, simp_all add: queue_saved_def
        d3d12_initialize_def enable_d3d12_interception_def)
qed

section \<open>Calls through the slots\<close>

lemma invoke_driver: "invoke (Fn_driver g) obj as d = Some (d\<lparr>dd_trace := dd_trace d @ [Driver_call g obj as]\<rparr>)"
  by (subst invoke.simps) simp

lemma invoke_unhooked:
  "tramp_original t obj d = Fn_null \<Longrightarrow> invoke (Fn_trampoline t) obj as d = Some (tramp_notify t obj as d)"
  by (subst invoke.simps) simp

lemma invoke_hooked:
  "tramp_original t obj d = Fn_driver g \<Longrightarrow> invoke (Fn_trampoline t) obj as d
     = Some (tramp_notify t obj as (d\<lparr>dd_trace := dd_trace d @ [Driver_call g obj (tramp_args t as)]\<rparr>))"
  by (subst invoke.simps) (simp add: invoke_driver)

lemma invoke_self_recursive:
  assumes "tramp_original t obj d = Fn_trampoline t"
  shows "invoke (Fn_trampoline t) obj as d = None"
proof (rule ccontr)
  assume "invoke (Fn_trampoline t) obj as d \<noteq> None"
  then obtain r where r: "invoke (Fn_trampoline t) obj as d = Some r" by blast
  have "\<not> (Fn_trampoline t = Fn_trampoline t \<and> tramp_original t obj d = Fn_trampoline t)"
  proof (rule invoke.raw_induct [where P = "\<lambda>f ob as da r.
          \<not> (f = Fn_trampoline t \<and> tramp_original t ob da = Fn_trampoline t)", OF _ r])
  qed (auto split: fnptr.splits if_splits bind_splits)
  with assms show False by simp
qed

lemmas call_defs = call_slot_def tramp_original_def tramp_hooks_def tramp_notify_def

lemma queue_step_vtable [simp, frame_simps]: "dd_vtable (queue_step op d) = dd_vtable d"
  by (cases op) (simp_all add: d3d12_initialize_def enable_d3d12_interception_def queue_attach_def
      queue_detach_def patch_slot_def Let_def split: option.splits)

lemma queue_run_vtable [simp, frame_simps]: "dd_vtable (fold queue_step ops d) = dd_vtable d"
  by (induction ops arbitrary: d) simp_all

text \<open>C17: Interception of a queue is transparent as long as no two queues share a vtable. After any
  sequence of initialisations, switches and attachments and detachments of queues,
  \<open>ExecuteCommandLists\<close> on any queue reaches the driver's function exactly once with the arguments
  unchanged, followed by one call of the hook if and only if the queue is attached.\<close>
theorem queue_calls_transparent:
  fixes d0 :: d3d12 and ops :: "queue_op list"
  defines "d \<equiv> fold queue_step ops d0"
  assumes vt: "inj (dd_vtable d0)" and none: "dd_queue_hooks d0 = []"
    and drv: "dd_slots d0 (dd_vtable d0 q, kQueue_ExecuteCommandLists) = Fn_driver g" and as: "length as = 2"
  shows "call_slot q kQueue_ExecuteCommandLists as d = Some (d\<lparr>dd_trace := dd_trace d @ Driver_call g q as #
     (if al_lookup (dd_queue_hooks d) q = None then [] else [Hook_call (dd_queue_hook d) q (as ! 1)])\<rparr>)"
proof -
  have "queue_inv d0" using vt none by (simp add: queue_inv_def)
  then have inv: "queue_inv d"
    and und: "underlying (dd_slots d) (queue_saved d) = underlying (dd_slots d0) (queue_saved d0)"
    using queue_table.run_underlying unfolding d_def by blast+
  have vtd: "dd_vtable d = dd_vtable d0" by (simp add: d_def)
  have "underlying (dd_slots d) (queue_saved d) (dd_vtable d q, kQueue_ExecuteCommandLists) = Fn_driver g"
    by (simp add: und vtd) (simp add: underlying_def queue_saved_def none drv)
  then have orig: "case al_lookup (dd_queue_hooks d) q of
      None \<Rightarrow> dd_slots d (dd_vtable d q, kQueue_ExecuteCommandLists) = Fn_driver g
    | Some st \<Rightarrow> hs_original st = Fn_driver g"
    using vt by (simp add: underlying_def queue_saved_lookup vtd inv_f_f split: option.splits)
  show ?thesis
  proof (cases "al_lookup (dd_queue_hooks d) q")
    case None
    then show ?thesis using orig by (simp add: call_slot_def invoke_driver)
  next
    case (Some st)
    then have "dd_queue_hooks d \<noteq> []" by auto
    then show ?thesis
      using inv orig Some as by (simp add: queue_inv_def call_defs invoke_hooked)
  qed
qed

text \<open>All queues of a driver share one vtable, and then the interceptor breaks. After two queues of
  one vtable have been attached, \<open>ExecuteCommandLists\<close> on the second one never returns: the saved
  original is the trampoline itself. After both have been detached again, in the order of attachment,
  the vtable still holds the trampoline, and a call on either queue reaches the hook but never the
  driver.\<close>
theorem queue_shared_vtable_broken:
  assumes "q1 \<noteq> q2" "q1 \<noteq> 0" "q2 \<noteq> 0" "hook \<noteq> 0" "dd_enabled d" "dd_queue_hooks d = []"
    and share: "dd_vtable d q1 = dd_vtable d q2"
  shows "call_slot q2 kQueue_ExecuteCommandLists as (fold queue_step [Q_attach q1 hook, Q_attach q2 hook] d) = None
    \<and> (let d' = fold queue_step [Q_attach q1 hook, Q_attach q2 hook, Q_detach q1, Q_detach q2] d
       in dd_queue_hooks d' = [] \<and> call_slot q1 kQueue_ExecuteCommandLists as d'
            = Some (d'\<lparr>dd_trace := dd_trace d' @ [Hook_call hook q1 (as ! 1)]\<rparr>))"
proof (intro conjI)
  let ?T = "Fn_trampoline T_execute_command_lists" let ?s = "(dd_vtable d q2, kQueue_ExecuteCommandLists)"
  have two: "fold queue_step [Q_attach q1 hook, Q_attach q2 hook] d = d\<lparr>dd_slots := (dd_slots d)(?s := ?T),
      dd_queue_hooks := [(q1, \<lparr>hs_original = dd_slots d ?s, hs_patched = ?T\<rparr>), (q2, \<lparr>hs_original = ?T, hs_patched = ?T\<rparr>)],
      dd_queue_hook := hook\<rparr>"
    using assms by (simp add: queue_attach_def patch_slot_def Let_def)
  show "call_slot q2 kQueue_ExecuteCommandLists as (fold queue_step [Q_attach q1 hook, Q_attach q2 hook] d) = None"
    unfolding two using assms(1) by (simp add: call_slot_def invoke_self_recursive tramp_original_def tramp_hooks_def)
  have "fold queue_step [Q_attach q1 hook, Q_attach q2 hook, Q_detach q1, Q_detach q2] d
      = fold queue_step [Q_detach q1, Q_detach q2] (fold queue_step [Q_attach q1 hook, Q_attach q2 hook] d)"
    by simp
  also have "\<dots> = d\<lparr>dd_slots := (dd_slots d)(?s := ?T), dd_queue_hooks := [], dd_queue_hook := hook\<rparr>"
    unfolding two using assms by (simp add: queue_detach_def patch_slot_def al_delete_def)
  finally show "let d' = fold queue_step [Q_attach q1 hook, Q_attach q2 hook, Q_detach q1, Q_detach q2] d
       in dd_queue_hooks d' = [] \<and> call_slot q1 kQueue_ExecuteCommandLists as d'
            = Some (d'\<lparr>dd_trace := dd_trace d' @ [Hook_call hook q1 (as ! 1)]\<rparr>)"
    using assms by (simp add: invoke_unhooked call_defs)
qed

text \<open>The list interceptor keeps one original for three slots. Once a list is attached, each of the
  three intercepted calls runs the driver's \<open>Dispatch\<close> with the caller's arguments (those of
  \<open>DrawInstanced\<close> cut to three) and then the hook; once it is detached, all three slots of the vtable
  hold \<open>Dispatch\<close>.\<close>
theorem list_interceptor_confuses_slots:
  assumes "l \<noteq> 0" "hook \<noteq> 0" "dd_enabled d" "al_lookup (dd_list_hooks d) l = None"
    and drv: "dd_slots d (dd_vtable d l, kList_Dispatch) = Fn_driver g"
  shows "let d' = snd (list_attach l hook d)
    in fst (list_attach l hook d) = S_OK
     \<and> call_slot l kList_DrawIndexedInstanced [a1, a2, a3, a4, a5] d' = Some (d'\<lparr>dd_trace := dd_trace d'
          @ [Driver_call g l [a1, a2, a3, a4, a5], Hook_call hook l 0]\<rparr>)
     \<and> call_slot l kList_DrawInstanced [a1, a2, a3, a4] d' = Some (d'\<lparr>dd_trace := dd_trace d'
          @ [Driver_call g l [a1, a2, a3], Hook_call hook l 0]\<rparr>)
     \<and> call_slot l kList_Dispatch [a1, a2, a3] d' = Some (d'\<lparr>dd_trace := dd_trace d'
          @ [Driver_call g l [a1, a2, a3], Hook_call hook l 0]\<rparr>)
     \<and> map (\<lambda>i. dd_slots (list_detach l d') (dd_vtable d l, i))
          [kList_DrawInstanced, kList_DrawIndexedInstanced, kList_Dispatch] = replicate 3 (Fn_driver g)"
  using assms
  by (simp add: list_attach_def list_detach_def patch_slot_def Let_def call_defs invoke_hooked
      kList_DrawIndexedInstanced_def kList_DrawInstanced_def kList_Dispatch_def numeral_3_eq_3)

text \<open>Shutting the layer down forgets the hooks without undoing them. If a queue is attached when
  \<open>shutdown\<close> is called, its vtable keeps the trampoline, and from then on \<open>ExecuteCommandLists\<close> on that
  queue does nothing at all: neither the driver nor a hook is called.\<close>
theorem shutdown_swallows_calls:
  assumes "q \<noteq> 0" "hook \<noteq> 0" "dd_enabled d" "al_lookup (dd_queue_hooks d) q = None"
  shows "let d' = d3d12_shutdown (snd (queue_attach q hook d))
    in call_slot q kQueue_ExecuteCommandLists as d' = Some d'"
  using assms
  by (simp add: queue_attach_def patch_slot_def Let_def d3d12_shutdown_def call_defs invoke_unhooked)

section \<open>Witnesses\<close>

definition dx_demo :: d3d12 where
  "dx_demo = \<lparr>dd_init_hr = S_OK, dd_enabled = True, dd_queue_hooks = [], dd_list_hooks = [],
     dd_queue_hook = 0, dd_list_hook = 0, dd_vtable = (\<lambda>q. q),
     dd_slots = (\<lambda>(vt, i). Fn_driver (of_nat i)), dd_trace = []\<rparr>"

theorem queue_calls_transparent_witness:
  "call_slot 5 kQueue_ExecuteCommandLists [1, 2] (fold queue_step [Q_attach 5 9, Q_attach 6 9, Q_detach 6] dx_demo)
     = Some ((fold queue_step [Q_attach 5 9, Q_attach 6 9, Q_detach 6] dx_demo)
         \<lparr>dd_trace := [Driver_call 10 5 [1, 2], Hook_call 9 5 2]\<rparr>)"
  using queue_calls_transparent [of dx_demo 5 10 "[1, 2]" "[Q_attach 5 9, Q_attach 6 9, Q_detach 6]"]
  by (simp add: dx_demo_def kQueue_ExecuteCommandLists_def queue_attach_def queue_detach_def patch_slot_def
      Let_def al_delete_def inj_def)

theorem queue_shared_vtable_broken_witness:
  "call_slot 6 kQueue_ExecuteCommandLists [1, 2]
     (fold queue_step [Q_attach 5 9, Q_attach 6 9] (dx_demo\<lparr>dd_vtable := \<lambda>_. 1\<rparr>)) = None"
  using queue_shared_vtable_broken [of 5 6 9 "dx_demo\<lparr>dd_vtable := \<lambda>_. 1\<rparr>" "[1, 2]"]
  by (simp add: dx_demo_def)

theorem list_interceptor_confuses_slots_witness:
  "let d' = snd (list_attach 7 9 dx_demo)
   in call_slot 7 kList_DrawIndexedInstanced [3, 1, 0, 0, 0] d' = Some (d'\<lparr>dd_trace :=
        dd_trace d' @ [Driver_call 14 7 [3, 1, 0, 0, 0], Hook_call 9 7 0]\<rparr>)"
  using list_interceptor_confuses_slots [of 7 9 dx_demo 14 3 1 0 0 0]
  by (simp add: dx_demo_def Let_def kList_Dispatch_def)

theorem shutdown_swallows_calls_witness:
  "let d' = d3d12_shutdown (snd (queue_attach 5 9 dx_demo))
   in call_slot 5 kQueue_ExecuteCommandLists [1, 2] d' = Some d'"
  using shutdown_swallows_calls [of 5 9 dx_demo "[1, 2]"] by (simp add: dx_demo_def)

end
