(* ===== verification/CoreFiles.thy ===== *)
theory CoreFiles
  imports Core HotReload JsonReport D3d12
begin

text \<open>
  Where the core meets the file system and the helper library (\<open>synapse_core.cpp\<close>): the configuration
  file it writes and watches, the report it leaves behind, and the attachment of the Direct3D helper.
  Whether a file exists and can be opened, and what the Windows loader answers, are arguments. The
  theory composes the core with the watcher of \<open>HotReload\<close>, the writer of \<open>JsonReport\<close> and the helper
  of \<open>D3d12\<close>.
\<close>

section \<open>The configuration file\<close>

definition flag_text :: "bool \<Rightarrow> string" where
  "flag_text b = (if b then ''true'' else ''false'')"

definition default_config_text :: "ConfigSnapshot \<Rightarrow> string" where
  "default_config_text cfg =
     ''# Synapse configuration'' @ [newline] @
     ''# Edit while the layer is running '' @ [CHR 0xE2, CHR 0x80, CHR 0x94] @
     '' changes take effect immediately.'' @ [newline] @
     ''power_budget = '' @ to_string (unat (power_budget_watts cfg)) @ [newline] @
     ''thermal_target = '' @ to_string (unat (thermal_target_celsius cfg)) @ [newline] @
     ''ml_aggressive = '' @ flag_text (ml_aggressive cfg) @ [newline] @
     ''jit_enabled = true'' @ [newline] @
     ''hai_enabled = true'' @ [newline] @
     ''telemetry_enabled = true'' @ [newline]"

text \<open>The callback the core registers; an exception of the parser leaves the callback.\<close>

definition reload_callback :: "nat \<Rightarrow> (string \<Rightarrow> core_error + f32) \<Rightarrow> string \<Rightarrow> SynapseCore \<Rightarrow> SynapseCore option" where
  "reload_callback ulbits stof content c =
     (case apply_config_content ulbits stof content c of Inl _ \<Rightarrow> None | Inr c' \<Rightarrow> Some c')"

definition start_config_watcher ::
  "nat \<Rightarrow> (string \<Rightarrow> core_error + f32) \<Rightarrow> bool \<Rightarrow> string option \<Rightarrow> SynapseCore \<Rightarrow> string option \<times> SynapseCore ConfigWatcher" where
  "start_config_watcher ulbits stof can_write file c =
     (let file = (if file = None \<and> can_write then Some (default_config_text (config_read (sc_config c))) else file)
      in (file, watcher_start (on_change (reload_callback ulbits stof) watcher_init)))"

section \<open>The final report\<close>

definition core_final_report ::
  "bool \<Rightarrow> (f64 \<Rightarrow> string) \<Rightarrow> u64 \<Rightarrow> u32 \<Rightarrow> SynapseCore \<Rightarrow> string option \<Rightarrow> string option \<times> SynapseCore" where
  "core_final_report can_open fmt now tid c file =
     (let (report, c') = SynapseCore_destroy now tid c in (snd (write_session_report can_open fmt report file), c'))"

section \<open>The helper library\<close>

text \<open>Whether the library is found and exports the two entry points is the loader's answer. The state is
  whether the core holds a module and the library's own state.\<close>

record helper_loader =
  hl_load_library :: bool
  hl_has_attach :: bool
  hl_has_detach :: bool

definition hresult_failed :: "HRESULT \<Rightarrow> bool" where
  "hresult_failed hr \<longleftrightarrow> hr \<noteq> S_OK"

definition try_attach_d3d12_helper :: "helper_loader \<Rightarrow> bool \<times> helper \<Rightarrow> bool \<times> bool \<times> helper" where
  "try_attach_d3d12_helper env s =
     (let (module', h) = s
      in if \<not> hl_load_library env then (False, False, h)
         else if \<not> hl_has_attach env then (False, False, h)
         else let (hr, h) = attach_process_hooks h
              in if hresult_failed hr then (False, False, h) else (True, True, h))"

definition detach_d3d12_helper :: "helper_loader \<Rightarrow> protect \<Rightarrow> bool \<times> helper \<Rightarrow> bool \<times> helper" where
  "detach_d3d12_helper env vp s =
     (let (module', h) = s
      in if module' then (False, if hl_has_detach env then detach_process_hooks vp h else h) else (module', h))"

section \<open>Text lemmas\<close>

lemma digit_not_special:
  assumes "is_digit ch"
  shows "\<not> lead_space ch" "\<not> trail_space ch" "\<not> is_space ch" "ch \<noteq> CHR ''-''" "ch \<noteq> CHR ''+''"
    "ch \<noteq> newline" "ch \<noteq> CHR ''=''"
  using assms by (auto simp: is_digit_def lead_space_def trail_space_def is_space_def newline_def)

lemma trim_id:
  assumes "s \<noteq> []" "\<not> lead_space (hd s)" "\<not> trail_space (last s)"
  shows "trim s = s"
proof -
  have "dropWhile lead_space s = s" using assms by (simp add: dropWhile_eq_self_iff)
  moreover have "dropWhile trail_space (rev s) = rev s" using assms by (simp add: dropWhile_eq_self_iff hd_rev)
  ultimately show ?thesis by (simp add: trim_def)
qed

lemma to_string_ends: "is_digit (hd (to_string n))" "is_digit (last (to_string n))"
  using to_string_digits [of n] by (auto simp: list_all_iff)

lemma trim_to_string [simp]: "trim (to_string n) = to_string n"
  by (rule trim_id) (simp_all add: digit_not_special to_string_ends)

lemma trim_blank: "trim (CHR '' '' # s) = trim s"
  by (simp add: trim_def lead_space_def)

lemma stoul_to_string:
  assumes "n < 2 ^ ulbits"
  shows "stoul ulbits (to_string n) = Inr n"
proof -
  have dw: "dropWhile is_space (to_string n) = to_string n"
    by (simp add: dropWhile_eq_self_iff digit_not_special to_string_ends)
  have tw: "takeWhile is_digit (to_string n) = to_string n"
    using to_string_digits [of n] by (simp add: list_all_iff)
  show ?thesis
    using assms digit_not_special(4,5) [OF to_string_ends(1) [of n]] by (simp add: stoul_def Let_def dw tw)
qed

lemma getlines_line:
  assumes "newline \<notin> set l"
  shows "getlines (l @ newline # rest) = l # getlines rest"
proof -
  have "takeWhile (\<lambda>ch. ch \<noteq> newline) (l @ newline # rest) = l" "dropWhile (\<lambda>ch. ch \<noteq> newline) (l @ newline # rest) = newline # rest"
    using assms by (auto simp: takeWhile_append dropWhile_append)
  then show ?thesis by (subst getlines.simps) simp
qed

lemma getlines_Nil: "getlines [] = []"
  by (subst getlines.simps) simp

lemma newline_to_string [simp]: "newline \<notin> set (to_string n)"
  using to_string_digits [of n] digit_not_special(6) unfolding list_all_iff by blast

section \<open>The file the core writes\<close>

lemma numeric_line:
  assumes "is_digit (hd ds)" "is_digit (last ds)" "ds \<noteq> []"
  shows "apply_config_line ulbits stof (''power_budget = '' @ ds) snap = apply_config_key ulbits stof ''power_budget'' ds snap"
    and "apply_config_line ulbits stof (''thermal_target = '' @ ds) snap = apply_config_key ulbits stof ''thermal_target'' ds snap"
proof -
  have ds: "trim (CHR '' '' # ds) = ds" using assms digit_not_special by (simp add: trim_blank trim_id)
  have keys: "trim ''power_budget '' = ''power_budget''" "trim ''thermal_target '' = ''thermal_target''" by code_simp+
  have whole: "trim (''power_budget = '' @ ds) = ''power_budget = '' @ ds" "trim (''thermal_target = '' @ ds) = ''thermal_target = '' @ ds"
    using assms digit_not_special(2) [of "last ds"] by (simp_all add: trim_id lead_space_def)
  show "apply_config_line ulbits stof (''power_budget = '' @ ds) snap = apply_config_key ulbits stof ''power_budget'' ds snap"
    "apply_config_line ulbits stof (''thermal_target = '' @ ds) snap = apply_config_key ulbits stof ''thermal_target'' ds snap"
    unfolding apply_config_line_def Let_def whole by (simp_all add: ds keys)
qed

lemma flag_lines:
  "apply_config_line ulbits stof (''ml_aggressive = '' @ flag_text b) snap = Inr (snap\<lparr>ml_aggressive := b\<rparr>)"
  "apply_config_line ulbits stof ''jit_enabled = true'' snap = Inr (snap\<lparr>jit_enabled := True\<rparr>)"
  "apply_config_line ulbits stof ''hai_enabled = true'' snap = Inr (snap\<lparr>hai_enabled := True\<rparr>)"
  "apply_config_line ulbits stof ''telemetry_enabled = true'' snap = Inr (snap\<lparr>telemetry_enabled := True\<rparr>)"
proof -
  have t: "trim ''ml_aggressive = true'' = ''ml_aggressive = true''" "trim ''ml_aggressive = false'' = ''ml_aggressive = false''"
    "trim ''ml_aggressive '' = ''ml_aggressive''" "trim '' true'' = ''true''" "trim '' false'' = ''false''"
    "trim ''jit_enabled = true'' = ''jit_enabled = true''" "trim ''jit_enabled '' = ''jit_enabled''"
    "trim ''hai_enabled = true'' = ''hai_enabled = true''" "trim ''hai_enabled '' = ''hai_enabled''"
    "trim ''telemetry_enabled = true'' = ''telemetry_enabled = true''" "trim ''telemetry_enabled '' = ''telemetry_enabled''"
    by code_simp+
  show "apply_config_line ulbits stof (''ml_aggressive = '' @ flag_text b) snap = Inr (snap\<lparr>ml_aggressive := b\<rparr>)"
    by (cases b) (simp_all add: flag_text_def apply_config_line_def Let_def t apply_config_key_def flag_value_def)
  show "apply_config_line ulbits stof ''jit_enabled = true'' snap = Inr (snap\<lparr>jit_enabled := True\<rparr>)"
    "apply_config_line ulbits stof ''hai_enabled = true'' snap = Inr (snap\<lparr>hai_enabled := True\<rparr>)"
    "apply_config_line ulbits stof ''telemetry_enabled = true'' snap = Inr (snap\<lparr>telemetry_enabled := True\<rparr>)"
    by (simp_all add: apply_config_line_def Let_def t apply_config_key_def flag_value_def)
qed

lemma getlines_lines:
  "list_all (\<lambda>l. newline \<notin> set l) ls \<Longrightarrow> getlines (concat (map (\<lambda>l. l @ [newline]) ls)) = ls"
  by (induction ls) (simp_all add: getlines_line getlines_Nil)

definition default_lines :: "ConfigSnapshot \<Rightarrow> string list" where
  "default_lines cfg =
     [''# Synapse configuration'',
      ''# Edit while the layer is running '' @ [CHR 0xE2, CHR 0x80, CHR 0x94] @ '' changes take effect immediately.'',
      ''power_budget = '' @ to_string (unat (power_budget_watts cfg)),
      ''thermal_target = '' @ to_string (unat (thermal_target_celsius cfg)),
      ''ml_aggressive = '' @ flag_text (ml_aggressive cfg),
      ''jit_enabled = true'', ''hai_enabled = true'', ''telemetry_enabled = true'']"

lemma default_config_lines: "getlines (default_config_text cfg) = default_lines cfg"
proof -
  have "default_config_text cfg = concat (map (\<lambda>l. l @ [newline]) (default_lines cfg))"
    by (simp add: default_config_text_def default_lines_def)
  moreover have "newline \<notin> set (flag_text b)" for b by (simp add: flag_text_def newline_def)
  then have "list_all (\<lambda>l. newline \<notin> set l) (default_lines cfg)"
    by (simp add: default_lines_def) (simp add: newline_def)
  ultimately show ?thesis by (simp add: getlines_lines)
qed

lemma default_lines_parse:
  assumes "config_validate cfg" "32 \<le> ulbits"
  shows "apply_config_lines ulbits stof (default_lines cfg) cfg
    = Inr (cfg\<lparr>jit_enabled := True, hai_enabled := True, telemetry_enabled := True\<rparr>)"
proof -
  let ?p = "to_string (unat (power_budget_watts cfg))" and ?t = "to_string (unat (thermal_target_celsius cfg))"
  have comments: "apply_config_line ulbits stof ''# Synapse configuration'' snap = Inr snap"
    "apply_config_line ulbits stof (''# Edit while the layer is running '' @ l) snap = Inr snap" for l snap
    by (simp_all add: apply_config_line_def)
  have fits: "unat w < 2 ^ ulbits" for w :: u32
    using unat_lt_32 [of w] power_increasing [OF assms(2), of "2 :: nat"] by (simp del: unat_lt_32)
  have key: "apply_config_key ulbits stof ''power_budget'' ?p cfg = Inr cfg"
    "apply_config_key ulbits stof ''thermal_target'' ?t cfg = Inr cfg"
    using assms(1) by (simp_all add: apply_config_key_def stoul_to_string fits Let_def)
  have lines: "apply_config_line ulbits stof (''power_budget = '' @ ?p) cfg = Inr cfg"
    "apply_config_line ulbits stof (''thermal_target = '' @ ?t) cfg = Inr cfg"
    by (simp_all only: numeric_line to_string_ends to_string_nonempty key not_False_eq_True)
  show ?thesis
    unfolding default_lines_def apply_config_lines.simps
    by (simp only: lines flag_lines comments sum.case) simp
qed

section \<open>Properties\<close>

text \<open>The configuration file the core writes is one it reads back. When no file exists, the watcher is
  started on a file from which a reload of the unchanged core restores its own settings, except that the
  jit, hai and telemetry features are switched on whatever they were: the template says \<open>true\<close> for
  them instead of the current values.\<close>
theorem default_config_roundtrip:
  assumes "core_inv c" "config_validate (config_read (sc_config c))" "32 \<le> ulbits"
  shows "\<exists>text c'. fst (start_config_watcher ulbits stof True None c) = Some text
    \<and> reload_callback ulbits stof text c = Some c'
    \<and> config_read (sc_config c') = (config_read (sc_config c))
         \<lparr>jit_enabled := True, hai_enabled := True, telemetry_enabled := True\<rparr>
    \<and> is_available ''jit'' (sc_degrade c') \<and> is_available ''hai'' (sc_degrade c') \<and> is_available ''telemetry'' (sc_degrade c')"
proof -
  let ?cfg = "config_read (sc_config c)" and ?text = "default_config_text (config_read (sc_config c))"
  let ?snap = "?cfg\<lparr>jit_enabled := True, hai_enabled := True, telemetry_enabled := True\<rparr>"
  have lines: "apply_config_lines ulbits stof (getlines ?text) ?cfg = Inr ?snap"
    unfolding default_config_lines by (rule default_lines_parse [OF assms(2,3)])
  then have "config_validate ?snap" using apply_config_lines_valid [OF assms(2)] by blast
  with lines show ?thesis
    using assms(1)
    by (simp add: start_config_watcher_def Let_def reload_callback_def apply_config_content_def config_update_def
        prepare_update_def config_read_def propagate_flags_available core_inv_def)
qed

theorem default_config_roundtrip_witness:
  "\<exists>text c'. fst (start_config_watcher 64 (\<lambda>s. Inl Invalid_argument) True None demo_core) = Some text
    \<and> reload_callback 64 (\<lambda>s. Inl Invalid_argument) text demo_core = Some c'
    \<and> power_budget_watts (config_read (sc_config c')) = power_budget_watts (config_read (sc_config demo_core))"
proof -
  have "(32 :: nat) \<le> 64" by simp
  from default_config_roundtrip [OF demo_core_ok(1,3) this, of "\<lambda>s. Inl Invalid_argument"] show ?thesis by auto
qed

text \<open>Editing the configuration file can end the process. The watcher the core starts has no
  validator, and its thread catches nothing: one poll that finds a changed file whose thermal target is
  not a number ends the whole process, whatever the state of the core.\<close>
theorem bad_config_edit_kills_process:
  assumes "mtime \<noteq> cw_last_modified w" "mtime \<noteq> 0"
    and "w = watch_begin m0 (snd (start_config_watcher ulbits stof can_write file c))"
  shows "watch_turn (mtime, Some ''thermal_target = hot'') (w, c) = None"
proof -
  have "getlines ''thermal_target = hot'' = [''thermal_target = hot'']"
    by (subst getlines.simps) (simp add: newline_def getlines_Nil)
  moreover have "apply_config_line ulbits stof ''thermal_target = hot'' snap = Inl Invalid_argument" for snap
    unfolding apply_config_line_def Let_def big_budget_line by (simp add: apply_config_key_def stoul_examples)
  ultimately have "reload_callback ulbits stof ''thermal_target = hot'' c = None"
    by (simp add: reload_callback_def apply_config_content_def)
  then show ?thesis
    using assms by (simp add: watch_turn_def start_config_watcher_def Let_def watcher_start_def on_change_def
        watcher_init_def watch_begin_def watcher_validate_def notify_all_def read_file_def)
qed

theorem bad_config_edit_kills_process_witness:
  "watch_turn (8, Some ''thermal_target = hot'')
     (watch_begin 7 (snd (start_config_watcher 64 (\<lambda>s. Inl Invalid_argument) True None demo_core)), demo_core) = None"
  by (rule bad_config_edit_kills_process [OF _ _ refl]) (simp_all add: watch_begin_def)

end
