(* ===== verification/LiveReload.thy ===== *)
theory LiveReload
  imports CoreFiles
begin

text \<open>
  The live configuration: the watcher of \<open>HotReload\<close> drives the core's reload callback
  (\<open>SynapseCore::start_config_watcher\<close>, \<open>apply_config_content\<close>). A line of the file either sets one
  field to a value that depends on the line alone, or leaves the snapshot as it is, or stops the reload
  whatever the snapshot; so applying a file twice changes nothing more, and "the file's settings are in
  force" can be said as: applying the file to the published snapshot gives the snapshot back.
\<close>

section \<open>What a line does\<close>

text \<open>An update acts on a field by leaving it or by setting it to a constant.\<close>

definition sets_or_leaves :: "('s \<Rightarrow> 'a) \<Rightarrow> ('s \<Rightarrow> 's) \<Rightarrow> bool" where
  "sets_or_leaves g F \<longleftrightarrow> (\<forall>s. g (F s) = g s) \<or> (\<exists>k. \<forall>s. g (F s) = k)"

lemma sets_or_leaves_id: "sets_or_leaves g (\<lambda>s. s)"
  by (simp add: sets_or_leaves_def)

lemma sets_or_leaves_comp: "sets_or_leaves g F \<Longrightarrow> sets_or_leaves g G \<Longrightarrow> sets_or_leaves g (\<lambda>s. G (F s))"
  unfolding sets_or_leaves_def by metis

lemma sets_or_leaves_twice: "sets_or_leaves g F \<Longrightarrow> g (F (F s)) = g (F s)"
  by (auto simp: sets_or_leaves_def)

lemma sets_or_leaves_unit: "sets_or_leaves (\<lambda>s. ()) F"
  by (simp add: sets_or_leaves_def)

definition settings_update :: "(ConfigSnapshot \<Rightarrow> ConfigSnapshot) \<Rightarrow> bool" where
  "settings_update F \<longleftrightarrow> sets_or_leaves cs_version F \<and> sets_or_leaves power_budget_watts F
     \<and> sets_or_leaves thermal_target_celsius F \<and> sets_or_leaves ml_aggressive F \<and> sets_or_leaves learning_rate F
     \<and> sets_or_leaves epsilon F \<and> sets_or_leaves replay_buffer_size F \<and> sets_or_leaves jit_enabled F
     \<and> sets_or_leaves hai_enabled F \<and> sets_or_leaves telemetry_enabled F"

lemma settings_update_id: "settings_update (\<lambda>s. s)"
  by (simp add: settings_update_def sets_or_leaves_id)

lemma settings_update_comp: "settings_update F \<Longrightarrow> settings_update G \<Longrightarrow> settings_update (\<lambda>s. G (F s))"
  by (simp add: settings_update_def sets_or_leaves_comp)

lemma settings_update_twice:
  assumes "settings_update F"
  shows "F (F s) = F s"
  by (rule ConfigSnapshot.equality; (rule sets_or_leaves_twice [where F = F])?)
    (use assms in \<open>simp_all add: settings_update_def sets_or_leaves_unit\<close>)

lemma settings_update_field:
  "settings_update (power_budget_watts_update (\<lambda>_. w))" "settings_update (thermal_target_celsius_update (\<lambda>_. w))"
  "settings_update (ml_aggressive_update (\<lambda>_. b))" "settings_update (jit_enabled_update (\<lambda>_. b))"
  "settings_update (hai_enabled_update (\<lambda>_. b))" "settings_update (telemetry_enabled_update (\<lambda>_. b))"
  "settings_update (learning_rate_update (\<lambda>_. x))" "settings_update (epsilon_update (\<lambda>_. x))"
  by (simp_all add: settings_update_def sets_or_leaves_def)

text \<open>A reader of the file: it fails on every snapshot, or updates settings on every snapshot.\<close>

definition reads_settings :: "(ConfigSnapshot \<Rightarrow> core_error + ConfigSnapshot) \<Rightarrow> bool" where
  "reads_settings f \<longleftrightarrow> (\<exists>e. \<forall>s. f s = Inl e) \<or> (\<exists>F. settings_update F \<and> (\<forall>s. f s = Inr (F s)))"

lemma reads_settings_fail [intro]: "reads_settings (\<lambda>s. Inl e)"
  by (auto simp: reads_settings_def)

lemma reads_settings_update: "settings_update F \<Longrightarrow> reads_settings (\<lambda>s. Inr (F s))"
  by (auto simp: reads_settings_def)

lemma reads_settings_then:
  assumes "reads_settings f" "reads_settings g"
  shows "reads_settings (\<lambda>s. case f s of Inl e \<Rightarrow> Inl e | Inr t \<Rightarrow> g t)"
proof -
  consider (fail) e where "\<And>s. f s = Inl e" | (then_fail) F e where "\<And>s. f s = Inr (F s)" "\<And>s. g s = Inl e"
    | (both) F G where "settings_update F" "settings_update G" "\<And>s. f s = Inr (F s)" "\<And>s. g s = Inr (G s)"
    using assms unfolding reads_settings_def by blast
  then show ?thesis
  proof cases
    case both
    then have "settings_update (\<lambda>s. G (F s))" using settings_update_comp by blast
    with both(3,4) show ?thesis by (auto simp: reads_settings_def)
  qed (auto simp: reads_settings_def)
qed

lemma settings_update_if: "settings_update F \<Longrightarrow> settings_update (\<lambda>s. if b then F s else s)"
  by (cases b) (simp_all add: settings_update_id)

lemma reads_settings_if: "reads_settings f \<Longrightarrow> reads_settings g \<Longrightarrow> reads_settings (\<lambda>s. if b then f s else g s)"
  by (cases b) simp_all

lemma reads_settings_case: "(\<And>v. reads_settings (f v)) \<Longrightarrow> reads_settings (\<lambda>s. case r of Inl e \<Rightarrow> Inl e | Inr v \<Rightarrow> f v s)"
  by (cases r) (auto simp: reads_settings_def)

lemmas reads_settings_intros = reads_settings_if reads_settings_case reads_settings_update
  settings_update_if settings_update_id settings_update_field

lemma apply_config_key_settings: "reads_settings (apply_config_key ulbits stof key val)"
  unfolding apply_config_key_def Let_def by (intro reads_settings_intros)

lemma apply_config_line_settings: "reads_settings (apply_config_line ulbits stof line)"
  unfolding apply_config_line_def Let_def by (intro reads_settings_intros apply_config_key_settings)

lemma apply_config_lines_settings: "reads_settings (apply_config_lines ulbits stof ls)"
proof (induction ls)
  case (Cons l ls)
  have "apply_config_lines ulbits stof (l # ls) = (\<lambda>s. case apply_config_line ulbits stof l s of Inl e \<Rightarrow> Inl e
      | Inr t \<Rightarrow> apply_config_lines ulbits stof ls t)" by (simp add: fun_eq_iff)
  with reads_settings_then [OF apply_config_line_settings Cons.IH] show ?case by (simp only:)
next
  case Nil
  have "apply_config_lines ulbits stof [] = (\<lambda>s. Inr s)" by (simp add: fun_eq_iff)
  with reads_settings_update [OF settings_update_id] show ?case by (simp only:)
qed

lemma apply_config_lines_twice:
  "apply_config_lines ulbits stof ls s = Inr t \<Longrightarrow> apply_config_lines ulbits stof ls t = Inr t"
  using apply_config_lines_settings [of ulbits stof ls] settings_update_twice by (auto simp: reads_settings_def)

section \<open>Settings in force\<close>

definition config_parses :: "nat \<Rightarrow> (string \<Rightarrow> core_error + f32) \<Rightarrow> string \<Rightarrow> bool" where
  "config_parses ulbits stof content \<longleftrightarrow>
     (case apply_config_lines ulbits stof (getlines content) ConfigSnapshot_default of Inl e \<Rightarrow> False | Inr s \<Rightarrow> True)"

lemma config_parses_any: "config_parses ulbits stof content \<Longrightarrow> \<exists>t. apply_config_lines ulbits stof (getlines content) s = Inr t"
  using apply_config_lines_settings [of ulbits stof "getlines content"] by (auto simp: reads_settings_def config_parses_def)

definition features_follow :: "SynapseCore \<Rightarrow> bool" where
  "features_follow c \<longleftrightarrow> is_available ''jit'' (sc_degrade c) = jit_enabled (config_read (sc_config c))
     \<and> is_available ''hai'' (sc_degrade c) = hai_enabled (config_read (sc_config c))
     \<and> is_available ''telemetry'' (sc_degrade c) = telemetry_enabled (config_read (sc_config c))"

definition config_in_force :: "nat \<Rightarrow> (string \<Rightarrow> core_error + f32) \<Rightarrow> string \<Rightarrow> SynapseCore \<Rightarrow> bool" where
  "config_in_force ulbits stof content c \<longleftrightarrow> core_inv c \<and> config_validate (config_read (sc_config c)) \<and> features_follow c
     \<and> apply_config_lines ulbits stof (getlines content) (config_read (sc_config c)) = Inr (config_read (sc_config c))"

lemma reload_takes_over:
  assumes "config_parses ulbits stof x" "config_in_force ulbits stof a c"
  shows "\<exists>c'. reload_callback ulbits stof x c = Some c' \<and> config_in_force ulbits stof x c'"
proof -
  let ?cfg = "config_read (sc_config c)"
  obtain snap where snap: "apply_config_lines ulbits stof (getlines x) ?cfg = Inr snap"
    using config_parses_any [OF assms(1)] by blast
  have inv: "core_inv c" "config_validate ?cfg" using assms(2) by (simp_all add: config_in_force_def)
  then have v: "config_validate snap" using apply_config_lines_valid [OF _ snap] by blast
  let ?c = "c\<lparr>sc_config := snd (config_update (\<lambda>dest. Some snap) (sc_config c)), sc_degrade := propagate_flags snap (sc_degrade c)\<rparr>"
  have "config_read (sc_config ?c) = snap"
    using v by (simp add: config_update_def prepare_update_def config_read_def)
  moreover have "core_inv ?c" using inv(1) by (simp add: core_inv_def propagate_flags_def)
  moreover have "features_follow ?c"
    using inv(1) calculation(1) by (simp add: features_follow_def core_inv_def propagate_flags_available)
  ultimately have "config_in_force ulbits stof x ?c"
    using v apply_config_lines_twice [OF snap] by (simp add: config_in_force_def)
  then show ?thesis using snap by (simp add: reload_callback_def apply_config_content_def)
qed

interpretation core_reload: reloading "reload_callback ulbits stof" "config_parses ulbits stof" "config_in_force ulbits stof"
  for ulbits stof
  by unfold_locales (rule reload_takes_over)

text \<open>A core just built has the settings of the file it writes in force.\<close>

lemma fresh_core_in_force:
  assumes "fresh_core pfn ws ring meta wal c" "32 \<le> ulbits"
  shows "config_in_force ulbits stof (default_config_text (config_read (sc_config c))) c"
proof -
  have cfg: "config_read (sc_config c) = ConfigSnapshot_default\<lparr>cs_version := 1\<rparr>" "core_inv c"
    "config_validate (config_read (sc_config c))" "\<forall>f \<in> set core_features. is_available f (sc_degrade c)"
    using assms(1) by (simp_all add: fresh_core_def)
  have flags: "jit_enabled (config_read (sc_config c))" "hai_enabled (config_read (sc_config c))"
    "telemetry_enabled (config_read (sc_config c))"
    unfolding cfg(1) by (simp_all add: ConfigSnapshot_default_def)
  then have same: "(config_read (sc_config c))\<lparr>jit_enabled := True, hai_enabled := True, telemetry_enabled := True\<rparr>
      = config_read (sc_config c)" by simp
  have "features_follow c" using flags cfg(4) by (simp add: features_follow_def core_features_def)
  with default_lines_parse [OF cfg(3) assms(2), of stof] show ?thesis
    unfolding config_in_force_def default_config_lines same using cfg(2,3) by simp
qed

section \<open>Properties\<close>

text \<open>C23: The running configuration follows the file. Suppose the settings of the file present at start are in
  force, the modification time changes whenever the contents do, and every version of the file that a poll
  sees can be parsed. Then the process survives any polls, ones that find the file missing included, and
  afterwards the settings of the version seen last are in force: every setting it makes has the value it
  makes it, the configuration is valid, and the jit, hai and telemetry features are available exactly as
  the configuration says.\<close>
theorem live_reload_tracks_file:
  assumes "stamped ((m0, c0) # obs)" "config_in_force ulbits stof (read_file c0) c"
    and "list_all (config_parses ulbits stof) (seen_contents obs)"
    and "w = snd (start_config_watcher ulbits stof can_write file c)"
  shows "\<exists>w' c'. watch_run obs (watch_begin m0 w, c) = Some (w', c')
    \<and> config_in_force ulbits stof (last (read_file c0 # seen_contents obs)) c'"
proof -
  let ?w = "watch_begin m0 w"
  have w: "cw_watching ?w" "cw_callbacks ?w = [reload_callback ulbits stof]" "cw_validators ?w = []" "cw_last_modified ?w = m0"
    using assms(4) by (simp_all add: start_config_watcher_def Let_def watcher_start_def on_change_def watcher_init_def watch_begin_def)
  then have all: "filter (watcher_validate ?w) xs = xs" for xs by (simp add: watcher_validate_def)
  show ?thesis
    using core_reload.watch_run_tracks [OF stamped_tail(1) [OF assms(1)] _ w(1,2) _ assms(2)]
      stamped_tail(2) [OF assms(1)] assms(3) w(4) unfolding all by simp
qed

theorem live_reload_tracks_file_witness:
  "\<exists>w' c'. watch_run [(0, None), (8, Some ''jit_enabled = 0''), (8, Some ''jit_enabled = 0'')]
       (watch_begin 7 (snd (start_config_watcher 64 (\<lambda>s. Inl Invalid_argument) True None demo_core)), demo_core) = Some (w', c')
     \<and> config_in_force 64 (\<lambda>s. Inl Invalid_argument) ''jit_enabled = 0'' c'"
proof -
  let ?stof = "\<lambda>s. Inl Invalid_argument" and ?c0 = "Some (default_config_text (config_read (sc_config demo_core)))"
  let ?obs = "[(0, None), (8, Some ''jit_enabled = 0''), (8, Some ''jit_enabled = 0'')]"
  have seen: "seen_contents ?obs = [''jit_enabled = 0'', ''jit_enabled = 0'']" by (simp add: seen_contents_def read_file_def)
  have "config_parses 64 ?stof ''jit_enabled = 0''"
    by (simp add: config_parses_def jit_off_line(1) jit_off_applied)
  then have parses: "list_all (config_parses 64 ?stof) (seen_contents ?obs)" unfolding seen by simp
  have "stamped ((7, ?c0) # ?obs)" by (simp add: stamped_def)
  moreover have "config_in_force 64 ?stof (read_file ?c0) demo_core"
    using fresh_core_in_force [OF SynapseCore_init_fresh] by (simp add: demo_core_def read_file_def)
  ultimately show ?thesis
    using live_reload_tracks_file [OF _ _ parses refl, of 7 ?c0 demo_core True None] unfolding seen by simp
qed

end
