(* ===== verification/SessionLog.thy ===== *)
theory SessionLog
  imports CoreShape
begin

text \<open>
  From intercepted calls to the log file: the core (\<open>synapse_core.cpp\<close>), its recovery manager
  (\<open>recovery/crash_recovery.h\<close>) and the log (\<open>atomic/atomic_telemetry.h\<close>) put together. \<open>event_write\<close> is
  the call of \<open>AtomicTelemetry::write\<close> an intercepted call makes. When the core is destroyed its destructor
  marks the shutdown first, and the log's own destructor, run afterwards for the member, flushes what is
  still buffered. The last theorem puts two cores over one file, as two devices of a process do.
\<close>

section \<open>The calls of the log\<close>

definition sized_call :: "u64 \<Rightarrow> WALEventType \<Rightarrow> bytes option \<Rightarrow> u32 \<Rightarrow> wal_call" where
  "sized_call now ty data sz = \<lparr>wc_now = now, wc_type = ty, wc_payload = data, wc_size = sz\<rparr>"

fun event_write :: "core_event \<Rightarrow> SynapseCore \<Rightarrow> wal_call option" where
  "event_write (Draw_indexed env d) c = Some (
     if \<not> sc_draw_telemetry_allowed c \<or> \<not> is_available ''jit'' (sc_degrade c)
     then sized_call (ce_now env) Ev_DrawIndexed None 0
     else sized_call (ce_now env) Ev_DrawIndexed
       (Some (encode_signature (ce_padding env) (capture_current_signature (da_cb d) (da_indexCount d) c))) 32)"
| "event_write (Draw_plain env d) c = Some (sized_call (ce_now env) Ev_Draw None 0)"
| "event_write (Dispatch_compute env d) c =
     Some (sized_call (ce_now env) Ev_Dispatch (Some (encode_signature (ce_padding env) dispatch_signature)) 32)"
| "event_write (Push_constants now cmd l st off sz vs) c = Some (sized_call now Ev_PushConstants (Some vs) (min sz 240))"
| "event_write (Bind_sets now cmd bp l first sets offs) c = Some (sized_call now Ev_BindDescriptorSets None 0)"
| "event_write e c = None"

definition step_writes :: "core_event \<Rightarrow> SynapseCore \<Rightarrow> wal_call list" where
  "step_writes e c =
     (if is_available ''telemetry'' (sc_degrade c) then (case event_write e c of None \<Rightarrow> [] | Some w \<Rightarrow> [w]) else [])"

fun session_writes :: "core_params \<Rightarrow> core_event list \<Rightarrow> SynapseCore \<Rightarrow> wal_call list" where
  "session_writes p [] c = []"
| "session_writes p (e # es) c =
     step_writes e c @ (case core_step p e c of Inl _ \<Rightarrow> [] | Inr c' \<Rightarrow> session_writes p es c')"

text \<open>The buffers an application passes have the announced sizes, and a signature has three bytes of padding.\<close>

fun event_fed :: "core_event \<Rightarrow> bool" where
  "event_fed (Draw_indexed env d) = (length (ce_padding env) = 3)"
| "event_fed (Dispatch_compute env d) = (length (ce_padding env) = 3)"
| "event_fed (Push_constants now cmd l st off sz vs) = (unat (min sz 240) \<le> length vs)"
| "event_fed e = True"

text \<open>Destroying the recovery manager destroys the log it owns.\<close>

definition close_log :: "u64 \<Rightarrow> SynapseCore \<Rightarrow> SynapseCore" where
  "close_log now c = c\<lparr>sc_recovery := map_option (\<lambda>r. r\<lparr>cr_telemetry := telemetry_close now (cr_telemetry r)\<rparr>) (sc_recovery c)\<rparr>"

definition log_file :: "SynapseCore \<Rightarrow> wal_disk" where
  "log_file c = (case sc_recovery c of None \<Rightarrow> fresh_disk | Some r \<Rightarrow> tl_disk (cr_telemetry r))"

section \<open>What a call does to the log\<close>

definition write_all :: "wal_call list \<Rightarrow> CrashRecoveryManager option \<Rightarrow> CrashRecoveryManager option" where
  "write_all ws = map_option (\<lambda>r. r\<lparr>cr_telemetry := fold run_write ws (cr_telemetry r)\<rparr>)"

lemma write_all_Nil [simp]: "write_all [] r = r"
  by (cases r) (simp_all add: write_all_def)

lemma write_all_append: "write_all (ws @ ws') r = write_all ws' (write_all ws r)"
  by (cases r) (simp_all add: write_all_def)

lemma wal_log_recovery:
  "sc_recovery (wal_log now ty data sz c) =
     write_all (if is_available ''telemetry'' (sc_degrade c) then [sized_call now ty data sz] else []) (sc_recovery c)"
  by (cases "sc_recovery c") (simp_all add: wal_log_def write_all_def run_write_def sized_call_def)

interpretation same_log: quiet_invariant "\<lambda>c. sc_recovery c = R" for R
  by unfold_locales (simp_all add: push_telemetry_def issue_def execute_hai_path_def learn_from_draw_def
      learn_from_dispatch_def notify_bind_pipeline_def notify_bind_descriptor_set_def notify_create_image_def
      notify_destroy_image_def notify_free_cmd_buf_def Let_def)

lemma forward_recovery [simp]:
  "sc_recovery (forward_draw_indexed d c) = sc_recovery c" "sc_degrade (forward_draw_indexed d c) = sc_degrade c"
  "sc_recovery (forward_draw d' c) = sc_recovery c" "sc_degrade (forward_draw d' c) = sc_degrade c"
  "sc_recovery (issue g c) = sc_recovery c"
  by (simp_all add: forward_draw_indexed_def forward_draw_def issue_def)

lemma handlers_write:
  "pred_sum (\<lambda>_. True) (\<lambda>c'. sc_recovery c' = write_all (step_writes (Draw_indexed env d) c) (sc_recovery c))
     (handle_draw_indexed p env d c)"
  "pred_sum (\<lambda>_. True) (\<lambda>c'. sc_recovery c' = write_all (step_writes (Draw_plain env d') c) (sc_recovery c)) (handle_draw p env d' c)"
  "pred_sum (\<lambda>_. True) (\<lambda>c'. sc_recovery c' = write_all (step_writes (Dispatch_compute env d'') c) (sc_recovery c))
     (handle_dispatch p env d'' c)"
  by (auto simp: handle_draw_indexed_def handle_draw_def handle_dispatch_def Let_def step_writes_def wal_log_recovery
      intro!: pred_sum_then same_log.route_keeps same_log.keeps_learn)

lemma bind_sets_degrade: "sc_degrade (fold (\<lambda>(i, ds). notify_bind_descriptor_set cmd (first + of_nat i) ds) xs c) = sc_degrade c"
  by (induction xs arbitrary: c) (auto simp: notify_bind_descriptor_set_def Let_def)

lemma core_step_writes:
  "pred_sum (\<lambda>_. True) (\<lambda>c'. sc_recovery c' = write_all (step_writes e c) (sc_recovery c)) (core_step p e c)"
proof (cases e)
  case (Bind_sets now cmd bp l first sets offs)
  let ?f = "fold (\<lambda>(i, ds). notify_bind_descriptor_set cmd (first + of_nat i) ds) (enumerate 0 sets)"
  have "sc_recovery (?f c) = sc_recovery c" using same_log.bind_sets_keeps [of c "sc_recovery c"] by simp
  then show ?thesis using Bind_sets
    by (simp add: handle_bind_descriptor_sets_def Let_def step_writes_def wal_log_recovery bind_sets_degrade)
next
  case (Draw_indexed env d)
  then show ?thesis using handlers_write(1) by (simp only: core_step.simps)
next
  case (Draw_plain env d)
  then show ?thesis using handlers_write(2) by (simp only: core_step.simps)
next
  case (Dispatch_compute env d)
  then show ?thesis using handlers_write(3) by (simp only: core_step.simps)
qed (auto simp: handle_push_constants_def step_writes_def wal_log_recovery Let_def notify_bind_pipeline_def
    notify_create_image_def notify_destroy_image_def notify_free_cmd_buf_def split: prod.split)

lemma core_run_writes:
  "core_run p es c = Inr c' \<Longrightarrow> sc_recovery c' = write_all (session_writes p es c) (sc_recovery c)"
proof (induction es arbitrary: c)
  case (Cons e es)
  then obtain c1 where c1: "core_step p e c = Inr c1" "core_run p es c1 = Inr c'" by (auto split: sum.splits)
  with core_step_writes [of e c p] Cons.IH [OF c1(2)] show ?case by (simp add: write_all_append)
qed simp

section \<open>The calls are legal\<close>

lemma length_encode_signature: "length padding = 3 \<Longrightarrow> length (encode_signature padding sig) = 32"
  by (simp add: encode_signature_def)

lemma event_write_ok:
  "event_fed e \<Longrightarrow> event_write e c = Some w \<Longrightarrow> call_ok w \<and> wc_type w \<noteq> Ev_CleanShutdown \<and> \<not> unat (wc_size w) > kWALDataSize"
  by (cases e; clarsimp simp: sized_call_def call_ok_def length_encode_signature kWALDataSize_def min_def word_le_nat_alt
      split: if_splits)

lemma session_writes_ok:
  "list_all event_fed es \<Longrightarrow> w \<in> set (session_writes p es c) \<Longrightarrow>
     call_ok w \<and> wc_type w \<noteq> Ev_CleanShutdown \<and> \<not> unat (wc_size w) > kWALDataSize"
proof (induction es arbitrary: c)
  case (Cons e es)
  have step: "call_ok w \<and> wc_type w \<noteq> Ev_CleanShutdown \<and> \<not> unat (wc_size w) > kWALDataSize" if "w \<in> set (step_writes e c)"
    
  proof -
    have "event_write e c = Some w"
      using that by (cases "is_available ''telemetry'' (sc_degrade c)"; cases "event_write e c") (simp_all add: step_writes_def)
    with event_write_ok [of e c w] Cons.prems(1) show ?thesis by simp
  qed
  show ?case
  proof (cases "w \<in> set (step_writes e c)")
    case False
    then obtain c1 where "w \<in> set (session_writes p es c1)" using Cons.prems(2) by (cases "core_step p e c") auto
    with Cons show ?thesis by simp
  qed (rule step)
qed simp

lemma length_session_entries:
  "\<forall>w \<in> set ws. \<not> unat (wc_size w) > kWALDataSize \<Longrightarrow> length (session_entries sq ws) = length ws"
  by (induction ws arbitrary: sq) simp_all

lemma length_session_writes:
  assumes "core_inv c" "all_entry_points c" "is_available ''telemetry'' (sc_degrade c)"
  shows "length (session_writes p es c) = length (filter logged es)"
  using assms
proof (induction es arbitrary: c)
  case (Cons e es)
  obtain c1 where c1: "core_step p e c = Inr c1"
    "effect c (event_calls p e c) (count_if (routed c e)) (if logged e then log_count c else 0) c1"
    using core_step_effect [OF Cons.prems(1,2)] by blast
  have "core_inv c1" "all_entry_points c1" "is_available ''telemetry'' (sc_degrade c1)"
    using c1(2) Cons.prems all_entry_points_mode [OF effect_mode [OF c1(2)]] by (simp_all add: effect_def same_mode_def)
  from Cons.IH [OF this] c1(1) Cons.prems(3) show ?case by (cases e) (simp_all add: step_writes_def)
qed simp

section \<open>Closing\<close>

lemma shutdown_recovery:
  "sc_recovery (snd (SynapseCore_destroy now tid c)) =
     map_option (\<lambda>r. if tl_clean_shutdown (cr_telemetry r) then r else manager_mark_clean now r) (sc_recovery c)"
  by (cases "sc_recovery c") (simp_all add: SynapseCore_destroy_def Let_def core_mark_clean_def core_transition_def)

lemma manager_mark_clean_log [simp]: "cr_telemetry (manager_mark_clean now r) = mark_clean_shutdown now (cr_telemetry r)"
  by (simp add: manager_mark_clean_def save_metadata_def Let_def)

text \<open>The marker goes to the file at once, past the buffer; the buffer follows when the log is destroyed.\<close>

lemma mark_then_close:
  assumes "wal_writable (tl_disk t)" "\<not> tl_clean_shutdown t"
  shows "disk_contents (tl_disk (mark_clean_shutdown now t)) =
      disk_contents (tl_disk t) @ encode_entry (shutdown_marker (tl_sequence t) now)"
    "disk_contents (tl_disk (telemetry_close now2 (mark_clean_shutdown now t))) =
      disk_contents (tl_disk t) @ concat (map encode_entry (shutdown_marker (tl_sequence t) now # tl_write_buffer t))"
    "wal_readable (tl_disk (mark_clean_shutdown now t)) = wal_readable (tl_disk t)"
    "wal_readable (tl_disk (telemetry_close now2 (mark_clean_shutdown now t))) = wal_readable (tl_disk t)"
proof -
  let ?m = "mark_clean_shutdown now t"
  have m: "tl_clean_shutdown ?m" "tl_write_buffer ?m = tl_write_buffer t" "wal_writable (tl_disk ?m)"
    "wal_readable (tl_disk ?m) = wal_readable (tl_disk t)"
    "disk_contents (tl_disk ?m) = disk_contents (tl_disk t) @ encode_entry (shutdown_marker (tl_sequence t) now)"
    using assms by (simp_all add: mark_clean_shutdown_def append_wal_def flush_wal_def Let_def)
  show "disk_contents (tl_disk ?m) = disk_contents (tl_disk t) @ encode_entry (shutdown_marker (tl_sequence t) now)"
    "wal_readable (tl_disk ?m) = wal_readable (tl_disk t)" by (fact m)+
  have close: "telemetry_close now2 ?m = flush_wal (flush_buffer_locked ?m)"
    using m(1) by (simp add: telemetry_close_def mark_clean_shutdown_def flush_wal_def flush_buffer_locked_def)
  show "disk_contents (tl_disk (telemetry_close now2 ?m)) =
      disk_contents (tl_disk t) @ concat (map encode_entry (shutdown_marker (tl_sequence t) now # tl_write_buffer t))"
    "wal_readable (tl_disk (telemetry_close now2 ?m)) = wal_readable (tl_disk t)"
    unfolding close using m by (auto simp: flush_wal_def flush_buffer_locked_def)
qed

text \<open>The scan sees the marker's number as the largest, wherever in the file the marker stands.\<close>

lemma fold_max_bounds:
  fixes b :: "'a :: linorder"
  shows "m \<le> b \<Longrightarrow> \<forall>e \<in> set es. f e \<le> b \<Longrightarrow> fold (\<lambda>e m. max m (f e)) es m \<le> b \<and> m \<le> fold (\<lambda>e m. max m (f e)) es m"
proof (induction es arbitrary: m)
  case (Cons e es)
  then have "max m (f e) \<le> b" by simp
  from Cons.IH [OF this] Cons.prems have "fold (\<lambda>e m. max m (f e)) es (max m (f e)) \<le> b"
    "max m (f e) \<le> fold (\<lambda>e m. max m (f e)) es (max m (f e))" by simp_all
  then show ?case by simp
qed simp

lemma session_entry_bounds:
  assumes "\<forall>w \<in> set ws. wc_type w \<noteq> Ev_CleanShutdown" "length (session_entries 0 ws) < 2 ^ 63" "e \<in> set (session_entries 0 ws)"
  shows "is_payload_entry e \<and> we_sequence e \<le> of_nat (length (session_entries 0 ws))"
proof
  let ?n = "length (session_entries 0 ws)"
  show "is_payload_entry e" using session_take(1) [of ?n ws] assms by simp
  have "we_sequence e \<in> set (map we_sequence (session_entries 0 ws))" using assms(3) by simp
  then obtain i where "i < ?n" "we_sequence e = of_nat i" unfolding session_sequences by auto
  then show "we_sequence e \<le> of_nat ?n" using assms(2) by (simp add: word_le_nat_alt unat_of_nat)
qed

lemma verdict_marker_anywhere:
  assumes "\<forall>w \<in> set ws. wc_type w \<noteq> Ev_CleanShutdown" "length (session_entries 0 ws) = n" "n < 2 ^ 63" "0 < n"
    and "set es1 \<subseteq> set (session_entries 0 ws)" "set es2 \<subseteq> set (session_entries 0 ws)"
  shows "verdict_clean (es1 @ shutdown_marker (of_nat n) now # es2)"
proof -
  have bound: "is_payload_entry e \<and> we_sequence e \<le> of_nat n" if "e \<in> set es1 \<union> set es2" for e
    using session_entry_bounds [of ws e] assms that by blast
  let ?s1 = "fold scan_entry es1 (0, 0, 0)" and ?m = "shutdown_marker (of_nat n) now"
  let ?s2 = "fold scan_entry [?m] ?s1" and ?s = "fold scan_entry es2 (fold scan_entry [?m] (fold scan_entry es1 (0, 0, 0)))"
  have "fst (snd ?s1) \<le> of_nat n" using fold_max_bounds [of 0 "of_nat n" es1 we_sequence] bound by (simp add: scan_max)
  then have s2: "fst ?s2 = of_nat n" "fst (snd ?s2) = of_nat n" by (simp_all only: scan_marker fst_conv snd_conv max_def if_True)
  have "fst ?s = of_nat n" using scan_shutdown [of es2 ?s2] bound s2 by (simp add: is_payload_entry_def)
  moreover have "fst (snd ?s) = of_nat n"
    using fold_max_bounds [of "of_nat n" "of_nat n" es2 we_sequence] bound s2(2) unfolding scan_max [of es2 ?s2] by (simp add: order_antisym)
  moreover have "(0 :: u64) < of_nat n" using assms(3,4) by (simp add: word_less_nat_alt unat_of_nat)
  moreover have "fold scan_entry (es1 @ ?m # es2) (0, 0, 0) = ?s" by simp
  ultimately show ?thesis unfolding verdict_clean_def split_beta Let_def by simp
qed

lemma empty_log_check:
  assumes "wal_readable d" "disk_contents d = []"
  shows "check_recovery (telemetry_init d) = (0, telemetry_init d)"
proof -
  have "read_wal d = []" using assms by (simp add: read_wal_eq decode_entries_short)
  then show ?thesis using check_recovery_eq [of "telemetry_init d"] by (simp add: prod_eq_iff telemetry_init_def verdict_clean_def)
qed

lemma first_session_check:
  assumes "wal_readable d" "disk_contents d = []"
    and "check_and_recover (SynapseCore_init pfn ws ring meta d t1 t2 tid) = (Inr info, c)"
  shows "core_inv c" "sc_pfn c = pfn" "is_available ''telemetry'' (sc_degrade c)"
    "\<exists>r. sc_recovery c = Some r \<and> cr_telemetry r = telemetry_init d"
proof -
  let ?c0 = "SynapseCore_init pfn ws ring meta d t1 t2 tid" and ?r0 = "recovery_init meta d"
  have fresh: "fresh_core pfn ws ring meta d ?c0" by (rule SynapseCore_init_fresh)
  note rec = empty_log_check [OF assms(1,2)]
  have tel: "cr_telemetry ?r0 = telemetry_init d" by (simp add: recovery_init_def)
  have load: "cr_telemetry (snd (load_metadata ?r0)) = telemetry_init d"
    by (simp add: load_metadata_def Let_def tel split: sum.split)
  obtain r where r: "check_for_crash ?r0 = (Inr False, r)" "cr_telemetry r = telemetry_init d"
    using assms(3) fresh load rec
    by (auto simp: check_and_recover_def fresh_core_def check_for_crash_def split: prod.splits sum.splits)
  then have c: "c = ?c0\<lparr>sc_recovery := Some r\<rparr>"
    using assms(3) fresh by (simp add: check_and_recover_def fresh_core_def Let_def)
  show "core_inv c" "sc_pfn c = pfn" "is_available ''telemetry'' (sc_degrade c)" "\<exists>r. sc_recovery c = Some r \<and> cr_telemetry r = telemetry_init d"
    using fresh r(2) by (simp_all add: c fresh_core_def core_inv_def core_features_def)
qed

text \<open>A session of calls is a session of the log.\<close>

lemma session_running:
  assumes "wal_writable d" "wal_readable d" "disk_contents d = []"
    and "check_and_recover (SynapseCore_init pfn ws ring meta d t1 t2 tid) = (Inr info, c0)"
    and "all_entry_points c0" "list_all event_fed es" "core_run p es c0 = Inr c"
    and "n = length (filter logged es)" "k = 64 * (n div 64)"
    and "ws' = session_writes p es c0" "t = fold run_write ws' (telemetry_init d)"
  shows "\<forall>w \<in> set ws'. call_ok w \<and> wc_type w \<noteq> Ev_CleanShutdown"
    "length (session_entries 0 ws') = n"
    "\<exists>r. sc_recovery c = Some r \<and> cr_telemetry r = t" "\<not> tl_clean_shutdown t"
    "wal_writable (tl_disk t)" "wal_readable (tl_disk t) = wal_readable d" "tl_sequence t = of_nat n"
    "tl_write_buffer t = drop k (session_entries 0 ws')"
    "disk_contents (tl_disk t) = disk_contents d @ concat (map encode_entry (take k (session_entries 0 ws')))"
proof -
  note c0 = first_session_check [OF assms(2-4)]
  have ok: "\<forall>w \<in> set ws'. call_ok w \<and> wc_type w \<noteq> Ev_CleanShutdown"
    "\<forall>w \<in> set ws'. \<not> unat (wc_size w) > kWALDataSize"
    using session_writes_ok [OF assms(6)] unfolding assms(10) by blast+
  then show "\<forall>w \<in> set ws'. call_ok w \<and> wc_type w \<noteq> Ev_CleanShutdown" by blast
  show len: "length (session_entries 0 ws') = n"
    using length_session_entries [OF ok(2)] length_session_writes [OF c0(1) assms(5) c0(3)] assms(8,10) by simp
  show "\<exists>r. sc_recovery c = Some r \<and> cr_telemetry r = t"
    using core_run_writes [OF assms(7)] c0(4) by (auto simp: write_all_def assms(10,11))
  show "\<not> tl_clean_shutdown t" by (simp add: assms(11) frame_simps telemetry_init_def)
  have inv: "session_inv d (session_entries 0 ws') t"
    using session_inv_run [OF session_inv_init [OF assms(1)], of ws'] by (simp add: assms(11))
  then show "wal_writable (tl_disk t)" "wal_readable (tl_disk t) = wal_readable d" "tl_sequence t = of_nat n"
    "tl_write_buffer t = drop k (session_entries 0 ws')"
    "disk_contents (tl_disk t) = disk_contents d @ concat (map encode_entry (take k (session_entries 0 ws')))"
    unfolding session_inv_def len assms(9) by simp_all
qed

text \<open>Two devices of one process share the directory. What one core does to the log file the other finds there:
  \<open>with_log_file d\<close> is a core whose log file has become \<open>d\<close>.\<close>

definition with_log_file :: "wal_disk \<Rightarrow> SynapseCore \<Rightarrow> SynapseCore" where
  "with_log_file d c = c\<lparr>sc_recovery := map_option (\<lambda>r. r\<lparr>cr_telemetry := (cr_telemetry r)\<lparr>tl_disk := d\<rparr>\<rparr>) (sc_recovery c)\<rparr>"

text \<open>A core that starts on the file of a session without a marker takes over its records and empties it.\<close>

lemma start_on_unclean_log:
  assumes "wal_writable d" "wal_readable d" "disk_contents d = []" "wal_bytes meta = None"
    and "\<forall>w \<in> set ws. call_ok w \<and> wc_type w \<noteq> Ev_CleanShutdown"
    and "n = length (session_entries 0 ws)" "n < 2 ^ 63" "64 \<le> n" "k = 64 * (n div 64)"
    and "check_and_recover (SynapseCore_init pfn wts ring meta (crashed_session ws d) t1 t2 tid) = (v, c)"
  shows "v = Inr \<lparr>ri_crash_detected = True, ri_entries_recovered = of_nat k, ri_recovery_count = 1\<rparr>"
    "\<exists>r. sc_recovery c = Some r \<and> wal_bytes (tl_disk (cr_telemetry r)) = Some []
       \<and> wal_writable (tl_disk (cr_telemetry r)) \<and> wal_readable (tl_disk (cr_telemetry r))"
proof -
  let ?c0 = "SynapseCore_init pfn wts ring meta (crashed_session ws d) t1 t2 tid"
  let ?r0 = "recovery_init meta (crashed_session ws d)"
  define t where "t = (telemetry_init (crashed_session ws d))\<lparr>tl_clean_shutdown := False,
      tl_pending_recovery := take k (session_entries 0 ws)\<rparr>"
  have "0 < n div 64" using assms(8) by (simp add: div_greater_zero_iff)
  then have k: "k \<le> n" "0 < k" by (simp_all add: assms(9))
  have pos: "(0 :: u64) < of_nat k" by (rule of_nat_pos_64) (use k assms(7) in simp_all)
  note check = crashed_check [OF assms(1-3,5-7,9) t_def]
  define r1 where "r1 = ?r0\<lparr>cr_metadata := metadata_default, cr_telemetry := t\<rparr>"
  have first: "check_for_crash ?r0 = (Inr True, r1)"
    using assms(4) check(1) pos by (simp add: check_for_crash_def load_metadata_def recovery_init_def r1_def)
  have rp: "fst (replay t) = of_nat k" "wal_bytes (tl_disk (snd (replay t))) = Some []" "tl_sequence (snd (replay t)) = 0"
    using crashed_replay [OF assms(1) _ _ _ t_def] assms(5-7) k by simp_all
  have "tl_disk (snd (replay t)) = disk_truncate (crashed_session ws d)"
    by (simp add: replay_def truncate_wal_def split_beta t_def telemetry_init_def)
  moreover have "wal_writable (crashed_session ws d)" "wal_readable (crashed_session ws d)"
    using session_inv_run [OF session_inv_init [OF assms(1)], of ws] assms(2)
    by (simp_all add: crashed_session_def session_inv_def)
  ultimately have disk: "wal_writable (tl_disk (snd (replay t)))" "wal_readable (tl_disk (snd (replay t)))"
    by (simp_all add: disk_truncate_def)
  have "cr_telemetry r1 = t" "cr_metadata r1 = metadata_default" by (simp_all add: r1_def)
  with recover_pending [of r1 "of_nat k" t] check(2) pos rp have rec: "fst (recover r1) =
      \<lparr>rr_success = True, rr_entries_recovered = of_nat k, rr_last_sequence = 0\<rparr>"
    "cr_telemetry (snd (recover r1)) = snd (replay t)" "total_recoveries (cr_metadata (snd (recover r1))) = 1"
    by (simp_all add: save_metadata_def Let_def)
  have "sc_recovery ?c0 = Some ?r0" using SynapseCore_init_fresh by (simp add: fresh_core_def)
  then have whole: "v = Inr \<lparr>ri_crash_detected = True, ri_entries_recovered = rr_entries_recovered (fst (recover r1)),
        ri_recovery_count = total_recoveries (cr_metadata (snd (recover r1)))\<rparr>" "sc_recovery c = Some (snd (recover r1))"
    using assms(10) first by (auto simp: check_and_recover_def Let_def split: prod.splits)
  then show "v = Inr \<lparr>ri_crash_detected = True, ri_entries_recovered = of_nat k, ri_recovery_count = 1\<rparr>"
    by (simp add: rec)
  show "\<exists>r. sc_recovery c = Some r \<and> wal_bytes (tl_disk (cr_telemetry r)) = Some []
       \<and> wal_writable (tl_disk (cr_telemetry r)) \<and> wal_readable (tl_disk (cr_telemetry r))"
    using whole(2) rec(2) rp(2) disk by simp
qed

text \<open>Any calls of the demonstration core make a session.\<close>

lemma fresh_disk_empty:
  "wal_writable fresh_disk" "wal_readable fresh_disk" "disk_contents fresh_disk = []" "wal_bytes fresh_disk = None"
  by (simp_all add: fresh_disk_def disk_contents_def)

lemma demo_session:
  "\<exists>info c0 c. check_and_recover demo_core = (Inr info, c0) \<and> all_entry_points c0 \<and> core_run demo_params es c0 = Inr c"
proof -
  note d = fresh_disk_empty
  have "sc_recovery demo_core = Some (recovery_init fresh_disk fresh_disk)"
    using SynapseCore_init_fresh by (simp add: demo_core_def fresh_core_def)
  moreover have "\<exists>r. check_for_crash (recovery_init fresh_disk fresh_disk) = (Inr False, r)"
    using empty_log_check [OF d(2,3)] by (simp add: check_for_crash_def load_metadata_def recovery_init_def) (simp add: fresh_disk_def)
  ultimately obtain info c0 where check: "check_and_recover demo_core = (Inr info, c0)"
    by (auto simp: check_and_recover_def)
  note c0 = first_session_check [OF d(2,3) check [unfolded demo_core_def]]
  have all: "all_entry_points c0" using c0(2) by (simp add: all_entry_points_def)
  with core_run_effect [OF c0(1) all, of demo_params es] check show ?thesis by blast
qed

section \<open>Properties\<close>

text \<open>C6: The log of a session, from the intercepted calls to the file. A core opened on a directory without a log
  serves any calls whose buffers have the announced sizes, is destroyed, and its members with it. The file
  then reads back as one record for each draw, dispatch, push and bind, with the data of that call, numbered
  in order, and the shutdown marker. But the marker is written past the buffer: the records of the last,
  incomplete batch follow it. A process that dies after the destructor's body and before the members are
  destroyed loses that batch, and the next start nevertheless finds the session clean.\<close>
theorem core_session_log:
  assumes "wal_writable d" "wal_readable d" "disk_contents d = []"
    and "check_and_recover (SynapseCore_init pfn ws ring meta d t1 t2 tid) = (Inr info, c0)"
    and "all_entry_points c0" "list_all event_fed es" "core_run p es c0 = Inr c"
    and "c2 = snd (SynapseCore_destroy now tid2 c)"
    and "n = length (filter logged es)" "n < 2 ^ 63" "k = 64 * (n div 64)"
  shows "let records = session_entries 0 (session_writes p es c0); marker = shutdown_marker (of_nat n) now
    in length records = n
       \<and> read_wal (log_file (close_log now2 c2)) = take k records @ [marker] @ drop k records
       \<and> read_wal (log_file c2) = take k records @ [marker]
       \<and> (0 < n \<longrightarrow> verdict_clean (read_wal (log_file (close_log now2 c2))) \<and> verdict_clean (read_wal (log_file c2)))"
proof -
  let ?ws = "session_writes p es c0" and ?m = "shutdown_marker (of_nat n) now"
  let ?es = "session_entries 0 ?ws" and ?t = "fold run_write (session_writes p es c0) (telemetry_init d)"
  note run = session_running [OF assms(1-7) assms(9) assms(11) refl refl]
  note ok = run(1) and len = run(2)
  obtain r where r: "sc_recovery c = Some r" "cr_telemetry r = ?t" using run(3) by blast
  have logs: "log_file c2 = tl_disk (mark_clean_shutdown now ?t)"
    "log_file (close_log now2 c2) = tl_disk (telemetry_close now2 (mark_clean_shutdown now ?t))"
    using r run(4) unfolding assms(8) log_file_def close_log_def shutdown_recovery by simp_all
  note disk = mark_then_close [OF run(5,4), unfolded run(6-9)]
  have valid: "\<forall>e \<in> set ?es \<union> {?m}. wf_entry e \<and> is_valid_wal_entry e"
    using session_entries_ok [of ?ws] ok marker_ok by blast
  have empty: "read_wal d = []" using assms(2,3) by (simp add: read_wal_eq decode_entries_short)
  have "read_wal (log_file (close_log now2 c2)) = read_wal d @ (take k ?es @ [?m] @ drop k ?es)"
    unfolding logs by (rule read_wal_append [where torn = "[]"])
      (use disk(2,4) assms(2,3) valid in \<open>auto dest: in_set_takeD in_set_dropD\<close>)
  moreover have "read_wal (log_file c2) = read_wal d @ (take k ?es @ [?m])"
    unfolding logs by (rule read_wal_append [where torn = "[]"])
      (use disk(1,3) assms(2,3) valid in \<open>auto dest: in_set_takeD\<close>)
  ultimately have whole: "read_wal (log_file (close_log now2 c2)) = take k ?es @ [?m] @ drop k ?es"
    and dead: "read_wal (log_file c2) = take k ?es @ [?m]" by (simp_all add: empty)
  have "verdict_clean (take k ?es @ ?m # drop k ?es)" "verdict_clean (take k ?es @ ?m # [])" if "0 < n"
    using that assms(10) len ok by (intro verdict_marker_anywhere; auto dest: in_set_takeD in_set_dropD)+
  with len whole dead show ?thesis unfolding Let_def by simp
qed

theorem core_session_log_witness:
  "\<exists>info c0 c. check_and_recover demo_core = (Inr info, c0)
     \<and> core_run demo_params [Draw_indexed demo_env demo_draw, Dispatch_compute demo_env demo_dispatch] c0 = Inr c
     \<and> read_wal (log_file (snd (SynapseCore_destroy 3 1 c))) = [shutdown_marker 2 3]
     \<and> verdict_clean (read_wal (log_file (snd (SynapseCore_destroy 3 1 c))))"
proof -
  let ?es = "[Draw_indexed demo_env demo_draw, Dispatch_compute demo_env demo_dispatch]"
  obtain info c0 c where s: "check_and_recover demo_core = (Inr info, c0)" "all_entry_points c0" "core_run demo_params ?es c0 = Inr c"
    using demo_session [of ?es] by blast
  have "list_all event_fed ?es" by (simp add: demo_env_def)
  from core_session_log [OF fresh_disk_empty(1-3) s(1) [unfolded demo_core_def] s(2) this s(3) refl refl _ refl,
      where now = 3 and ?tid2.0 = 1 and ?now2.0 = 4]
  have "read_wal (log_file (snd (SynapseCore_destroy 3 1 c))) = [shutdown_marker 2 3]
      \<and> verdict_clean (read_wal (log_file (snd (SynapseCore_destroy 3 1 c))))" by (auto simp: Let_def)
  with s show ?thesis by blast
qed

text \<open>C7: A second device in the same process. The directory does not depend on the device, so the second core
  opens the log of the first while the first is running. Once the first has logged 64 records, the second
  reports a crash that did not happen, counts the records as recovered and empties the file. When the first
  then closes properly, the file holds its marker and its last, incomplete batch: all its earlier records
  are lost.\<close>
theorem second_device_takes_log:
  assumes "wal_writable d" "wal_readable d" "disk_contents d = []" "wal_bytes meta = None"
    and "check_and_recover (SynapseCore_init pfn ws ring meta d t1 t2 tid) = (Inr info, c0)"
    and "all_entry_points c0" "list_all event_fed es" "core_run p es c0 = Inr c"
    and "n = length (filter logged es)" "64 \<le> n" "n < 2 ^ 63" "k = 64 * (n div 64)"
    and "check_and_recover (SynapseCore_init pfn' ws' ring' meta (log_file c) t3 t4 tid') = (v, other)"
    and "c2 = snd (SynapseCore_destroy now tid2 (with_log_file (log_file other) c))"
  shows "v = Inr \<lparr>ri_crash_detected = True, ri_entries_recovered = of_nat k, ri_recovery_count = 1\<rparr>
    \<and> read_wal (log_file other) = []
    \<and> read_wal (log_file (close_log now2 c2)) =
        shutdown_marker (of_nat n) now # drop k (session_entries 0 (session_writes p es c0))"
proof -
  let ?ws = "session_writes p es c0" and ?m = "shutdown_marker (of_nat n) now"
  let ?es = "session_entries 0 ?ws" and ?t = "fold run_write (session_writes p es c0) (telemetry_init d)"
  note run = session_running [OF assms(1-3,5-9,12) refl refl]
  obtain r where r: "sc_recovery c = Some r" "cr_telemetry r = ?t" using run(3) by blast
  then have log: "log_file c = crashed_session ?ws d" by (simp add: log_file_def crashed_session_def)
  note start = start_on_unclean_log [OF assms(1-4) run(1) run(2) [symmetric] assms(11,10,12) assms(13) [unfolded log]]
  obtain r' where r': "sc_recovery other = Some r'" "wal_bytes (log_file other) = Some []"
    "wal_writable (log_file other)" "wal_readable (log_file other)"
    using start(2) by (auto simp: log_file_def)
  have empty: "disk_contents (log_file other) = []" using r'(2) by (simp add: disk_contents_def)
  then have none: "read_wal (log_file other) = []" using r'(4) by (simp add: read_wal_eq decode_entries_short)
  let ?u = "?t\<lparr>tl_disk := log_file other\<rparr>"
  have u: "wal_writable (tl_disk ?u)" "\<not> tl_clean_shutdown ?u" using r'(3) run(4) by simp_all
  have "log_file (close_log now2 c2) = tl_disk (telemetry_close now2 (mark_clean_shutdown now ?u))"
    using r run(4) unfolding assms(14) log_file_def close_log_def shutdown_recovery
    by (simp add: with_log_file_def)
  moreover have "\<forall>e \<in> set (?m # drop k ?es). wf_entry e \<and> is_valid_wal_entry e"
    using session_entries_ok [of ?ws] run(1) marker_ok by (auto dest: in_set_dropD)
  moreover have "disk_contents (tl_disk (telemetry_close now2 (mark_clean_shutdown now ?u)))
      = disk_contents (log_file other) @ concat (map encode_entry (?m # drop k ?es))"
    "wal_readable (tl_disk (telemetry_close now2 (mark_clean_shutdown now ?u)))"
    using mark_then_close [OF u] run(7,8) r'(4) by simp_all
  ultimately have "read_wal (log_file (close_log now2 c2)) = read_wal (log_file other) @ ?m # drop k ?es"
    using read_wal_append [where torn = "[]" and d = "log_file other" and es = "?m # drop k ?es"] r'(4) empty by simp
  with start(1) none show ?thesis by simp
qed

theorem second_device_takes_log_witness:
  "\<exists>info c0 c other. check_and_recover demo_core = (Inr info, c0)
     \<and> core_run demo_params (replicate 65 (Draw_indexed demo_env demo_draw)) c0 = Inr c
     \<and> check_and_recover (SynapseCore_init (sc_pfn demo_core) [] [] fresh_disk (log_file c) 7 8 1)
         = (Inr \<lparr>ri_crash_detected = True, ri_entries_recovered = 64, ri_recovery_count = 1\<rparr>, other)
     \<and> read_wal (log_file other) = []"
proof -
  let ?es = "replicate 65 (Draw_indexed demo_env demo_draw)"
  obtain info c0 c where s: "check_and_recover demo_core = (Inr info, c0)" "all_entry_points c0" "core_run demo_params ?es c0 = Inr c"
    using demo_session [of ?es] by blast
  have fed: "list_all event_fed ?es" by (simp add: demo_env_def list_all_iff)
  obtain v other where second:
    "check_and_recover (SynapseCore_init (sc_pfn demo_core) [] [] fresh_disk (log_file c) 7 8 1) = (v, other)" by fastforce
  from second_device_takes_log [OF fresh_disk_empty s(1) [unfolded demo_core_def] s(2) fed s(3) refl _ _ refl second refl,
      where now = 3 and ?tid2.0 = 1 and ?now2.0 = 4]
  have "v = Inr \<lparr>ri_crash_detected = True, ri_entries_recovered = 64, ri_recovery_count = 1\<rparr> \<and> read_wal (log_file other) = []"
    by simp
  with s second show ?thesis by blast
qed

end
