(* ===== verification/TestApi.thy ===== *)
theory TestApi
  imports Core
begin

text \<open>
  Test support, \<open>src/synapse/testing\<close>: the coverage tracker, the inspector and injector of the agent
  interface, and the scenario runner. The injector's operations have empty bodies. Counters are single
  atomics, so whole calls are the steps.
\<close>

section \<open>Coverage tracker\<close>

record CoverageTracker =
  ct_backend_counts :: "u32 list"
  ct_dvfs_transitions :: u32
  ct_thermal_events :: u32
  ct_cache_misses :: u32

definition coverage_init :: CoverageTracker where
  "coverage_init = \<lparr>ct_backend_counts = [0, 0, 0], ct_dvfs_transitions = 0, ct_thermal_events = 0, ct_cache_misses = 0\<rparr>"

text \<open>An index outside the array is undefined behaviour: \<open>None\<close>.\<close>

definition note_backend_choice :: "int \<Rightarrow> CoverageTracker \<Rightarrow> CoverageTracker option" where
  "note_backend_choice i c =
     (if 0 \<le> i \<and> nat i < length (ct_backend_counts c)
      then Some (c\<lparr>ct_backend_counts := (ct_backend_counts c)[nat i := ct_backend_counts c ! nat i + 1]\<rparr>) else None)"

definition note_dvfs_transition :: "CoverageTracker \<Rightarrow> CoverageTracker" where
  "note_dvfs_transition c = c\<lparr>ct_dvfs_transitions := ct_dvfs_transitions c + 1\<rparr>"

definition note_thermal_event :: "CoverageTracker \<Rightarrow> CoverageTracker" where
  "note_thermal_event c = c\<lparr>ct_thermal_events := ct_thermal_events c + 1\<rparr>"

definition note_cache_miss :: "CoverageTracker \<Rightarrow> CoverageTracker" where
  "note_cache_miss c = c\<lparr>ct_cache_misses := ct_cache_misses c + 1\<rparr>"

definition covered_paths :: "CoverageTracker \<Rightarrow> nat" where
  "covered_paths c = length (filter (\<lambda>n. n > 0) (ct_backend_counts c))
     + (if ct_dvfs_transitions c > 0 then 1 else 0) + (if ct_thermal_events c > 0 then 1 else 0)
     + (if ct_cache_misses c > 0 then 1 else 0)"

definition path_coverage_percent :: "CoverageTracker \<Rightarrow> f32" where
  "path_coverage_percent c =
     (let total = length (ct_backend_counts c) + 3
      in f32_mul (f32_div (rnd32 (of_nat (covered_paths c))) (rnd32 (of_nat total))) (Fin 100))"

datatype coverage_event = Backend nat | Dvfs_transition | Thermal_event | Cache_miss

fun coverage_step :: "coverage_event \<Rightarrow> CoverageTracker \<Rightarrow> CoverageTracker option" where
  "coverage_step (Backend i) c = note_backend_choice (int i) c"
| "coverage_step Dvfs_transition c = Some (note_dvfs_transition c)"
| "coverage_step Thermal_event c = Some (note_thermal_event c)"
| "coverage_step Cache_miss c = Some (note_cache_miss c)"

fun coverage_run :: "coverage_event list \<Rightarrow> CoverageTracker \<Rightarrow> CoverageTracker option" where
  "coverage_run [] c = Some c"
| "coverage_run (e # es) c = (case coverage_step e c of None \<Rightarrow> None | Some c' \<Rightarrow> coverage_run es c')"

section \<open>Agent interface and scenarios\<close>

record SystemSnapshot =
  sn_report :: SynapseSessionReport
  sn_frame_counter :: u64

definition snapshot :: "SynapseCore option \<Rightarrow> SystemSnapshot" where
  "snapshot core =
     (let s = \<lparr>sn_report = session_report_default, sn_frame_counter = 0\<rparr>
      in case core of None \<Rightarrow> s | Some c \<Rightarrow> s\<lparr>sn_report := build_session_report c\<rparr>)"

definition inject_workload :: "WorkloadSignature \<Rightarrow> 'api \<Rightarrow> 'api" where
  "inject_workload sig api = api"

definition set_thermal_headroom :: "f32 \<Rightarrow> 'api \<Rightarrow> 'api" where
  "set_thermal_headroom headroom api = api"

definition set_dvfs_state :: "PState \<Rightarrow> 'api \<Rightarrow> 'api" where
  "set_dvfs_state p api = api"

definition force_cache_miss :: "u64 \<Rightarrow> 'api \<Rightarrow> 'api" where
  "force_cache_miss h api = api"

definition inject_dma_stall :: "u64 \<Rightarrow> 'api \<Rightarrow> 'api" where
  "inject_dma_stall r api = api"

definition set_frame_counter :: "u64 \<Rightarrow> 'api \<Rightarrow> 'api" where
  "set_frame_counter f api = api"

record TestStep =
  ts_sig :: WorkloadSignature
  ts_repeats :: u32

record TestScenario =
  sc_name :: string
  sc_steps :: "TestStep list"

record ScenarioResult =
  sr_scenario_name :: string
  sr_passed :: bool
  sr_detail :: string
  sr_before :: SystemSnapshot
  sr_after :: SystemSnapshot

definition scenario_run :: "TestScenario \<Rightarrow> 'api \<Rightarrow> ScenarioResult \<times> 'api" where
  "scenario_run s api =
     (let before = snapshot None;
          api = fold (\<lambda>step. inject_workload (ts_sig step) ^^ unat (ts_repeats step)) (sc_steps s) api;
          after = snapshot None
      in (\<lparr>sr_scenario_name = sc_name s, sr_passed = True,
           sr_detail = ''Synthetic run completed (pass criteria evaluation is environment-specific).'',
           sr_before = before, sr_after = after\<rparr>, api))"

section \<open>Properties\<close>

definition coverage_at :: "nat \<Rightarrow> f32" where
  "coverage_at k = f32_mul (f32_div (rnd32 (of_nat k)) (rnd32 6)) (Fin 100)"

lemma sixths:
  "rnd32 (1 / 6) = Fin (11184811 / 67108864)"
  "rnd32 (279620275 / 16777216) = Fin (4369067 / 262144)"
  "rnd32 (1 / 3) = Fin (11184811 / 33554432)"
  "rnd32 (279620275 / 8388608) = Fin (4369067 / 131072)"
  "rnd32 (1 / 2) = Fin (1 / 2)"
  "rnd32 (2 / 3) = Fin (11184811 / 16777216)"
  "rnd32 (279620275 / 4194304) = Fin (4369067 / 65536)"
  "rnd32 (5 / 6) = Fin (13981013 / 16777216)"
  "rnd32 (349525325 / 4194304) = Fin (5461333 / 65536)"
  by code_simp+

lemma coverage_at_values:
  "coverage_at 0 = Fin (0)"
  "coverage_at (Suc 0) = Fin (4369067 / 262144)"
  "coverage_at 2 = Fin (4369067 / 131072)"
  "coverage_at 3 = Fin (50)"
  "coverage_at 4 = Fin (4369067 / 65536)"
  "coverage_at 5 = Fin (5461333 / 65536)"
  "coverage_at 6 = Fin (100)"
  using rnd32_nat [of 2] rnd32_nat [of 3] rnd32_nat [of 4] rnd32_nat [of 5] rnd32_nat [of 6] rnd32_nat [of 50] rnd32_nat [of 100]
  by (simp_all add: coverage_at_def sixths)

lemma coverage_values:
  assumes "k \<le> 6"
  shows "fp_le (Fin 0) (coverage_at k) \<and> fp_le (coverage_at k) (Fin 100)
     \<and> (coverage_at k = Fin 100 \<longleftrightarrow> k = 6) \<and> (coverage_at k = Fin 0 \<longleftrightarrow> k = 0)"
proof -
  consider "k = 0" | "k = Suc 0" | "k = 2" | "k = 3" | "k = 4" | "k = 5" | "k = 6" using assms by linarith
  then show ?thesis by cases (simp_all add: coverage_at_values)
qed

fun backend_uses :: "nat \<Rightarrow> coverage_event list \<Rightarrow> nat" where
  "backend_uses i [] = 0"
| "backend_uses i (Backend j # es) = (if i = j then Suc (backend_uses i es) else backend_uses i es)"
| "backend_uses i (_ # es) = backend_uses i es"

definition valid_event :: "coverage_event \<Rightarrow> bool" where
  "valid_event e \<longleftrightarrow> (case e of Backend i \<Rightarrow> i < 3 | _ \<Rightarrow> True)"

lemma coverage_run_counts:
  assumes "length (ct_backend_counts c) = 3"
  shows "(coverage_run es c \<noteq> None) = list_all valid_event es
    \<and> (list_all valid_event es \<longrightarrow> (\<exists>c'. coverage_run es c = Some c' \<and> length (ct_backend_counts c') = 3
        \<and> (\<forall>i < 3. ct_backend_counts c' ! i = ct_backend_counts c ! i + of_nat (backend_uses i es))
        \<and> ct_dvfs_transitions c' = ct_dvfs_transitions c + of_nat (count_list es Dvfs_transition)
        \<and> ct_thermal_events c' = ct_thermal_events c + of_nat (count_list es Thermal_event)
        \<and> ct_cache_misses c' = ct_cache_misses c + of_nat (count_list es Cache_miss)))"
  using assms
proof (induction es arbitrary: c)
  case (Cons e es)
  show ?case
  proof (cases e)
    case (Backend i)
    show ?thesis
    proof (cases "i < 3")
      case True
      let ?c = "c\<lparr>ct_backend_counts := (ct_backend_counts c)[i := ct_backend_counts c ! i + 1]\<rparr>"
      have "coverage_run (e # es) c = coverage_run es ?c"
        using True Cons.prems by (simp add: Backend note_backend_choice_def)
      then show ?thesis
        using Cons.IH [of ?c] Cons.prems True
        by (auto simp: Backend valid_event_def nth_list_update add.assoc)
    next
      case False
      then show ?thesis using Cons.prems by (simp add: Backend note_backend_choice_def valid_event_def)
    qed
  next
    case Dvfs_transition
    then show ?thesis using Cons.IH [of "note_dvfs_transition c"] Cons.prems
      by (auto simp: note_dvfs_transition_def valid_event_def add.assoc)
  next
    case Thermal_event
    then show ?thesis using Cons.IH [of "note_thermal_event c"] Cons.prems
      by (auto simp: note_thermal_event_def valid_event_def add.assoc)
  next
    case Cache_miss
    then show ?thesis using Cons.IH [of "note_cache_miss c"] Cons.prems
      by (auto simp: note_cache_miss_def valid_event_def add.assoc)
  qed
qed simp

lemma backend_uses_le: "backend_uses i es \<le> length es"
  by (induction i es rule: backend_uses.induct) auto

lemma backend_uses_pos: "0 < backend_uses i es \<longleftrightarrow> Backend i \<in> set es"
  by (induction i es rule: backend_uses.induct) auto

lemma count_list_pos: "0 < count_list es e \<longleftrightarrow> e \<in> set es"
  by (metis count_list_0_iff neq0_conv)

text \<open>The coverage figure. As long as backends are noted by an index below 3 (any other index is
  outside the array) and no event occurs 2^32 times, the figure is a number from 0 to 100, it is 100
  exactly when each of the three backends and each of the three kinds of events has occurred, and 0
  exactly when nothing has.\<close>
theorem coverage_percent_meaning:
  assumes "list_all valid_event es" "length es < 2 ^ 32"
  shows "\<exists>c. coverage_run es coverage_init = Some c
    \<and> fp_le (Fin 0) (path_coverage_percent c) \<and> fp_le (path_coverage_percent c) (Fin 100)
    \<and> (path_coverage_percent c = Fin 100 \<longleftrightarrow>
         {Backend 0, Backend 1, Backend 2, Dvfs_transition, Thermal_event, Cache_miss} \<subseteq> set es)
    \<and> (path_coverage_percent c = Fin 0 \<longleftrightarrow> es = [])"
proof -
  obtain c where run: "coverage_run es coverage_init = Some c" and len: "length (ct_backend_counts c) = 3"
    and counts: "\<forall>i < 3. ct_backend_counts c ! i = of_nat (backend_uses i es)"
      "ct_dvfs_transitions c = of_nat (count_list es Dvfs_transition)"
      "ct_thermal_events c = of_nat (count_list es Thermal_event)"
      "ct_cache_misses c = of_nat (count_list es Cache_miss)"
    using coverage_run_counts [of coverage_init es] assms(1)
    by (auto simp: coverage_init_def less_Suc_eq numeral_3_eq_3)
  have list: "ct_backend_counts c = map (\<lambda>i. of_nat (backend_uses i es)) [0, 1, 2]"
  proof -
    obtain a b d where abd: "ct_backend_counts c = [a, b, d]" using len by (auto simp: numeral_3_eq_3 length_Suc_conv)
    have "ct_backend_counts c ! i = of_nat (backend_uses i es)" if "i < 3" for i using counts(1) that by blast
    from this [of 0] this [of 1] this [of 2] show ?thesis by (simp add: abd)
  qed
  have pos: "(0 < (of_nat n :: u32)) = (0 < n)" if "n \<le> length es" for n
  proof -
    have "n < 4294967296" using that assms(2) by simp
    then have "n mod 4294967296 = n" by simp
    then show ?thesis by (simp add: word_less_nat_alt unat_of_nat)
  qed
  have flags: "(0 < (of_nat (backend_uses i es) :: u32)) = (Backend i \<in> set es)"
    "(0 < (of_nat (count_list es e) :: u32)) = (e \<in> set es)" for i e
    using pos [OF backend_uses_le] pos [OF count_le_length] by (simp_all add: backend_uses_pos count_list_pos)
  define paths where "paths = [Backend 0, Backend 1, Backend 2, Dvfs_transition, Thermal_event, Cache_miss]"
  have cov: "covered_paths c = length (filter (\<lambda>e. e \<in> set es) paths)"
    by (simp add: covered_paths_def list counts(2-4) flags paths_def)
  have pct: "path_coverage_percent c = coverage_at (covered_paths c)"
    using rnd32_nat [of 6] by (simp add: path_coverage_percent_def coverage_at_def len)
  have "covered_paths c \<le> 6" unfolding cov by (rule order_trans [OF length_filter_le]) (simp add: paths_def)
  note vals = coverage_values [OF this]
  have six: "length paths = 6" by (simp add: paths_def)
  have "covered_paths c = 6 \<longleftrightarrow> set paths \<subseteq> set es"
    using length_filter_less [of _ paths "\<lambda>e. e \<in> set es"] six
    unfolding cov by (metis (no_types, lifting) filter_True less_irrefl subset_iff)
  moreover have "covered_paths c = 0 \<longleftrightarrow> es = []"
  proof
    assume "covered_paths c = 0"
    then have "set paths \<inter> set es = {}" by (auto simp: cov filter_empty_conv)
    moreover have "e \<in> set paths" if "e \<in> set es" for e
      using assms(1) that
      by (cases e) (auto simp: list_all_iff valid_event_def paths_def less_Suc_eq numeral_3_eq_3 numeral_2_eq_2)
    ultimately have "e \<notin> set es" for e by (metis Int_iff empty_iff)
    then show "es = []" by (cases es) auto
  qed (simp add: cov)
  ultimately show ?thesis using run vals pct by (simp add: paths_def)
qed

theorem coverage_percent_meaning_witness:
  "\<exists>c. coverage_run [Backend 2, Cache_miss] coverage_init = Some c \<and> path_coverage_percent c \<noteq> Fin 100
     \<and> fp_le (path_coverage_percent c) (Fin 100)"
  using coverage_percent_meaning [of "[Backend 2, Cache_miss]"] by (auto simp: valid_event_def)

end
