(* ===== verification/FloatBits.thy ===== *)
theory FloatBits
  imports IeeeFloat
begin

text \<open>
  The 32-bit words a \<open>float\<close> is in memory: sign bit, eight exponent bits, 23 mantissa bits (binary32).
  \<open>f32_of_bits\<close> is the value of a word. The two zeros have one value in \<open>fp\<close>, and so have all patterns of NaN;
  \<open>f32_bits\<close> picks a word for every value, +0 and the quiet NaN among them. Code that copies floats byte by
  byte copies words, and is modelled on words.

  Every result of rounding is a float (\<open>is_f32\<close>), and the word picked for a float has its value.
\<close>

definition is_f32 :: "fp \<Rightarrow> bool" where
  "is_f32 x = (case x of Fin q \<Rightarrow> rnd32 q = Fin q | _ \<Rightarrow> True)"

section \<open>Writing and reading\<close>

text \<open>Exponent and significand of a positive number: \<open>q = M * 2 powi (e - 23)\<close>.\<close>

definition f32_exp :: "rat \<Rightarrow> int" where
  "f32_exp a = rnd_exp (- 126) a"

definition f32_sig :: "rat \<Rightarrow> nat" where
  "f32_sig a = nat \<lfloor>a / 2 powi (f32_exp a - 23)\<rfloor>"

definition f32_magnitude_bits :: "rat \<Rightarrow> nat" where
  "f32_magnitude_bits a =
     (if a = 0 then 0
      else if f32_sig a < 2 ^ 23 then f32_sig a
      else nat (f32_exp a + 127) * 2 ^ 23 + (f32_sig a - 2 ^ 23))"

fun f32_bits :: "f32 \<Rightarrow> u32" where
  "f32_bits NaN = 0x7FC00000"
| "f32_bits (Inf positive) = (if positive then 0x7F800000 else 0xFF800000)"
| "f32_bits (Fin q) = of_nat (f32_magnitude_bits \<bar>q\<bar> + (if q < 0 then 2 ^ 31 else 0))"

definition f32_magnitude :: "nat \<Rightarrow> rat" where
  "f32_magnitude n =
     (let ef = n div 2 ^ 23; mf = n mod 2 ^ 23
      in if ef = 0 then of_nat mf * 2 powi (- 149) else of_nat (2 ^ 23 + mf) * 2 powi (int ef - 150))"

definition f32_of_bits :: "u32 \<Rightarrow> f32" where
  "f32_of_bits w =
     (let negative = unat w \<ge> 2 ^ 31; n = unat w mod 2 ^ 31
      in if n div 2 ^ 23 = 255 then (if n mod 2 ^ 23 = 0 then Inf (\<not> negative) else NaN)
         else Fin (if negative then - f32_magnitude n else f32_magnitude n))"

section \<open>Rounding produces floats\<close>

lemma rnd_mag_parts:
  assumes "0 < a"
  defines "e \<equiv> rnd_exp (- 126) a"
  obtains M where "rnd_mag 24 (- 126) a = of_int M * 2 powi (e - 23)" "0 \<le> M" "M \<le> 2 ^ 24"
proof -
  let ?u = "(2 :: rat) powi (e - 23)"
  let ?M = "rne (a / ?u)"
  have eq: "rnd_mag 24 (- 126) a = of_int ?M * ?u" by (simp add: rnd_mag_def e_def Let_def)
  have "rnd_mag 24 (- 126) a \<le> 2 powi (e + 1)" using rnd_mag_upper [OF assms(1)] by (simp add: e_def)
  also have "\<dots> = of_int (2 ^ 24) * ?u" by (simp only: powi2_scale) (simp add: algebra_simps)
  finally have "of_int ?M * ?u \<le> of_int (2 ^ 24) * ?u" by (simp only: eq)
  then have "(of_int ?M :: rat) \<le> of_int (2 ^ 24)" by (rule mult_right_le_imp_le) simp
  then have "?M \<le> 2 ^ 24" by (simp only: of_int_le_iff)
  moreover have "0 \<le> ?M" using rne_mono [of 0 "a / ?u"] rne_of_int [of 0] assms(1) by (simp add: less_imp_le)
  ultimately show thesis using that eq by blast
qed

lemma rnd32_is_f32 [simp]: "is_f32 (rnd32 q)"
proof (cases "q = 0")
  case False
  let ?a = "\<bar>q\<bar>" and ?e = "rnd_exp (- 126) \<bar>q\<bar>"
  have a: "0 < ?a" using False by simp
  obtain M where M: "rnd_mag 24 (- 126) ?a = of_int M * 2 powi (?e - 23)" "0 \<le> M" "M \<le> 2 ^ 24"
    using rnd_mag_parts [OF a] by blast
  let ?v = "rnd_mag 24 (- 126) ?a"
  show ?thesis
  proof (cases "(2 :: rat) powi 128 \<le> ?v")
    case False
    let ?w = "sgn q * ?v"
    have over: "\<bar>?w\<bar> < 2 powi (127 + 1)" using False \<open>q \<noteq> 0\<close> rnd_mag_nonneg [OF a] by (simp add: abs_mult)
    obtain m k where mk: "?v = of_int m * 2 powi k" "\<bar>m\<bar> < 2 ^ 24" "- 126 - 23 \<le> k"
    proof (cases "M = 2 ^ 24")
      case True
      then have "?v = of_int (2 ^ 23) * 2 powi (?e - 22)" by (simp only: M powi2_scale) simp
      then show ?thesis using that [of "2 ^ 23" "?e - 22"] by (simp add: rnd_exp_def)
    next
      case False
      then show ?thesis using that [OF M(1)] M by (simp add: rnd_exp_def)
    qed
    let ?s = "if 0 < q then 1 else - 1 :: int"
    have "?w = of_int (?s * m) * 2 powi k" "\<bar>?s * m\<bar> < 2 ^ 24"
      using mk \<open>q \<noteq> 0\<close> by (auto simp: sgn_if)
    from rnd_exact [OF this _ over, of "- 126"] mk(3) have "rnd32 ?w = Fin ?w" by (simp add: rnd32_def)
    with False \<open>q \<noteq> 0\<close> show ?thesis by (simp add: is_f32_def rnd32_def rnd_def Let_def)
  qed (use False in \<open>simp add: is_f32_def rnd32_def rnd_def Let_def\<close>)
qed (simp add: is_f32_def)

lemma is_f32_simps [simp]: "is_f32 NaN" "is_f32 (Inf b)" "is_f32 (Fin 0)" "is_f32 (Fin 1)"
  by (simp_all add: is_f32_def)

lemma is_f32_add [simp]: "is_f32 (f32_add x y)"
  by (cases x; cases y) simp_all

section \<open>Reading what was written\<close>

lemma is_f32_abs: "is_f32 (Fin q) \<Longrightarrow> rnd32 \<bar>q\<bar> = Fin \<bar>q\<bar>"
proof (cases "q = 0")
  case False
  assume "is_f32 (Fin q)"
  then have "\<not> 2 powi 128 \<le> rnd_mag 24 (- 126) \<bar>q\<bar>" "sgn q * rnd_mag 24 (- 126) \<bar>q\<bar> = q"
    using False by (auto simp: is_f32_def rnd32_def rnd_def Let_def split: if_splits)
  moreover from this(2) have "rnd_mag 24 (- 126) \<bar>q\<bar> = \<bar>q\<bar>"
    using False by (auto simp: sgn_if split: if_splits)
  ultimately show ?thesis using False by (simp add: rnd32_def rnd_def Let_def)
qed simp

lemma f32_parts:
  assumes a: "0 < a" and f32: "rnd32 a = Fin a"
  shows "a = of_nat (f32_sig a) * 2 powi (f32_exp a - 23)" "f32_sig a < 2 ^ 24"
    and "- 126 \<le> f32_exp a" "f32_exp a \<le> 127" "f32_sig a < 2 ^ 23 \<Longrightarrow> f32_exp a = - 126"
proof -
  let ?e = "f32_exp a"
  let ?u = "(2 :: rat) powi (?e - 23)"
  let ?R = "rne (a / ?u)"
  have "\<not> 2 powi 128 \<le> rnd_mag 24 (- 126) a" and v: "rnd_mag 24 (- 126) a = a"
    using a f32 by (auto simp: rnd32_def rnd_def Let_def split: if_splits)
  then have max: "a < 2 powi 128" by simp
  have R: "a = of_int ?R * ?u" using v by (simp add: rnd_mag_def f32_exp_def Let_def)
  then have div: "a / ?u = of_int ?R" by (metis nonzero_mult_div_cancel_right powi2_pos less_irrefl)
  have R0: "0 \<le> ?R" using rne_mono [of 0 "a / ?u"] rne_of_int [of 0] a by (simp add: less_imp_le)
  have "\<lfloor>a / ?u\<rfloor> = ?R" using arg_cong [OF div, of floor] by (simp only: floor_of_int)
  then have sig: "f32_sig a = nat ?R" by (simp only: f32_sig_def)
  have "(of_nat (nat ?R) :: rat) = of_int ?R" using R0 by simp
  then show "a = of_nat (f32_sig a) * ?u" by (simp only: sig R [symmetric])
  have ilog: "2 powi ilog2 a \<le> a" "a < 2 powi (ilog2 a + 1)" using ilog2_bounds [OF a] by auto
  have "a < 2 powi (?e + 1)" using ilog(2) by (rule order.strict_trans2) (simp add: f32_exp_def rnd_exp_def)
  also have "\<dots> = of_int (2 ^ 24) * ?u" by (simp only: powi2_scale) (simp add: algebra_simps)
  finally have "of_int ?R * ?u < of_int (2 ^ 24) * ?u" by (simp only: R [symmetric])
  then have "(of_int ?R :: rat) < of_int (2 ^ 24)" by (rule mult_right_less_imp_less) simp
  then have "?R < 2 ^ 24" by (simp only: of_int_less_iff)
  then show "f32_sig a < 2 ^ 24" using R0 by (simp add: sig nat_less_iff)
  show "- 126 \<le> ?e" by (simp add: f32_exp_def rnd_exp_def)
  have "(2 :: rat) powi ilog2 a < 2 powi 128" using ilog(1) max by (rule order.strict_trans1)
  then have "ilog2 a < 128" by (metis not_le powi2_le_iff)
  then show "?e \<le> 127" by (simp add: f32_exp_def rnd_exp_def)
  show "?e = - 126" if "f32_sig a < 2 ^ 23"
  proof (rule ccontr)
    assume "?e \<noteq> - 126"
    then have e: "?e = ilog2 a" by (auto simp: f32_exp_def rnd_exp_def)
    have "of_int (2 ^ 23) * ?u = 2 powi ilog2 a" by (simp only: powi2_scale) (simp add: e)
    also have "\<dots> \<le> of_int ?R * ?u" using ilog(1) by (simp only: R [symmetric])
    finally have "(of_int (2 ^ 23) :: rat) \<le> of_int ?R" by (rule mult_right_le_imp_le) simp
    then have "2 ^ 23 \<le> ?R" by (simp only: of_int_le_iff)
    with that show False by (simp add: sig nat_less_iff)
  qed
qed

lemma magnitude_bits:
  assumes "0 \<le> a" "rnd32 a = Fin a"
  shows "f32_magnitude_bits a < 255 * 2 ^ 23" "f32_magnitude (f32_magnitude_bits a) = a"
proof -
  consider "a = 0" | (subnormal) "0 < a" "f32_sig a < 2 ^ 23" | (normal) "0 < a" "2 ^ 23 \<le> f32_sig a"
    using assms(1) by linarith
  then have "f32_magnitude_bits a < 255 * 2 ^ 23 \<and> f32_magnitude (f32_magnitude_bits a) = a"
  proof cases
    case subnormal
    then show ?thesis
      using f32_parts [OF subnormal(1) assms(2)] by (simp add: f32_magnitude_bits_def f32_magnitude_def)
  next
    case normal
    note parts = f32_parts [OF normal(1) assms(2)]
    let ?ef = "nat (f32_exp a + 127)" and ?mf = "f32_sig a - 2 ^ 23"
    have mf: "?mf < 2 ^ 23" using parts(2) normal by simp
    have ef: "1 \<le> ?ef" "?ef \<le> 254" "int ?ef - 150 = f32_exp a - 23" using parts by auto
    have n: "f32_magnitude_bits a = ?ef * 2 ^ 23 + ?mf" using normal by (simp add: f32_magnitude_bits_def)
    have parts_of_n: "f32_magnitude_bits a div 2 ^ 23 = ?ef" "f32_magnitude_bits a mod 2 ^ 23 = ?mf"
      unfolding n using mf by simp_all
    have "?ef \<noteq> 0" "2 ^ 23 + ?mf = f32_sig a" using ef(1) normal by simp_all
    then have "f32_magnitude (f32_magnitude_bits a) = of_nat (f32_sig a) * 2 powi (f32_exp a - 23)"
      by (simp only: f32_magnitude_def Let_def parts_of_n ef(3) if_False)
    then have "f32_magnitude (f32_magnitude_bits a) = a" by (simp only: parts(1) [symmetric])
    moreover have "?ef * 2 ^ 23 + ?mf < 255 * 2 ^ 23"
      using mf mult_le_mono1 [OF ef(2), of "2 ^ 23"] by linarith
    ultimately show ?thesis using n by simp
  qed (simp add: f32_magnitude_bits_def f32_magnitude_def)
  then show "f32_magnitude_bits a < 255 * 2 ^ 23" "f32_magnitude (f32_magnitude_bits a) = a" by blast+
qed

theorem f32_bits_roundtrip:
  assumes "is_f32 x"
  shows "f32_of_bits (f32_bits x) = x"
proof (cases x)
  case (Fin q)
  let ?n = "f32_magnitude_bits \<bar>q\<bar>"
  have n: "?n < 255 * 2 ^ 23" "f32_magnitude ?n = \<bar>q\<bar>"
    using magnitude_bits [of "\<bar>q\<bar>"] is_f32_abs assms Fin by simp_all
  have "unat (f32_bits x) = ?n + (if q < 0 then 2 ^ 31 else 0)"
    unfolding Fin f32_bits.simps using n(1) by (subst unat_of_nat) simp
  moreover have "?n div 2 ^ 23 < 255" using n(1) by (simp add: div_less_iff_less_mult)
  ultimately show ?thesis using n by (auto simp: f32_of_bits_def Let_def Fin)
qed (simp_all add: f32_of_bits_def Let_def)

end
