(* ===== verification/MlCheckpoint.thy ===== *)
theory MlCheckpoint
  imports Ml FloatBits
begin

text \<open>
  Checkpoint files of the backend chooser: \<open>checkpoint\<close> and \<open>restore\<close> of
  \<open>src/synapse/ml/ml_sub_api.h\<close>. Both copy the object representation of the 24 weights, so the chooser
  carries it here: \<open>ml_words\<close> holds the 32-bit words in memory, and \<open>words_represent\<close> says that the weights the
  chooser computes with are their values. Words that differ in the sign of a zero or in the payload of a NaN
  have the same value; what is shown of a checkpoint is shown of the words. \<open>restore\<close> reads into an array of
  zeros and does not look at how much it read.
\<close>

record StoredMLSubAPI = MLSubAPI +
  ml_words :: "u32 list list"

definition words_represent :: "StoredMLSubAPI \<Rightarrow> bool" where
  "words_represent m \<longleftrightarrow> grid (ml_words m) \<and> cb_weights (ml_bandit m) = map (map f32_of_bits) (ml_words m)"

text \<open>A new chooser, from the words of the initial weights.\<close>

definition stored_ml_init :: "u32 list list \<Rightarrow> Experience list \<Rightarrow> StoredMLSubAPI" where
  "stored_ml_init ws ring = MLSubAPI.extend (ml_init (map (map f32_of_bits) ws) ring) \<lparr>ml_words = ws\<rparr>"

definition checkpoint_image :: "u32 list \<Rightarrow> bytes" where
  "checkpoint_image ws = concat (map le32 ws)"

definition ml_checkpoint :: "bool \<Rightarrow> StoredMLSubAPI \<Rightarrow> bytes option \<Rightarrow> bytes option" where
  "ml_checkpoint can_open m file = (if can_open then Some (checkpoint_image (flatten_weights (ml_words m))) else file)"

definition read_weights :: "bytes \<Rightarrow> u32 list" where
  "read_weights bs =
     (let image = take 96 bs @ replicate (96 - length bs) 0
      in map (\<lambda>i. of_le32 (drop (4 * i) image)) [0..<24])"

definition ml_restore :: "bytes option \<Rightarrow> StoredMLSubAPI \<Rightarrow> StoredMLSubAPI" where
  "ml_restore file m =
     (case file of
        None \<Rightarrow> m
      | Some bs \<Rightarrow> let w = read_weights bs
                   in m\<lparr>ml_bandit := load_weights (map f32_of_bits w) (ml_bandit m), ml_words := shape_weights w\<rparr>)"

section \<open>Lemmas\<close>

lemma length_checkpoint_image [simp]: "length (checkpoint_image ws) = 4 * length ws"
  by (induction ws) (simp_all add: checkpoint_image_def)

lemma length_read_weights [simp]: "length (read_weights bs) = 24"
  by (simp add: read_weights_def)

lemma drop_checkpoint_image: "drop (4 * i) (checkpoint_image ws) = checkpoint_image (drop i ws)"
proof (induction ws arbitrary: i)
  case (Cons w ws)
  then show ?case by (cases i) (simp_all add: checkpoint_image_def)
qed (simp add: checkpoint_image_def)

lemma take_checkpoint_image: "take (4 * i) (checkpoint_image ws) = checkpoint_image (take i ws)"
proof (induction ws arbitrary: i)
  case (Cons w ws)
  then show ?case by (cases i) (simp_all add: checkpoint_image_def)
qed (simp add: checkpoint_image_def)

lemma zero_word_image: "4 \<le> n \<Longrightarrow> of_le32 (replicate n 0) = 0"
proof -
  assume "4 \<le> n"
  moreover have "le32 0 = replicate 4 0" by code_simp
  ultimately have "replicate n 0 = le32 0 @ replicate (n - 4) 0" by (simp add: replicate_add [symmetric])
  then show ?thesis by simp
qed

lemma f32_of_zero_word [simp]: "f32_of_bits 0 = Fin 0"
  by (simp add: f32_of_bits_def f32_magnitude_def)

text \<open>Reading the first \<open>n\<close> words of an image of 24 gives these and zeros.\<close>

lemma read_weights_prefix:
  assumes "length ws = 24" "n \<le> 24"
  shows "read_weights (take (4 * n) (checkpoint_image ws)) = take n ws @ replicate (24 - n) 0"
proof (rule nth_equalityI)
  let ?image = "checkpoint_image (take n ws) @ replicate (96 - 4 * n) 0"
  have bs: "take (4 * n) (checkpoint_image ws) = checkpoint_image (take n ws)" by (rule take_checkpoint_image)
  show "length (read_weights (take (4 * n) (checkpoint_image ws))) = length (take n ws @ replicate (24 - n) 0)"
    using assms by simp
  fix i
  assume "i < length (read_weights (take (4 * n) (checkpoint_image ws)))"
  then have i: "i < 24" by simp
  have "read_weights (take (4 * n) (checkpoint_image ws)) ! i = of_le32 (drop (4 * i) ?image)"
    using assms i by (simp add: read_weights_def bs Let_def)
  also have "\<dots> = (take n ws @ replicate (24 - n) 0) ! i"
  proof (cases "i < n")
    case True
    have "drop (4 * i) ?image = checkpoint_image (drop i (take n ws)) @ replicate (96 - 4 * n) 0"
      using True assms drop_checkpoint_image [of i "take n ws"] by simp
    also have "drop i (take n ws) = ws ! i # drop (Suc i) (take n ws)"
      using True assms by (subst Cons_nth_drop_Suc [symmetric]) simp_all
    finally have "of_le32 (drop (4 * i) ?image) = ws ! i" by (simp add: checkpoint_image_def)
    then show ?thesis using True assms by (simp add: nth_append)
  next
    case False
    then have "drop (4 * i) ?image = replicate (96 - 4 * i) 0" using assms by simp
    moreover have "4 \<le> 96 - 4 * i" using i by simp
    ultimately show ?thesis using False assms i by (simp add: nth_append zero_word_image)
  qed
  finally show "read_weights (take (4 * n) (checkpoint_image ws)) ! i = (take n ws @ replicate (24 - n) 0) ! i" .
qed

lemma read_weights_image: "length ws = 24 \<Longrightarrow> read_weights (checkpoint_image ws @ junk) = ws"
  using read_weights_prefix [of ws 24] by (simp add: read_weights_def)

lemma restored_words_represent: "words_represent (ml_restore (Some bs) m)"
  by (simp add: words_represent_def ml_restore_def load_weights_def map_shape_weights Let_def)

text \<open>There are such words for whatever a chooser learns: its weights start as floats, and every observation rounds.\<close>

datatype bandit_call =
    Observe_call ExecutionBackend f32 features8
  | Learning_rate f32
  | Epsilon f32
  | Freeze
  | Unfreeze

fun bandit_do :: "bandit_call \<Rightarrow> ContextualBandit \<Rightarrow> ContextualBandit" where
  "bandit_do (Observe_call a r f) b = bandit_observe a r f b"
| "bandit_do (Learning_rate x) b = set_learning_rate x b"
| "bandit_do (Epsilon x) b = set_epsilon x b"
| "bandit_do Freeze b = bandit_freeze b"
| "bandit_do Unfreeze b = bandit_unfreeze b"

fun eight_features :: "bandit_call \<Rightarrow> bool" where
  "eight_features (Observe_call a r f) = (length f = 8)"
| "eight_features c = True"

definition float_weights :: "ContextualBandit \<Rightarrow> bool" where
  "float_weights b \<longleftrightarrow> bandit_ok b \<and> list_all (list_all is_f32) (cb_weights b)"

lemma float_weights_observe:
  assumes "float_weights b" "length f = 8"
  shows "float_weights (bandit_observe a r f b)"
proof -
  have row: "list_all is_f32 (map2 (\<lambda>wj fj. f32_add wj (g fj)) w f)" for w g
    by (simp add: list_all_length)
  have rows: "list_all (list_all is_f32) ((cb_weights b)[backend_to_index a := map2 (\<lambda>wj fj. f32_add wj (g fj)) w f])" for w g
    using assms(1) row by (auto simp: float_weights_def list_all_iff dest!: set_update_subset_insert [THEN subsetD])
  show ?thesis
    using assms bandit_ok_observe [of b f a r] rows by (simp add: float_weights_def bandit_observe_def Let_def)
qed

lemma float_weights_do: "float_weights b \<Longrightarrow> eight_features c \<Longrightarrow> float_weights (bandit_do c b)"
  by (cases c)
    (simp_all add: float_weights_observe, simp_all add: float_weights_def bandit_ok_def set_learning_rate_def set_epsilon_def
      bandit_freeze_def bandit_unfreeze_def)

lemma float_weights_run: "float_weights b \<Longrightarrow> list_all eight_features cs \<Longrightarrow> float_weights (fold bandit_do cs b)"
  by (induction cs arbitrary: b) (simp_all add: float_weights_do)

lemma float_weights_represented:
  assumes "float_weights (ml_bandit m)"
  shows "\<exists>ws. words_represent (MLSubAPI.extend m \<lparr>ml_words = ws\<rparr>)"
proof (rule exI)
  let ?w = "cb_weights (ml_bandit m)"
  have w: "list_all (list_all is_f32) ?w" "grid ?w"
    using assms by (simp_all add: float_weights_def bandit_ok_def grid_def list_all_iff)
  have "map (map f32_of_bits) (map (map f32_bits) ?w) = ?w"
    using w(1) by (auto simp: list_all_iff f32_bits_roundtrip intro!: map_idI)
  moreover have "grid (map (map f32_bits) ?w)" using w(2) by (simp add: grid_def list_all_iff)
  ultimately show "words_represent (MLSubAPI.extend m \<lparr>ml_words = map (map f32_bits) ?w\<rparr>)"
    by (simp add: words_represent_def MLSubAPI.defs)
qed

text \<open>A NaN with a payload and the negative zero are words of their own.\<close>

lemma words_with_one_value:
  "f32_of_bits 0x80000000 = f32_of_bits 0" "f32_of_bits 0x7FC00001 = f32_of_bits 0xFFC00000"
  by (simp_all add: f32_of_bits_def f32_magnitude_def Let_def)

section \<open>Properties\<close>

text \<open>C22: Checkpoints. Whatever 24 words the weights of a chooser are in memory, bit patterns included (the sign of
  a zero, the payload of a NaN), restoring the file it wrote puts exactly these words into any other chooser
  and makes its weights their values, and nothing else of that chooser changes; bytes after the image do not
  matter. A file cut off after \<open>n\<close> weights (4 \<open>n\<close> bytes) is restored without complaint: the first \<open>n\<close> words
  come back and the others are zero. A chooser that cannot open the file leaves it, and a missing file leaves
  the chooser.\<close>
theorem checkpoint_restore:
  assumes "words_represent m" "n \<le> 24"
  shows "let file' = ml_checkpoint True m file;
             whole = ml_restore (map_option (\<lambda>bs. bs @ junk) file') m';
             cut = ml_restore (map_option (take (4 * n)) file') m'
         in ml_words whole = ml_words m \<and> ml_bandit whole = (ml_bandit m')\<lparr>cb_weights := cb_weights (ml_bandit m)\<rparr>
           \<and> whole = m'\<lparr>ml_bandit := ml_bandit whole, ml_words := ml_words whole\<rparr>
           \<and> flatten_weights (ml_words cut) = take n (flatten_weights (ml_words m)) @ replicate (24 - n) 0
           \<and> save_weights (ml_bandit cut) = take n (save_weights (ml_bandit m)) @ replicate (24 - n) (Fin 0)
           \<and> words_represent whole \<and> words_represent cut
           \<and> ml_checkpoint False m file = file \<and> ml_restore None m' = m'"
proof -
  let ?w = "flatten_weights (ml_words m)"
  have m: "grid (ml_words m)" "cb_weights (ml_bandit m) = map (map f32_of_bits) (ml_words m)"
    using assms(1) by (simp_all add: words_represent_def)
  have whole: "ml_restore (map_option (\<lambda>bs. bs @ junk) (ml_checkpoint True m file)) m'
      = m'\<lparr>ml_bandit := load_weights (map f32_of_bits ?w) (ml_bandit m'), ml_words := ml_words m\<rparr>"
    by (simp add: ml_checkpoint_def ml_restore_def read_weights_image shape_flatten [OF m(1)])
  have vals: "load_weights (map f32_of_bits ?w) (ml_bandit m') = (ml_bandit m')\<lparr>cb_weights := cb_weights (ml_bandit m)\<rparr>"
    unfolding load_weights_def m(2) by (simp add: map_shape_weights [symmetric] shape_flatten [OF m(1)])
  let ?v = "take n ?w @ replicate (24 - n) 0"
  have cut: "ml_restore (map_option (take (4 * n)) (ml_checkpoint True m file)) m'
      = m'\<lparr>ml_bandit := load_weights (map f32_of_bits ?v) (ml_bandit m'), ml_words := shape_weights ?v\<rparr>"
    using read_weights_prefix [of ?w n] assms(2) by (simp add: ml_checkpoint_def ml_restore_def)
  have len: "length ?v = 24" using assms(2) by simp
  have "map f32_of_bits ?v = take n (save_weights (ml_bandit m)) @ replicate (24 - n) (Fin 0)"
    by (simp add: save_weights_def m(2) map_flatten_weights [OF m(1), symmetric] take_map)
  moreover have "save_weights (load_weights (map f32_of_bits ?v) (ml_bandit m')) = map f32_of_bits ?v"
    using len by (simp add: save_weights_def load_weights_def flatten_shape del: map_append)
  moreover have "words_represent (ml_restore (map_option (take (4 * n)) (ml_checkpoint True m file)) m')"
    by (simp add: ml_checkpoint_def restored_words_represent)
  ultimately show ?thesis
    using assms(1) flatten_shape [OF len] unfolding Let_def whole cut vals
    by (simp add: words_represent_def m(2)) (simp add: ml_checkpoint_def ml_restore_def)
qed

definition demo_words :: "u32 list list" where
  "demo_words = [[0x80000000, 0x7FC00001, 0x3F800000, 1, 0, 0, 0, 0], replicate 8 0x3DCCCCCD, replicate 8 0xFF800000]"

theorem checkpoint_restore_witness:
  "let m = stored_ml_init demo_words []; m' = stored_ml_init (replicate 3 (replicate 8 0)) [];
       cut = ml_restore (map_option (take (4 * 2)) (ml_checkpoint True m None)) m'
   in ml_words (ml_restore (ml_checkpoint True m None) m') = demo_words
     \<and> flatten_weights (ml_words cut) = [0x80000000, 0x7FC00001] @ replicate 22 0"
proof -
  let ?m = "stored_ml_init demo_words []" and ?m' = "stored_ml_init (replicate 3 (replicate 8 0)) []"
  have rep: "words_represent ?m"
    by (simp add: words_represent_def stored_ml_init_def MLSubAPI.defs ml_init_def bandit_init_def grid_def demo_words_def)
  have words: "ml_words ?m = demo_words" by (simp add: stored_ml_init_def MLSubAPI.defs)
  have two: "take 2 (flatten_weights demo_words) = [0x80000000, 0x7FC00001]"
    by (simp add: flatten_weights_def demo_words_def upt_rec)
  have id: "map_option (\<lambda>bs. bs @ []) b = b" for b :: "bytes option" by (cases b) simp_all
  show ?thesis
    using checkpoint_restore [OF rep, of 2 None "[]" ?m'] unfolding Let_def id words two by simp
qed

end
