(* ===== verification/Paths.thy ===== *)
theory Paths
  imports Prelude "HOL-Library.Sublist"
begin

text \<open>
  Where the program keeps its files. \<open>layer_entry.cpp\<close> chooses the data directory from the environment;
  \<open>synapse_core.cpp\<close> and \<open>recovery/crash_recovery.h\<close> put the report, the configuration, the log and the
  metadata into it, and the layer the user profile. The other theories take the contents of these files
  as arguments; here are their names. A path is a string of bytes; \<open>std::filesystem::path\<close> is used by
  the program only to append one plain file name, which is \<open>path_append\<close>.
\<close>

text \<open>The two ways the program is built: for Windows or for POSIX systems.\<close>
datatype platform = Windows | Posix

fun is_separator :: "platform \<Rightarrow> char \<Rightarrow> bool" where
  "is_separator Windows ch \<longleftrightarrow> ch = CHR 0x2F \<or> ch = CHR 0x5C"
| "is_separator Posix ch \<longleftrightarrow> ch = CHR 0x2F"

fun preferred_separator :: "platform \<Rightarrow> char" where
  "preferred_separator Windows = CHR 0x5C"
| "preferred_separator Posix = CHR 0x2F"

text \<open>\<open>path / name\<close> for a plain file name: a separator is put in between unless the path is empty, ends
  in one, or is a bare drive letter.\<close>
definition path_append :: "platform \<Rightarrow> string \<Rightarrow> string \<Rightarrow> string" where
  "path_append pf dir name =
     (if dir = [] \<or> is_separator pf (last dir) \<or> (pf = Windows \<and> length dir = 2 \<and> last dir = CHR 0x3A)
      then dir @ name else dir @ [preferred_separator pf] @ name)"

text \<open>The choice of \<open>vkCreateDevice\<close>: the override if it is set and not empty, else a directory below
  the user's, else the current directory.\<close>
fun layer_data_dir :: "platform \<Rightarrow> (string \<Rightarrow> string option) \<Rightarrow> string" where
  "layer_data_dir pf getenv =
     (case getenv ''SYNAPSE_DATA_DIR'' of
        Some (c # cs) \<Rightarrow> c # cs
      | _ \<Rightarrow> (case pf of
           Windows \<Rightarrow> (case getenv ''LOCALAPPDATA'' of
               Some appdata \<Rightarrow> appdata @ [CHR 0x5C] @ ''SynapseLayer'' | None \<Rightarrow> ''.'')
         | Posix \<Rightarrow> (case getenv ''HOME'' of
               Some home \<Rightarrow> home @ ''/.synapse'' | None \<Rightarrow> ''.'')))"

definition report_path :: "string \<Rightarrow> string" where
  "report_path data_dir = (if data_dir = [] then ''report.json'' else data_dir @ ''/report.json'')"

definition config_path :: "platform \<Rightarrow> string \<Rightarrow> string" where
  "config_path pf data_dir = path_append pf data_dir ''config.toml''"

definition metadata_path :: "string \<Rightarrow> string" where
  "metadata_path data_directory = data_directory @ ''/synapse_recovery.meta''"

definition wal_path :: "string \<Rightarrow> string" where
  "wal_path data_directory = data_directory @ ''/synapse.wal''"

definition profile_path :: "platform \<Rightarrow> string \<Rightarrow> string" where
  "profile_path pf data_dir = path_append pf data_dir ''user_profile.dat''"

text \<open>\<open>try_attach_d3d12_helper\<close>: the library next to the executable. \<open>find_last_of\<close> is the length of
  what remains after dropping the last component.\<close>
definition helper_library_path :: "string \<Rightarrow> string" where
  "helper_library_path exe =
     (let dir = rev (dropWhile (\<lambda>ch. ch \<noteq> CHR 0x5C \<and> ch \<noteq> CHR 0x2F) (rev exe))
      in (if dir \<noteq> [] then dir else exe) @ ''SynapseD3D12Helper.dll'')"

section \<open>What holds of the names\<close>

lemma path_append_last [simp]:
  "name \<noteq> [] \<Longrightarrow> last (path_append pf dir name) = last name"
  by (simp add: path_append_def)

text \<open>A directory chosen by the layer is never empty, so the constructor's case for an empty one is for
  other callers only.\<close>
lemma layer_data_dir_nonempty [simp]: "layer_data_dir pf getenv \<noteq> []"
  by (simp split: option.split list.split platform.split)

text \<open>Which of the files lie in the data directory: all of them when the name is not empty. When it is
  empty the report, the configuration and the profile are in the current directory, but the log and the
  metadata are in the root of the file system, because only the report's path has a case for it.\<close>
theorem data_files_location:
  "data_dir \<noteq> [] \<Longrightarrow> list_all (prefix data_dir)
     [report_path data_dir, config_path pf data_dir, metadata_path data_dir, wal_path data_dir,
      profile_path pf data_dir]"
  "[report_path [], config_path pf [], profile_path pf []] = [''report.json'', ''config.toml'', ''user_profile.dat'']"
  "[metadata_path [], wal_path []] = [''/synapse_recovery.meta'', ''/synapse.wal'']"
  by (simp_all add: report_path_def config_path_def metadata_path_def wal_path_def profile_path_def
      path_append_def)

text \<open>No file of one component is the file of another, whatever the directory.\<close>
theorem data_files_distinct:
  "distinct [report_path d, config_path pf d, metadata_path d, wal_path d, profile_path pf d]"
proof -
  have "distinct (map (\<lambda>p. (last p, last (butlast p)))
      [report_path d, config_path pf d, metadata_path d, wal_path d, profile_path pf d])"
    by (simp add: report_path_def config_path_def metadata_path_def wal_path_def profile_path_def path_append_def
        butlast_append)
  then show ?thesis by (simp only: distinct_map)
qed

text \<open>The helper is looked for in the directory of the executable: the part of the path up to its last
  separator, and with no separator the name of the executable stays in front of the library's.\<close>
theorem helper_beside_executable:
  assumes "sep = CHR 0x2F \<or> sep = CHR 0x5C" "CHR 0x2F \<notin> set exe" "CHR 0x5C \<notin> set exe"
  shows "helper_library_path (dir @ [sep] @ exe) = dir @ [sep] @ ''SynapseD3D12Helper.dll''"
    and "helper_library_path exe = exe @ ''SynapseD3D12Helper.dll''"
proof -
  have skip: "dropWhile (\<lambda>ch. ch \<noteq> CHR 0x5C \<and> ch \<noteq> CHR 0x2F) (rev exe @ rest)
      = dropWhile (\<lambda>ch. ch \<noteq> CHR 0x5C \<and> ch \<noteq> CHR 0x2F) rest" for rest
    using assms(2,3) by (intro dropWhile_append2) auto
  show "helper_library_path (dir @ [sep] @ exe) = dir @ [sep] @ ''SynapseD3D12Helper.dll''"
    using assms(1) by (auto simp: helper_library_path_def skip)
  show "helper_library_path exe = exe @ ''SynapseD3D12Helper.dll''"
    using skip [of "[]"] by (simp add: helper_library_path_def)
qed

end
