(* ===== verification/Cli.thy ===== *)
theory Cli
  imports TestApi MlCheckpoint Paths
begin

text \<open>
  The command line tool, \<open>src/synapse/tools/synapse_cli.cpp\<close>: argument parsing, the subcommands, the
  benchmark's rows, the files it writes and removes, and the exit status. What the process takes from outside
  is \<open>cli_env\<close>: the random initial weights (as words in memory), the file tree and what the system permits in it,
  the clocks (the elapsed milliseconds of the five benchmarks and the time stamps of the log records) and the
  C library's rendering of a floating-point value by a conversion such as \<open>%7.1f\<close>. A run whose behaviour is
  undefined (an index outside the weights, a number outside \<open>int\<close>) is \<open>None\<close>. A file-system exception leaves
  \<open>main\<close>: the process is aborted, without running destructors (implementation-defined; so it is with GCC when no
  handler exists), and what was printed may still be in the stream's buffer.
\<close>

section \<open>The file tree\<close>

text \<open>Files with their contents, and directories, by path. Two paths that are spelled differently are different (no
  symbolic links, no dot components); \<open>lies_in d p\<close> says that \<open>p\<close> is \<open>d\<close> or lies below it.\<close>

record file_tree =
  ft_file :: "string \<Rightarrow> bytes option"
  ft_dir :: "string \<Rightarrow> bool"

definition lies_in :: "string \<Rightarrow> string \<Rightarrow> bool" where
  "lies_in d p \<longleftrightarrow> prefix (d @ ''/'') (p @ ''/'')"

definition delete_where :: "(string \<Rightarrow> bool) \<Rightarrow> file_tree \<Rightarrow> file_tree" where
  "delete_where P t = \<lparr>ft_file = (\<lambda>p. if P p then None else ft_file t p), ft_dir = (\<lambda>p. ft_dir t p \<and> \<not> P p)\<rparr>"

section \<open>Numbers on the command line\<close>

definition in_int :: "int \<Rightarrow> bool" where
  "in_int n \<longleftrightarrow> - (2 ^ 31) \<le> n \<and> n < 2 ^ 31"

definition atoi :: "string \<Rightarrow> int option" where
  "atoi s =
     (let s = dropWhile is_space s;
          neg = (s \<noteq> [] \<and> hd s = CHR ''-'');
          s = (if s \<noteq> [] \<and> (hd s = CHR ''-'' \<or> hd s = CHR ''+'') then tl s else s);
          n = int (digits_value (takeWhile is_digit s));
          n = (if neg then - n else n)
      in if in_int n then Some n else None)"

definition show_int :: "int \<Rightarrow> string" where
  "show_int n = (if n < 0 then ''-'' @ to_string (nat (- n)) else to_string (nat n))"

text \<open>The conversion \<open>%8d\<close>.\<close>

definition pad8 :: "int \<Rightarrow> string" where
  "pad8 n = replicate (8 - length (show_int n)) CHR '' '' @ show_int n"

section \<open>The benchmark\<close>

record BenchResult =
  br_name :: string
  br_total_ms :: f64
  br_per_op :: f64
  br_passed :: bool

text \<open>\<open>cl_temp\<close> is what \<open>temp_directory_path\<close> returns, if it does not throw; \<open>cl_can_write\<close>, \<open>cl_can_mkdir\<close> and
  \<open>cl_can_remove\<close> say what the system permits (opening a file for writing, creating a directory, removing an
  entry, which must be empty if it is a directory). \<open>cl_stuck d\<close> is \<open>None\<close> if \<open>remove_all\<close> of the directory \<open>d\<close> goes
  through, and otherwise which entries it has removed when it throws.\<close>

record cli_env =
  cl_weights :: "u32 list list"
  cl_replay :: "Experience list"
  cl_tree :: file_tree
  cl_temp :: "string option"
  cl_can_write :: "string \<Rightarrow> bool"
  cl_can_mkdir :: "string \<Rightarrow> bool"
  cl_can_remove :: "string \<Rightarrow> bool"
  cl_stuck :: "string \<Rightarrow> (string \<Rightarrow> bool) option"
  cl_now :: "nat \<Rightarrow> nat \<Rightarrow> u64"
  cl_elapsed :: "nat \<Rightarrow> f64"
  cl_fmt :: "string \<Rightarrow> f64 \<Rightarrow> string"
  cl_show_float :: "f32 \<Rightarrow> string"

definition f64_of_int :: "int \<Rightarrow> f64" where
  "f64_of_int n = rnd64 (of_int n)"

definition arrow :: string where
  "arrow = '' '' @ [CHR 0xE2, CHR 0x86, CHR 0x92] @ '' ''"

definition mu :: string where
  "mu = [CHR 0xCE, CHR 0xBC]"

definition verdict :: "bool \<Rightarrow> string" where
  "verdict ok = (if ok then ''PASS'' else ''FAIL'')"

definition bench_row :: "cli_env \<Rightarrow> string \<Rightarrow> int \<Rightarrow> string \<Rightarrow> string \<Rightarrow> BenchResult \<Rightarrow> string" where
  "bench_row env label iterations unit extra r =
     label @ pad8 iterations @ '' ops in '' @ cl_fmt env ''%7.1f'' (br_total_ms r) @ '' ms '' @ arrow
     @ cl_fmt env ''%7.1f'' (br_per_op r) @ '' '' @ unit @ ''/op   '' @ extra @ verdict (br_passed r) @ [newline]"

definition per_op :: "f64 \<Rightarrow> f64 \<Rightarrow> int \<Rightarrow> f64" where
  "per_op scale ms iterations = f64_div (f64_mul ms scale) (f64_of_int iterations)"

definition bench_result :: "string \<Rightarrow> rat \<Rightarrow> rat \<Rightarrow> f64 \<Rightarrow> int \<Rightarrow> BenchResult" where
  "bench_result name scale limit ms iterations =
     (let t = per_op (Fin scale) ms iterations
      in \<lparr>br_name = name, br_total_ms = ms, br_per_op = t, br_passed = fp_lt t (Fin limit)\<rparr>)"

text \<open>The library's operations on the tree. An exception is the left side, with the tree as it is then.\<close>

definition create_directories :: "cli_env \<Rightarrow> string \<Rightarrow> file_tree \<Rightarrow> file_tree + file_tree" where
  "create_directories env p t =
     (if ft_dir t p then Inr t
      else if ft_file t p \<noteq> None \<or> \<not> cl_can_mkdir env p then Inl t
      else Inr (t\<lparr>ft_dir := (ft_dir t)(p := True)\<rparr>))"

definition fs_remove :: "cli_env \<Rightarrow> string \<Rightarrow> file_tree \<Rightarrow> file_tree + file_tree" where
  "fs_remove env p t =
     (if ft_file t p = None \<and> \<not> ft_dir t p then Inr t
      else if \<not> cl_can_remove env p then Inl t
      else Inr (t\<lparr>ft_file := (ft_file t)(p := None), ft_dir := (ft_dir t)(p := False)\<rparr>))"

definition fs_remove_all :: "cli_env \<Rightarrow> string \<Rightarrow> file_tree \<Rightarrow> file_tree + file_tree" where
  "fs_remove_all env d t =
     (case cl_stuck env d of
        None \<Rightarrow> Inr (delete_where (lies_in d) t)
      | Some gone \<Rightarrow> Inl (delete_where (\<lambda>p. lies_in d p \<and> gone p) t))"

text \<open>The log of a telemetry object is a file of the tree; it can be opened while its directory exists.\<close>

definition log_disk :: "cli_env \<Rightarrow> string \<Rightarrow> string \<Rightarrow> file_tree \<Rightarrow> wal_disk" where
  "log_disk env dir wal t = \<lparr>wal_bytes = ft_file t wal, wal_readable = True, wal_writable = ft_dir t dir \<and> cl_can_write env wal\<rparr>"

definition put_log :: "string \<Rightarrow> wal_disk \<Rightarrow> file_tree \<Rightarrow> file_tree" where
  "put_log wal d t = t\<lparr>ft_file := (ft_file t)(wal := wal_bytes d)\<rparr>"

text \<open>A run in progress: the results, the text and the tree so far. A step may throw, which ends the run.\<close>

record bench_run =
  bn_results :: "BenchResult list"
  bn_text :: string
  bn_tree :: file_tree

fun bench_steps :: "(bench_run \<Rightarrow> bench_run + bench_run) list \<Rightarrow> bench_run \<Rightarrow> bench_run + bench_run" where
  "bench_steps [] s = Inr s"
| "bench_steps (f # fs) s = (case f s of Inl s \<Rightarrow> Inl s | Inr s \<Rightarrow> bench_steps fs s)"

definition report_row :: "BenchResult \<Rightarrow> string \<Rightarrow> bench_run \<Rightarrow> bench_run" where
  "report_row r row s = s\<lparr>bn_results := bn_results s @ [r], bn_text := bn_text s @ row\<rparr>"

definition bench_call :: "u64 \<Rightarrow> wal_call" where
  "bench_call now = \<lparr>wc_now = now, wc_type = Ev_DrawIndexed, wc_payload = None, wc_size = 0\<rparr>"

text \<open>A benchmark with a log of its own: \<open>n\<close> records are written, the row is printed, the shutdown marker is
  suppressed and the directory is removed; the destructor runs after that.\<close>

definition log_block :: "cli_env \<Rightarrow> nat \<Rightarrow> string \<Rightarrow> string \<Rightarrow> nat \<Rightarrow> BenchResult \<Rightarrow> string \<Rightarrow> bench_run \<Rightarrow> bench_run + bench_run" where
  "log_block env k dir_name file_name n r row s =
     (case cl_temp env of
        None \<Rightarrow> Inl s
      | Some tmp \<Rightarrow>
          let dir = path_append Posix tmp dir_name; wal = path_append Posix dir file_name
          in (case create_directories env dir (bn_tree s) of
                Inl t \<Rightarrow> Inl (s\<lparr>bn_tree := t\<rparr>)
              | Inr t \<Rightarrow>
                  (case fs_remove env wal t of
                     Inl t \<Rightarrow> Inl (s\<lparr>bn_tree := t\<rparr>)
                   | Inr t \<Rightarrow>
                       let tel = fold run_write (map (\<lambda>i. bench_call (cl_now env k i)) [0..<n]) (telemetry_init (log_disk env dir wal t));
                           s = report_row r row (s\<lparr>bn_tree := put_log wal (tl_disk tel) t\<rparr>);
                           tel = simulate_crash tel
                       in (case fs_remove_all env dir (bn_tree s) of
                             Inl t \<Rightarrow> Inl (s\<lparr>bn_tree := t\<rparr>)
                           | Inr t \<Rightarrow>
                               let tel = telemetry_close (cl_now env k n) (tel\<lparr>tl_disk := log_disk env dir wal t\<rparr>)
                               in Inr (s\<lparr>bn_tree := put_log wal (tl_disk tel) t\<rparr>)))))"

text \<open>The five results.\<close>

definition bench_results :: "cli_env \<Rightarrow> int \<Rightarrow> BenchResult list" where
  "bench_results env iterations =
     [bench_result ''config_read'' 1000000 1000 (cl_elapsed env 0) iterations,
      bench_result ''degrade_check'' 1000000 1000 (cl_elapsed env 1) iterations,
      bench_result ''wal_write'' 1000 50 (cl_elapsed env 2) iterations,
      bench_result ''combined_hotpath'' 1000 100 (cl_elapsed env 3) iterations,
      bench_result ''config_update'' 1000 10 (cl_elapsed env 4) iterations]"

definition run_benchmark :: "cli_env \<Rightarrow> int \<Rightarrow> bench_run \<Rightarrow> bench_run + bench_run" where
  "run_benchmark env iterations =
     (let r = (\<lambda>i. bench_results env iterations ! i);
          ops_sec = f64_mul (f64_div (f64_of_int iterations) (br_total_ms (r 2))) (Fin 1000);
          frame_pct = f64_mul (f64_div (br_per_op (r 3)) (Fin 16667)) (Fin 100)
      in bench_steps
          [\<lambda>s. Inr (report_row (r 0) (bench_row env ''  AtomicConfig::read()          '' iterations ''ns'' '''' (r 0)) s),
           \<lambda>s. Inr (report_row (r 1) (bench_row env ''  Degradation::is_available()   '' iterations ''ns'' '''' (r 1)) s),
           log_block env 2 ''synapse_cli_bench_wal'' ''bench.wal'' (100 + nat iterations) (r 2)
             (bench_row env ''  WAL write                    '' iterations (mu @ ''s'') (cl_fmt env ''%.0f'' ops_sec @ '' ops/sec  '') (r 2)),
           log_block env 3 ''synapse_cli_bench_combined'' ''combined.wal'' (nat iterations) (r 3)
             (bench_row env ''  Combined hot-path            '' iterations (mu @ ''s'')
                (cl_fmt env ''%.2f'' frame_pct @ ''% frame budget  '') (r 3)),
           \<lambda>s. Inr (report_row (r 4) (bench_row env ''  Config::update()             '' iterations (mu @ ''s'') '''' (r 4)) s)])"

text \<open>The work the fifth benchmark times. A loop with a negative bound does not run.\<close>

definition bench_budget :: "nat \<Rightarrow> ConfigSnapshot \<Rightarrow> ConfigSnapshot option" where
  "bench_budget i snap = Some (snap\<lparr>power_budget_watts := 15 + of_nat (i mod 10)\<rparr>)"

definition bench_updates :: "int \<Rightarrow> AtomicConfig" where
  "bench_updates iterations = fold (\<lambda>i c. snd (config_update (bench_budget i) c)) [0..<nat iterations] AtomicConfig_init"

definition benchmark_help :: string where
  "benchmark_help =
     ''Usage: synapse_cli benchmark [--iterations N]'' @ [newline, newline] @
     ''Measures hot-path overhead for the production module integration:'' @ [newline] @
     ''  - AtomicConfig::read()        (lock-free snapshot)'' @ [newline] @
     ''  - GracefulDegradation check   (feature availability)'' @ [newline] @
     ''  - WAL write throughput         (batched disk writes)'' @ [newline] @
     ''  - Combined hot-path cycle      (config + degrade + WAL)'' @ [newline] @
     ''  - AtomicConfig::update()       (lock-free CAS update)'' @ [newline, newline] @
     ''Options:'' @ [newline] @
     ''  --iterations N    Number of iterations (default: 10000)'' @ [newline] @
     ''  --help            Show this help message'' @ [newline, newline] @
     ''Output columns: ops, total time, per-op latency, throughput, pass/fail.'' @ [newline] @
     ''The '' @ [CHR 0x27] @ ''Combined hot-path'' @ [CHR 0x27] @ '' row shows % of 16,667 '' @ mu @ ''s frame budget at 60 FPS.'' @ [newline]"

datatype bench_args = Args_help | Args_undefined | Args_run int

fun parse_bench_args :: "string list \<Rightarrow> int \<Rightarrow> bench_args" where
  "parse_bench_args [] n = Args_run n"
| "parse_bench_args [a] n = (if a = ''--help'' \<or> a = ''-h'' then Args_help else Args_run n)"
| "parse_bench_args (a # b # as) n =
     (if a = ''--help'' \<or> a = ''-h'' then Args_help
      else if a = ''--iterations'' then (case atoi b of None \<Rightarrow> Args_undefined | Some m \<Rightarrow> parse_bench_args as m)
      else parse_bench_args (b # as) n)"

section \<open>The subcommands\<close>

datatype exit_status = Exited nat | Aborted

record cli_outcome =
  co_exit :: exit_status
  co_stdout :: string
  co_tree :: file_tree

definition cli_benchmark :: "cli_env \<Rightarrow> string list \<Rightarrow> cli_outcome option" where
  "cli_benchmark env args =
     (case parse_bench_args args 10000 of
        Args_help \<Rightarrow> Some \<lparr>co_exit = Exited 0, co_stdout = benchmark_help, co_tree = cl_tree env\<rparr>
      | Args_undefined \<Rightarrow> None
      | Args_run iterations \<Rightarrow>
          let title = ''=== Synapse Hot-Path Benchmark (iterations='' @ show_int iterations @ '') ==='' @ [newline, newline]
          in Some (case run_benchmark env iterations \<lparr>bn_results = [], bn_text = title, bn_tree = cl_tree env\<rparr> of
               Inl s \<Rightarrow> \<lparr>co_exit = Aborted, co_stdout = bn_text s, co_tree = bn_tree s\<rparr>
             | Inr s \<Rightarrow>
                 let passed = length (filter br_passed (bn_results s)); failed = length (filter (\<lambda>r. \<not> br_passed r) (bn_results s))
                 in \<lparr>co_exit = Exited (if failed > 0 then 1 else 0),
                     co_stdout = bn_text s @ [newline] @ ''=== Results: '' @ to_string passed @ '' passed, '' @ to_string failed
                       @ '' failed ==='' @ [newline],
                     co_tree = bn_tree s\<rparr>))"

definition get_weights_for :: "int \<Rightarrow> ContextualBandit \<Rightarrow> f32 list option" where
  "get_weights_for action b =
     (if 0 \<le> action \<and> nat action < length (cb_weights b) then Some (cb_weights b ! nat action) else None)"

definition explain_action :: "int \<Rightarrow> MLSubAPI \<Rightarrow> f32 list option" where
  "explain_action action m = get_weights_for action (ml_bandit m)"

definition cli_train :: "cli_env \<Rightarrow> string list \<Rightarrow> cli_outcome" where
  "cli_train env args =
     (let ml = stored_ml_init (cl_weights env) (cl_replay env);
          path = (if length args \<ge> 2 then args ! 1 else ''bandit.chk'');
          done = (\<lambda>text t. \<lparr>co_exit = Exited 0, co_stdout = text @ [newline], co_tree = t\<rparr>);
          t = cl_tree env
      in if args \<noteq> [] \<and> hd args = ''checkpoint'' then
           done (''ML checkpoint saved to '' @ path)
             (t\<lparr>ft_file := (ft_file t)(path := ml_checkpoint (cl_can_write env path) ml (ft_file t path))\<rparr>)
         else if args \<noteq> [] \<and> hd args = ''restore'' then
           let ml = ml_restore (ft_file t path) ml in done (''ML restored from '' @ path) t
         else done ''train subcommands: checkpoint <path> | restore <path>'' t)"

definition cli_explain :: "cli_env \<Rightarrow> string list \<Rightarrow> cli_outcome option" where
  "cli_explain env args =
     (case (if args \<noteq> [] then atoi (hd args) else Some 0) of
        None \<Rightarrow> None
      | Some action \<Rightarrow>
          (case explain_action action (ml_init (map (map f32_of_bits) (cl_weights env)) (cl_replay env)) of
             None \<Rightarrow> None
           | Some w \<Rightarrow> Some \<lparr>co_exit = Exited 0,
               co_stdout = ''Weights for action '' @ show_int action @ '': '' @ concat (map (\<lambda>v. cl_show_float env v @ '' '') w) @ [newline],
               co_tree = cl_tree env\<rparr>))"

definition cli_scenario :: TestScenario where
  "cli_scenario = \<lparr>sc_name = ''cli-mini'',
     sc_steps = [\<lparr>ts_sig = signature_zero\<lparr>vertex_count := 1000, draw_call_count := 1\<rparr>, ts_repeats = 10\<rparr>]\<rparr>"

definition cli_run_scenario :: "cli_env \<Rightarrow> cli_outcome" where
  "cli_run_scenario env =
     (let res = fst (scenario_run cli_scenario ())
      in \<lparr>co_exit = Exited 0,
          co_stdout = ''Scenario '' @ sr_scenario_name res @ '' completed. passed='' @ (if sr_passed res then ''1'' else ''0'') @ [newline],
          co_tree = cl_tree env\<rparr>)"

text \<open>\<open>args\<close> are the arguments after the program's name.\<close>

definition cli_main :: "cli_env \<Rightarrow> string list \<Rightarrow> cli_outcome option" where
  "cli_main env args =
     (let exit = (\<lambda>code text. Some \<lparr>co_exit = Exited code, co_stdout = text @ [newline], co_tree = cl_tree env\<rparr>)
      in case args of
           [] \<Rightarrow> exit 0 ''synapse_cli: snapshot | inject | run-scenario | coverage | train | explain | benchmark''
         | cmd # args \<Rightarrow>
             if cmd = ''benchmark'' then cli_benchmark env args
             else if cmd = ''snapshot'' then exit 0 (''Snapshot: (report heuristic) '' @ rep_heuristic (sn_report (snapshot None)))
             else if cmd = ''coverage'' then exit 0 ''Coverage: experimental (use test harness for full run)''
             else if cmd = ''train'' then Some (cli_train env args)
             else if cmd = ''explain'' then cli_explain env args
             else if cmd = ''run-scenario'' then Some (cli_run_scenario env)
             else exit 1 ''Unknown command. Available: snapshot inject run-scenario coverage train explain benchmark'')"

section \<open>Lemmas\<close>

lemma f64_of_negative:
  assumes "in_int n" "n < 0"
  shows "f64_of_int n = Fin (of_int n)"
proof -
  have "nat (- n) < 2 ^ 53" using assms by (simp add: in_int_def)
  from rnd64_nat [OF this] assms(2) have "rnd64 (- of_int n) = Fin (- of_int n)" by simp
  then show ?thesis using rnd64_neg [of "- of_int n"] by (simp add: f64_of_int_def)
qed

lemma per_op_negative:
  assumes "in_int n" "n < 0" "0 \<le> t" "0 \<le> scale"
  shows "fp_le (per_op (Fin scale) (Fin t) n) (Fin 0)"
proof (cases "rnd64 (t * scale)")
  case (Fin x)
  with rnd64_sign(1) [of "t * scale"] assms have "0 \<le> x" by simp
  then have "x / of_int n \<le> 0" using assms(2) by (simp add: divide_nonneg_neg less_imp_le)
  then show ?thesis using rnd64_sign(2) Fin assms(2) by (simp add: per_op_def f64_of_negative [OF assms(1,2)])
next
  case (Inf b)
  with rnd64_sign(1) [of "t * scale"] assms show ?thesis by (simp add: per_op_def f64_of_negative [OF assms(1,2)])
qed simp

lemma bench_negative:
  "in_int n \<Longrightarrow> n < 0 \<Longrightarrow> 0 \<le> t \<Longrightarrow> 0 \<le> scale \<Longrightarrow> 0 < limit \<Longrightarrow> br_passed (bench_result name scale limit (Fin t) n)"
  using per_op_negative [of n t scale] by (cases "per_op (Fin scale) (Fin t) n") (auto simp: bench_result_def)

lemma bench_zero:
  assumes "0 \<le> t" "0 \<le> scale"
  shows "\<not> br_passed (bench_result name scale limit (Fin t) 0)"
  using rnd64_sign(1) [of "t * scale"] assms
  by (cases "rnd64 (t * scale)") (auto simp: bench_result_def per_op_def f64_of_int_def Let_def)

subsection \<open>What the benchmark does to the tree\<close>

text \<open>The two directories with their logs; whether setting one up or removing it throws; what lies in them.\<close>

definition log_dirs :: "cli_env \<Rightarrow> (string \<times> string) list" where
  "log_dirs env =
     (case cl_temp env of
        None \<Rightarrow> []
      | Some tmp \<Rightarrow> map (\<lambda>(d, f). (path_append Posix tmp d, path_append Posix (path_append Posix tmp d) f))
          [(''synapse_cli_bench_wal'', ''bench.wal''), (''synapse_cli_bench_combined'', ''combined.wal'')])"

definition log_dir_throws :: "cli_env \<Rightarrow> file_tree \<Rightarrow> string \<times> string \<Rightarrow> bool" where
  "log_dir_throws env t d \<longleftrightarrow>
     \<not> ft_dir t (fst d) \<and> (ft_file t (fst d) \<noteq> None \<or> \<not> cl_can_mkdir env (fst d))
     \<or> (ft_file t (snd d) \<noteq> None \<or> ft_dir t (snd d)) \<and> \<not> cl_can_remove env (snd d)
     \<or> cl_stuck env (fst d) \<noteq> None"

definition bench_throws :: "cli_env \<Rightarrow> bool" where
  "bench_throws env \<longleftrightarrow> cl_temp env = None \<or> list_ex (log_dir_throws env (cl_tree env)) (log_dirs env)"

definition in_log_dirs :: "cli_env \<Rightarrow> string \<Rightarrow> bool" where
  "in_log_dirs env p \<longleftrightarrow> list_ex (\<lambda>d. lies_in (fst d) p) (log_dirs env)"

definition same_at :: "string \<Rightarrow> file_tree \<Rightarrow> file_tree \<Rightarrow> bool" where
  "same_at p t t' \<longleftrightarrow> ft_file t p = ft_file t' p \<and> ft_dir t p = ft_dir t' p"

definition same_outside :: "(string \<Rightarrow> bool) \<Rightarrow> file_tree \<Rightarrow> file_tree \<Rightarrow> bool" where
  "same_outside P t t' \<longleftrightarrow> (\<forall>p. P p \<or> same_at p t t')"

lemma same_outside_refl [simp]: "same_outside P t t"
  by (simp add: same_outside_def same_at_def)

lemma same_outside_trans: "same_outside P t u \<Longrightarrow> same_outside Q u v \<Longrightarrow> same_outside (\<lambda>p. P p \<or> Q p) t v"
  unfolding same_outside_def same_at_def by metis

lemma delete_where_outside: "(\<And>p. Q p \<Longrightarrow> P p) \<Longrightarrow> same_outside P t (delete_where Q t)"
  by (auto simp: same_outside_def same_at_def delete_where_def)

lemma delete_where_same: "same_outside P t t' \<Longrightarrow> delete_where P t' = delete_where P t"
  unfolding same_outside_def same_at_def delete_where_def by (simp add: fun_eq_iff) metis

lemma delete_where_twice: "delete_where Q (delete_where P t) = delete_where (\<lambda>p. P p \<or> Q p) t"
  by (auto simp: delete_where_def)

lemma lies_in_self [simp]: "lies_in d d"
  by (simp add: lies_in_def)

lemma lies_in_file: "lies_in d (d @ ''/'' @ f)"
  by (simp add: lies_in_def)

lemma create_directories_outside:
  "lies_in d p \<Longrightarrow> case create_directories env p t of Inl t' \<Rightarrow> t' = t | Inr t' \<Rightarrow> same_outside (lies_in d) t t' \<and> ft_dir t' p \<and> ft_file t' = ft_file t"
  by (auto simp: create_directories_def same_outside_def same_at_def)

lemma fs_remove_outside:
  "lies_in d p \<Longrightarrow> case fs_remove env p t of Inl t' \<Rightarrow> t' = t
     | Inr t' \<Rightarrow> same_outside (lies_in d) t t' \<and> ft_file t' p = None \<and> \<not> ft_dir t' p"
  by (auto simp: fs_remove_def same_outside_def same_at_def)

lemma put_log_outside: "lies_in d p \<Longrightarrow> same_outside (lies_in d) t (put_log p w t)"
  by (auto simp: put_log_def same_outside_def same_at_def)

text \<open>The destructor finds its directory gone and writes nothing.\<close>

lemma close_unwritable:
  assumes "tl_clean_shutdown t" "\<not> wal_writable (tl_disk t)"
  shows "tl_disk (telemetry_close now t) = tl_disk t"
  using assms by (simp add: telemetry_close_def mark_clean_shutdown_def flush_wal_def flush_buffer_locked_def disk_append_def)

lemma destructor_writes_nothing:
  "\<not> ft_dir t dir \<Longrightarrow> put_log wal (tl_disk (telemetry_close now ((simulate_crash tel)\<lparr>tl_disk := log_disk env dir wal t\<rparr>))) t = t"
  by (subst close_unwritable) (simp_all add: simulate_crash_def log_disk_def put_log_def)

lemma report_row_fields [simp]:
  "bn_tree (report_row r row s) = bn_tree s" "bn_results (report_row r row s) = bn_results s @ [r]"
  by (simp_all add: report_row_def)

lemma log_block_outcome:
  assumes tmp: "cl_temp env = Some tmp" and dir: "dir = path_append Posix tmp dir_name"
    and wal: "wal = path_append Posix dir file_name" and w: "lies_in dir wal" "dir \<noteq> wal"
  shows "case log_block env k dir_name file_name n r row s of
      Inl s' \<Rightarrow> log_dir_throws env (bn_tree s) (dir, wal) \<and> same_outside (lies_in dir) (bn_tree s) (bn_tree s')
    | Inr s' \<Rightarrow> \<not> log_dir_throws env (bn_tree s) (dir, wal) \<and> bn_tree s' = delete_where (lies_in dir) (bn_tree s)
        \<and> bn_results s' = bn_results s @ [r]"
proof (cases "create_directories env dir (bn_tree s)")
  case (Inl t)
  with create_directories_outside [where d = dir and p = dir and env = env and t = "bn_tree s"]
  have "t = bn_tree s" "log_dir_throws env (bn_tree s) (dir, wal)"
    by (auto simp: create_directories_def log_dir_throws_def split: if_splits)
  with Inl show ?thesis by (simp add: log_block_def tmp dir [symmetric] wal [symmetric] Let_def)
next
  case made: (Inr t1)
  with create_directories_outside [where d = dir and p = dir and env = env and t = "bn_tree s"]
  have t1: "same_outside (lies_in dir) (bn_tree s) t1" "ft_dir t1 dir" "ft_file t1 = ft_file (bn_tree s)" by simp_all
  have t1w: "ft_dir t1 wal = ft_dir (bn_tree s) wal" using made w(2) by (auto simp: create_directories_def split: if_splits)
  have ok: "\<not> (\<not> ft_dir (bn_tree s) dir \<and> (ft_file (bn_tree s) dir \<noteq> None \<or> \<not> cl_can_mkdir env dir))"
    using made by (auto simp: create_directories_def split: if_splits)
  show ?thesis
  proof (cases "fs_remove env wal t1")
    case (Inl t)
    then have "t = t1" "log_dir_throws env (bn_tree s) (dir, wal)"
      using t1(3) t1w by (auto simp: fs_remove_def log_dir_throws_def split: if_splits)
    with Inl made t1(1) show ?thesis by (simp add: log_block_def tmp dir [symmetric] wal [symmetric] Let_def)
  next
    case removed: (Inr t2)
    with fs_remove_outside [OF w(1), where env = env and t = t1] have t2: "same_outside (lies_in dir) t1 t2" by simp
    have ok2: "\<not> ((ft_file (bn_tree s) wal \<noteq> None \<or> ft_dir (bn_tree s) wal) \<and> \<not> cl_can_remove env wal)"
      using removed t1(3) t1w by (auto simp: fs_remove_def split: if_splits)
    define tel where "tel = fold run_write (map (\<lambda>i. bench_call (cl_now env k i)) [0..<n]) (telemetry_init (log_disk env dir wal t2))"
    define t3 where "t3 = put_log wal (tl_disk tel) t2"
    have t3: "same_outside (lies_in dir) (bn_tree s) t3"
      using same_outside_trans [OF same_outside_trans [OF t1(1) t2] put_log_outside [OF w(1), of t2 "tl_disk tel"]]
      by (simp add: t3_def)
    show ?thesis
    proof (cases "cl_stuck env dir")
      case None
      let ?t4 = "delete_where (lies_in dir) t3"
      have "\<not> ft_dir ?t4 dir" by (simp add: delete_where_def)
      note quiet = destructor_writes_nothing [OF this, where wal = wal and now = "cl_now env k n" and tel = tel and env = env]
      have "log_block env k dir_name file_name n r row s = Inr ((report_row r row (s\<lparr>bn_tree := t3\<rparr>))\<lparr>bn_tree := ?t4\<rparr>)"
        using made removed None quiet
        by (simp add: log_block_def tmp dir [symmetric] wal [symmetric] tel_def [symmetric] t3_def [symmetric] fs_remove_all_def
            report_row_def Let_def)
      then show ?thesis using ok ok2 None delete_where_same [OF t3] by (simp add: log_dir_throws_def report_row_def)
    next
      case (Some gone)
      let ?t4 = "delete_where (\<lambda>p. lies_in dir p \<and> gone p) t3"
      have "log_block env k dir_name file_name n r row s = Inl ((report_row r row (s\<lparr>bn_tree := t3\<rparr>))\<lparr>bn_tree := ?t4\<rparr>)"
        using made removed Some
        by (simp add: log_block_def tmp dir [symmetric] wal [symmetric] tel_def [symmetric] t3_def [symmetric] fs_remove_all_def
            report_row_def Let_def)
      moreover have "same_outside (lies_in dir) t3 ?t4" by (rule delete_where_outside) simp
      ultimately show ?thesis using Some same_outside_trans [OF t3, of "lies_in dir" ?t4] by (simp add: log_dir_throws_def)
    qed
  qed
qed

text \<open>The two directories do not touch each other.\<close>

lemma log_dir_paths:
  obtains pre where "\<And>d. path_append Posix tmp d = pre @ d"
    and "\<And>d f. d \<noteq> [] \<Longrightarrow> last d \<noteq> CHR ''/'' \<Longrightarrow> path_append Posix (pre @ d) f = pre @ d @ ''/'' @ f"
proof -
  let ?pre = "if tmp = [] \<or> last tmp = CHR ''/'' then tmp else tmp @ ''/''"
  show thesis by (rule that [of ?pre]) (auto simp: path_append_def)
qed

lemma run_benchmark_outcome:
  "case run_benchmark env n \<lparr>bn_results = [], bn_text = title, bn_tree = cl_tree env\<rparr> of
     Inl s \<Rightarrow> bench_throws env \<and> same_outside (in_log_dirs env) (cl_tree env) (bn_tree s)
   | Inr s \<Rightarrow> \<not> bench_throws env \<and> bn_results s = bench_results env n
       \<and> bn_tree s = delete_where (in_log_dirs env) (cl_tree env)"
proof (cases "cl_temp env")
  case None
  then show ?thesis by (simp add: run_benchmark_def Let_def report_row_def log_block_def bench_throws_def)
next
  case (Some tmp)
  obtain pre where pre: "\<And>d. path_append Posix tmp d = pre @ d"
    "\<And>d f. d \<noteq> [] \<Longrightarrow> last d \<noteq> CHR ''/'' \<Longrightarrow> path_append Posix (pre @ d) f = pre @ d @ ''/'' @ f"
    by (rule log_dir_paths [of tmp]) blast
  define d1 w1 where "d1 = pre @ ''synapse_cli_bench_wal''" and "w1 = d1 @ ''/'' @ ''bench.wal''"
  define d2 w2 where "d2 = pre @ ''synapse_cli_bench_combined''" and "w2 = d2 @ ''/'' @ ''combined.wal''"
  have p1: "d1 = path_append Posix tmp ''synapse_cli_bench_wal''" "w1 = path_append Posix d1 ''bench.wal''"
    by (simp_all add: d1_def w1_def pre)
  have p2: "d2 = path_append Posix tmp ''synapse_cli_bench_combined''" "w2 = path_append Posix d2 ''combined.wal''"
    by (simp_all add: d2_def w2_def pre)
  have dirs: "log_dirs env = [(d1, w1), (d2, w2)]" by (simp add: log_dirs_def Some p1 p2)
  have in1: "lies_in d1 w1" "d1 \<noteq> w1" and in2: "lies_in d2 w2" "d2 \<noteq> w2"
    by (simp_all only: w1_def w2_def lies_in_file) simp_all
  have apart: "\<not> lies_in d1 d2" "\<not> lies_in d1 w2" by (simp_all add: lies_in_def d1_def d2_def w2_def)
  have inside: "in_log_dirs env = (\<lambda>p. lies_in d1 p \<or> lies_in d2 p)" by (simp add: in_log_dirs_def dirs fun_eq_iff)
  have throws: "bench_throws env \<longleftrightarrow> log_dir_throws env (cl_tree env) (d1, w1) \<or> log_dir_throws env (cl_tree env) (d2, w2)"
    by (simp add: bench_throws_def Some dirs)
  have second: "log_dir_throws env (delete_where (lies_in d1) t) (d2, w2) \<longleftrightarrow> log_dir_throws env t (d2, w2)" for t
    using apart by (simp add: log_dir_throws_def delete_where_def)
  note block1 = log_block_outcome [OF Some p1 in1] and block2 = log_block_outcome [OF Some p2 in2]
  let ?r = "\<lambda>i. bench_results env n ! i"
  obtain row0 row1 row2 row3 row4 where run: "run_benchmark env n = bench_steps
      [\<lambda>s. Inr (report_row (?r 0) row0 s), \<lambda>s. Inr (report_row (?r 1) row1 s),
       log_block env 2 ''synapse_cli_bench_wal'' ''bench.wal'' (100 + nat n) (?r 2) row2,
       log_block env 3 ''synapse_cli_bench_combined'' ''combined.wal'' (nat n) (?r 3) row3,
       \<lambda>s. Inr (report_row (?r 4) row4 s)]"
    unfolding run_benchmark_def Let_def by blast
  let ?s2 = "report_row (?r 1) row1 (report_row (?r 0) row0 \<lparr>bn_results = [], bn_text = title, bn_tree = cl_tree env\<rparr>)"
  have s2: "bn_tree ?s2 = cl_tree env" "bn_results ?s2 = [?r 0, ?r 1]" by (simp_all add: report_row_def)
  have results: "[?r 0, ?r 1, ?r 2, ?r 3, ?r 4] = bench_results env n" by (simp add: bench_results_def)
  show ?thesis
  proof (cases "log_block env 2 ''synapse_cli_bench_wal'' ''bench.wal'' (100 + nat n) (?r 2) row2 ?s2")
    case (Inl s3)
    with block1 [where k = 2 and n = "100 + nat n" and r = "?r 2" and row = row2 and s = ?s2]
    have s3: "log_dir_throws env (cl_tree env) (d1, w1)" "same_outside (lies_in d1) (cl_tree env) (bn_tree s3)"
      by (simp_all add: s2)
    from s3(2) have "same_outside (\<lambda>p. lies_in d1 p \<or> lies_in d2 p) (cl_tree env) (bn_tree s3)" by (auto simp: same_outside_def)
    with Inl s3(1) show ?thesis by (simp add: run throws inside)
  next
    case (Inr s3)
    with block1 [where k = 2 and n = "100 + nat n" and r = "?r 2" and row = row2 and s = ?s2]
    have s3: "\<not> log_dir_throws env (cl_tree env) (d1, w1)" "bn_tree s3 = delete_where (lies_in d1) (cl_tree env)"
      "bn_results s3 = [?r 0, ?r 1, ?r 2]" by (simp_all add: s2)
    show ?thesis
    proof (cases "log_block env 3 ''synapse_cli_bench_combined'' ''combined.wal'' (nat n) (?r 3) row3 s3")
      case inl: (Inl s4)
      with block2 [where k = 3 and n = "nat n" and r = "?r 3" and row = row3 and s = s3]
      have s4: "log_dir_throws env (cl_tree env) (d2, w2)" "same_outside (lies_in d2) (delete_where (lies_in d1) (cl_tree env)) (bn_tree s4)"
        by (simp_all add: s3 second)
      have "same_outside (lies_in d1) (cl_tree env) (delete_where (lies_in d1) (cl_tree env))" by (rule delete_where_outside)
      from same_outside_trans [OF this s4(2)] Inr inl s4(1) show ?thesis by (simp add: run throws inside)
    next
      case inr: (Inr s4)
      with block2 [where k = 3 and n = "nat n" and r = "?r 3" and row = row3 and s = s3]
      have s4: "\<not> log_dir_throws env (cl_tree env) (d2, w2)" "bn_tree s4 = delete_where (\<lambda>p. lies_in d1 p \<or> lies_in d2 p) (cl_tree env)"
        "bn_results s4 = [?r 0, ?r 1, ?r 2, ?r 3]" by (simp_all add: s3 second delete_where_twice)
      have finished: "run_benchmark env n \<lparr>bn_results = [], bn_text = title, bn_tree = cl_tree env\<rparr> = Inr (report_row (?r 4) row4 s4)"
        using Inr inr by (simp add: run)
      have "bn_results (report_row (?r 4) row4 s4) = bench_results env n"
        by (simp only: report_row_fields s4(3) append_Cons append_Nil results)
      with s3(1) s4 show ?thesis unfolding finished by (simp add: throws inside)
    qed
  qed
qed

lemma cli_benchmark_exit:
  assumes "parse_bench_args args 10000 = Args_run n"
  shows "\<exists>out. cli_benchmark env args = Some out
    \<and> co_exit out = (if bench_throws env then Aborted else Exited (if list_all br_passed (bench_results env n) then 0 else 1))
    \<and> same_outside (in_log_dirs env) (cl_tree env) (co_tree out)
    \<and> (bench_throws env \<or> co_tree out = delete_where (in_log_dirs env) (cl_tree env))"
proof -
  let ?title = "''=== Synapse Hot-Path Benchmark (iterations='' @ show_int n @ '') ==='' @ [newline, newline]"
  have none: "(length (filter (\<lambda>r. \<not> br_passed r) rs) = 0) = list_all br_passed rs" for rs
    by (auto simp: filter_empty_conv list_all_iff)
  have outside: "same_outside (in_log_dirs env) (cl_tree env) (delete_where (in_log_dirs env) (cl_tree env))"
    by (rule delete_where_outside)
  show ?thesis
    using run_benchmark_outcome [of env n ?title] none [of "bench_results env n"] outside assms
    by (cases "run_benchmark env n \<lparr>bn_results = [], bn_text = ?title, bn_tree = cl_tree env\<rparr>")
      (auto simp: cli_benchmark_def Let_def)
qed

lemma bench_updates_run:
  "config_validate (cfg_current c) \<Longrightarrow>
     let c' = fold (\<lambda>i c. snd (config_update (bench_budget i) c)) [j..<j + k] c
     in config_validate (cfg_current c') \<and> cfg_version c' = cfg_version c + of_nat k"
proof (induction k)
  case (Suc k)
  let ?c = "fold (\<lambda>i c. snd (config_update (bench_budget i) c)) [j..<j + k] c"
  have "unat (15 + of_nat ((j + k) mod 10) :: u32) = 15 + (j + k) mod 10"
    by (simp add: unat_word_ariths unat_of_nat)
  then have "0 < (15 + of_nat ((j + k) mod 10) :: u32)" "(15 + of_nat ((j + k) mod 10) :: u32) \<le> 100"
    using mod_less_divisor [of 10 "j + k"] by (simp_all add: word_less_nat_alt word_le_nat_alt)
  with Suc show ?case
    by (auto simp: Let_def config_update_def prepare_update_def bench_budget_def validate_updates algebra_simps)
qed simp

section \<open>Properties\<close>

text \<open>C33: What the tool's exit status and its files mean, for every command line. Without arguments it prints its
  usage and exits with 0. It exits with 1 exactly for an unknown command, which includes the advertised
  \<open>inject\<close>, and for a benchmark with a row over its limit; a benchmark is aborted exactly when there is no
  directory for temporary files, or one of its two directories there cannot be created, its old log not be
  removed, or the directory not be removed at the end; every other run exits with 0, a save to an unwritable
  path and a restore from a missing file among them. \<open>train checkpoint\<close> changes nothing but its file, and the
  benchmark nothing outside its two directories; nothing else changes any file or directory. A benchmark that
  is not aborted leaves neither directory nor anything in them, whether it was there before or not.\<close>
theorem cli_exit_codes:
  assumes "cli_main env args = Some out"
  shows "co_exit out =
      (case args of
         [] \<Rightarrow> Exited 0
       | cmd # rest \<Rightarrow>
           if cmd = ''benchmark'' then
             (case parse_bench_args rest 10000 of
                Args_run n \<Rightarrow> if bench_throws env then Aborted else Exited (if list_all br_passed (bench_results env n) then 0 else 1)
              | _ \<Rightarrow> Exited 0)
           else if cmd \<in> {''snapshot'', ''coverage'', ''train'', ''explain'', ''run-scenario''} then Exited 0 else Exited 1)
    \<and> (\<forall>p. same_at p (cl_tree env) (co_tree out)
         \<or> (\<exists>rest. args = ''train'' # ''checkpoint'' # rest \<and> p = (case rest of [] \<Rightarrow> ''bandit.chk'' | q # qs \<Rightarrow> q))
         \<or> (\<exists>rest. args = ''benchmark'' # rest \<and> in_log_dirs env p))
    \<and> (\<forall>rest n. args = ''benchmark'' # rest \<and> parse_bench_args rest 10000 = Args_run n \<and> \<not> bench_throws env \<longrightarrow>
         co_tree out = delete_where (in_log_dirs env) (cl_tree env))"
proof (cases args)
  case Nil
  then show ?thesis using assms by (auto simp: cli_main_def same_at_def)
next
  case args: (Cons cmd rest)
  show ?thesis
  proof (cases "cmd = ''benchmark''")
    case True
    then have main: "cli_benchmark env rest = Some out" using assms args by (simp add: cli_main_def)
    show ?thesis
    proof (cases "parse_bench_args rest 10000")
      case (Args_run n)
      from cli_benchmark_exit [OF this, of env] main Args_run True args show ?thesis by (auto simp: same_outside_def)
    qed (use main True args in \<open>auto simp: cli_benchmark_def same_at_def\<close>)
  next
    case False
    then have same: "cmd = ''train'' \<or> co_tree out = cl_tree env"
      using assms args by (auto simp: cli_main_def cli_explain_def cli_run_scenario_def Let_def split: if_splits option.splits)
    have exit: "co_exit out = (if cmd \<in> {''snapshot'', ''coverage'', ''train'', ''explain'', ''run-scenario''} then Exited 0 else Exited 1)"
      using False assms args
      by (auto simp: cli_main_def cli_train_def cli_explain_def cli_run_scenario_def Let_def split: if_splits option.splits)
    have "same_at p (cl_tree env) (co_tree out)
        \<or> (\<exists>qs. rest = ''checkpoint'' # qs \<and> p = (case qs of [] \<Rightarrow> ''bandit.chk'' | q # _ \<Rightarrow> q))" if "cmd = ''train''" for p
      using that assms args
      by (auto simp: cli_main_def cli_train_def same_at_def Let_def neq_Nil_conv split: if_splits list.splits)
    with same exit False args show ?thesis by (auto simp: same_at_def)
  qed
qed

definition demo_cli :: cli_env where
  "demo_cli = \<lparr>cl_weights = replicate 3 (replicate 8 0), cl_replay = [],
     cl_tree = \<lparr>ft_file = [''/tmp/synapse_cli_bench_wal/notes'' \<mapsto> [1], ''/tmp/notes'' \<mapsto> [2]],
                ft_dir = (\<lambda>p. p = ''/tmp'' \<or> p = ''/tmp/synapse_cli_bench_wal'')\<rparr>,
     cl_temp = Some ''/tmp'', cl_can_write = (\<lambda>_. True), cl_can_mkdir = (\<lambda>_. True), cl_can_remove = (\<lambda>_. True),
     cl_stuck = (\<lambda>_. None), cl_now = (\<lambda>_ _. 0), cl_elapsed = (\<lambda>_. Fin 1), cl_fmt = (\<lambda>_ _. []), cl_show_float = (\<lambda>_. [])\<rparr>"

lemma demo_cli_runs: "\<not> bench_throws demo_cli"
  by (simp add: bench_throws_def log_dirs_def log_dir_throws_def demo_cli_def path_append_def)

theorem cli_exit_codes_witness:
  "(\<exists>out. cli_main demo_cli [''inject''] = Some out \<and> co_exit out = Exited 1)
   \<and> (\<exists>out. cli_main demo_cli [] = Some out \<and> co_exit out = Exited 0)
   \<and> (\<exists>out. cli_main demo_cli [''benchmark'', ''--iterations'', ''-5''] = Some out
        \<and> ft_file (co_tree out) ''/tmp/synapse_cli_bench_wal/notes'' = None
        \<and> ft_file (co_tree out) ''/tmp/notes'' = Some [2] \<and> \<not> ft_dir (co_tree out) ''/tmp/synapse_cli_bench_wal'')"
proof -
  obtain o1 where o1: "cli_main demo_cli [''inject''] = Some o1" by (simp add: cli_main_def Let_def)
  obtain o2 where o2: "cli_main demo_cli [] = Some o2" by (simp add: cli_main_def Let_def)
  have n: "parse_bench_args [''--iterations'', ''-5''] 10000 = Args_run (- 5)" by code_simp
  obtain o3 where o3: "cli_main demo_cli [''benchmark'', ''--iterations'', ''-5''] = Some o3"
    using cli_benchmark_exit [OF n, of demo_cli] by (auto simp: cli_main_def Let_def)
  have tree: "co_tree o3 = delete_where (in_log_dirs demo_cli) (cl_tree demo_cli)"
    using cli_exit_codes [OF o3] n demo_cli_runs by blast
  have "in_log_dirs demo_cli ''/tmp/synapse_cli_bench_wal/notes''" "\<not> in_log_dirs demo_cli ''/tmp/notes''"
    "in_log_dirs demo_cli ''/tmp/synapse_cli_bench_wal''"
    by (simp_all add: in_log_dirs_def log_dirs_def demo_cli_def path_append_def lies_in_def)
  with tree have "ft_file (co_tree o3) ''/tmp/synapse_cli_bench_wal/notes'' = None" "ft_file (co_tree o3) ''/tmp/notes'' = Some [2]"
    "\<not> ft_dir (co_tree o3) ''/tmp/synapse_cli_bench_wal''"
    by (simp_all add: delete_where_def) (simp add: demo_cli_def)
  with o1 o2 o3 cli_exit_codes [OF o1] cli_exit_codes [OF o2] show ?thesis by simp
qed

text \<open>The benchmark's verdict with a useless iteration count. Where the file system does not throw, a negative
  count runs no iteration and passes every row, whatever the clock says, so the tool exits with 0; a count
  of 0 fails every row. (Text that is not a number counts as 0.)\<close>
theorem benchmark_degenerate_counts:
  assumes "atoi s = Some n" "\<And>i. cl_elapsed env i = Fin (t i) \<and> 0 \<le> t i" "\<not> bench_throws env"
  shows "(n < 0 \<longrightarrow> (\<exists>out. cli_main env [''benchmark'', ''--iterations'', s] = Some out \<and> co_exit out = Exited 0))
    \<and> (n = 0 \<longrightarrow> (\<exists>out. cli_main env [''benchmark'', ''--iterations'', s] = Some out \<and> co_exit out = Exited 1))"
proof -
  have parse: "parse_bench_args [''--iterations'', s] 10000 = Args_run n" using assms(1) by simp
  have main: "cli_main env [''benchmark'', ''--iterations'', s] = cli_benchmark env [''--iterations'', s]" by (simp add: cli_main_def)
  have int: "in_int n" using assms(1) by (auto simp: atoi_def Let_def split: if_splits)
  have "list_all br_passed (bench_results env n)" if "n < 0"
    using that int assms(2) by (simp add: bench_results_def bench_negative)
  moreover have "\<not> list_all br_passed (bench_results env n)" if "n = 0"
    using that assms(2) by (simp add: bench_results_def bench_zero)
  ultimately show ?thesis using cli_benchmark_exit [OF parse, of env] assms(3) unfolding main by auto
qed

theorem benchmark_degenerate_counts_witness:
  "(\<exists>out. cli_main demo_cli [''benchmark'', ''--iterations'', ''-5''] = Some out \<and> co_exit out = Exited 0)
   \<and> (\<exists>out. cli_main demo_cli [''benchmark'', ''--iterations'', ''many''] = Some out \<and> co_exit out = Exited 1)"
proof -
  have n: "atoi ''-5'' = Some (- 5)" "atoi ''many'' = Some 0" by code_simp+
  have t: "cl_elapsed demo_cli i = Fin 1 \<and> 0 \<le> (1 :: rat)" for i by (simp add: demo_cli_def)
  from benchmark_degenerate_counts [where t = "\<lambda>_. 1", OF n(1) t demo_cli_runs]
    benchmark_degenerate_counts [where t = "\<lambda>_. 1", OF n(2) t demo_cli_runs]
  show ?thesis by simp
qed

text \<open>The work the last benchmark times is real: each of its updates is accepted and advances the version.\<close>
theorem bench_updates_accepted:
  "config_validate (config_read (bench_updates n)) \<and> cfg_version (bench_updates n) = of_nat (nat n)"
  using bench_updates_run [of AtomicConfig_init 0 "nat n"]
  by (simp add: bench_updates_def Let_def config_read_def AtomicConfig_init_def)

end
