(* ===== verification/Watchdog.thy ===== *)
theory Watchdog
  imports Prelude
begin

text \<open>
  The watchdog, \<open>src/synapse/recovery/watchdog.h\<close>. The monitor thread's loop body is \<open>monitor_turn\<close>; the
  reading of the steady clock, in nanoseconds, is an argument. For a heartbeat that overlaps a turn,
  \<open>wd_step\<close> splits both into their reads of the clock and their accesses to the shared atomics.
  Recovery callbacks are opaque numbers; running them appends to a log. The loop's sleep of 500 ms has
  no effect on the state.
\<close>

section \<open>The watchdog\<close>

record HeartbeatState =
  hb_counter :: u64
  hb_last_time_ns :: u64
  hb_shim_alive :: bool
  hb_watchdog_alive :: bool

definition heartbeat_state_init :: HeartbeatState where
  "heartbeat_state_init = \<lparr>hb_counter = 0, hb_last_time_ns = 0, hb_shim_alive = False, hb_watchdog_alive = False\<rparr>"

record Watchdog =
  wd_state :: HeartbeatState
  wd_timeout_ms :: u32
  wd_running :: bool
  wd_callbacks :: "nat list"
  wd_recovery_log :: "nat list"

definition watchdog_init :: "HeartbeatState \<Rightarrow> u32 \<Rightarrow> Watchdog" where
  "watchdog_init st timeout = \<lparr>wd_state = st, wd_timeout_ms = timeout, wd_running = False,
     wd_callbacks = [], wd_recovery_log = []\<rparr>"

definition watchdog_start :: "Watchdog \<Rightarrow> Watchdog" where
  "watchdog_start w =
     (if wd_running w then w
      else w\<lparr>wd_running := True, wd_state := (wd_state w)\<lparr>hb_watchdog_alive := True\<rparr>\<rparr>)"

definition watchdog_stop :: "Watchdog \<Rightarrow> Watchdog" where
  "watchdog_stop w = w\<lparr>wd_running := False, wd_state := (wd_state w)\<lparr>hb_watchdog_alive := False\<rparr>\<rparr>"

definition heartbeat :: "u64 \<Rightarrow> Watchdog \<Rightarrow> Watchdog" where
  "heartbeat ns w = w\<lparr>wd_state := (wd_state w)\<lparr>hb_counter := hb_counter (wd_state w) + 1,
     hb_last_time_ns := ns, hb_shim_alive := True\<rparr>\<rparr>"

definition on_recovery :: "nat \<Rightarrow> Watchdog \<Rightarrow> Watchdog" where
  "on_recovery cb w = w\<lparr>wd_callbacks := wd_callbacks w @ [cb]\<rparr>"

record Status =
  shim_responding :: bool
  heartbeat_count :: u64
  last_heartbeat_age_ms :: u64
  watchdog_active :: bool

definition watchdog_status :: "u64 \<Rightarrow> Watchdog \<Rightarrow> Status" where
  "watchdog_status now w = \<lparr>shim_responding = hb_shim_alive (wd_state w),
     heartbeat_count = hb_counter (wd_state w),
     last_heartbeat_age_ms = (now - hb_last_time_ns (wd_state w)) div 1000000,
     watchdog_active = hb_watchdog_alive (wd_state w)\<rparr>"

definition trigger_recovery :: "Watchdog \<Rightarrow> Watchdog" where
  "trigger_recovery w = w\<lparr>wd_recovery_log := wd_recovery_log w @ wd_callbacks w\<rparr>"

definition react :: "Status \<Rightarrow> Watchdog \<Rightarrow> Watchdog" where
  "react s w =
     (if shim_responding s \<and> last_heartbeat_age_ms s < ucast (wd_timeout_ms w) then w
      else if shim_responding s then trigger_recovery w
      else if \<not> shim_responding s \<and> heartbeat_count s > 0 then trigger_recovery w
      else w)"

definition monitor_turn :: "u64 \<Rightarrow> Watchdog \<Rightarrow> Watchdog" where
  "monitor_turn now w = (if wd_running w then react (watchdog_status now w) w else w)"

datatype wd_event = Beat u64 | Turn u64

fun wd_event_time :: "wd_event \<Rightarrow> nat" where
  "wd_event_time (Beat t) = unat t"
| "wd_event_time (Turn t) = unat t"

fun wd_run :: "wd_event list \<Rightarrow> Watchdog \<Rightarrow> Watchdog" where
  "wd_run [] w = w"
| "wd_run (Beat t # es) w = wd_run es (heartbeat t w)"
| "wd_run (Turn t # es) w = wd_run es (monitor_turn t w)"

section \<open>Overlapping calls\<close>

datatype status_pc =
    S_idle
  | S_alive bool
  | S_count bool u64
  | S_clock bool u64 u64
  | S_last bool u64 u64

datatype beat_pc = B_idle | B_clock u64 | B_counted u64 | B_stored

record wd_sys =
  ws_watchdog :: Watchdog
  ws_clock :: u64
  ws_monitor :: status_pc
  ws_shim :: beat_pc

inductive wd_step :: "wd_sys \<Rightarrow> wd_sys \<Rightarrow> bool" where
  tick: "unat (ws_clock s) + unat k < 2 ^ 64 \<Longrightarrow> wd_step s (s\<lparr>ws_clock := ws_clock s + k\<rparr>)"
| beat_clock: "ws_shim s = B_idle \<Longrightarrow> wd_step s (s\<lparr>ws_shim := B_clock (ws_clock s)\<rparr>)"
| beat_count: "ws_shim s = B_clock ns \<Longrightarrow>
    wd_step s (s\<lparr>ws_shim := B_counted ns, ws_watchdog := (ws_watchdog s)\<lparr>wd_state :=
      (wd_state (ws_watchdog s))\<lparr>hb_counter := hb_counter (wd_state (ws_watchdog s)) + 1\<rparr>\<rparr>\<rparr>)"
| beat_store: "ws_shim s = B_counted ns \<Longrightarrow>
    wd_step s (s\<lparr>ws_shim := B_stored, ws_watchdog := (ws_watchdog s)\<lparr>wd_state :=
      (wd_state (ws_watchdog s))\<lparr>hb_last_time_ns := ns\<rparr>\<rparr>\<rparr>)"
| beat_alive: "ws_shim s = B_stored \<Longrightarrow>
    wd_step s (s\<lparr>ws_shim := B_idle, ws_watchdog := (ws_watchdog s)\<lparr>wd_state :=
      (wd_state (ws_watchdog s))\<lparr>hb_shim_alive := True\<rparr>\<rparr>\<rparr>)"
| load_alive: "\<lbrakk>ws_monitor s = S_idle; wd_running (ws_watchdog s)\<rbrakk> \<Longrightarrow>
    wd_step s (s\<lparr>ws_monitor := S_alive (hb_shim_alive (wd_state (ws_watchdog s)))\<rparr>)"
| load_count: "ws_monitor s = S_alive b \<Longrightarrow>
    wd_step s (s\<lparr>ws_monitor := S_count b (hb_counter (wd_state (ws_watchdog s)))\<rparr>)"
| read_clock: "ws_monitor s = S_count b n \<Longrightarrow> wd_step s (s\<lparr>ws_monitor := S_clock b n (ws_clock s)\<rparr>)"
| load_last: "ws_monitor s = S_clock b n now \<Longrightarrow>
    wd_step s (s\<lparr>ws_monitor := S_last b n ((now - hb_last_time_ns (wd_state (ws_watchdog s))) div 1000000)\<rparr>)"
| decide: "ws_monitor s = S_last b n age \<Longrightarrow>
    wd_step s (s\<lparr>ws_monitor := S_idle, ws_watchdog :=
      react \<lparr>shim_responding = b, heartbeat_count = n, last_heartbeat_age_ms = age,
             watchdog_active = hb_watchdog_alive (wd_state (ws_watchdog s))\<rparr> (ws_watchdog s)\<rparr>)"

abbreviation wd_reachable :: "wd_sys \<Rightarrow> wd_sys \<Rightarrow> bool" where
  "wd_reachable \<equiv> reaches wd_step"

section \<open>Specification\<close>

text \<open>The number of turns at which the last heartbeat, if there was one, is at least \<open>T\<close> milliseconds
  old.\<close>

fun stalled_turns :: "nat \<Rightarrow> nat option \<Rightarrow> wd_event list \<Rightarrow> nat" where
  "stalled_turns T prev [] = 0"
| "stalled_turns T prev (Beat t # es) = stalled_turns T (Some (unat t)) es"
| "stalled_turns T prev (Turn t # es) =
     (case prev of None \<Rightarrow> 0 | Some l \<Rightarrow> if T \<le> (unat t - l) div 1000000 then 1 else 0) + stalled_turns T prev es"

definition wd_ready :: "nat option \<Rightarrow> Watchdog \<Rightarrow> bool" where
  "wd_ready prev w \<longleftrightarrow> wd_running w \<and>
     (case prev of
        None \<Rightarrow> \<not> hb_shim_alive (wd_state w) \<and> hb_counter (wd_state w) = 0
      | Some l \<Rightarrow> hb_shim_alive (wd_state w) \<and> unat (hb_last_time_ns (wd_state w)) = l)"

section \<open>Sequential behaviour\<close>

lemma age_in_order:
  assumes "unat prev \<le> unat (now :: u64)"
  shows "unat ((now - prev) div 1000000) = (unat now - unat prev) div 1000000"
  using assms by (simp add: unat_div unat_sub word_le_nat_alt)

lemma unat_ucast_32_64: "unat (ucast (w :: u32) :: u64) = unat w"
  by (simp add: unsigned_ucast_eq take_bit_nat_eq_self order_less_trans [OF unat_lt_32])

lemma turn_step:
  assumes "wd_ready prev w" "\<forall>l. prev = Some l \<longrightarrow> l \<le> unat now"
  shows "monitor_turn now w = w\<lparr>wd_recovery_log := wd_recovery_log w
      @ concat (replicate (stalled_turns (unat (wd_timeout_ms w)) prev [Turn now]) (wd_callbacks w))\<rparr>"
proof (cases prev)
  case None
  with assms show ?thesis by (simp add: wd_ready_def monitor_turn_def react_def watchdog_status_def)
next
  case (Some l)
  have "(now - hb_last_time_ns (wd_state w)) div 1000000 < ucast (wd_timeout_ms w)
      \<longleftrightarrow> \<not> unat (wd_timeout_ms w) \<le> (unat now - l) div 1000000"
    using assms Some age_in_order [of "hb_last_time_ns (wd_state w)" now]
    by (simp add: wd_ready_def word_less_nat_alt unat_ucast_32_64 not_le)
  with assms Some show ?thesis
    by (auto simp: wd_ready_def monitor_turn_def react_def watchdog_status_def trigger_recovery_def)
qed

lemma wd_run_stalls:
  assumes "wd_ready prev w" "sorted (map wd_event_time es)"
    "\<forall>l e. prev = Some l \<longrightarrow> e \<in> set es \<longrightarrow> l \<le> wd_event_time e"
    "unat (hb_counter (wd_state w)) + length es < 2 ^ 64"
  shows "wd_recovery_log (wd_run es w) = wd_recovery_log w
      @ concat (replicate (stalled_turns (unat (wd_timeout_ms w)) prev es) (wd_callbacks w))"
  using assms
proof (induction es arbitrary: prev w)
  case (Cons e es)
  show ?case
  proof (cases e)
    case (Beat t)
    have "wd_ready (Some (unat t)) (heartbeat t w)"
      using Cons.prems(1) by (simp add: wd_ready_def heartbeat_def)
    moreover have "unat (hb_counter (wd_state w) + 1) = unat (hb_counter (wd_state w)) + 1"
      using Cons.prems(4) by (subst unat_add_lem [THEN iffD1]) simp_all
    ultimately show ?thesis
      using Cons.prems Cons.IH [of "Some (unat t)" "heartbeat t w"] by (simp add: Beat heartbeat_def)
  next
    case (Turn t)
    let ?w = "w\<lparr>wd_recovery_log := wd_recovery_log w
      @ concat (replicate (stalled_turns (unat (wd_timeout_ms w)) prev [Turn t]) (wd_callbacks w))\<rparr>"
    have "monitor_turn t w = ?w"
      using Cons.prems by (intro turn_step) (auto simp: Turn)
    moreover have "wd_ready prev ?w" using Cons.prems(1) by (simp add: wd_ready_def split: option.splits)
    ultimately show ?thesis
      using Cons.prems Cons.IH [of prev ?w] by (simp add: Turn replicate_add)
  qed
qed simp

text \<open>C31: When the watchdog acts. Over any run of heartbeats and monitor turns in the order of the clock
  (each call complete before the next), the recovery callbacks run, all of them in the order of their
  registration, at exactly those turns at which a heartbeat has been seen and the last one is at least
  the timeout old. So a live shim is never recovered, a stalled one is recovered at the first turn
  after the timeout and again at every further turn of the same stall, and a shim that hangs before
  its first heartbeat is never noticed.\<close>
theorem watchdog_recovers_stalls:
  assumes "sorted (map wd_event_time es)" "length es < 2 ^ 64"
  shows "wd_recovery_log (wd_run es (watchdog_start (fold on_recovery cbs (watchdog_init heartbeat_state_init timeout))))
    = concat (replicate (stalled_turns (unat timeout) None es) cbs)"
proof -
  have cbs: "fold on_recovery cbs w = w\<lparr>wd_callbacks := wd_callbacks w @ cbs\<rparr>" for w
    by (induction cbs arbitrary: w) (simp_all add: on_recovery_def)
  show ?thesis
    using assms wd_run_stalls [of None "watchdog_start (fold on_recovery cbs (watchdog_init heartbeat_state_init timeout))" es]
    by (simp add: cbs wd_ready_def watchdog_start_def watchdog_init_def heartbeat_state_init_def)
qed

theorem watchdog_recovers_stalls_witness:
  "wd_recovery_log (wd_run [Turn 1000000, Beat 2000000, Turn 3000000, Turn 9000000, Turn 10000000, Beat 11000000, Turn 12000000]
     (watchdog_start (fold on_recovery [1, 2] (watchdog_init heartbeat_state_init 5)))) = [1, 2, 1, 2]"
proof -
  let ?es = "[Turn 1000000, Beat 2000000, Turn 3000000, Turn 9000000, Turn 10000000, Beat 11000000, Turn 12000000]"
  have "stalled_turns (unat (5 :: u32)) None ?es = Suc (Suc 0)" by simp
  moreover have "sorted (map wd_event_time ?es)" "length ?es < 2 ^ 64" by simp_all
  ultimately show ?thesis using watchdog_recovers_stalls [of ?es "[1, 2]" 5] by (simp only: replicate_Suc) simp
qed

section \<open>Overlapping heartbeat and status\<close>

definition wd_at :: "u64 \<Rightarrow> u64 \<Rightarrow> u64 \<Rightarrow> status_pc \<Rightarrow> beat_pc \<Rightarrow> nat list \<Rightarrow> wd_sys" where
  "wd_at count prev clock m b log = \<lparr>ws_watchdog = \<lparr>wd_state =
       \<lparr>hb_counter = count, hb_last_time_ns = prev, hb_shim_alive = True, hb_watchdog_alive = True\<rparr>,
       wd_timeout_ms = 5000, wd_running = True, wd_callbacks = [7], wd_recovery_log = log\<rparr>,
     ws_clock = clock, ws_monitor = m, ws_shim = b\<rparr>"

definition spurious_start :: wd_sys where
  "spurious_start = wd_at 1 1000 1000 S_idle B_idle []"

lemma spurious_steps:
  "wd_step (wd_at 1 1000 1000 S_idle B_idle []) (wd_at 1 1000 1000 (S_alive True) B_idle [])"
  "wd_step (wd_at 1 1000 1000 (S_alive True) B_idle []) (wd_at 1 1000 1000 (S_count True 1) B_idle [])"
  "wd_step (wd_at 1 1000 1000 (S_count True 1) B_idle []) (wd_at 1 1000 1000 (S_clock True 1 1000) B_idle [])"
  "wd_step (wd_at 1 1000 1000 (S_clock True 1 1000) B_idle []) (wd_at 1 1000 1001 (S_clock True 1 1000) B_idle [])"
  "wd_step (wd_at 1 1000 1001 (S_clock True 1 1000) B_idle []) (wd_at 1 1000 1001 (S_clock True 1 1000) (B_clock 1001) [])"
  "wd_step (wd_at 1 1000 1001 (S_clock True 1 1000) (B_clock 1001) []) (wd_at 2 1000 1001 (S_clock True 1 1000) (B_counted 1001) [])"
  "wd_step (wd_at 2 1000 1001 (S_clock True 1 1000) (B_counted 1001) []) (wd_at 2 1001 1001 (S_clock True 1 1000) B_stored [])"
  "wd_step (wd_at 2 1001 1001 (S_clock True 1 1000) B_stored []) (wd_at 2 1001 1001 (S_last True 1 18446744073709) B_stored [])"
  "wd_step (wd_at 2 1001 1001 (S_last True 1 18446744073709) B_stored []) (wd_at 2 1001 1001 S_idle B_stored [7])"
  using load_alive [of "wd_at 1 1000 1000 S_idle B_idle []"]
    load_count [of "wd_at 1 1000 1000 (S_alive True) B_idle []"]
    read_clock [of "wd_at 1 1000 1000 (S_count True 1) B_idle []"]
    tick [of "wd_at 1 1000 1000 (S_clock True 1 1000) B_idle []" 1]
    beat_clock [of "wd_at 1 1000 1001 (S_clock True 1 1000) B_idle []"]
    beat_count [of "wd_at 1 1000 1001 (S_clock True 1 1000) (B_clock 1001) []"]
    beat_store [of "wd_at 2 1000 1001 (S_clock True 1 1000) (B_counted 1001) []"]
    load_last [of "wd_at 2 1001 1001 (S_clock True 1 1000) B_stored []"]
    decide [of "wd_at 2 1001 1001 (S_last True 1 18446744073709) B_stored []"]
  by (simp_all add: wd_at_def react_def trigger_recovery_def)

text \<open>\<open>status\<close> reads the clock before it loads the time of the last heartbeat. A heartbeat in between
  makes the difference negative, it wraps to more than 500 years, and recovery runs for a shim that is
  alive: from a shim that beat this very nanosecond, the callbacks can run after one nanosecond, during
  which the shim has beaten again, although the timeout is 5 seconds.\<close>
theorem watchdog_spurious_recovery:
  "\<exists>s. wd_reachable spurious_start s \<and> wd_recovery_log (ws_watchdog s) = [7]
     \<and> ws_clock s = ws_clock spurious_start + 1 \<and> hb_last_time_ns (wd_state (ws_watchdog s)) = ws_clock s"
proof (intro exI conjI)
  show "wd_reachable spurious_start (wd_at 2 1001 1001 S_idle B_stored [7])"
    unfolding spurious_start_def by (rule reaches_next [where step = wd_step, OF _ spurious_steps(9)], rule reaches_next [where step = wd_step, OF _ spurious_steps(8)],
      rule reaches_next [where step = wd_step, OF _ spurious_steps(7)], rule reaches_next [where step = wd_step, OF _ spurious_steps(6)],
      rule reaches_next [where step = wd_step, OF _ spurious_steps(5)], rule reaches_next [where step = wd_step, OF _ spurious_steps(4)],
      rule reaches_next [where step = wd_step, OF _ spurious_steps(3)], rule reaches_next [where step = wd_step, OF _ spurious_steps(2)],
      rule reaches_next [where step = wd_step, OF _ spurious_steps(1)], rule reaches_start)
qed (simp_all add: wd_at_def spurious_start_def)

end
