(* ===== verification/Privacy.thy ===== *)
theory Privacy
  imports IeeeFloat
begin

text \<open>
  Privacy-first telemetry, \<open>src/synapse/personal/privacy_telemetry.h\<close>: the Laplace mechanism on
  doubles (the difference of the two exponential draws is an argument) and the local store with its
  consents. The store's mutex is part of its state; locking a \<open>std::mutex\<close> that the calling thread holds
  already never succeeds, so an operation that does it has no result (\<open>None\<close>).
\<close>

section \<open>Differential privacy\<close>

datatype DataClass = Public | Personal | Sensitive | Derived

record DifferentialPrivacy =
  dp_epsilon :: f64
  dp_budget_remaining :: f64

definition dp_init :: "f64 \<Rightarrow> DifferentialPrivacy" where
  "dp_init epsilon = \<lparr>dp_epsilon = epsilon, dp_budget_remaining = epsilon\<rparr>"

definition privatize :: "(f64 \<Rightarrow> f64) \<Rightarrow> f64 \<Rightarrow> DataClass \<Rightarrow> DifferentialPrivacy \<Rightarrow> f64 \<times> DifferentialPrivacy" where
  "privatize laplace_noise value' classification d =
     (if classification = Public then (value', d)
      else if classification = Sensitive then (Fin 0, d)
      else
        let sensitivity = Fin 1;
            scale = f64_div sensitivity (dp_epsilon d);
            noise = laplace_noise scale;
            d = d\<lparr>dp_budget_remaining := f64_sub (dp_budget_remaining d) (f64_div sensitivity (dp_epsilon d))\<rparr>
        in (f64_add value' noise, d))"

definition budget_remaining :: "DifferentialPrivacy \<Rightarrow> bool" where
  "budget_remaining d = fp_lt (rnd64 (1 / 100)) (dp_budget_remaining d)"

section \<open>Local storage\<close>

record Entry =
  en_data :: "8 word list"
  en_classification :: DataClass

record LocalStorage =
  st_locked :: bool
  st_entries :: "Entry list"
  st_consents :: "(string, bool) alist"

definition storage_init :: LocalStorage where
  "storage_init = \<lparr>st_locked = False, st_entries = [], st_consents = []\<rparr>"

definition with_lock :: "(LocalStorage \<Rightarrow> ('a \<times> LocalStorage) option) \<Rightarrow> LocalStorage \<Rightarrow> ('a \<times> LocalStorage) option" where
  "with_lock body s =
     (if st_locked s then None
      else case body (s\<lparr>st_locked := True\<rparr>) of
        None \<Rightarrow> None
      | Some (r, s') \<Rightarrow> Some (r, s'\<lparr>st_locked := False\<rparr>))"

definition storage_store :: "8 word list \<Rightarrow> DataClass \<Rightarrow> LocalStorage \<Rightarrow> (bool \<times> LocalStorage) option" where
  "storage_store data classification s =
     (if classification = Sensitive then Some (False, s)
      else with_lock (\<lambda>s. Some (True,
             s\<lparr>st_entries := st_entries s @ [\<lparr>en_data = data, en_classification = classification\<rparr>]\<rparr>)) s)"

definition has_consent :: "string \<Rightarrow> LocalStorage \<Rightarrow> (bool \<times> LocalStorage) option" where
  "has_consent purpose = with_lock (\<lambda>s. Some (al_lookup (st_consents s) purpose = Some True, s))"

definition export_data :: "string \<Rightarrow> LocalStorage \<Rightarrow> (8 word list list \<times> LocalStorage) option" where
  "export_data purpose = with_lock (\<lambda>s.
     case has_consent purpose s of
       None \<Rightarrow> None
     | Some (consent, s) \<Rightarrow>
         if \<not> consent then Some ([], s)
         else Some (map en_data (filter (\<lambda>e. en_classification e \<noteq> Sensitive) (st_entries s)), s))"

definition grant_consent :: "string \<Rightarrow> LocalStorage \<Rightarrow> (unit \<times> LocalStorage) option" where
  "grant_consent purpose = with_lock (\<lambda>s. Some ((), s\<lparr>st_consents := al_update purpose True (st_consents s)\<rparr>))"

definition revoke_consent :: "string \<Rightarrow> LocalStorage \<Rightarrow> (unit \<times> LocalStorage) option" where
  "revoke_consent purpose = with_lock (\<lambda>s. Some ((), s\<lparr>st_consents := al_update purpose False (st_consents s)\<rparr>))"

definition entry_count :: "LocalStorage \<Rightarrow> (nat \<times> LocalStorage) option" where
  "entry_count = with_lock (\<lambda>s. Some (length (st_entries s), s))"

datatype storage_op = Store "8 word list" DataClass | Grant string | Revoke string

fun storage_step :: "storage_op \<Rightarrow> LocalStorage \<Rightarrow> LocalStorage option" where
  "storage_step (Store data cl) s = map_option snd (storage_store data cl s)"
| "storage_step (Grant p) s = map_option snd (grant_consent p s)"
| "storage_step (Revoke p) s = map_option snd (revoke_consent p s)"

fun storage_run :: "storage_op list \<Rightarrow> LocalStorage \<Rightarrow> LocalStorage option" where
  "storage_run [] s = Some s"
| "storage_run (a # as) s = (case storage_step a s of None \<Rightarrow> None | Some s' \<Rightarrow> storage_run as s')"

text \<open>The consent a sequence of calls leaves for a purpose, and the data it stores.\<close>

fun last_consent :: "string \<Rightarrow> storage_op list \<Rightarrow> bool \<Rightarrow> bool" where
  "last_consent p [] b = b"
| "last_consent p (Grant q # as) b = last_consent p as (if q = p then True else b)"
| "last_consent p (Revoke q # as) b = last_consent p as (if q = p then False else b)"
| "last_consent p (Store _ _ # as) b = last_consent p as b"

definition storable :: "storage_op list \<Rightarrow> 8 word list list" where
  "storable as = concat (map (\<lambda>a. case a of Store d cl \<Rightarrow> if cl = Sensitive then [] else [d] | _ \<Rightarrow> []) as)"

section \<open>Properties\<close>

lemma storage_run_spec:
  assumes "\<not> st_locked s" "list_all (\<lambda>e. en_classification e \<noteq> Sensitive) (st_entries s)"
  shows "\<exists>s'. storage_run as s = Some s' \<and> \<not> st_locked s'
    \<and> map en_data (st_entries s') = map en_data (st_entries s) @ storable as
    \<and> list_all (\<lambda>e. en_classification e \<noteq> Sensitive) (st_entries s')
    \<and> (al_lookup (st_consents s') p = Some True) = last_consent p as (al_lookup (st_consents s) p = Some True)"
  using assms
proof (induction as arbitrary: s)
  case (Cons a as)
  obtain s1 where s1: "storage_step a s = Some s1" "\<not> st_locked s1"
    "list_all (\<lambda>e. en_classification e \<noteq> Sensitive) (st_entries s1)"
    "map en_data (st_entries s1) @ storable as = map en_data (st_entries s) @ storable (a # as)"
    "last_consent p as (al_lookup (st_consents s1) p = Some True) = last_consent p (a # as) (al_lookup (st_consents s) p = Some True)"
  proof (cases a)
    case (Store d cl)
    then show ?thesis
      using that Cons.prems by (cases "cl = Sensitive") (simp_all add: storage_store_def with_lock_def storable_def)
  qed (use that Cons.prems in \<open>simp_all add: grant_consent_def revoke_consent_def with_lock_def storable_def\<close>)
  show ?case using Cons.IH [OF s1(2,3)] s1 by simp
qed (simp add: storable_def)

text \<open>The local store keeps its promises as far as it returns. Storing data and changing consents
  always returns; what is kept is exactly the data offered, in order, without anything classified as
  sensitive; a purpose has consent exactly when the last change to it was a grant. But \<open>export_data\<close>
  never returns, with or without consent: it calls \<open>has_consent\<close> while it holds the mutex that
  \<open>has_consent\<close> locks.\<close>
theorem storage_export_deadlocks:
  "\<exists>s. storage_run as storage_init = Some s
     \<and> map en_data (st_entries s) = storable as
     \<and> list_all (\<lambda>e. en_classification e \<noteq> Sensitive) (st_entries s)
     \<and> has_consent p s = Some (last_consent p as False, s)
     \<and> export_data p s = None"
proof -
  obtain s where s: "storage_run as storage_init = Some s" "\<not> st_locked s"
    "map en_data (st_entries s) = storable as" "list_all (\<lambda>e. en_classification e \<noteq> Sensitive) (st_entries s)"
    "(al_lookup (st_consents s) p = Some True) = last_consent p as False"
    using storage_run_spec [of storage_init as p] by (auto simp: storage_init_def)
  have "s\<lparr>st_locked := False\<rparr> = s" using s(2) by (cases s) simp
  then show ?thesis
    using s by (intro exI [of _ s]) (simp add: has_consent_def export_data_def with_lock_def)
qed

text \<open>The privacy budget is counted and never enforced. Public data passes unchanged and sensitive
  data is replaced by zero, both for free; any other value is released with noise, whatever is left of
  the budget. With the default budget of 1 the first such release uses it up, and the second one, which
  succeeds all the same, leaves it at -1.\<close>
theorem privacy_budget_not_enforced:
  "privatize noise v Public d = (v, d) \<and> privatize noise v Sensitive d = (Fin 0, d)
   \<and> (cl \<in> {Personal, Derived} \<longrightarrow>
        fst (privatize noise v cl d) = f64_add v (noise (f64_div (Fin 1) (dp_epsilon d))))
   \<and> (let d1 = snd (privatize noise v1 Personal (dp_init (Fin 1)));
          (r, d2) = privatize noise v2 Personal d1
      in \<not> budget_remaining d1 \<and> dp_budget_remaining d1 = Fin 0
       \<and> r = f64_add v2 (noise (Fin 1)) \<and> dp_budget_remaining d2 = Fin (- 1))"
proof -
  have "rnd64 (- 1) = Fin (- 1)"
    unfolding rnd64_def by (rule rnd_exact [where m = "-1" and k = 0]) (simp_all add: power_int_def)
  moreover have "fp_le (Fin 0) (rnd64 (1 / 100))" using rnd64_mono [of 0 "1 / 100"] by simp
  ultimately show ?thesis
    by (cases "rnd64 (1 / 100)")
      (auto simp: privatize_def dp_init_def Let_def fp_sub_def budget_remaining_def)
qed

theorem privacy_budget_not_enforced_witness:
  "fst (privatize (\<lambda>_. Fin 3) (Fin 4) Derived (dp_init (Fin 1))) = f64_add (Fin 4) (Fin 3)"
  using privacy_budget_not_enforced [of "\<lambda>_. Fin 3" "Fin 4" "dp_init (Fin 1)" Derived "Fin 0" "Fin 0"] by simp

end
