(* ===== verification/FfiBridge.thy ===== *)
theory FfiBridge
  imports IeeeFloat
begin

text \<open>
  The bridge to the model library: \<open>FfiModelBridge\<close> (\<open>src/synapse/ml/ffi_model_bridge.h\<close>), the types
  of \<open>src/synapse/ffi/synapse_igpu_ml.h\<close>, and the store behind the foreign functions
  (\<open>src/rust/crates/igpu_ml_ffi/src/lib.rs\<close>), in which a model is reached by a handle. A model is a
  trait object there; its \<open>infer\<close>, \<open>update\<close> and \<open>explain\<close>, and the two constructors, are arguments, in
  the record \<open>model_ops\<close>. An update may fail and may change the model all the same.
  A model answers with the library's own \<open>ActionScores\<close>; what crosses the interface is
  \<open>SynapseActionScores\<close>, whose last member the two sides declare differently (\<open>c_epsilon_greedy\<close>).
  The two models of the library are in \<open>NeuralNet\<close>, and are such a record there.
\<close>

section \<open>Types of the interface\<close>

record SynapseFeatureVector =
  shader_complexity_norm :: f32
  vertex_count_log_norm :: f32
  draw_call_rate_norm :: f32
  fv_cache_hit_rate :: f32
  fv_dvfs_headroom :: f32
  fv_thermal_headroom :: f32
  predictor_accuracy :: f32
  is_compute_dispatch :: f32

record SynapseExperience =
  ex_features :: SynapseFeatureVector
  ex_action :: u32
  ex_reward :: f32
  ex_timestamp_ns :: u64
  ex_session_id :: u64
  ex_energy_joules :: f32
  ex_thermal_events :: u32
  ex_confidence :: f32

text \<open>The scores inside the library (\<open>igpu_ml_core\<close>).\<close>

record ActionScores =
  as_scores :: "f32 list"
  as_chosen :: u32
  as_confidence :: f32
  as_epsilon_greedy :: bool

text \<open>The scores as they are passed. The library declares the last member as a \<open>bool\<close> and writes that one byte;
  the header declares an \<open>int\<close>, whose other three bytes are padding for the library and hold anything.
  The record has the byte that is written; \<open>c_epsilon_greedy\<close> is what C++ reads, for padding bytes \<open>pad\<close>
  (the machine is little-endian).\<close>

record SynapseActionScores =
  sa_scores :: "f32 list"
  sa_chosen :: u32
  sa_confidence :: f32
  sa_epsilon_greedy :: u8

definition c_epsilon_greedy :: "bytes \<Rightarrow> SynapseActionScores \<Rightarrow> u32" where
  "c_epsilon_greedy pad s = of_le32 (sa_epsilon_greedy s # pad)"

record SynapseModelExplanation =
  me_feature_importances :: "f32 list"
  me_predicted_scores :: "f32 list"
  me_confidence :: f32
  me_model_version :: "string option"
  me_notes :: "string option"

record SynapseUpdateResult =
  ur_loss :: f32
  ur_gradient_norm :: f32
  ur_learning_rate :: f32

record 'm model_ops =
  new_tile_transformer :: 'm
  new_telemetry_optimizer :: 'm
  mo_infer :: "'m \<Rightarrow> SynapseFeatureVector \<Rightarrow> ActionScores"
  mo_update :: "'m \<Rightarrow> SynapseExperience \<Rightarrow> SynapseUpdateResult option \<times> 'm"
  mo_explain :: "'m \<Rightarrow> SynapseFeatureVector \<Rightarrow> SynapseModelExplanation"

section \<open>The store behind the handles\<close>

record 'm ModelStore =
  store_models :: "(u64, 'm) alist"
  store_next_id :: u64

definition store_init :: "'m ModelStore" where
  "store_init = \<lparr>store_models = [], store_next_id = 0\<rparr>"

definition store_insert :: "'m \<Rightarrow> 'm ModelStore \<Rightarrow> u64 \<times> 'm ModelStore" where
  "store_insert m s =
     (let h = store_next_id s
      in (h, s\<lparr>store_next_id := h + 1, store_models := al_update h m (store_models s)\<rparr>))"

definition clamp01 :: "f32 \<Rightarrow> f32" where
  "clamp01 x = fp_clamp x (Fin 0) (Fin 1)"

definition feature_vector_from_raw :: "SynapseFeatureVector \<Rightarrow> SynapseFeatureVector" where
  "feature_vector_from_raw f =
     \<lparr>shader_complexity_norm = clamp01 (shader_complexity_norm f),
      vertex_count_log_norm = clamp01 (vertex_count_log_norm f),
      draw_call_rate_norm = clamp01 (draw_call_rate_norm f),
      fv_cache_hit_rate = clamp01 (fv_cache_hit_rate f),
      fv_dvfs_headroom = clamp01 (fv_dvfs_headroom f),
      fv_thermal_headroom = clamp01 (fv_thermal_headroom f),
      predictor_accuracy = clamp01 (predictor_accuracy f),
      is_compute_dispatch = clamp01 (is_compute_dispatch f)\<rparr>"

definition experience_from_raw :: "SynapseExperience \<Rightarrow> SynapseExperience" where
  "experience_from_raw e = e\<lparr>ex_features := feature_vector_from_raw (ex_features e)\<rparr>"

definition action_scores_to_raw :: "ActionScores \<Rightarrow> SynapseActionScores" where
  "action_scores_to_raw s = \<lparr>sa_scores = as_scores s, sa_chosen = as_chosen s, sa_confidence = as_confidence s,
     sa_epsilon_greedy = (if as_epsilon_greedy s then 1 else 0)\<rparr>"

definition fallback_scores :: SynapseActionScores where
  "fallback_scores = \<lparr>sa_scores = [rnd32 (333 / 1000), rnd32 (333 / 1000), rnd32 (334 / 1000)], sa_chosen = 2,
     sa_confidence = Fin 0, sa_epsilon_greedy = 0\<rparr>"

definition empty_explanation :: SynapseModelExplanation where
  "empty_explanation = \<lparr>me_feature_importances = replicate 8 (Fin 0), me_predicted_scores = replicate 3 (Fin 0),
     me_confidence = Fin 0, me_model_version = None, me_notes = None\<rparr>"

definition no_update :: SynapseUpdateResult where
  "no_update = \<lparr>ur_loss = Fin 0, ur_gradient_norm = Fin 0, ur_learning_rate = Fin 0\<rparr>"

definition model_named :: "'m model_ops \<Rightarrow> string \<Rightarrow> 'm option" where
  "model_named ops name =
     (if name = ''dynamic-tile-transformer'' then Some (new_tile_transformer ops)
      else if name = ''telemetry-optimizer'' then Some (new_telemetry_optimizer ops) else None)"

definition synapse_ml_create_model :: "'m model_ops \<Rightarrow> string \<Rightarrow> 'm ModelStore \<Rightarrow> u64 \<times> 'm ModelStore" where
  "synapse_ml_create_model ops name s =
     (case model_named ops name of None \<Rightarrow> (- 1, s) | Some m \<Rightarrow> store_insert m s)"

definition synapse_ml_destroy_model :: "u64 \<Rightarrow> 'm ModelStore \<Rightarrow> int \<times> 'm ModelStore" where
  "synapse_ml_destroy_model h s =
     (if h = - 1 then (- 1, s) else (0, s\<lparr>store_models := al_delete h (store_models s)\<rparr>))"

definition synapse_ml_infer :: "'m model_ops \<Rightarrow> u64 \<Rightarrow> SynapseFeatureVector \<Rightarrow> 'm ModelStore \<Rightarrow> SynapseActionScores" where
  "synapse_ml_infer ops h f s =
     (case al_lookup (store_models s) h of
        None \<Rightarrow> fallback_scores | Some m \<Rightarrow> action_scores_to_raw (mo_infer ops m (feature_vector_from_raw f)))"

definition synapse_ml_observe ::
  "'m model_ops \<Rightarrow> u64 \<Rightarrow> SynapseExperience \<Rightarrow> 'm ModelStore \<Rightarrow> SynapseUpdateResult \<times> 'm ModelStore" where
  "synapse_ml_observe ops h e s =
     (case al_lookup (store_models s) h of
        None \<Rightarrow> (no_update, s)
      | Some m \<Rightarrow>
          let (r, m') = mo_update ops m (experience_from_raw e)
          in ((case r of None \<Rightarrow> no_update | Some u \<Rightarrow> u), s\<lparr>store_models := al_update h m' (store_models s)\<rparr>))"

definition synapse_ml_explain :: "'m model_ops \<Rightarrow> u64 \<Rightarrow> SynapseFeatureVector \<Rightarrow> 'm ModelStore \<Rightarrow> SynapseModelExplanation" where
  "synapse_ml_explain ops h f s =
     (case al_lookup (store_models s) h of
        None \<Rightarrow> empty_explanation | Some m \<Rightarrow> mo_explain ops m (feature_vector_from_raw f))"

section \<open>The bridge object\<close>

text \<open>A bridge is its handle. The name reaches the library as a C string, so it ends at the first null
  character; the constructor throws when no handle comes back.\<close>

type_synonym FfiModelBridge = u64

definition c_str :: "string \<Rightarrow> string" where
  "c_str s = takeWhile (\<lambda>ch. ch \<noteq> CHR 0x00) s"

definition bridge_new :: "'m model_ops \<Rightarrow> string \<Rightarrow> 'm ModelStore \<Rightarrow> (string + FfiModelBridge) \<times> 'm ModelStore" where
  "bridge_new ops name s =
     (let (h, s) = synapse_ml_create_model ops (c_str name) s
      in (if h = - 1 then Inl (''Failed to create ML model: '' @ name) else Inr h, s))"

definition bridge_destroy :: "FfiModelBridge \<Rightarrow> 'm ModelStore \<Rightarrow> 'm ModelStore" where
  "bridge_destroy h s = (if h \<noteq> - 1 then snd (synapse_ml_destroy_model h s) else s)"

definition bridge_infer :: "'m model_ops \<Rightarrow> SynapseFeatureVector \<Rightarrow> FfiModelBridge \<Rightarrow> 'm ModelStore \<Rightarrow> SynapseActionScores" where
  "bridge_infer ops f h s = synapse_ml_infer ops h f s"

definition bridge_observe ::
  "'m model_ops \<Rightarrow> SynapseExperience \<Rightarrow> FfiModelBridge \<Rightarrow> 'm ModelStore \<Rightarrow> SynapseUpdateResult \<times> 'm ModelStore" where
  "bridge_observe ops e h s = synapse_ml_observe ops h e s"

definition bridge_explain ::
  "'m model_ops \<Rightarrow> SynapseFeatureVector \<Rightarrow> FfiModelBridge \<Rightarrow> 'm ModelStore \<Rightarrow> SynapseModelExplanation" where
  "bridge_explain ops f h s = synapse_ml_explain ops h f s"

section \<open>A program with several bridges\<close>

text \<open>The client numbers its bridges in the order of their construction; \<open>None\<close> is a destroyed one.
  Using a number that has no bridge is answered \<open>No_bridge\<close>, on both sides.\<close>

datatype bridge_op =
    New_bridge string
  | Delete_bridge nat
  | Infer_with nat SynapseFeatureVector
  | Observe_with nat SynapseExperience
  | Explain_with nat SynapseFeatureVector

datatype bridge_out =
    Created
  | Threw string
  | Deleted
  | Scores SynapseActionScores
  | Updated SynapseUpdateResult
  | Explained SynapseModelExplanation
  | No_bridge

definition live :: "'a option list \<Rightarrow> nat \<Rightarrow> 'a option" where
  "live xs i = (if i < length xs then xs ! i else None)"

type_synonym 'm bridges = "'m ModelStore \<times> FfiModelBridge option list"

fun bridge_step :: "'m model_ops \<Rightarrow> bridge_op \<Rightarrow> 'm bridges \<Rightarrow> bridge_out \<times> 'm bridges" where
  "bridge_step ops (New_bridge name) (s, hs) =
     (case bridge_new ops name s of
        (Inl e, s) \<Rightarrow> (Threw e, s, hs)
      | (Inr h, s) \<Rightarrow> (Created, s, hs @ [Some h]))"
| "bridge_step ops (Delete_bridge i) (s, hs) =
     (case live hs i of None \<Rightarrow> (No_bridge, s, hs) | Some h \<Rightarrow> (Deleted, bridge_destroy h s, hs[i := None]))"
| "bridge_step ops (Infer_with i f) (s, hs) =
     (case live hs i of None \<Rightarrow> (No_bridge, s, hs) | Some h \<Rightarrow> (Scores (bridge_infer ops f h s), s, hs))"
| "bridge_step ops (Observe_with i e) (s, hs) =
     (case live hs i of None \<Rightarrow> (No_bridge, s, hs)
      | Some h \<Rightarrow> let (u, s) = bridge_observe ops e h s in (Updated u, s, hs))"
| "bridge_step ops (Explain_with i f) (s, hs) =
     (case live hs i of None \<Rightarrow> (No_bridge, s, hs) | Some h \<Rightarrow> (Explained (bridge_explain ops f h s), s, hs))"

text \<open>The specification: every bridge has a model of its own.\<close>

fun private_step :: "'m model_ops \<Rightarrow> bridge_op \<Rightarrow> 'm option list \<Rightarrow> bridge_out \<times> 'm option list" where
  "private_step ops (New_bridge name) ms =
     (case model_named ops (c_str name) of
        None \<Rightarrow> (Threw (''Failed to create ML model: '' @ name), ms)
      | Some m \<Rightarrow> (Created, ms @ [Some m]))"
| "private_step ops (Delete_bridge i) ms =
     (case live ms i of None \<Rightarrow> (No_bridge, ms) | Some m \<Rightarrow> (Deleted, ms[i := None]))"
| "private_step ops (Infer_with i f) ms =
     (case live ms i of
        None \<Rightarrow> (No_bridge, ms) | Some m \<Rightarrow> (Scores (action_scores_to_raw (mo_infer ops m (feature_vector_from_raw f))), ms))"
| "private_step ops (Observe_with i e) ms =
     (case live ms i of None \<Rightarrow> (No_bridge, ms)
      | Some m \<Rightarrow> let (r, m') = mo_update ops m (experience_from_raw e)
                  in (Updated (case r of None \<Rightarrow> no_update | Some u \<Rightarrow> u), ms[i := Some m']))"
| "private_step ops (Explain_with i f) ms =
     (case live ms i of None \<Rightarrow> (No_bridge, ms) | Some m \<Rightarrow> (Explained (mo_explain ops m (feature_vector_from_raw f)), ms))"

definition bridges_abs :: "'m bridges \<Rightarrow> 'm option list" where
  "bridges_abs b = map (\<lambda>h. Option.bind h (al_lookup (store_models (fst b)))) (snd b)"

definition bridges_inv :: "'m bridges \<Rightarrow> bool" where
  "bridges_inv b \<longleftrightarrow> length (snd b) < 2 ^ 64 \<and> store_next_id (fst b) = of_nat (length (snd b))
     \<and> distinct (map fst (store_models (fst b)))
     \<and> (\<forall>i h. live (snd b) i = Some h \<longrightarrow> h = of_nat i)
     \<and> (\<forall>h. al_lookup (store_models (fst b)) h \<noteq> None \<longleftrightarrow> (\<exists>i. live (snd b) i = Some h))"

text \<open>Handles run out after 2^64 - 1 constructions: the next one would be the failure value.\<close>

definition handles_left :: "bridge_op \<Rightarrow> 'm option list \<Rightarrow> bool" where
  "handles_left op ms \<longleftrightarrow> length ms + 1 < 2 ^ 64"

section \<open>Lemmas\<close>

lemma live_simps [simp]:
  "live [] i = None"
  "live (xs @ [x]) i = (if i = length xs then x else live xs i)"
  by (auto simp: live_def nth_append)

lemma live_beyond [simp]: "live xs (length xs) = None"
  by (simp add: live_def)

lemma ex_live_append: "(\<exists>i. live (xs @ [Some x]) i = Some y) \<longleftrightarrow> y = x \<or> (\<exists>i. live xs i = Some y)"
  by (metis live_beyond live_simps(2) option.distinct(1) option.inject)

lemma live_map: "live (map f xs) i = (if i < length xs then f (xs ! i) else None)"
  by (simp add: live_def)

lemma live_update: "i < length xs \<Longrightarrow> live (xs[i := x]) j = (if j = i then x else live xs j)"
  by (auto simp: live_def nth_list_update)

lemma live_SomeD: "live xs i = Some x \<Longrightarrow> i < length xs \<and> xs ! i = Some x"
  by (simp add: live_def split: if_splits)

lemma live_bridges_abs: "live (bridges_abs (s, hs)) i = Option.bind (live hs i) (al_lookup (store_models s))"
  by (simp add: bridges_abs_def live_map live_def)

lemma of_nat_64_eq: "i < 2 ^ 64 \<Longrightarrow> j < 2 ^ 64 \<Longrightarrow> (of_nat i :: u64) = of_nat j \<longleftrightarrow> i = j"
  by (simp add: word_of_nat_eq_iff take_bit_eq_mod)

lemma of_nat_64_max: "i + 1 < 2 ^ 64 \<Longrightarrow> (of_nat i :: u64) \<noteq> - 1"
proof -
  assume "i + 1 < 2 ^ 64"
  then have "unat (of_nat i :: u64) = i" by (simp add: unat_of_nat)
  moreover have "unat (- 1 :: u64) = 2 ^ 64 - 1" by (simp add: unsigned_minus_1_eq_mask mask_eq_exp_minus_1)
  ultimately show ?thesis using \<open>i + 1 < 2 ^ 64\<close> by force
qed

lemma live_model:
  assumes "bridges_inv (s, hs)"
  shows "live (bridges_abs (s, hs)) i = None \<longleftrightarrow> live hs i = None"
  using assms by (cases "live hs i") (auto simp: live_bridges_abs bridges_inv_def)

lemma new_refines:
  assumes inv: "bridges_inv (s, hs)" and left: "length hs + 1 < 2 ^ 64"
    and s': "s' = s\<lparr>store_next_id := of_nat (length hs) + 1, store_models := al_update (of_nat (length hs)) m (store_models s)\<rparr>"
  shows "bridges_inv (s', hs @ [Some (of_nat (length hs))])"
    and "bridges_abs (s', hs @ [Some (of_nat (length hs))]) = bridges_abs (s, hs) @ [Some m]"
proof -
  have fresh: "live hs i \<noteq> Some (of_nat (length hs))" for i
  proof
    assume *: "live hs i = Some (of_nat (length hs))"
    then have "i < length hs" "(of_nat (length hs) :: u64) = of_nat i"
      using inv live_SomeD [OF *] unfolding bridges_inv_def by auto
    then show False using left of_nat_64_eq [of "length hs" i] by simp
  qed
  have "al_lookup (store_models s') h \<noteq> None \<longleftrightarrow> (\<exists>i. live (hs @ [Some (of_nat (length hs))]) i = Some h)" for h
    unfolding ex_live_append using inv by (auto simp: bridges_inv_def s')
  then show "bridges_inv (s', hs @ [Some (of_nat (length hs))])"
    using inv left by (simp add: bridges_inv_def s')
  have "hs ! i \<noteq> Some (of_nat (length hs))" if "i < length hs" for i
    using fresh [of i] that by (simp add: live_def)
  then have "Option.bind h (al_lookup (store_models s')) = Option.bind h (al_lookup (store_models s))" if "h \<in> set hs" for h
    using that by (cases h) (auto simp: s' in_set_conv_nth)
  then show "bridges_abs (s', hs @ [Some (of_nat (length hs))]) = bridges_abs (s, hs) @ [Some m]"
    by (simp add: bridges_abs_def) (simp add: s')
qed

text \<open>Changing or deleting the model of one live bridge changes that place of the abstraction only.\<close>

lemma others_keep:
  assumes inv: "bridges_inv (s, hs)" and h: "live hs i = Some h"
    and same: "\<And>h'. h' \<noteq> h \<Longrightarrow> al_lookup ms h' = al_lookup (store_models s) h'"
  shows "j < length hs \<Longrightarrow> j \<noteq> i \<Longrightarrow> Option.bind (hs ! j) (al_lookup ms) = Option.bind (hs ! j) (al_lookup (store_models s))"
proof -
  assume j: "j < length hs" "j \<noteq> i"
  have i: "i < length hs" "h = of_nat i" using inv live_SomeD [OF h] h by (auto simp: bridges_inv_def)
  have "hs ! j \<noteq> Some h"
    using inv i j of_nat_64_eq [of i j] by (auto simp: bridges_inv_def live_def)
  then show ?thesis using same by (cases "hs ! j") auto
qed

lemma delete_refines:
  assumes inv: "bridges_inv (s, hs)" and h: "live hs i = Some h"
  shows "bridges_inv (bridge_destroy h s, hs[i := None])"
    and "bridges_abs (bridge_destroy h s, hs[i := None]) = (bridges_abs (s, hs))[i := None]"
proof -
  have i: "i < length hs" "hs ! i = Some h" "h = of_nat i"
    using live_SomeD [OF h] inv h unfolding bridges_inv_def by auto
  have bound: "length hs < 2 ^ 64" using inv by (simp add: bridges_inv_def)
  then have ne: "h \<noteq> - 1" using i of_nat_64_max [of i] by simp
  have s': "bridge_destroy h s = s\<lparr>store_models := al_delete h (store_models s)\<rparr>"
    using ne by (simp add: bridge_destroy_def synapse_ml_destroy_model_def)
  have "live hs j \<noteq> Some h" if "j \<noteq> i" for j
  proof
    assume *: "live hs j = Some h"
    then have "h = of_nat j" "j < length hs" using inv live_SomeD [OF *] unfolding bridges_inv_def by auto
    then show False using that i bound of_nat_64_eq [of i j] by simp
  qed
  then have "(\<exists>j. live (hs[i := None]) j = Some h') \<longleftrightarrow> h' \<noteq> h \<and> (\<exists>j. live hs j = Some h')" for h'
    unfolding live_update [OF i(1)] using h by (metis option.distinct(1) option.inject)
  moreover have "live (hs[i := None]) j = Some h' \<Longrightarrow> live hs j = Some h'" for j h'
    by (simp add: live_update [OF i(1)] split: if_splits)
  ultimately show "bridges_inv (bridge_destroy h s, hs[i := None])"
    using inv unfolding s' bridges_inv_def by simp
  show "bridges_abs (bridge_destroy h s, hs[i := None]) = (bridges_abs (s, hs))[i := None]"
    unfolding s' using others_keep [OF inv h, of "al_delete h (store_models s)"] i(1)
    by (intro nth_equalityI) (simp_all add: bridges_abs_def nth_list_update)
qed

lemma observe_refines:
  assumes inv: "bridges_inv (s, hs)" and h: "live hs i = Some h"
    and s': "s' = s\<lparr>store_models := al_update h m (store_models s)\<rparr>"
  shows "bridges_inv (s', hs)" and "bridges_abs (s', hs) = (bridges_abs (s, hs))[i := Some m]"
proof -
  have i: "i < length hs" "hs ! i = Some h" using live_SomeD [OF h] by auto
  show "bridges_inv (s', hs)" using inv h by (auto simp: bridges_inv_def s')
  show "bridges_abs (s', hs) = (bridges_abs (s, hs))[i := Some m]"
    using others_keep [OF inv h, of "store_models s'"] i
    by (intro nth_equalityI) (auto simp: bridges_abs_def nth_list_update s')
qed

lemma bridge_step_refines:
  assumes inv: "bridges_inv b" and left: "handles_left op (bridges_abs b)" and st: "bridge_step ops op b = (r, b')"
  shows "bridges_inv b' \<and> private_step ops op (bridges_abs b) = (r, bridges_abs b')"
proof -
  obtain s hs where b: "b = (s, hs)" by fastforce
  note inv = inv [unfolded b] and st = st [unfolded b]
  have len: "length (bridges_abs (s, hs)) = length hs" by (simp add: bridges_abs_def)
  have dead: "live hs i = None \<Longrightarrow> live (bridges_abs (s, hs)) i = None" for i
    by (simp add: live_model [OF inv])
  have model: "\<exists>m. al_lookup (store_models s) h = Some m \<and> live (bridges_abs (s, hs)) i = Some m"
    if "live hs i = Some h" for i h
    using that live_model [OF inv, of i] by (cases "al_lookup (store_models s) h") (auto simp: live_bridges_abs)
  show ?thesis
  proof (cases op)
    case (New_bridge name)
    then have n: "length hs + 1 < 2 ^ 64" using left by (simp add: handles_left_def b len)
    have "store_next_id s = of_nat (length hs)" using inv by (simp add: bridges_inv_def)
    moreover have "(of_nat (length hs) :: u64) \<noteq> - 1" by (rule of_nat_64_max [OF n])
    ultimately show ?thesis
      using st New_bridge new_refines [OF inv n refl] inv
      by (auto simp: b bridge_new_def synapse_ml_create_model_def store_insert_def Let_def split: option.splits)
  next
    case (Delete_bridge i)
    show ?thesis
    proof (cases "live hs i")
      case (Some h)
      then show ?thesis
        using st Delete_bridge model [OF Some] delete_refines [OF inv Some] by (auto simp: b)
    qed (use st inv Delete_bridge in \<open>auto simp: b dead\<close>)
  next
    case (Infer_with i f)
    then show ?thesis
      using st inv model [of i] by (cases "live hs i") (auto simp: b dead bridge_infer_def synapse_ml_infer_def)
  next
    case (Observe_with i e)
    show ?thesis
    proof (cases "live hs i")
      case (Some h)
      then show ?thesis
        using st Observe_with model [OF Some] observe_refines [OF inv Some refl]
        by (auto simp: b bridge_observe_def synapse_ml_observe_def Let_def split: prod.splits)
    qed (use st inv Observe_with in \<open>auto simp: b dead\<close>)
  next
    case (Explain_with i f)
    then show ?thesis
      using st inv model [of i] by (cases "live hs i") (auto simp: b dead bridge_explain_def synapse_ml_explain_def)
  qed
qed

interpretation bridges: simulation "bridge_step ops" "private_step ops" bridges_abs bridges_inv handles_left for ops
  by unfold_locales (rule bridge_step_refines)

lemma length_private_step: "length (snd (private_step mo op ms)) \<le> length ms + 1"
  by (cases op) (auto split: option.splits prod.splits)

lemma handles_left_run: "length ms + length ops < 2 ^ 64 \<Longrightarrow> legal_run (private_step mo) handles_left ops ms"
proof (induction ops arbitrary: ms)
  case (Cons op ops)
  then show ?case
    using length_private_step [of mo op ms] Cons.IH [of "snd (private_step mo op ms)"]
    by (simp add: handles_left_def)
qed simp

lemma store_holds_live:
  assumes "bridges_inv (s, hs)"
  shows "length (store_models s) = length (filter (\<lambda>h. h \<noteq> None) hs)"
proof -
  let ?I = "{i. i < length hs \<and> hs ! i \<noteq> None}"
  have "h \<in> fst ` set (store_models s) \<longleftrightarrow> (\<exists>i. live hs i = Some h)" for h
    using assms al_lookup_None [of "store_models s" h] unfolding bridges_inv_def by (metis fst_conv snd_conv)
  moreover have "(\<exists>i. live hs i = Some h) \<longleftrightarrow> h \<in> of_nat ` ?I" for h
    using assms unfolding bridges_inv_def by (fastforce simp: live_def split: if_splits)
  ultimately have keys: "fst ` set (store_models s) = of_nat ` ?I" by blast
  have "length (store_models s) = card (fst ` set (store_models s))"
    using assms distinct_card [of "map fst (store_models s)"] by (simp add: bridges_inv_def)
  also have "\<dots> = card ?I"
    unfolding keys using assms of_nat_64_eq by (intro card_image inj_onI) (auto simp: bridges_inv_def)
  finally show ?thesis by (simp add: length_filter_conv_card)
qed

text \<open>The byte the library writes is the lowest of the \<open>int\<close>, which as a whole says nothing: whatever was written,
  some padding makes it nonzero.\<close>

lemma unat_c_epsilon_greedy:
  assumes "length pad = 3"
  shows "unat (c_epsilon_greedy pad s) = unat (sa_epsilon_greedy s) + 256 * nat_le pad"
proof -
  have "nat_le (sa_epsilon_greedy s # pad) < 2 ^ 32" using nat_le_bound [of "sa_epsilon_greedy s # pad"] assms by simp
  then have "unat (of_nat (nat_le (sa_epsilon_greedy s # pad)) :: u32) = nat_le (sa_epsilon_greedy s # pad)"
    by (subst unat_of_nat) simp
  then show ?thesis using assms by (simp only: c_epsilon_greedy_def of_le32_def nat_le.simps take_all length_Cons)
qed

lemma c_epsilon_greedy_byte:
  "length pad = 3 \<Longrightarrow> unat (c_epsilon_greedy pad s) mod 256 = unat (sa_epsilon_greedy s)"
proof -
  have "unat (sa_epsilon_greedy s) < 256" using unsigned_less [of "sa_epsilon_greedy s"] by simp
  then show "length pad = 3 \<Longrightarrow> ?thesis" by (simp add: unat_c_epsilon_greedy)
qed

lemma c_epsilon_greedy_untestable: "\<exists>pad. length pad = 3 \<and> c_epsilon_greedy pad s \<noteq> 0"
proof -
  have "unat (c_epsilon_greedy [1, 0, 0] s) \<noteq> 0" by (simp add: unat_c_epsilon_greedy)
  then have "length [1 :: u8, 0, 0] = 3 \<and> c_epsilon_greedy [1, 0, 0] s \<noteq> 0" by (simp add: unat_eq_0)
  then show ?thesis by (rule exI)
qed

section \<open>Properties\<close>

text \<open>C21: A bridge owns its model. Whatever bridges a program constructs, uses and destroys, in any order
  (fewer than 2^64 calls), every answer is the one a model of its own would give to that bridge's calls
  alone, with the feature values clamped to [0,1] and a failed update reported as zeros; construction
  throws exactly for names (up to the first null character) other than the two known ones; and the
  library holds exactly one model per bridge that exists, so none is leaked.\<close>
theorem ffi_bridges_isolated:
  assumes "length ops < 2 ^ 64" "run_ops (bridge_step mo) ops (store_init, []) = (answers, s, hs)"
  shows "run_ops (private_step mo) ops [] = (answers, bridges_abs (s, hs))
    \<and> length (store_models s) = length (filter (\<lambda>h. h \<noteq> None) hs)"
proof -
  have init: "bridges_inv (store_init :: 'a ModelStore, [])" "bridges_abs (store_init :: 'a ModelStore, []) = []"
    by (simp_all add: bridges_inv_def bridges_abs_def store_init_def)
  have "legal_run (private_step mo) handles_left ops []" using assms(1) by (intro handles_left_run) simp
  with bridges.run_refines [OF init(1), of mo ops] assms(2) init(2) store_holds_live [of s hs] show ?thesis by simp
qed

definition features_of :: "f32 \<Rightarrow> SynapseFeatureVector" where
  "features_of x = \<lparr>shader_complexity_norm = x, vertex_count_log_norm = x, draw_call_rate_norm = x,
     fv_cache_hit_rate = x, fv_dvfs_headroom = x, fv_thermal_headroom = x, predictor_accuracy = x, is_compute_dispatch = x\<rparr>"

text \<open>A concrete model: it remembers the last reward and answers with it.\<close>

definition last_reward_model :: "f32 model_ops" where
  "last_reward_model = \<lparr>new_tile_transformer = Fin 0, new_telemetry_optimizer = Fin 1,
     mo_infer = (\<lambda>m f. \<lparr>as_scores = [m, shader_complexity_norm f, Fin 0], as_chosen = 0, as_confidence = m, as_epsilon_greedy = False\<rparr>),
     mo_update = (\<lambda>m e. (if ex_reward e = NaN then None
        else Some \<lparr>ur_loss = m, ur_gradient_norm = Fin 0, ur_learning_rate = Fin 1\<rparr>, ex_reward e)),
     mo_explain = (\<lambda>m f. empty_explanation)\<rparr>"

theorem ffi_bridges_isolated_witness:
  "let ops = [New_bridge ''telemetry-optimizer'', New_bridge ''gpt'', New_bridge ''dynamic-tile-transformer'',
        Infer_with 1 (features_of (Fin 7)), Delete_bridge 0, Infer_with 0 (features_of (Fin 0)), Infer_with 1 (features_of (Fin 0))];
       (answers, s, hs) = run_ops (bridge_step last_reward_model) ops (store_init, [])
   in run_ops (private_step last_reward_model) ops [] = (answers, bridges_abs (s, hs))
    \<and> length (store_models s) = length (filter (\<lambda>h. h \<noteq> None) hs)"
proof -
  let ?ops = "[New_bridge ''telemetry-optimizer'', New_bridge ''gpt'', New_bridge ''dynamic-tile-transformer'',
        Infer_with 1 (features_of (Fin 7)), Delete_bridge 0, Infer_with 0 (features_of (Fin 0)), Infer_with 1 (features_of (Fin 0))]"
  obtain answers s hs where run: "run_ops (bridge_step last_reward_model) ?ops (store_init, []) = (answers, s, hs)"
    by (metis prod.collapse)
  have "length ?ops < 2 ^ 64" by simp
  from ffi_bridges_isolated [OF this run] run show ?thesis by (simp only: Let_def prod.case)
qed

end
