(* ===== verification/NeuralNet.thy ===== *)
theory NeuralNet
  imports FfiBridge Text
begin

text \<open>
  The two models behind the bridge, \<open>src/rust/crates/igpu_ml_models\<close>: \<open>DynamicTileTransformer\<close> and
  \<open>TelemetryOptimizer\<close>, with the types of \<open>src/rust/crates/igpu_ml_core\<close> they use. Both are feed-forward
  networks with the same code; they differ in their defaults and in the loss they report, so the code is
  written once here, for a configuration that the optimiser extends by one field.

  A vector is a list, a matrix the list of its rows. A panic (a shape that does not fit, an index out of
  range) is \<open>None\<close>; in a foreign function it ends the process. What the models take from outside is the
  record \<open>ml_lib\<close>: the number generator seeded by a word, the two functions of \<open>ndarray\<close> whose order of
  summation is its own affair, and the library's \<open>exp\<close>, \<open>ln\<close> and \<open>sqrt\<close>.
\<close>

record ml_lib =
  lib_random :: "u64 \<Rightarrow> nat \<Rightarrow> f32"
  lib_dot :: "f32 list \<Rightarrow> f32 list \<Rightarrow> f32"
  lib_sum :: "f32 list \<Rightarrow> f32"
  lib_exp :: "f32 \<Rightarrow> f32"
  lib_ln :: "f32 \<Rightarrow> f32"
  lib_sqrt :: "f32 \<Rightarrow> f32"

section \<open>Features and scores\<close>

definition fv_to_array :: "SynapseFeatureVector \<Rightarrow> f32 list" where
  "fv_to_array f = [shader_complexity_norm f, vertex_count_log_norm f, draw_call_rate_norm f, fv_cache_hit_rate f,
     fv_dvfs_headroom f, fv_thermal_headroom f, predictor_accuracy f, is_compute_dispatch f]"

definition feature_valid :: "f32 \<Rightarrow> bool" where
  "feature_valid v \<longleftrightarrow> (case v of Fin q \<Rightarrow> \<not> (q < 0 \<or> 1 < q) | _ \<Rightarrow> False)"

definition fv_validate :: "SynapseFeatureVector \<Rightarrow> bool" where
  "fv_validate f \<longleftrightarrow> list_all feature_valid (fv_to_array f)"

definition fv_from_array :: "f32 list \<Rightarrow> SynapseFeatureVector option" where
  "fv_from_array arr =
     (if length arr \<noteq> 8 then None
      else let fv = \<lparr>shader_complexity_norm = arr ! 0, vertex_count_log_norm = arr ! 1, draw_call_rate_norm = arr ! 2,
             fv_cache_hit_rate = arr ! 3, fv_dvfs_headroom = arr ! 4, fv_thermal_headroom = arr ! 5,
             predictor_accuracy = arr ! 6, is_compute_dispatch = arr ! 7\<rparr>
           in if fv_validate fv then Some fv else None)"

text \<open>Rust's \<open>f32::max\<close> ignores a NaN.\<close>

definition rust_max :: "f32 \<Rightarrow> f32 \<Rightarrow> f32" where
  "rust_max a b = (if a = NaN then b else if b = NaN then a else fp_max a b)"

definition reduce_max :: "f32 list \<Rightarrow> f32" where
  "reduce_max xs = (case xs of [] \<Rightarrow> Fin 0 | x # xs \<Rightarrow> fold (\<lambda>v m. rust_max m v) xs x)"

definition seq_sum :: "f32 list \<Rightarrow> f32" where
  "seq_sum xs = fold (\<lambda>v s. f32_add s v) xs (Fin 0)"

text \<open>\<open>max_by\<close> keeps the earlier element only when it compares greater; a comparison with NaN counts as equal.\<close>

fun last_max :: "nat \<Rightarrow> nat \<times> f32 \<Rightarrow> f32 list \<Rightarrow> nat" where
  "last_max i (k, m) [] = k"
| "last_max i (k, m) (v # vs) = (if fp_lt v m then last_max (i + 1) (k, m) vs else last_max (i + 1) (i, v) vs)"

definition argmax_last :: "f32 list \<Rightarrow> nat" where
  "argmax_last vs = (case vs of [] \<Rightarrow> 2 | v # vs \<Rightarrow> last_max 1 (0, v) vs)"

text \<open>\<open>ActionScores::choose\<close> and \<open>ActionScores::confidence\<close>.\<close>

fun first_max :: "nat \<Rightarrow> nat \<times> f32 \<Rightarrow> f32 list \<Rightarrow> nat" where
  "first_max i (k, m) [] = k"
| "first_max i (k, m) (v # vs) = (if fp_lt m v then first_max (i + 1) (i, v) vs else first_max (i + 1) (k, m) vs)"

definition scores_choose :: "ActionScores \<Rightarrow> nat" where
  "scores_choose s = first_max 1 (0, hd (as_scores s)) (tl (as_scores s))"

definition confidence_of :: "f32 list \<Rightarrow> f32" where
  "confidence_of scores = fp_clamp (f32_sub (reduce_max scores) (f32_div (seq_sum scores) (Fin 3))) (Fin 0) (Fin 1)"

section \<open>Networks\<close>

record DynamicTileTransformerConfig =
  nc_input_dim :: nat
  nc_hidden_dims :: "nat list"
  nc_output_dim :: nat
  nc_learning_rate :: f32
  nc_epsilon :: f32
  nc_l2_lambda :: f32
  nc_energy_weight :: f32
  nc_performance_weight :: f32

record TelemetryOptimizerConfig = DynamicTileTransformerConfig +
  nc_thermal_penalty :: f32

definition tile_config_default :: DynamicTileTransformerConfig where
  "tile_config_default = \<lparr>nc_input_dim = 8, nc_hidden_dims = [32, 16, 8], nc_output_dim = 3,
     nc_learning_rate = rnd32 (1 / 100), nc_epsilon = rnd32 (5 / 100), nc_l2_lambda = rnd32 (1 / 1000),
     nc_energy_weight = rnd32 (7 / 10), nc_performance_weight = rnd32 (3 / 10)\<rparr>"

definition optimizer_config_default :: TelemetryOptimizerConfig where
  "optimizer_config_default = \<lparr>nc_input_dim = 8, nc_hidden_dims = [24, 12], nc_output_dim = 3,
     nc_learning_rate = rnd32 (5 / 1000), nc_epsilon = rnd32 (5 / 100), nc_l2_lambda = rnd32 (5 / 10000),
     nc_energy_weight = rnd32 (7 / 10), nc_performance_weight = rnd32 (3 / 10), nc_thermal_penalty = rnd32 (1 / 10)\<rparr>"

type_synonym matrix = "f32 list list"
type_synonym dense_layer = "matrix \<times> f32 list"

record 'c network =
  net_config :: 'c
  net_weights :: "matrix list"
  net_biases :: "f32 list list"
  net_version :: string
  net_training_steps :: u64

text \<open>Construction. The generator is drawn from in row order, layer after layer; \<open>pos\<close> counts the draws.\<close>

definition init_scale :: "ml_lib \<Rightarrow> nat \<Rightarrow> nat \<Rightarrow> f32" where
  "init_scale lib prev_dim width = lib_sqrt lib (f32_div (Fin 2) (rnd32 (of_nat (prev_dim + width))))"

definition init_weight :: "ml_lib \<Rightarrow> u64 \<Rightarrow> nat \<Rightarrow> f32 \<Rightarrow> f32" where
  "init_weight lib seed pos scale = f32_mul (f32_mul (f32_sub (lib_random lib seed pos) (Fin (1 / 2))) (Fin 2)) scale"

definition init_layer :: "ml_lib \<Rightarrow> u64 \<Rightarrow> nat \<Rightarrow> nat \<Rightarrow> nat \<Rightarrow> dense_layer" where
  "init_layer lib seed pos prev_dim width =
     (map (\<lambda>i. map (\<lambda>j. init_weight lib seed (pos + i * prev_dim + j) (init_scale lib prev_dim width)) [0..<prev_dim]) [0..<width],
      replicate width (Fin 0))"

fun init_layers :: "ml_lib \<Rightarrow> u64 \<Rightarrow> nat \<Rightarrow> nat \<Rightarrow> nat list \<Rightarrow> dense_layer list" where
  "init_layers lib seed pos prev_dim [] = []"
| "init_layers lib seed pos prev_dim (width # widths) =
     init_layer lib seed pos prev_dim width # init_layers lib seed (pos + width * prev_dim) width widths"

definition net_new :: "ml_lib \<Rightarrow> 'a DynamicTileTransformerConfig_scheme \<Rightarrow> u64 \<Rightarrow> 'a DynamicTileTransformerConfig_scheme network" where
  "net_new lib config seed =
     (let ls = init_layers lib seed 0 (nc_input_dim config) (nc_hidden_dims config @ [nc_output_dim config])
      in \<lparr>net_config = config, net_weights = map fst ls, net_biases = map snd ls, net_version = ''1.0.0'',
          net_training_steps = 0\<rparr>)"

section \<open>Inference\<close>

definition mat_vec :: "ml_lib \<Rightarrow> matrix \<Rightarrow> f32 list \<Rightarrow> f32 list option" where
  "mat_vec lib w x = (if list_all (\<lambda>r. length r = length x) w then Some (map (\<lambda>r. lib_dot lib r x) w) else None)"

text \<open>Addition of vectors broadcasts a vector of length one.\<close>

definition add_bias :: "f32 list \<Rightarrow> f32 list \<Rightarrow> f32 list option" where
  "add_bias y b =
     (if length y = length b then Some (map2 f32_add y b)
      else if length b = 1 then Some (map (\<lambda>v. f32_add v (hd b)) y)
      else if length y = 1 then Some (map (\<lambda>v. f32_add (hd y) v) b)
      else None)"

definition dense :: "ml_lib \<Rightarrow> dense_layer \<Rightarrow> f32 list \<Rightarrow> f32 list option" where
  "dense lib l x = Option.bind (mat_vec lib (fst l) x) (\<lambda>y. add_bias y (snd l))"

definition relu :: "f32 list \<Rightarrow> f32 list" where
  "relu x = map (\<lambda>v. rust_max v (Fin 0)) x"

text \<open>The inputs of all layers, the last one included.\<close>

fun hidden_pass :: "ml_lib \<Rightarrow> dense_layer list \<Rightarrow> f32 list \<Rightarrow> f32 list list option" where
  "hidden_pass lib [] x = Some [x]"
| "hidden_pass lib (l # ls) x =
     (case dense lib l x of
        None \<Rightarrow> None
      | Some y \<Rightarrow> map_option (\<lambda>acts. x # acts) (hidden_pass lib ls (relu y)))"

definition hidden_layers :: "'c network \<Rightarrow> dense_layer list" where
  "hidden_layers m = take (length (net_weights m) - 1) (zip (net_weights m) (net_biases m))"

definition net_forward :: "ml_lib \<Rightarrow> 'c network \<Rightarrow> SynapseFeatureVector \<Rightarrow> f32 list option" where
  "net_forward lib m f =
     (case hidden_pass lib (hidden_layers m) (fv_to_array f) of
        None \<Rightarrow> None
      | Some acts \<Rightarrow>
          if net_weights m = [] \<or> net_biases m = [] then None
          else dense lib (last (net_weights m), last (net_biases m)) (last acts))"

definition softmax :: "ml_lib \<Rightarrow> f32 list \<Rightarrow> f32 list" where
  "softmax lib logits =
     (let max_logit = reduce_max logits;
          ex = map (\<lambda>v. lib_exp lib (f32_sub v max_logit)) logits;
          sum = lib_sum lib ex
      in if fp_lt (Fin 0) sum then map (\<lambda>v. f32_div v sum) ex else replicate 3 (Fin 0))"

text \<open>The answer to features that are not valid.\<close>

definition oracle_scores :: ActionScores where
  "oracle_scores = \<lparr>as_scores = [rnd32 (333 / 1000), rnd32 (333 / 1000), rnd32 (334 / 1000)], as_chosen = 2,
     as_confidence = Fin 0, as_epsilon_greedy = False\<rparr>"

definition net_infer :: "ml_lib \<Rightarrow> 'c network \<Rightarrow> SynapseFeatureVector \<Rightarrow> ActionScores option" where
  "net_infer lib m f =
     (if \<not> fv_validate f then Some oracle_scores
      else
        (case net_forward lib m f of
           None \<Rightarrow> None
         | Some logits \<Rightarrow>
             let scores = softmax lib logits
             in if length scores \<noteq> 3 then None
                else Some \<lparr>as_scores = scores, as_chosen = of_nat (argmax_last scores),
                       as_confidence = confidence_of scores, as_epsilon_greedy = False\<rparr>))"

definition net_explain :: "ml_lib \<Rightarrow> 'c network \<Rightarrow> SynapseFeatureVector \<Rightarrow> SynapseModelExplanation option" where
  "net_explain lib m f =
     (case net_infer lib m f of
        None \<Rightarrow> None
      | Some s \<Rightarrow> Some \<lparr>me_feature_importances = fv_to_array f, me_predicted_scores = as_scores s,
          me_confidence = confidence_of (as_scores s), me_model_version = Some (net_version m),
          me_notes = Some (''training_steps='' @ to_string (unat (net_training_steps m)))\<rparr>)"

section \<open>Learning\<close>

text \<open>One weight, one row, one layer. \<open>n\<close> is the running sum of squared gradients.\<close>

definition weight_gradient :: "f32 \<Rightarrow> f32 \<Rightarrow> f32 \<Rightarrow> f32 \<Rightarrow> f32" where
  "weight_gradient l2 d x w = f32_add (f32_mul d x) (f32_mul l2 w)"

fun row_step :: "f32 \<Rightarrow> f32 \<Rightarrow> f32 \<Rightarrow> f32 list \<Rightarrow> f32 list \<Rightarrow> f32 \<Rightarrow> f32 list \<times> f32" where
  "row_step lr l2 d (x # xs) (w # ws) n =
     (let grad = weight_gradient l2 d x w;
          (ws', n') = row_step lr l2 d xs ws (f32_add n (f32_mul grad grad))
      in (f32_sub w (f32_mul lr grad) # ws', n'))"
| "row_step lr l2 d xs ws n = (ws, n)"

fun rows_step :: "f32 \<Rightarrow> f32 \<Rightarrow> f32 list \<Rightarrow> f32 list \<Rightarrow> matrix \<Rightarrow> f32 list \<Rightarrow> f32 \<Rightarrow> matrix \<times> f32 list \<times> f32" where
  "rows_step lr l2 (d # ds) xs (r # rs) (b # bs) n =
     (let (r', n1) = row_step lr l2 d xs r n;
          (rs', bs', n2) = rows_step lr l2 ds xs rs bs (f32_add n1 (f32_mul d d))
      in (r' # rs', f32_sub b (f32_mul lr d) # bs', n2))"
| "rows_step lr l2 ds xs rs bs n = (rs, bs, n)"

definition layer_step :: "f32 \<Rightarrow> f32 \<Rightarrow> f32 list \<Rightarrow> f32 list \<Rightarrow> dense_layer \<Rightarrow> f32 \<Rightarrow> (matrix \<times> f32 list \<times> f32) option" where
  "layer_step lr l2 delta input l n =
     (if list_all (\<lambda>r. length r \<le> length input) (fst l) \<and> length (fst l) \<le> length delta \<and> length (fst l) \<le> length (snd l)
      then Some (rows_step lr l2 delta input (fst l) (snd l) n) else None)"

definition ncols :: "matrix \<Rightarrow> nat" where
  "ncols w = (case w of [] \<Rightarrow> 0 | r # rs \<Rightarrow> length r)"

definition column_dot :: "matrix \<Rightarrow> f32 list \<Rightarrow> nat \<Rightarrow> f32" where
  "column_dot w delta j = fold (\<lambda>k s. f32_add s (f32_mul (w ! k ! j) (delta ! k))) [0..<length delta] (Fin 0)"

definition back_delta :: "matrix \<Rightarrow> f32 list \<Rightarrow> f32 list \<Rightarrow> f32 list option" where
  "back_delta w_next delta act =
     (if length delta \<le> length w_next \<and> ncols w_next \<le> length act
      then Some (map (\<lambda>j. f32_mul (column_dot w_next delta j) (if fp_lt (Fin 0) (act ! j) then Fin 1 else Fin 0))
                  [0..<ncols w_next])
      else None)"

text \<open>The hidden layers from the last to the first, each with its input. The next layer's weights are the ones
  after their own update, and \<open>act\<close> is the output of the layer at hand.\<close>

fun backprop :: "f32 \<Rightarrow> f32 \<Rightarrow> (dense_layer \<times> f32 list) list \<Rightarrow> matrix \<Rightarrow> f32 list \<Rightarrow> f32 list \<Rightarrow> f32
    \<Rightarrow> (dense_layer list \<times> f32 list \<times> f32) option" where
  "backprop lr l2 [] w_next act delta n = Some ([], delta, n)"
| "backprop lr l2 ((l, input) # rest) w_next act delta n =
     (case back_delta w_next delta act of
        None \<Rightarrow> None
      | Some d \<Rightarrow>
          (case layer_step lr l2 d input l n of
             None \<Rightarrow> None
           | Some (w, b, n1) \<Rightarrow>
               map_option (\<lambda>(ls, dl, n2). ((w, b) # ls, dl, n2)) (backprop lr l2 rest w input d n1)))"

definition net_gradient_step ::
  "ml_lib \<Rightarrow> 'a DynamicTileTransformerConfig_scheme network \<Rightarrow> f32 list \<Rightarrow> nat \<Rightarrow> (dense_layer list \<times> f32 list \<times> f32) option" where
  "net_gradient_step lib m x action =
     (case hidden_pass lib (hidden_layers m) x of
        None \<Rightarrow> None
      | Some acts \<Rightarrow>
          if net_weights m = [] \<or> length (net_biases m) < length (net_weights m) then None
          else
            (case dense lib (last (net_weights m), last (net_biases m)) (last acts) of
               None \<Rightarrow> None
             | Some logits \<Rightarrow>
                 let probs = softmax lib logits;
                     lr = nc_learning_rate (net_config m); l2 = nc_l2_lambda (net_config m);
                     out_idx = length (net_weights m) - 1
                 in if length probs \<le> action then None
                    else
                      let delta = probs[action := f32_sub (probs ! action) (Fin 1)]
                      in (case layer_step lr l2 delta (last acts) (net_weights m ! out_idx, net_biases m ! out_idx) (Fin 0) of
                            None \<Rightarrow> None
                          | Some (w, b, n) \<Rightarrow>
                              map_option (\<lambda>(ls, dl, n). (rev ((w, b) # ls), dl, n))
                                (backprop lr l2 (rev (zip (hidden_layers m) acts)) w (last acts) delta n))))"

text \<open>\<open>update\<close>, for the loss the model reports. The sum of losses a batch reports is over the losses of its
  updates.\<close>

definition net_update ::
  "ml_lib \<Rightarrow> (SynapseExperience \<Rightarrow> f32 list \<Rightarrow> f32 option) \<Rightarrow> 'a DynamicTileTransformerConfig_scheme network \<Rightarrow> SynapseExperience
     \<Rightarrow> (SynapseUpdateResult \<times> 'a DynamicTileTransformerConfig_scheme network) option" where
  "net_update lib loss m e =
     (if \<not> fv_validate (ex_features e) then Some (no_update, m)
      else if unat (ex_action e) \<ge> 3 then Some (no_update, m)
      else
        (case net_gradient_step lib m (fv_to_array (ex_features e)) (unat (ex_action e)) of
           None \<Rightarrow> None
         | Some (ls, delta, n) \<Rightarrow>
             (case loss e delta of
                None \<Rightarrow> None
              | Some v \<Rightarrow>
                  Some (\<lparr>ur_loss = v, ur_gradient_norm = lib_sqrt lib n, ur_learning_rate = nc_learning_rate (net_config m)\<rparr>,
                    m\<lparr>net_weights := map fst ls, net_biases := map snd ls @ drop (length ls) (net_biases m),
                      net_training_steps := net_training_steps m + 1\<rparr>))))"

definition tile_loss :: "ml_lib \<Rightarrow> SynapseExperience \<Rightarrow> f32 list \<Rightarrow> f32 option" where
  "tile_loss lib e delta =
     (if unat (ex_action e) < length delta
      then Some (f32_mul (fp_neg (ex_reward e)) (lib_ln lib (rust_max (delta ! unat (ex_action e)) (rnd32 (1 / 1000000)))))
      else None)"

definition optimizer_loss :: "TelemetryOptimizerConfig \<Rightarrow> SynapseExperience \<Rightarrow> f32 list \<Rightarrow> f32 option" where
  "optimizer_loss c e delta =
     (let energy_term = f32_mul (nc_energy_weight c) (ex_energy_joules e);
          thermal_term = f32_mul (nc_thermal_penalty c) (f32_of_word (ex_thermal_events e));
          perf_term = f32_mul (nc_performance_weight c) (ex_reward e)
      in Some (f32_sub (f32_add energy_term thermal_term) perf_term))"

section \<open>The two models as the bridge's models\<close>

datatype model = Tile_transformer "DynamicTileTransformerConfig network" | Telemetry_optimizer "TelemetryOptimizerConfig network"

fun model_infer :: "ml_lib \<Rightarrow> model \<Rightarrow> SynapseFeatureVector \<Rightarrow> ActionScores option" where
  "model_infer lib (Tile_transformer m) f = net_infer lib m f"
| "model_infer lib (Telemetry_optimizer m) f = net_infer lib m f"

fun model_explain :: "ml_lib \<Rightarrow> model \<Rightarrow> SynapseFeatureVector \<Rightarrow> SynapseModelExplanation option" where
  "model_explain lib (Tile_transformer m) f = net_explain lib m f"
| "model_explain lib (Telemetry_optimizer m) f = net_explain lib m f"

fun model_update :: "ml_lib \<Rightarrow> model \<Rightarrow> SynapseExperience \<Rightarrow> (SynapseUpdateResult \<times> model) option" where
  "model_update lib (Tile_transformer m) e =
     map_option (\<lambda>(r, m). (r, Tile_transformer m)) (net_update lib (tile_loss lib) m e)"
| "model_update lib (Telemetry_optimizer m) e =
     map_option (\<lambda>(r, m). (r, Telemetry_optimizer m)) (net_update lib (optimizer_loss (net_config m)) m e)"

fun batch_losses :: "ml_lib \<Rightarrow> SynapseExperience list \<Rightarrow> f32 \<Rightarrow> model \<Rightarrow> (f32 \<times> model) option" where
  "batch_losses lib [] loss_sum m = Some (loss_sum, m)"
| "batch_losses lib (e # es) loss_sum m =
     (case model_update lib m e of None \<Rightarrow> None | Some (r, m) \<Rightarrow> batch_losses lib es (f32_add loss_sum (ur_loss r)) m)"

record BatchResult =
  bt_avg_loss :: f32
  bt_samples :: nat
  bt_duration_us :: u64

definition model_batch_update :: "ml_lib \<Rightarrow> u64 \<Rightarrow> u64 \<Rightarrow> SynapseExperience list \<Rightarrow> model \<Rightarrow> (BatchResult \<times> model) option" where
  "model_batch_update lib t0 t1 batch m =
     map_option (\<lambda>(loss_sum, m).
       (\<lparr>bt_avg_loss = (if batch = [] then Fin 0 else f32_div loss_sum (rnd32 (of_nat (length batch)))),
         bt_samples = length batch, bt_duration_us = (if t0 \<le> t1 then t1 - t0 else 0)\<rparr>, m))
       (batch_losses lib batch (Fin 0) m)"

text \<open>What the foreign functions call. They are given total functions here; \<open>models_never_panic\<close> below is the
  reason why the second cases do not occur.\<close>

definition rust_models :: "ml_lib \<Rightarrow> model model_ops" where
  "rust_models lib =
     \<lparr>new_tile_transformer = Tile_transformer (net_new lib tile_config_default 42),
      new_telemetry_optimizer = Telemetry_optimizer (net_new lib optimizer_config_default 42),
      mo_infer = (\<lambda>m f. case model_infer lib m f of Some s \<Rightarrow> s | None \<Rightarrow> oracle_scores),
      mo_update = (\<lambda>m e. case model_update lib m e of Some (r, m) \<Rightarrow> (Some r, m) | None \<Rightarrow> (None, m)),
      mo_explain = (\<lambda>m f. case model_explain lib m f of Some x \<Rightarrow> x | None \<Rightarrow> empty_explanation)\<rparr>"

end
