(* ===== verification/ModelLaws.thy ===== *)
theory ModelLaws
  imports NeuralNet FloatBits
begin

text \<open>
  What holds of the two models (theory \<open>NeuralNet\<close>) and of a program that uses them through bridges: the shape
  of a network, kept by learning; that no foreign function panics; what a score is; and what a model
  learns from.
\<close>

section \<open>Shape\<close>

fun shaped :: "nat \<Rightarrow> dense_layer list \<Rightarrow> nat list \<Rightarrow> bool" where
  "shaped n [] [] = True"
| "shaped n ((w, b) # ls) (h # hs) \<longleftrightarrow> length w = h \<and> list_all (\<lambda>r. length r = n) w \<and> length b = h \<and> shaped h ls hs"
| "shaped n ls hs = False"

definition net_ok :: "'a DynamicTileTransformerConfig_scheme network \<Rightarrow> bool" where
  "net_ok m \<longleftrightarrow> length (net_weights m) = length (net_biases m) \<and> nc_input_dim (net_config m) = 8
     \<and> nc_output_dim (net_config m) = 3 \<and> list_all ((\<noteq>) 0) (nc_hidden_dims (net_config m))
     \<and> shaped 8 (zip (net_weights m) (net_biases m)) (nc_hidden_dims (net_config m) @ [3])"

text \<open>The loss of the tile transformer reads a place of the first hidden layer's vector, which must have it.\<close>

definition wide_enough :: "nat list \<Rightarrow> bool" where
  "wide_enough hs \<longleftrightarrow> (case hs of [] \<Rightarrow> True | h # hs \<Rightarrow> 3 \<le> h)"

fun model_ok :: "model \<Rightarrow> bool" where
  "model_ok (Tile_transformer m) \<longleftrightarrow> net_ok m \<and> wide_enough (nc_hidden_dims (net_config m))"
| "model_ok (Telemetry_optimizer m) \<longleftrightarrow> net_ok m"

lemma shaped_Nil [simp]: "shaped n [] hs \<longleftrightarrow> hs = []" "shaped n ls [] \<longleftrightarrow> ls = []"
  by (cases hs; simp) (cases ls; simp)

lemma shaped_length: "shaped n ls hs \<Longrightarrow> length ls = length hs"
  by (induction n ls hs rule: shaped.induct) auto

lemma shaped_snoc:
  "shaped n (ls @ [(w, b)]) (hs @ [h]) \<longleftrightarrow>
     shaped n ls hs \<and> length w = h \<and> list_all (\<lambda>r. length r = last (n # hs)) w \<and> length b = h"
proof (induction ls arbitrary: n hs)
  case Nil
  then show ?case by (cases hs) auto
next
  case (Cons l ls)
  then show ?case by (cases l; cases hs) (auto dest: shaped_length)
qed

lemma shaped_snocE:
  assumes "shaped n ls (hs @ [h])"
  obtains ls' w b where "ls = ls' @ [(w, b)]" "shaped n ls' hs" "length w = h" "list_all (\<lambda>r. length r = last (n # hs)) w"
    "length b = h"
proof -
  have "ls \<noteq> []" using shaped_length [OF assms] by auto
  then obtain ls' l where l: "ls = ls' @ [l]" by (metis append_butlast_last_id)
  obtain w b where "l = (w, b)" by fastforce
  with l assms that show thesis by (simp add: shaped_snoc)
qed

lemma init_layers_shaped: "shaped n (init_layers lib seed pos n hs) hs"
  by (induction hs arbitrary: n pos) (simp_all add: init_layer_def list_all_iff)

lemma net_new_ok:
  "nc_input_dim c = 8 \<Longrightarrow> nc_output_dim c = 3 \<Longrightarrow> list_all ((\<noteq>) 0) (nc_hidden_dims c) \<Longrightarrow> net_ok (net_new lib c seed)"
  using init_layers_shaped [of 8 lib seed 0 "nc_hidden_dims c @ [3]"]
  by (simp add: net_ok_def net_new_def Let_def zip_map_fst_snd)

text \<open>A well-shaped network, taken apart.\<close>

lemma net_okE:
  assumes "net_ok m"
  obtains ls w b where "hidden_layers m = ls" "zip (net_weights m) (net_biases m) = ls @ [(w, b)]"
    "net_weights m \<noteq> []" "net_biases m \<noteq> []" "last (net_weights m) = w" "last (net_biases m) = b"
    "net_weights m ! (length (net_weights m) - 1) = w" "net_biases m ! (length (net_weights m) - 1) = b"
    "shaped 8 ls (nc_hidden_dims (net_config m))" "length w = 3" "length b = 3"
    "list_all (\<lambda>r. length r = last (8 # nc_hidden_dims (net_config m))) w" "length ls = length (net_weights m) - 1"
proof -
  let ?z = "zip (net_weights m) (net_biases m)"
  have len: "length (net_weights m) = length (net_biases m)" using assms by (simp add: net_ok_def)
  obtain ls w b where z: "?z = ls @ [(w, b)]" "shaped 8 ls (nc_hidden_dims (net_config m))" "length w = 3"
    "list_all (\<lambda>r. length r = last (8 # nc_hidden_dims (net_config m))) w" "length b = 3"
    using assms by (auto simp: net_ok_def elim: shaped_snocE)
  have lens: "length ls = length (net_weights m) - 1" using arg_cong [OF z(1), of length] len by simp
  have wb: "net_weights m = map fst ls @ [w]" "net_biases m = map snd ls @ [b]"
    using arg_cong [OF z(1), of "map fst"] arg_cong [OF z(1), of "map snd"] len by simp_all
  have hid: "hidden_layers m = ls" using z(1) lens by (simp add: hidden_layers_def)
  show thesis
    by (rule that [of ls w b]) (fact hid z lens, fact z(1), (simp add: wb nth_append)+, (fact z)+, fact lens)
qed

section \<open>No panic\<close>

lemma dense_ok:
  assumes "length w = h" "list_all (\<lambda>r. length r = length x) w" "length b = h"
  shows "\<exists>y. dense lib (w, b) x = Some y \<and> length y = h"
  using assms by (simp add: dense_def mat_vec_def add_bias_def)

lemma hidden_pass_ok:
  "shaped (length x) ls hs \<Longrightarrow> \<exists>acts. hidden_pass lib ls x = Some acts \<and> map length acts = length x # hs"
proof (induction ls arbitrary: x hs)
  case Nil
  then show ?case by (cases hs) auto
next
  case (Cons l ls)
  obtain w b where l: "l = (w, b)" by fastforce
  with Cons.prems obtain h hs' where hs: "hs = h # hs'" by (cases hs) auto
  obtain y where y: "dense lib l x = Some y" "length y = h"
    using dense_ok [of w h x b lib] Cons.prems l hs by auto
  then have "shaped (length (relu y)) ls hs'" using Cons.prems l hs by (simp add: relu_def)
  from Cons.IH [OF this] y hs show ?case by (auto simp: relu_def)
qed

lemma length_fv_to_array [simp]: "length (fv_to_array f) = 8"
  by (simp add: fv_to_array_def)

lemma length_softmax: "length logits = 3 \<Longrightarrow> length (softmax lib logits) = 3"
  by (simp add: softmax_def Let_def)

lemma forward_parts:
  assumes "net_ok m" "length x = 8"
  obtains acts logits where "hidden_pass lib (hidden_layers m) x = Some acts"
    "map length acts = 8 # nc_hidden_dims (net_config m)"
    "dense lib (last (net_weights m), last (net_biases m)) (last acts) = Some logits" "length logits = 3"
proof -
  from assms(1) show thesis
  proof (rule net_okE)
    fix ls w b
    assume m: "hidden_layers m = ls" "last (net_weights m) = w" "last (net_biases m) = b"
      "shaped 8 ls (nc_hidden_dims (net_config m))" "length w = 3" "length b = 3"
      "list_all (\<lambda>r. length r = last (8 # nc_hidden_dims (net_config m))) w"
    obtain acts where acts: "hidden_pass lib ls x = Some acts" "map length acts = 8 # nc_hidden_dims (net_config m)"
      using hidden_pass_ok [of x ls "nc_hidden_dims (net_config m)" lib] m(4) assms(2) by auto
    then have "acts \<noteq> []" by auto
    then have "length (last acts) = last (8 # nc_hidden_dims (net_config m))" using acts(2) last_map [of acts length] by simp
    then obtain logits where "dense lib (w, b) (last acts) = Some logits" "length logits = 3"
      using dense_ok [of w 3 "last acts" b lib] m(5-7) by auto
    with acts m that show thesis by simp
  qed
qed

lemma net_infer_ok:
  assumes "net_ok m"
  shows "\<exists>s. net_infer lib m f = Some s"
proof -
  have x: "length (fv_to_array f) = 8" by simp
  show ?thesis
  proof (rule forward_parts [OF assms x])
    fix acts logits
    assume "hidden_pass lib (hidden_layers m) (fv_to_array f) = Some acts"
      "dense lib (last (net_weights m), last (net_biases m)) (last acts) = Some logits" "length logits = 3"
    moreover have "net_weights m \<noteq> []" "net_biases m \<noteq> []" using assms by (auto elim: net_okE)
    ultimately show ?thesis by (simp add: net_infer_def net_forward_def Let_def length_softmax)
  qed
qed

lemma net_explain_ok: "net_ok m \<Longrightarrow> \<exists>x. net_explain lib m f = Some x"
  using net_infer_ok [of m lib f] by (auto simp: net_explain_def)

text \<open>Learning keeps the shape.\<close>

lemma length_row_step [simp]: "length (fst (row_step lr l2 d xs ws n)) = length ws"
  by (induction lr l2 d xs ws n rule: row_step.induct) (simp_all add: Let_def split_beta)

lemma rows_step_shape:
  "rows_step lr l2 ds xs w b n = (w', b', n') \<Longrightarrow> map length w' = map length w \<and> length b' = length b"
proof (induction lr l2 ds xs w b n arbitrary: w' b' n' rule: rows_step.induct)
  case (1 lr l2 d ds xs r rs b bs n)
  let ?r = "row_step lr l2 d xs r n"
  obtain rs' bs' n2 where rest: "rows_step lr l2 ds xs rs bs (f32_add (snd ?r) (f32_mul d d)) = (rs', bs', n2)"
    by (metis prod_cases3)
  from "1.IH" [OF _ refl rest, of "fst ?r"] "1.prems" rest show ?case by (auto simp: Let_def split_beta)
qed auto

lemma layer_step_ok:
  assumes "list_all (\<lambda>r. length r = length input) w" "length w = length delta" "length b = length w"
  shows "\<exists>w' b' n'. layer_step lr l2 delta input (w, b) n = Some (w', b', n') \<and> length w' = length w
     \<and> list_all (\<lambda>r. length r = length input) w' \<and> length b' = length w"
proof -
  obtain w' b' n' where step: "rows_step lr l2 delta input w b n = (w', b', n')" by (metis prod_cases3)
  then have shape: "map length w' = map length w" "length b' = length b" using rows_step_shape by blast+
  have "list_all (\<lambda>k. k = length input) (map length w')" unfolding shape(1) using assms(1) by (simp add: list.pred_map comp_def)
  then have "list_all (\<lambda>r. length r = length input) w'" by (simp add: list.pred_map comp_def)
  moreover have "length w' = length w" using arg_cong [OF shape(1), of length] by simp
  moreover have "list_all (\<lambda>r. length r \<le> length input) w" using assms(1) by (auto simp: list_all_iff)
  ultimately show ?thesis using step shape(2) assms(2,3) by (simp add: layer_step_def)
qed

lemma ncols_eq: "list_all (\<lambda>r. length r = k) w \<Longrightarrow> w \<noteq> [] \<Longrightarrow> ncols w = k"
  by (cases w) (simp_all add: ncols_def)

lemma backprop_ok:
  assumes "shaped k ls hs" "map length acts = k # hs" "list_all ((\<noteq>) 0) hs"
    and "length delta = length w" "w \<noteq> []" "list_all (\<lambda>r. length r = last (k # hs)) w" "length act = last (k # hs)"
  shows "\<exists>ls' dl n'. backprop lr l2 (rev (zip ls acts)) w act delta n = Some (ls', dl, n') \<and> shaped k (rev ls') hs
     \<and> length dl = (case hs of [] \<Rightarrow> length delta | h # _ \<Rightarrow> h)"
  using assms
proof (induction ls arbitrary: hs acts w act delta n rule: rev_induct)
  case Nil
  then show ?case by (cases hs) auto
next
  case (snoc l ls)
  obtain lw lb where l: "l = (lw, lb)" by fastforce
  obtain hs0 h where hs: "hs = hs0 @ [h]" using shaped_length [OF snoc.prems(1)] by (metis length_append_singleton list.size(3) nat.distinct(1) rev_exhaust)
  have sh: "shaped k ls hs0" "length lw = h" "list_all (\<lambda>r. length r = last (k # hs0)) lw" "length lb = h"
    using snoc.prems(1) unfolding l hs shaped_snoc by simp_all
  have split: "map length acts = (k # hs0) @ [h]" using snoc.prems(2) hs by simp
  then obtain acts0 a where acts: "acts = acts0 @ [a]" "map length acts0 = k # hs0"
    unfolding map_eq_append_conv by auto
  have len: "length acts0 = length ls + 1" using arg_cong [OF acts(2), of length] shaped_length [OF sh(1)] by simp
  then have "acts0 \<noteq> []" by auto
  then obtain acts1 x where x: "acts0 = acts1 @ [x]" "length acts1 = length ls" using len by (metis append_butlast_last_id length_append_singleton add_right_cancel Suc_eq_plus1)
  have lx: "length x = last (k # hs0)" using arg_cong [OF acts(2), of last] x by simp
  have zip: "zip (ls @ [l]) acts = zip ls acts0 @ [(l, x)]" using x acts by (simp add: zip_append1 zip_append2)
  have ncols: "ncols w = h" using snoc.prems(5,6) hs by (simp add: ncols_eq)
  obtain d where d: "back_delta w delta act = Some d" "length d = h"
    using snoc.prems(4,7) hs ncols by (simp add: back_delta_def)
  have "list_all (\<lambda>r. length r = length x) lw" using sh(3) lx by simp
  then obtain w' b' n1 where step: "layer_step lr l2 d x (lw, lb) n = Some (w', b', n1)" "length w' = h"
    "list_all (\<lambda>r. length r = length x) w'" "length b' = h"
    using layer_step_ok [of x lw d lb lr l2 n] sh d(2) by auto
  have h: "0 < h" "list_all ((\<noteq>) 0) hs0" using snoc.prems(3) hs by simp_all
  then have "w' \<noteq> []" using step(2) by auto
  with snoc.IH [OF sh(1) acts(2) h(2), of d w' x n1] d(2) step(2,3) lx
  obtain ls' dl n' where rest: "backprop lr l2 (rev (zip ls acts0)) w' x d n1 = Some (ls', dl, n')" "shaped k (rev ls') hs0"
    "length dl = (case hs0 of [] \<Rightarrow> length d | h # _ \<Rightarrow> h)" by auto
  have "shaped k (rev ls' @ [(w', b')]) (hs0 @ [h])" unfolding shaped_snoc using rest(2) step(2-4) lx by simp
  then show ?case unfolding zip hs using d step(1) rest(1,3) d(2) l by (cases hs0) auto
qed

lemma gradient_step_ok:
  assumes "net_ok m" "length x = 8" "action < 3"
  shows "\<exists>ls dl n. net_gradient_step lib m x action = Some (ls, dl, n)
     \<and> shaped 8 ls (nc_hidden_dims (net_config m) @ [3]) \<and> length ls = length (net_weights m)
     \<and> length dl = (case nc_hidden_dims (net_config m) of [] \<Rightarrow> 3 | h # _ \<Rightarrow> h)"
proof (rule net_okE [OF assms(1)], rule forward_parts [OF assms(1,2)])
  fix ls w b acts logits
  assume m: "hidden_layers m = ls" "net_weights m \<noteq> []" "last (net_weights m) = w"
    "net_weights m ! (length (net_weights m) - 1) = w" "net_biases m ! (length (net_weights m) - 1) = b"
    "shaped 8 ls (nc_hidden_dims (net_config m))" "length w = 3" "length b = 3"
    "list_all (\<lambda>r. length r = last (8 # nc_hidden_dims (net_config m))) w" "length ls = length (net_weights m) - 1"
  assume a: "hidden_pass lib (hidden_layers m) x = Some acts" "map length acts = 8 # nc_hidden_dims (net_config m)"
    "dense lib (last (net_weights m), last (net_biases m)) (last acts) = Some logits" "length logits = 3"
  let ?hs = "nc_hidden_dims (net_config m)" and ?lr = "nc_learning_rate (net_config m)" and ?l2 = "nc_l2_lambda (net_config m)"
  let ?probs = "softmax lib logits"
  let ?delta = "?probs[action := f32_sub (?probs ! action) (Fin 1)]"
  have probs: "length ?probs = 3" by (rule length_softmax [OF a(4)])
  then have len_delta: "length ?delta = 3" by simp
  have "acts \<noteq> []" using a(2) by auto
  then have act: "length (last acts) = last (8 # ?hs)" using a(2) last_map [of acts length] by simp
  obtain w' b' n where step: "layer_step ?lr ?l2 ?delta (last acts) (w, b) (Fin 0) = Some (w', b', n)" "length w' = 3"
    "list_all (\<lambda>r. length r = last (8 # ?hs)) w'" "length b' = 3"
    using layer_step_ok [of "last acts" w ?delta b ?lr ?l2 "Fin 0"] m(7-9) act probs by auto
  have "w' \<noteq> []" using step(2) by auto
  moreover have "list_all ((\<noteq>) 0) ?hs" "length (net_biases m) = length (net_weights m)" using assms(1) by (simp_all add: net_ok_def)
  ultimately obtain ls' dl n' where bp: "backprop ?lr ?l2 (rev (zip ls acts)) w' (last acts) ?delta n = Some (ls', dl, n')"
    "shaped 8 (rev ls') ?hs" "length dl = (case ?hs of [] \<Rightarrow> 3 | h # _ \<Rightarrow> h)"
    using backprop_ok [OF m(6) a(2) _ _ _ step(3) act, of ?delta ?lr ?l2 n, unfolded len_delta] step(2) by auto
  have "shaped 8 (rev ls' @ [(w', b')]) (?hs @ [3])" unfolding shaped_snoc using bp(2) step(2-4) by simp
  moreover have "length (rev ls' @ [(w', b')]) = length (net_weights m)"
    using shaped_length [OF bp(2)] shaped_length [OF m(6)] m(2,10) by (cases "net_weights m") auto
  ultimately show ?thesis
    using a m probs step(1) bp(1,3) assms(3) \<open>length (net_biases m) = length (net_weights m)\<close>
    by (simp add: net_gradient_step_def Let_def)
qed

lemma net_update_ok:
  assumes "net_ok m" and loss: "\<And>dl. length dl = (case nc_hidden_dims (net_config m) of [] \<Rightarrow> 3 | h # _ \<Rightarrow> h) \<Longrightarrow> unat (ex_action e) < 3 \<Longrightarrow> loss e dl \<noteq> None"
  shows "\<exists>r m'. net_update lib loss m e = Some (r, m') \<and> net_ok m' \<and> net_config m' = net_config m"
proof (cases "fv_validate (ex_features e) \<and> unat (ex_action e) < 3")
  case False
  then show ?thesis using assms(1) by (auto simp: net_update_def)
next
  case True
  obtain ls dl n where step: "net_gradient_step lib m (fv_to_array (ex_features e)) (unat (ex_action e)) = Some (ls, dl, n)"
    "shaped 8 ls (nc_hidden_dims (net_config m) @ [3])" "length ls = length (net_weights m)"
    "length dl = (case nc_hidden_dims (net_config m) of [] \<Rightarrow> 3 | h # _ \<Rightarrow> h)"
    using gradient_step_ok [OF assms(1), of "fv_to_array (ex_features e)" "unat (ex_action e)" lib] True by auto
  have "drop (length ls) (net_biases m) = []" using assms(1) step(3) by (simp add: net_ok_def)
  then show ?thesis using True step loss [OF step(4)] assms(1)
    by (auto simp: net_update_def net_ok_def zip_map_fst_snd)
qed

text \<open>What construction sets and learning leaves alone: configuration and version.\<close>

fun as_constructed :: "model \<Rightarrow> bool" where
  "as_constructed (Tile_transformer m) \<longleftrightarrow> net_config m = tile_config_default \<and> net_version m = ''1.0.0''"
| "as_constructed (Telemetry_optimizer m) \<longleftrightarrow> net_config m = optimizer_config_default \<and> net_version m = ''1.0.0''"

definition default_rates :: "f32 list" where
  "default_rates = [nc_learning_rate tile_config_default, nc_learning_rate optimizer_config_default]"

lemma net_update_keeps:
  "net_update lib loss m e = Some (r, m') \<Longrightarrow> net_config m' = net_config m \<and> net_version m' = net_version m
     \<and> (r = no_update \<or> ur_learning_rate r = nc_learning_rate (net_config m))"
  by (auto simp: net_update_def split: if_splits option.splits)

lemma model_update_keeps:
  "model_update lib m e = Some (r, m') \<Longrightarrow> as_constructed m
     \<Longrightarrow> as_constructed m' \<and> (r = no_update \<or> ur_learning_rate r \<in> set default_rates)"
  by (cases m) (auto simp: default_rates_def dest!: net_update_keeps)

section \<open>Answers of well-shaped models\<close>

lemma tile_loss_defined: "unat (ex_action e) < length dl \<Longrightarrow> tile_loss lib e dl \<noteq> None"
  by (simp add: tile_loss_def)

lemma model_update_ok: "model_ok m \<Longrightarrow> \<exists>r m'. model_update lib m e = Some (r, m') \<and> model_ok m'"
proof (cases m)
  case (Tile_transformer n)
  assume m: "model_ok m"
  have "\<exists>r n'. net_update lib (tile_loss lib) n e = Some (r, n') \<and> net_ok n' \<and> net_config n' = net_config n"
    by (rule net_update_ok) (use m Tile_transformer in
      \<open>auto simp: wide_enough_def tile_loss_def split: list.splits\<close>)
  then show ?thesis using m Tile_transformer by auto
next
  case (Telemetry_optimizer n)
  assume m: "model_ok m"
  have "\<exists>r n'. net_update lib (optimizer_loss (net_config n)) n e = Some (r, n') \<and> net_ok n' \<and> net_config n' = net_config n"
    by (rule net_update_ok) (use m Telemetry_optimizer in \<open>simp_all add: optimizer_loss_def Let_def\<close>)
  then show ?thesis using Telemetry_optimizer by auto
qed

lemma model_infer_ok: "model_ok m \<Longrightarrow> \<exists>s. model_infer lib m f = Some s"
  by (cases m) (simp_all add: net_infer_ok)

lemma model_explain_ok: "model_ok m \<Longrightarrow> \<exists>x. model_explain lib m f = Some x"
  by (cases m) (simp_all add: net_explain_ok)

lemma last_max_bound: "k < i \<Longrightarrow> last_max i (k, m) vs < i + length vs"
proof (induction vs arbitrary: i k m)
  case (Cons v vs)
  have "last_max (i + 1) (k, m) vs < i + 1 + length vs" "last_max (i + 1) (i, v) vs < i + 1 + length vs"
    using Cons.IH [of k "i + 1" m] Cons.IH [of i "i + 1" v] Cons.prems by simp_all
  then show ?case by simp
qed simp

lemma argmax_last_bound: "length vs = 3 \<Longrightarrow> argmax_last vs < 3"
  using last_max_bound [of 0 1 "hd vs" "tl vs"] by (cases vs) (simp_all add: argmax_last_def)

definition scores_shape :: "ActionScores \<Rightarrow> bool" where
  "scores_shape s \<longleftrightarrow> length (as_scores s) = 3 \<and> unat (as_chosen s) < 3 \<and> \<not> as_epsilon_greedy s"

lemma net_infer_shape: "net_infer lib m f = Some s \<Longrightarrow> scores_shape s"
  using argmax_last_bound [of "as_scores s"]
  by (auto simp: net_infer_def scores_shape_def oracle_scores_def Let_def unat_of_nat split: if_splits option.splits)

lemma model_infer_shape: "model_infer lib m f = Some s \<Longrightarrow> scores_shape s"
  by (cases m) (auto simp: net_infer_shape)

definition explanation_shape :: "SynapseModelExplanation \<Rightarrow> bool" where
  "explanation_shape x \<longleftrightarrow> length (me_feature_importances x) = 8 \<and> length (me_predicted_scores x) = 3
     \<and> (me_model_version x = None \<or> me_model_version x = Some ''1.0.0'')"

lemma model_explain_lengths:
  "model_explain lib m f = Some x \<Longrightarrow> length (me_feature_importances x) = 8 \<and> length (me_predicted_scores x) = 3"
  by (cases m) (auto simp: net_explain_def split: option.splits dest!: net_infer_shape simp: scores_shape_def)

lemma model_explain_shape: "model_explain lib m f = Some x \<Longrightarrow> as_constructed m \<Longrightarrow> explanation_shape x"
  using model_explain_lengths [of lib m f x]
  by (cases m) (auto simp: net_explain_def explanation_shape_def split: option.splits)

section \<open>A program with bridges to the models\<close>

text \<open>An answer as the interface passes it.\<close>

definition raw_shape :: "SynapseActionScores \<Rightarrow> bool" where
  "raw_shape s \<longleftrightarrow> length (sa_scores s) = 3 \<and> unat (sa_chosen s) < 3 \<and> sa_epsilon_greedy s = 0"

fun good_answer :: "bridge_out \<Rightarrow> bool" where
  "good_answer (Scores s) = raw_shape s"
| "good_answer (Explained x) = explanation_shape x"
| "good_answer (Updated u) = (u = no_update \<or> ur_learning_rate u \<in> set default_rates)"
| "good_answer (Threw what) = (take 27 what = ''Failed to create ML model: '')"
| "good_answer Created = True"
| "good_answer Deleted = True"
| "good_answer No_bridge = True"

definition store_ok :: "model ModelStore \<Rightarrow> bool" where
  "store_ok s \<longleftrightarrow> (\<forall>m \<in> snd ` set (store_models s). model_ok m \<and> as_constructed m)"

lemma store_ok_lookup: "store_ok s \<Longrightarrow> al_lookup (store_models s) h = Some m \<Longrightarrow> model_ok m \<and> as_constructed m"
  by (force simp: store_ok_def dest: al_lookup_SomeD)

lemma store_ok_update:
  "store_ok s \<Longrightarrow> model_ok m \<and> as_constructed m \<Longrightarrow> store_ok (s\<lparr>store_models := al_update h m (store_models s)\<rparr>)"
  using subsetD [OF values_al_update, of _ h m "store_models s"] by (fastforce simp: store_ok_def)

lemma store_ok_next [simp]: "store_ok (s\<lparr>store_next_id := h\<rparr>) = store_ok s"
  by (simp add: store_ok_def)

lemma net_new_fields [simp]: "net_config (net_new lib c seed) = c" "net_version (net_new lib c seed) = ''1.0.0''"
  by (simp_all add: net_new_def Let_def)

lemma new_models_ok:
  "model_ok (new_tile_transformer (rust_models lib)) \<and> as_constructed (new_tile_transformer (rust_models lib))"
  "model_ok (new_telemetry_optimizer (rust_models lib)) \<and> as_constructed (new_telemetry_optimizer (rust_models lib))"
  by (simp_all add: rust_models_def net_new_ok wide_enough_def tile_config_default_def optimizer_config_default_def)

lemma bridge_new_ok: "store_ok s \<Longrightarrow> store_ok (snd (bridge_new (rust_models lib) name s))"
proof -
  assume ok: "store_ok s"
  have insert: "store_ok (snd (store_insert m s))" if "model_ok m \<and> as_constructed m" for m
  proof -
    have "store_insert m s = (store_next_id s, (s\<lparr>store_models := al_update (store_next_id s) m (store_models s)\<rparr>)\<lparr>store_next_id := store_next_id s + 1\<rparr>)"
      by (simp add: store_insert_def Let_def)
    then show ?thesis using store_ok_update [OF ok that] by simp
  qed
  show ?thesis
    using ok insert [OF new_models_ok(1)] insert [OF new_models_ok(2)]
    by (simp add: bridge_new_def synapse_ml_create_model_def model_named_def split_beta)
qed

lemma bridge_destroy_ok: "store_ok s \<Longrightarrow> store_ok (bridge_destroy h s)"
  by (auto simp: bridge_destroy_def synapse_ml_destroy_model_def store_ok_def al_delete_def)

lemma bridge_new_message:
  "fst (bridge_new ops name s) = Inl what \<Longrightarrow> take 27 what = ''Failed to create ML model: ''"
  by (auto simp: bridge_new_def split_beta split: if_splits)

lemma bridge_observe_ok:
  "store_ok s \<Longrightarrow> store_ok (snd (bridge_observe (rust_models lib) e h s))
     \<and> good_answer (Updated (fst (bridge_observe (rust_models lib) e h s)))"
proof (cases "al_lookup (store_models s) h")
  case (Some m)
  assume ok: "store_ok s"
  let ?e = "experience_from_raw e"
  have m: "model_ok m" "as_constructed m" using store_ok_lookup [OF ok Some] by simp_all
  obtain r m' where "model_update lib m ?e = Some (r, m')" "model_ok m'"
    using model_update_ok [OF m(1)] by blast
  then show ?thesis using Some store_ok_update [OF ok] model_update_keeps [OF _ m(2)]
    by (simp add: bridge_observe_def synapse_ml_observe_def rust_models_def)
qed (simp add: bridge_observe_def synapse_ml_observe_def)

lemma fallback_shape: "raw_shape fallback_scores" "scores_shape oracle_scores" "action_scores_to_raw oracle_scores = fallback_scores"
  by (simp_all add: raw_shape_def scores_shape_def fallback_scores_def oracle_scores_def action_scores_to_raw_def)

lemma to_raw_shape: "scores_shape s \<Longrightarrow> raw_shape (action_scores_to_raw s)"
  by (simp add: raw_shape_def scores_shape_def action_scores_to_raw_def)

lemma bridge_infer_shape: "raw_shape (bridge_infer (rust_models lib) f h s)"
  using fallback_shape model_infer_shape
  by (auto simp: bridge_infer_def synapse_ml_infer_def rust_models_def intro: to_raw_shape split: option.split)

lemma bridge_explain_shape:
  assumes "store_ok s"
  shows "good_answer (Explained (bridge_explain (rust_models lib) f h s))"
proof (cases "al_lookup (store_models s) h")
  case (Some m)
  from store_ok_lookup [OF assms Some] obtain x where "model_explain lib m (feature_vector_from_raw f) = Some x" "explanation_shape x"
    using model_explain_ok model_explain_shape by blast
  with Some show ?thesis by (simp add: bridge_explain_def synapse_ml_explain_def rust_models_def)
qed (simp add: bridge_explain_def synapse_ml_explain_def empty_explanation_def explanation_shape_def)

lemma bridge_step_ok:
  assumes "store_ok (fst b)" "bridge_step (rust_models lib) op b = (r, b')"
  shows "store_ok (fst b') \<and> good_answer r"
proof (cases b)
  case (Pair s hs)
  note ok = assms(1) [unfolded Pair fst_conv] and step = assms(2) [unfolded Pair]
  show ?thesis
  proof (cases op)
    case (New_bridge name)
    then show ?thesis using step bridge_new_ok [OF ok, of lib name] bridge_new_message [of "rust_models lib" name s]
      by (auto split: prod.splits sum.splits)
  next
    case (Delete_bridge i)
    then show ?thesis using step ok bridge_destroy_ok [OF ok] by (auto split: option.splits)
  next
    case (Infer_with i f)
    then show ?thesis using step ok bridge_infer_shape [of lib f _ s] by (auto split: option.splits)
  next
    case (Observe_with i e)
    then show ?thesis using step ok bridge_observe_ok [OF ok, of lib e]
      by (auto simp: split_beta simp del: good_answer.simps(3) split: option.splits)
  next
    case (Explain_with i f)
    then show ?thesis using step ok bridge_explain_shape [OF ok, of lib f] by (auto simp del: good_answer.simps(2) split: option.splits)
  qed
qed

lemma bridge_run_ok:
  "store_ok (fst b) \<Longrightarrow> run_ops (bridge_step (rust_models lib)) ops b = (rs, b') \<Longrightarrow> store_ok (fst b') \<and> list_all good_answer rs"
proof (induction ops arbitrary: b rs)
  case (Cons op ops)
  obtain r b1 where one: "bridge_step (rust_models lib) op b = (r, b1)" by (metis surj_pair)
  obtain rs1 where rest: "run_ops (bridge_step (rust_models lib)) ops b1 = (rs1, b')" "rs = r # rs1"
    using Cons.prems(2) one by (auto split: prod.splits)
  from bridge_step_ok [OF Cons.prems(1) one] Cons.IH [OF _ rest(1)] rest(2) show ?case by simp
qed simp

section \<open>What a model learns from\<close>

definition same_lesson :: "SynapseExperience \<Rightarrow> SynapseExperience \<Rightarrow> bool" where
  "same_lesson e e' \<longleftrightarrow> ex_features e = ex_features e' \<and> ex_action e = ex_action e'"

text \<open>The reported result without its loss, and the model after the update.\<close>

definition apart_from_loss :: "SynapseUpdateResult \<times> 'm \<Rightarrow> (f32 \<times> f32) \<times> 'm" where
  "apart_from_loss u = ((ur_gradient_norm (fst u), ur_learning_rate (fst u)), snd u)"

lemma net_update_lesson:
  assumes "same_lesson e e'" "\<And>dl. loss e dl = None \<longleftrightarrow> loss' e' dl = None"
  shows "map_option apart_from_loss (net_update lib loss m e) = map_option apart_from_loss (net_update lib loss' m e')"
  using assms(1) by (auto simp: net_update_def same_lesson_def apart_from_loss_def split: option.split) (metis assms(2) option.distinct(1))+

lemma map_option_apart_from_loss:
  "map_option apart_from_loss (map_option (\<lambda>(r, m). (r, f m)) x) = map_option (\<lambda>(u, m). (u, f m)) (map_option apart_from_loss x)"
  by (cases x) (auto simp: apart_from_loss_def)

lemma model_update_lesson:
  assumes "same_lesson e e'"
  shows "map_option apart_from_loss (model_update lib m e) = map_option apart_from_loss (model_update lib m e')"
proof (cases m)
  case (Tile_transformer n)
  have "map_option apart_from_loss (net_update lib (tile_loss lib) n e) = map_option apart_from_loss (net_update lib (tile_loss lib) n e')"
    by (rule net_update_lesson [OF assms]) (use assms in \<open>simp add: tile_loss_def same_lesson_def\<close>)
  then show ?thesis using Tile_transformer by (simp only: model_update.simps map_option_apart_from_loss)
next
  case (Telemetry_optimizer n)
  have "map_option apart_from_loss (net_update lib (optimizer_loss (net_config n)) n e)
      = map_option apart_from_loss (net_update lib (optimizer_loss (net_config n)) n e')"
    by (rule net_update_lesson [OF assms]) (simp add: optimizer_loss_def Let_def)
  then show ?thesis using Telemetry_optimizer by (simp only: model_update.simps map_option_apart_from_loss)
qed

lemma mo_update_lesson:
  "same_lesson e e' \<Longrightarrow> map_prod (map_option (\<lambda>u. (ur_gradient_norm u, ur_learning_rate u))) id (mo_update (rust_models lib) m e)
     = map_prod (map_option (\<lambda>u. (ur_gradient_norm u, ur_learning_rate u))) id (mo_update (rust_models lib) m e')"
  using model_update_lesson [of e e' lib m]
  by (cases "model_update lib m e"; cases "model_update lib m e'") (auto simp: rust_models_def apart_from_loss_def)

fun same_op :: "bridge_op \<Rightarrow> bridge_op \<Rightarrow> bool" where
  "same_op (Observe_with i e) (Observe_with j e') \<longleftrightarrow> i = j \<and> same_lesson e e'"
| "same_op a b \<longleftrightarrow> a = b"

fun same_answer :: "bridge_out \<Rightarrow> bridge_out \<Rightarrow> bool" where
  "same_answer (Updated u) (Updated v) \<longleftrightarrow> ur_gradient_norm u = ur_gradient_norm v \<and> ur_learning_rate u = ur_learning_rate v"
| "same_answer a b \<longleftrightarrow> a = b"

lemma same_answer_refl [simp]: "same_answer a a"
  by (cases a) simp_all

lemma bridge_step_lesson:
  assumes "same_op op op'" "bridge_step (rust_models lib) op b = (r, b1)" "bridge_step (rust_models lib) op' b = (r', b2)"
  shows "b1 = b2 \<and> same_answer r r'"
proof (cases "op = op'")
  case False
  then obtain i e e' where ops: "op = Observe_with i e" "op' = Observe_with i e'" "same_lesson e e'"
    using assms(1) by (cases op; cases op') auto
  then have raw: "same_lesson (experience_from_raw e) (experience_from_raw e')"
    by (simp add: same_lesson_def experience_from_raw_def)
  obtain s hs where b: "b = (s, hs)" by fastforce
  have same: "snd (bridge_observe (rust_models lib) e h s) = snd (bridge_observe (rust_models lib) e' h s)
      \<and> same_answer (Updated (fst (bridge_observe (rust_models lib) e h s))) (Updated (fst (bridge_observe (rust_models lib) e' h s)))" for h
  proof (cases "al_lookup (store_models s) h")
    case (Some m)
    then show ?thesis using mo_update_lesson [OF raw, of lib m]
      by (cases "mo_update (rust_models lib) m (experience_from_raw e)"; cases "mo_update (rust_models lib) m (experience_from_raw e')")
        (auto simp: bridge_observe_def synapse_ml_observe_def split: option.split)
  qed (simp add: bridge_observe_def synapse_ml_observe_def)
  show ?thesis using assms(2,3) same unfolding ops b by (auto simp: split_beta split: option.splits)
qed (use assms in simp)

lemma bridge_run_lesson:
  "list_all2 same_op ops ops' \<Longrightarrow> run_ops (bridge_step (rust_models lib)) ops b = (rs, b1)
     \<Longrightarrow> run_ops (bridge_step (rust_models lib)) ops' b = (rs', b2) \<Longrightarrow> b1 = b2 \<and> list_all2 same_answer rs rs'"
proof (induction arbitrary: b rs rs' rule: list_all2_induct)
  case (Cons op ops op' ops')
  obtain r c1 r' c2 where one: "bridge_step (rust_models lib) op b = (r, c1)" "bridge_step (rust_models lib) op' b = (r', c2)"
    by (metis surj_pair)
  have c: "c2 = c1" "same_answer r r'" using bridge_step_lesson [OF Cons.hyps(1) one] by auto
  obtain rs1 rs2 where rest: "run_ops (bridge_step (rust_models lib)) ops c1 = (rs1, b1)" "rs = r # rs1"
    "run_ops (bridge_step (rust_models lib)) ops' c1 = (rs2, b2)" "rs' = r' # rs2"
    using Cons.prems one c by (auto split: prod.splits)
  from Cons.IH [OF rest(1,3)] rest(2,4) c show ?case by simp
qed simp

section \<open>Softmax\<close>

text \<open>What is relied on of the library: \<open>exp\<close> of a number that is not positive is a float in [0,1], and 1 at 0;
  a sum of three floats in [0,1], in whatever order, is finite and not below any of them.\<close>

definition unit_f32 :: "f32 \<Rightarrow> bool" where
  "unit_f32 v \<longleftrightarrow> fp_le (Fin 0) v \<and> fp_le v (Fin 1)"

definition sound_lib :: "ml_lib \<Rightarrow> bool" where
  "sound_lib lib \<longleftrightarrow> lib_exp lib (Fin 0) = Fin 1
     \<and> (\<forall>x. fp_le x (Fin 0) \<longrightarrow> is_f32 (lib_exp lib x) \<and> unit_f32 (lib_exp lib x))
     \<and> (\<forall>xs. length xs = 3 \<and> list_all (\<lambda>v. is_f32 v \<and> unit_f32 v) xs \<longrightarrow>
          (\<exists>s. lib_sum lib xs = Fin s \<and> list_all (\<lambda>v. fp_le v (Fin s)) xs))"

definition finite_f32 :: "f32 \<Rightarrow> bool" where
  "finite_f32 v \<longleftrightarrow> (case v of Fin q \<Rightarrow> True | _ \<Rightarrow> False)"

lemma unit_f32E:
  assumes "unit_f32 v"
  obtains q where "v = Fin q" "0 \<le> q" "q \<le> 1"
  using assms fp_le_between_Fin [of 0 v 1] by (auto simp: unit_f32_def)

lemma unit_f32_Fin [simp]: "unit_f32 (Fin q) \<longleftrightarrow> 0 \<le> q \<and> q \<le> 1"
  by (simp add: unit_f32_def)

lemma unit_quotient:
  assumes "0 \<le> a" "a \<le> s" "1 \<le> s"
  obtains q where "f32_div (Fin a) (Fin s) = Fin q" "0 \<le> q" "q \<le> 1"
proof -
  have "fp_le (Fin 0) (rnd32 (a / s))" by (rule rnd32_sign) (use assms in simp)
  moreover have "fp_le (rnd32 (a / s)) (Fin 1)" using rnd32_mono [of "a / s" 1] assms by simp
  ultimately obtain q where "rnd32 (a / s) = Fin q" "0 \<le> q" "q \<le> 1" by (rule fp_le_between_Fin)
  with that assms(3) show thesis by simp
qed

lemma rust_max_Fin [simp]: "rust_max (Fin a) (Fin b) = Fin (max a b)"
  by (simp add: rust_max_def fp_max_def max_def)

lemma fold_rust_max: "fold (\<lambda>v m. rust_max m v) (map Fin qs) (Fin q) = Fin (fold (\<lambda>v m. max m v) qs q)"
  by (induction qs arbitrary: q) simp_all

lemma fold_max_ge: "(q :: 'a :: linorder) \<le> fold (\<lambda>v m. max m v) qs q \<and> (\<forall>x \<in> set qs. x \<le> fold (\<lambda>v m. max m v) qs q)"
proof (induction qs arbitrary: q)
  case (Cons x qs)
  from Cons [of "max q x"] show ?case by auto
qed simp

lemma fold_max_in: "fold (\<lambda>v m. max m v) qs (q :: 'a :: linorder) \<in> insert q (set qs)"
proof (induction qs arbitrary: q)
  case (Cons x qs)
  from Cons [of "max q x"] show ?case by (auto simp: max_def split: if_splits)
qed simp

lemma reduce_max_Fin:
  assumes "qs \<noteq> []"
  obtains M where "reduce_max (map Fin qs) = Fin M" "M \<in> set qs" "\<forall>q \<in> set qs. q \<le> M"
  using assms fold_max_ge [of "hd qs" "tl qs"] fold_max_in [of "tl qs" "hd qs"] fold_rust_max [of "tl qs" "hd qs"]
  by (cases qs) (auto simp: reduce_max_def)

lemma finite_list: "list_all finite_f32 xs \<Longrightarrow> \<exists>qs. xs = map Fin qs"
proof (induction xs)
  case (Cons x xs)
  then obtain q qs where "x = Fin q" "xs = map Fin qs" by (cases x) (auto simp: finite_f32_def)
  then have "x # xs = map Fin (q # qs)" by simp
  then show ?case by (rule exI)
qed simp

lemma last_max_greatest:
  assumes "xs ! k = Fin m" "k < i" "drop i xs = map Fin vs" "i \<le> length xs" "\<forall>j < i. fp_le (xs ! j) (Fin m)"
    and "\<forall>j < i. k < j \<longrightarrow> \<not> fp_le (Fin m) (xs ! j)"
  defines "best \<equiv> \<lambda>i k m vs. last_max i (k, Fin m) (map Fin vs)"
  shows "(\<forall>j < length xs. fp_le (xs ! j) (xs ! best i k m vs)) \<and> (\<forall>j < length xs. best i k m vs < j \<longrightarrow> \<not> fp_le (xs ! best i k m vs) (xs ! j))"
  using assms(1-6)
proof (induction vs arbitrary: i k m)
  case Nil
  then have "i = length xs" by simp
  then show ?case using Nil by (simp add: best_def)
next
  case (Cons v vs)
  have i: "i < length xs" using Cons.prems(3) by (metis drop_all length_greater_0_conv list.distinct(1) list.simps(9) not_le)
  have v: "xs ! i = Fin v" "drop (i + 1) xs = map Fin vs"
    using Cons.prems(3) i by (simp_all add: Cons_nth_drop_Suc [symmetric])
  show ?case
  proof (cases "v < m")
    case True
    have "\<forall>j < i + 1. fp_le (xs ! j) (Fin m)" "\<forall>j < i + 1. k < j \<longrightarrow> \<not> fp_le (Fin m) (xs ! j)"
      using Cons.prems(5,6) v(1) True by (auto simp: less_Suc_eq)
    from Cons.IH [OF Cons.prems(1) _ v(2) _ this] Cons.prems(2) i True show ?thesis by (simp add: best_def)
  next
    case False
    have "\<forall>j < i + 1. fp_le (xs ! j) (Fin v)"
      using Cons.prems(5) v(1) False by (auto simp: less_Suc_eq intro: fp_le_trans [where y = "Fin m"])
    from Cons.IH [OF v(1) _ v(2) _ this] i False show ?thesis by (simp add: best_def)
  qed
qed

lemma argmax_last_greatest:
  assumes "list_all finite_f32 xs" "xs \<noteq> []"
  shows "(\<forall>j < length xs. fp_le (xs ! j) (xs ! argmax_last xs))
    \<and> (\<forall>j < length xs. argmax_last xs < j \<longrightarrow> \<not> fp_le (xs ! argmax_last xs) (xs ! j))"
proof -
  obtain q qs where xs: "xs = map Fin (q # qs)" using finite_list [OF assms(1)] assms(2) by (metis list.exhaust map_is_Nil_conv)
  have "(\<forall>j < length xs. fp_le (xs ! j) (xs ! last_max 1 (0, Fin q) (map Fin qs)))
      \<and> (\<forall>j < length xs. last_max 1 (0, Fin q) (map Fin qs) < j \<longrightarrow> \<not> fp_le (xs ! last_max 1 (0, Fin q) (map Fin qs)) (xs ! j))"
    by (rule last_max_greatest) (simp_all add: xs)
  then show ?thesis by (simp add: xs argmax_last_def)
qed

lemma seq_sum_not_NaN:
  assumes "list_all finite_f32 xs"
  shows "seq_sum xs \<noteq> NaN"
proof -
  have "s \<noteq> NaN \<Longrightarrow> list_all finite_f32 ys \<Longrightarrow> fold (\<lambda>v s. f32_add s v) ys s \<noteq> NaN" for s ys
  proof (induction ys arbitrary: s)
    case (Cons y ys)
    have "f32_add s y \<noteq> NaN" using Cons.prems by (cases s; cases y) (simp_all add: finite_f32_def)
    with Cons show ?case by simp
  qed simp
  with assms show ?thesis by (simp add: seq_sum_def)
qed

lemma confidence_of_unit:
  assumes "list_all finite_f32 xs" "xs \<noteq> []"
  shows "unit_f32 (confidence_of xs)"
proof -
  obtain qs where qs: "xs = map Fin qs" using finite_list [OF assms(1)] by blast
  then obtain M where M: "reduce_max xs = Fin M" using reduce_max_Fin [of qs] assms(2) by auto
  have "f32_div (seq_sum xs) (Fin 3) \<noteq> NaN" using seq_sum_not_NaN [OF assms(1)] by (cases "seq_sum xs") simp_all
  then have "f32_sub (reduce_max xs) (f32_div (seq_sum xs) (Fin 3)) \<noteq> NaN"
    unfolding M fp_sub_def by (cases "f32_div (seq_sum xs) (Fin 3)") simp_all
  from fp_clamp_range [OF _ this, of "Fin 0" "Fin 1"] show ?thesis by (simp add: unit_f32_def confidence_of_def)
qed

text \<open>The scores of finite logits.\<close>

lemma softmax_unit:
  assumes "sound_lib lib" "length logits = 3" "list_all finite_f32 logits"
  shows "list_all unit_f32 (softmax lib logits)"
    and "i < 3 \<Longrightarrow> logits ! i = reduce_max logits \<Longrightarrow> j < 3 \<Longrightarrow> fp_le (softmax lib logits ! j) (softmax lib logits ! i)"
proof -
  obtain qs where qs: "logits = map Fin qs" "length qs = 3" using finite_list [OF assms(3)] assms(2) by auto
  have "qs \<noteq> []" using qs(2) by auto
  then obtain M where M: "reduce_max logits = Fin M" "M \<in> set qs" "\<forall>q \<in> set qs. q \<le> M"
    unfolding qs(1) by (rule reduce_max_Fin)
  let ?e = "\<lambda>q. lib_exp lib (f32_sub (Fin q) (Fin M))"
  have sub: "fp_le (f32_sub (Fin q) (Fin M)) (Fin 0)" if "q \<in> set qs" for q
    using rnd32_sign(2) [of "q - M"] M(3) that by (simp add: fp_sub_def)
  have e: "is_f32 (?e q)" "unit_f32 (?e q)" if "q \<in> set qs" for q
    using assms(1) sub [OF that] by (simp_all add: sound_lib_def)
  have top: "?e M = Fin 1" using assms(1) by (simp add: sound_lib_def fp_sub_def)
  let ?ex = "map ?e qs"
  obtain s where s: "lib_sum lib ?ex = Fin s" "\<forall>q \<in> set qs. fp_le (?e q) (Fin s)"
  proof -
    have "length ?ex = 3 \<and> list_all (\<lambda>v. is_f32 v \<and> unit_f32 v) ?ex" using e qs(2) by (simp add: list_all_iff)
    then obtain s where "lib_sum lib ?ex = Fin s" "list_all (\<lambda>v. fp_le v (Fin s)) ?ex"
      using assms(1) unfolding sound_lib_def by blast
    with that show thesis by (simp add: list_all_iff)
  qed
  have s1: "1 \<le> s" using s(2) M(2) top by force
  have soft: "softmax lib logits = map (\<lambda>q. f32_div (?e q) (Fin s)) qs"
    using s(1) s1 M(1) unfolding qs(1) softmax_def by (simp add: comp_def)
  have unit: "unit_f32 (f32_div (?e q) (Fin s))" if q: "q \<in> set qs" for q
  proof (rule unit_f32E [OF e(2) [OF q]])
    fix a
    assume a: "?e q = Fin a" "0 \<le> a" "a \<le> 1"
    have "a \<le> s" using a s1 by simp
    from unit_quotient [OF a(2) this s1] a(1) show ?thesis by (metis unit_f32_Fin)
  qed
  then show "list_all unit_f32 (softmax lib logits)" unfolding soft by (simp add: list_all_iff)
  show "fp_le (softmax lib logits ! j) (softmax lib logits ! i)" if ij: "i < 3" "logits ! i = reduce_max logits" "j < 3"
  proof -
    have qi: "qs ! i = M" "qs ! j \<in> set qs" using ij qs M(1) by simp_all
    obtain a where a: "?e (qs ! j) = Fin a" "0 \<le> a" "a \<le> 1" using unit_f32E [OF e(2) [OF qi(2)]] by blast
    have "fp_le (rnd32 (a / s)) (rnd32 (1 / s))"
      by (rule rnd32_mono) (use a s1 in \<open>simp_all add: divide_right_mono\<close>)
    then show ?thesis unfolding soft using ij qs(2) qi(1) a(1) top s1 by simp
  qed
qed

section \<open>A library for concrete runs\<close>

text \<open>Summation from left to right satisfies the law.\<close>

lemma seq_sum_sound:
  assumes "length xs = 3" "list_all (\<lambda>v. is_f32 v \<and> unit_f32 v) xs"
  shows "\<exists>s. seq_sum xs = Fin s \<and> list_all (\<lambda>v. fp_le v (Fin s)) xs"
proof -
  obtain x y z where xs: "xs = [x, y, z]" using assms(1) by (auto simp: length_Suc_conv numeral_3_eq_3)
  obtain a b c where abc: "x = Fin a" "y = Fin b" "z = Fin c" "0 \<le> a" "a \<le> 1" "0 \<le> b" "b \<le> 1" "0 \<le> c" "c \<le> 1"
    using assms(2) unfolding xs by (auto elim!: unit_f32E)
  have r: "rnd32 a = Fin a" "rnd32 b = Fin b" "rnd32 c = Fin c" using assms(2) abc unfolding xs by (simp_all add: is_f32_def)
  have "fp_le (rnd32 (a + b)) (rnd32 2)" "fp_le (rnd32 a) (rnd32 (a + b))" "fp_le (rnd32 b) (rnd32 (a + b))"
    using abc by (auto intro!: rnd32_mono)
  then obtain p where p: "rnd32 (a + b) = Fin p" "a \<le> p" "b \<le> p" "p \<le> 2"
    using r rnd32_nat [of 2] by (cases "rnd32 (a + b)") auto
  have rp: "rnd32 p = Fin p" using rnd32_is_f32 [of "a + b"] unfolding p(1) by (simp add: is_f32_def)
  have "fp_le (rnd32 (p + c)) (rnd32 3)" "fp_le (rnd32 p) (rnd32 (p + c))" "fp_le (rnd32 c) (rnd32 (p + c))"
    using abc p by (auto intro!: rnd32_mono)
  then obtain s where s: "rnd32 (p + c) = Fin s" "p \<le> s" "c \<le> s"
    using r rp rnd32_nat [of 3] by (cases "rnd32 (p + c)") auto
  have "seq_sum xs = Fin s" unfolding xs seq_sum_def by (simp add: abc r p s)
  then show ?thesis using p s unfolding xs by (simp add: abc)
qed

definition demo_lib :: ml_lib where
  "demo_lib = \<lparr>lib_random = (\<lambda>seed i. Fin (1 / 2)), lib_dot = (\<lambda>r x. seq_sum (map2 f32_mul r x)), lib_sum = seq_sum,
     lib_exp = (\<lambda>x. if x = Fin 0 then Fin 1 else Fin 0), lib_ln = (\<lambda>x. Fin 0), lib_sqrt = (\<lambda>x. Fin 1)\<rparr>"

lemma demo_lib_sound: "sound_lib demo_lib"
  using seq_sum_sound by (auto simp: sound_lib_def demo_lib_def)

definition demo_features :: SynapseFeatureVector where
  "demo_features = \<lparr>shader_complexity_norm = Fin 0, vertex_count_log_norm = Fin 1, draw_call_rate_norm = Fin 0,
     fv_cache_hit_rate = Fin 0, fv_dvfs_headroom = Fin 1, fv_thermal_headroom = Fin 0, predictor_accuracy = Fin 0,
     is_compute_dispatch = Fin 0\<rparr>"

definition demo_experience :: "f32 \<Rightarrow> SynapseExperience" where
  "demo_experience reward = \<lparr>ex_features = demo_features, ex_action = 1, ex_reward = reward, ex_timestamp_ns = 0,
     ex_session_id = 0, ex_energy_joules = Fin 0, ex_thermal_events = 0, ex_confidence = Fin 0\<rparr>"

definition demo_net :: "DynamicTileTransformerConfig network" where
  "demo_net = net_new demo_lib (tile_config_default\<lparr>nc_hidden_dims := []\<rparr>) 42"

section \<open>Properties\<close>

text \<open>C34: No foreign function of the model library can panic. In every program that constructs, destroys and uses
  bridges, every model in the store has weights and biases of the shape of its configuration, which is still
  the default one, learning included; hence inference, explanation and update are defined on it for every
  input. Every answer of scores has three of them, a choice among them, and 0 in the one byte of
  \<open>epsilon_greedy\<close> the library writes (the header's \<open>int\<close> has three more, which nobody writes); every explanation
  has eight importances, three scores and the version 1.0.0 or none; every update reports zeros or
  the learning rate of one of the two default configurations; and every exception has the constructor's message.\<close>
theorem models_never_panic:
  assumes "run_ops (bridge_step (rust_models lib)) ops (store_init, []) = (rs, s, hs)"
    and "al_lookup (store_models s) h = Some m"
  shows "model_ok m \<and> as_constructed m
    \<and> model_infer lib m f \<noteq> None \<and> model_explain lib m f \<noteq> None \<and> model_update lib m e \<noteq> None
    \<and> list_all good_answer rs"
proof -
  have "store_ok (fst (store_init, []))" by (simp add: store_ok_def store_init_def)
  from bridge_run_ok [OF this assms(1)] have "store_ok s" "list_all good_answer rs" by simp_all
  moreover from this have "model_ok m" "as_constructed m" using store_ok_lookup assms(2) by blast+
  ultimately show ?thesis using model_infer_ok model_explain_ok model_update_ok by fastforce
qed

theorem models_never_panic_witness:
  "let b = run_ops (bridge_step (rust_models demo_lib)) [New_bridge ''telemetry-optimizer'', Observe_with 0 (demo_experience (Fin 1))]
         (store_init, [])
   in list_all good_answer (fst b) \<and> (\<exists>m. al_lookup (store_models (fst (snd b))) 0 = Some m \<and> model_ok m)"
proof -
  let ?ops = "[New_bridge ''telemetry-optimizer'', Observe_with 0 (demo_experience (Fin 1))]"
  let ?b = "run_ops (bridge_step (rust_models demo_lib)) ?ops (store_init, [])"
  obtain rs s hs where b: "?b = (rs, s, hs)" by (metis prod_cases3)
  obtain m where m: "al_lookup (store_models (fst (snd ?b))) 0 = Some m"
    by (simp add: bridge_new_def synapse_ml_create_model_def model_named_def c_str_def store_insert_def store_init_def
        live_def bridge_observe_def synapse_ml_observe_def split_beta)
  from models_never_panic [OF b, of 0 m demo_features "demo_experience (Fin 1)"] m b show ?thesis by simp
qed

text \<open>C35: A model does not learn from rewards. Two programs whose observations agree in features and action, and
  differ in whatever reward, energy, thermal events or confidence they report, bring every model into
  exactly the same state and get the same answers throughout: the same scores and explanations, and of the
  updates the same gradient norms and learning rates. Only the reported losses can differ. An action is
  reinforced alike whether it was rewarded or punished.\<close>
theorem rewards_do_not_matter:
  assumes "list_all2 same_op ops ops'"
    and "run_ops (bridge_step (rust_models lib)) ops (store_init, []) = (rs, b)"
    and "run_ops (bridge_step (rust_models lib)) ops' (store_init, []) = (rs', b')"
  shows "b = b' \<and> list_all2 same_answer rs rs'"
  using bridge_run_lesson [OF assms] .

theorem rewards_do_not_matter_witness:
  "snd (run_ops (bridge_step (rust_models demo_lib))
       [New_bridge ''dynamic-tile-transformer'', Observe_with 0 (demo_experience (Fin 1))] (store_init, []))
   = snd (run_ops (bridge_step (rust_models demo_lib))
       [New_bridge ''dynamic-tile-transformer'', Observe_with 0 (demo_experience (Fin (- 1)))] (store_init, []))"
proof -
  have "list_all2 same_op [New_bridge ''dynamic-tile-transformer'', Observe_with 0 (demo_experience (Fin 1))]
      [New_bridge ''dynamic-tile-transformer'', Observe_with 0 (demo_experience (Fin (- 1)))]"
    by (simp add: same_lesson_def demo_experience_def)
  from rewards_do_not_matter [OF this surjective_pairing surjective_pairing] show ?thesis by (rule conjunct1)
qed

text \<open>C39: What a score is. For features in range and finite logits the three scores lie in [0,1], as does the
  confidence; the chosen action has the greatest score and is the last one that has it, every later action
  scoring strictly less; and no score exceeds that of an action with the greatest logit. For features out of
  range the answer is the oracle with no confidence, whatever the model.\<close>
theorem infer_is_softmax:
  assumes "sound_lib lib" "net_infer lib m f = Some s"
  shows "if fv_validate f then
       \<forall>logits. net_forward lib m f = Some logits \<longrightarrow> length logits = 3 \<longrightarrow> list_all finite_f32 logits \<longrightarrow>
         list_all unit_f32 (as_scores s) \<and> unit_f32 (as_confidence s) \<and> unat (as_chosen s) < 3
         \<and> (\<forall>i < 3. fp_le (as_scores s ! i) (as_scores s ! unat (as_chosen s)))
         \<and> (\<forall>i < 3. unat (as_chosen s) < i \<longrightarrow> \<not> fp_le (as_scores s ! unat (as_chosen s)) (as_scores s ! i))
         \<and> (\<forall>i < 3. logits ! i = reduce_max logits \<longrightarrow> fp_le (as_scores s ! unat (as_chosen s)) (as_scores s ! i))
     else action_scores_to_raw s = fallback_scores \<and> as_chosen s = 2 \<and> as_confidence s = Fin 0"
proof (cases "fv_validate f")
  case True
  have "list_all unit_f32 (as_scores s) \<and> unit_f32 (as_confidence s) \<and> unat (as_chosen s) < 3
         \<and> (\<forall>i < 3. fp_le (as_scores s ! i) (as_scores s ! unat (as_chosen s)))
         \<and> (\<forall>i < 3. unat (as_chosen s) < i \<longrightarrow> \<not> fp_le (as_scores s ! unat (as_chosen s)) (as_scores s ! i))
         \<and> (\<forall>i < 3. logits ! i = reduce_max logits \<longrightarrow> fp_le (as_scores s ! unat (as_chosen s)) (as_scores s ! i))"
    if l: "net_forward lib m f = Some logits" "length logits = 3" "list_all finite_f32 logits" for logits
  proof -
    let ?p = "softmax lib logits"
    note unit = softmax_unit [OF assms(1) l(2,3)]
    have len: "length ?p = 3" by (rule length_softmax [OF l(2)])
    have fin: "list_all finite_f32 ?p" using unit(1) by (auto simp: list_all_iff finite_f32_def elim!: unit_f32E)
    have s: "as_scores s = ?p" "as_confidence s = confidence_of ?p" "as_chosen s = of_nat (argmax_last ?p)"
      using assms(2) True l(1) len by (auto simp: net_infer_def Let_def)
    have ne: "?p \<noteq> []" using len by auto
    have best: "argmax_last ?p < 3" by (rule argmax_last_bound [OF len])
    then have chosen: "unat (as_chosen s) = argmax_last ?p" unfolding s by (simp add: unat_of_nat)
    show ?thesis
      using unit confidence_of_unit [OF fin ne] argmax_last_greatest [OF fin ne] best unfolding s(1,2) chosen len by simp
  qed
  with True show ?thesis by simp
qed (use assms(2) in \<open>auto simp: net_infer_def fallback_scores_def oracle_scores_def action_scores_to_raw_def\<close>)

theorem infer_is_softmax_witness:
  "\<exists>s. net_infer demo_lib demo_net demo_features = Some s \<and> list_all unit_f32 (as_scores s) \<and> unit_f32 (as_confidence s)"
proof -
  have "net_ok demo_net" by (simp add: demo_net_def net_new_ok tile_config_default_def)
  then obtain s where s: "net_infer demo_lib demo_net demo_features = Some s" using net_infer_ok by blast
  have logits: "net_forward demo_lib demo_net demo_features = Some [Fin 0, Fin 0, Fin 0]"
    by (simp add: net_forward_def demo_net_def net_new_def Let_def hidden_layers_def tile_config_default_def init_layer_def
        dense_def mat_vec_def add_bias_def demo_lib_def init_weight_def init_scale_def demo_features_def fv_to_array_def seq_sum_def
        upt_rec fp_sub_def numeral_3_eq_3)
  have "fv_validate demo_features" by (simp add: fv_validate_def demo_features_def fv_to_array_def feature_valid_def)
  with infer_is_softmax [OF demo_lib_sound s] logits s show ?thesis by (simp add: finite_f32_def)
qed

text \<open>The loss the tile transformer reports. It reads the vector left over from back-propagation, which belongs to
  the first hidden layer: for the model behind the bridge it has 32 entries, none of them a probability of
  an action.\<close>
theorem tile_loss_reads_hidden_layer:
  assumes "net_ok m" "nc_hidden_dims (net_config m) = 32 # hs" "fv_validate (ex_features e)" "unat (ex_action e) < 3"
  shows "\<exists>ls dl n m'. net_gradient_step lib m (fv_to_array (ex_features e)) (unat (ex_action e)) = Some (ls, dl, n)
    \<and> length dl = 32
    \<and> net_update lib (tile_loss lib) m e =
        Some (\<lparr>ur_loss = f32_mul (fp_neg (ex_reward e)) (lib_ln lib (rust_max (dl ! unat (ex_action e)) (rnd32 (1 / 1000000)))),
               ur_gradient_norm = lib_sqrt lib n, ur_learning_rate = nc_learning_rate (net_config m)\<rparr>, m')"
proof -
  obtain ls dl n where step: "net_gradient_step lib m (fv_to_array (ex_features e)) (unat (ex_action e)) = Some (ls, dl, n)"
    "length dl = 32"
    using gradient_step_ok [OF assms(1), of "fv_to_array (ex_features e)" "unat (ex_action e)" lib] assms(2,4) by auto
  with assms(3,4) show ?thesis by (simp add: net_update_def tile_loss_def)
qed

end
