(* ===== verification/ModelFile.thy ===== *)
theory ModelFile
  imports ModelLaws
begin

text \<open>
  Saving and loading a model: \<open>serialize\<close> and \<open>deserialize\<close> of
  \<open>src/rust/crates/igpu_ml_models\<close>, again the same code in both files but for the tag that is hashed first.
  The image is the version string, a hash, the configuration and each layer's weights and biases, every
  part behind its length. The encodings of \<open>bincode\<close> and the hash of \<open>blake3\<close> are the record \<open>model_codec\<close>.
  Hashing in pieces is hashing the concatenation.
\<close>

record 'c model_codec =
  mc_config :: "'c \<Rightarrow> bytes"
  mc_matrix :: "matrix \<Rightarrow> bytes"
  mc_vector :: "f32 list \<Rightarrow> bytes"
  mc_config_of :: "bytes \<Rightarrow> 'c option"
  mc_matrix_of :: "bytes \<Rightarrow> matrix option"
  mc_vector_of :: "bytes \<Rightarrow> f32 list option"
  mc_hash :: "bytes \<Rightarrow> bytes"

definition tile_tag :: bytes where
  "tile_tag = string_bytes ''dynamic-tile-transformer-v1''"

definition optimizer_tag :: bytes where
  "optimizer_tag = string_bytes ''telemetry-optimizer-v1''"

section \<open>Writing\<close>

definition le16 :: "u16 \<Rightarrow> bytes" where
  "le16 w = le_nat 2 (unat w)"

text \<open>A part behind its length, which is cut to 32 bits.\<close>

definition put_block :: "bytes \<Rightarrow> bytes" where
  "put_block bs = le32 (of_nat (length bs)) @ bs"

fun weight_bytes :: "'c model_codec \<Rightarrow> dense_layer list \<Rightarrow> bytes" where
  "weight_bytes k [] = []"
| "weight_bytes k ((w, b) # ls) = put_block (mc_matrix k w) @ put_block (mc_vector k b) @ weight_bytes k ls"

fun hashed_layers :: "'c model_codec \<Rightarrow> dense_layer list \<Rightarrow> bytes" where
  "hashed_layers k [] = []"
| "hashed_layers k ((w, b) # ls) = mc_matrix k w @ mc_vector k b @ hashed_layers k ls"

definition model_hash :: "'c model_codec \<Rightarrow> bytes \<Rightarrow> 'c network \<Rightarrow> bytes" where
  "model_hash k tag m =
     mc_hash k (tag @ mc_config k (net_config m) @ hashed_layers k (zip (net_weights m) (net_biases m)))"

definition file_image :: "'c model_codec \<Rightarrow> bytes \<Rightarrow> 'c network \<Rightarrow> bytes" where
  "file_image k checksum m =
     le16 (of_nat (length (net_version m))) @ string_bytes (net_version m) @ checksum
     @ put_block (mc_config k (net_config m)) @ weight_bytes k (zip (net_weights m) (net_biases m))"

definition net_serialize :: "'c model_codec \<Rightarrow> bytes \<Rightarrow> 'c network \<Rightarrow> bytes" where
  "net_serialize k tag m = file_image k (model_hash k tag m) m"

section \<open>Reading\<close>

text \<open>\<open>std::str::from_utf8\<close>.\<close>

definition utf8_tail :: "u8 \<Rightarrow> bool" where
  "utf8_tail b \<longleftrightarrow> 0x80 \<le> b \<and> b \<le> 0xBF"

fun utf8_valid :: "bytes \<Rightarrow> bool" where
  "utf8_valid [] = True"
| "utf8_valid [b] = (b < 0x80)"
| "utf8_valid [b, c] =
     (if b < 0x80 then utf8_valid [c] else 0xC2 \<le> b \<and> b \<le> 0xDF \<and> utf8_tail c)"
| "utf8_valid [b, c, d] =
     (if b < 0x80 then utf8_valid [c, d]
      else if 0xC2 \<le> b \<and> b \<le> 0xDF then utf8_tail c \<and> utf8_valid [d]
      else (b = 0xE0 \<and> 0xA0 \<le> c \<and> c \<le> 0xBF \<or> (0xE1 \<le> b \<and> b \<le> 0xEC \<or> b = 0xEE \<or> b = 0xEF) \<and> utf8_tail c
            \<or> b = 0xED \<and> 0x80 \<le> c \<and> c \<le> 0x9F) \<and> utf8_tail d)"
| "utf8_valid (b # c # d # e # bs) =
     (if b < 0x80 then utf8_valid (c # d # e # bs)
      else if 0xC2 \<le> b \<and> b \<le> 0xDF then utf8_tail c \<and> utf8_valid (d # e # bs)
      else if 0xE0 \<le> b \<and> b \<le> 0xEF then
        (b = 0xE0 \<and> 0xA0 \<le> c \<and> c \<le> 0xBF \<or> (0xE1 \<le> b \<and> b \<le> 0xEC \<or> b = 0xEE \<or> b = 0xEF) \<and> utf8_tail c
         \<or> b = 0xED \<and> 0x80 \<le> c \<and> c \<le> 0x9F) \<and> utf8_tail d \<and> utf8_valid (e # bs)
      else (b = 0xF0 \<and> 0x90 \<le> c \<and> c \<le> 0xBF \<or> 0xF1 \<le> b \<and> b \<le> 0xF3 \<and> utf8_tail c
            \<or> b = 0xF4 \<and> 0x80 \<le> c \<and> c \<le> 0x8F) \<and> utf8_tail d \<and> utf8_tail e \<and> utf8_valid bs)"

text \<open>A slice that reaches past the end is a panic.\<close>

definition read_bytes :: "nat \<Rightarrow> bytes \<Rightarrow> (bytes \<times> bytes) option" where
  "read_bytes n bs = (if length bs < n then None else Some (take n bs, drop n bs))"

definition read_block :: "bytes \<Rightarrow> (bytes \<times> bytes) option" where
  "read_block bs = Option.bind (read_bytes 4 bs) (\<lambda>(len, bs). read_bytes (unat (of_le32 len)) bs)"

text \<open>The layers, one by one; \<open>None\<close> is a panic, the left side an error of the decoder with what has been pushed
  before it, the right side the layers and the bytes to hash.\<close>

fun read_layers :: "'c model_codec \<Rightarrow> nat \<Rightarrow> bytes \<Rightarrow> matrix list \<Rightarrow> f32 list list \<Rightarrow> bytes
    \<Rightarrow> ((matrix list \<times> f32 list list) + (matrix list \<times> f32 list list \<times> bytes)) option" where
  "read_layers k 0 bs ws vs h = Some (Inr (ws, vs, h))"
| "read_layers k (Suc n) bs ws vs h =
     (case read_block bs of
        None \<Rightarrow> None
      | Some (wb, bs) \<Rightarrow>
          (case mc_matrix_of k wb of
             None \<Rightarrow> Some (Inl (ws, vs))
           | Some w \<Rightarrow>
               (case read_block bs of
                  None \<Rightarrow> None
                | Some (vb, bs) \<Rightarrow>
                    (case mc_vector_of k vb of
                       None \<Rightarrow> Some (Inl (ws @ [w], vs))
                     | Some v \<Rightarrow> read_layers k n bs (ws @ [w]) (vs @ [v]) (h @ mc_matrix k w @ mc_vector k v)))))"

datatype load_error = Bad_version | Bad_config | Bad_layer | Checksum_mismatch

text \<open>The state after an error keeps what has been replaced before it.\<close>

definition net_deserialize ::
  "'a DynamicTileTransformerConfig_scheme model_codec \<Rightarrow> bytes \<Rightarrow> bytes \<Rightarrow> 'a DynamicTileTransformerConfig_scheme network
     \<Rightarrow> ((load_error + unit) \<times> 'a DynamicTileTransformerConfig_scheme network) option" where
  "net_deserialize k tag bs m =
     (case read_bytes 2 bs of
        None \<Rightarrow> None
      | Some (len, bs) \<Rightarrow>
     (case read_bytes (unat (of_le16 len)) bs of
        None \<Rightarrow> None
      | Some (version, bs) \<Rightarrow>
          if \<not> utf8_valid version then Some (Inl Bad_version, m)
          else
            let m = m\<lparr>net_version := bytes_string version\<rparr> in
     (case read_bytes 32 bs of
        None \<Rightarrow> None
      | Some (checksum, bs) \<Rightarrow>
     (case read_block bs of
        None \<Rightarrow> None
      | Some (config_bytes, bs) \<Rightarrow>
     (case mc_config_of k config_bytes of
        None \<Rightarrow> Some (Inl Bad_config, m)
      | Some config \<Rightarrow>
     (case read_layers k (length (nc_hidden_dims config) + 1) bs [] [] (tag @ config_bytes) of
        None \<Rightarrow> None
      | Some (Inl (ws, vs)) \<Rightarrow> Some (Inl Bad_layer, m\<lparr>net_config := config, net_weights := ws, net_biases := vs\<rparr>)
      | Some (Inr (ws, vs, hashed)) \<Rightarrow>
          Some (if mc_hash k hashed \<noteq> checksum then Inl Checksum_mismatch else Inr (),
            m\<lparr>net_config := config, net_weights := ws, net_biases := vs\<rparr>)))))))"

section \<open>Lemmas\<close>

text \<open>What is relied on: decoding inverts encoding on the parts of the model, and a hash has 32 bytes. The
  lengths of the parts fit their fields.\<close>

definition part_ok :: "'c model_codec \<Rightarrow> dense_layer \<Rightarrow> bool" where
  "part_ok k l \<longleftrightarrow> mc_matrix_of k (mc_matrix k (fst l)) = Some (fst l) \<and> mc_vector_of k (mc_vector k (snd l)) = Some (snd l)
     \<and> length (mc_matrix k (fst l)) < 2 ^ 32 \<and> length (mc_vector k (snd l)) < 2 ^ 32"

definition codec_ok :: "'c model_codec \<Rightarrow> 'c network \<Rightarrow> bool" where
  "codec_ok k m \<longleftrightarrow> mc_config_of k (mc_config k (net_config m)) = Some (net_config m)
     \<and> length (mc_config k (net_config m)) < 2 ^ 32 \<and> (\<forall>bs. length (mc_hash k bs) = 32)
     \<and> list_all (part_ok k) (zip (net_weights m) (net_biases m))"

text \<open>The model was built by \<open>new\<close> or by loading, so it has a layer for each width of its configuration; its
  version is a Rust string of ordinary length.\<close>

definition saveable :: "'a DynamicTileTransformerConfig_scheme network \<Rightarrow> bool" where
  "saveable m \<longleftrightarrow> length (net_weights m) = length (nc_hidden_dims (net_config m)) + 1
     \<and> length (net_biases m) = length (net_weights m)
     \<and> utf8_valid (string_bytes (net_version m)) \<and> length (net_version m) < 2 ^ 16"

lemma of_le16_le16 [codec_simps]: "of_le16 (le16 w) = w"
proof -
  have "unat w < 256 ^ 2" using unsigned_less [of w] by simp
  then show ?thesis by (simp add: of_le16_def le16_def)
qed

lemma length_le16 [simp, codec_simps]: "length (le16 w) = 2"
  by (simp add: le16_def)

lemma read_bytes_take:
  "n = length x \<Longrightarrow> read_bytes n (take j (x @ rest)) = (if j < length x then None else Some (x, take (j - length x) rest))"
  by (auto simp: read_bytes_def)

lemma length_put_block [simp]: "length (put_block x) = 4 + length x"
  by (simp add: put_block_def)

lemma read_block_take:
  assumes "length x < 2 ^ 32"
  shows "read_block (take j (put_block x @ rest)) = (if j < 4 + length x then None else Some (x, take (j - (4 + length x)) rest))"
proof -
  have "put_block x @ rest = le32 (of_nat (length x)) @ x @ rest" by (simp add: put_block_def)
  moreover have "unat (of_le32 (le32 (of_nat (length x)))) = length x" using assms by (simp add: unat_of_nat)
  ultimately show ?thesis
    using read_bytes_take [OF refl, of "le32 (of_nat (length x))" j "x @ rest"]
      read_bytes_take [of "unat (of_le32 (le32 (of_nat (length x))))" x "j - 4" rest]
    by (auto simp: read_block_def)
qed

lemma read_layers_take:
  assumes "list_all (part_ok k) ls"
  shows "read_layers k (length ls) (take j (weight_bytes k ls)) ws vs h =
    (if j < length (weight_bytes k ls) then None
     else Some (Inr (ws @ map fst ls, vs @ map snd ls, h @ hashed_layers k ls)))"
  using assms
proof (induction ls arbitrary: j ws vs h)
  case (Cons l ls)
  obtain w b where l: "l = (w, b)" by fastforce
  have "part_ok k (w, b)" and rest: "list_all (part_ok k) ls" using Cons.prems by (simp_all add: l)
  then have p: "mc_matrix_of k (mc_matrix k w) = Some w" "mc_vector_of k (mc_vector k b) = Some b"
    "length (mc_matrix k w) < 2 ^ 32" "length (mc_vector k b) < 2 ^ 32"
    by (simp_all add: part_ok_def)
  let ?m = "length (mc_matrix k w)" and ?v = "length (mc_vector k b)"
  show ?case
  proof (cases "j < 4 + ?m \<or> j - (4 + ?m) < 4 + ?v")
    case True
    then show ?thesis unfolding l using p(1)
      by (auto simp: read_block_take [OF p(3)] read_block_take [OF p(4)] simp del: take_append)
  next
    case False
    then show ?thesis unfolding l using p(1,2) Cons.IH [OF rest, of "j - (4 + ?m) - (4 + ?v)"]
      by (auto simp: read_block_take [OF p(3)] read_block_take [OF p(4)] simp del: take_append)
  qed
qed simp

lemma deserialize_take:
  assumes "codec_ok k m" "saveable m" "length checksum = 32"
  shows "net_deserialize k tag (take j (file_image k checksum m)) m0 =
    (if j < length (file_image k checksum m) then None
     else Some (if checksum = model_hash k tag m then Inr () else Inl Checksum_mismatch,
       m\<lparr>net_training_steps := net_training_steps m0\<rparr>))"
proof -
  let ?ls = "zip (net_weights m) (net_biases m)" and ?v = "string_bytes (net_version m)" and ?c = "mc_config k (net_config m)"
  let ?wb = "weight_bytes k ?ls"
  have c: "mc_config_of k ?c = Some (net_config m)" "length ?c < 2 ^ 32" "list_all (part_ok k) ?ls"
    using assms(1) by (simp_all add: codec_ok_def)
  have m: "length ?ls = length (nc_hidden_dims (net_config m)) + 1" "utf8_valid ?v"
    "map fst ?ls = net_weights m" "map snd ?ls = net_biases m"
    using assms(2) by (simp_all add: saveable_def)
  have v: "unat (of_le16 (le16 (of_nat (length (net_version m))))) = length ?v"
    using assms(2) by (simp add: codec_simps saveable_def unat_of_nat)
  have layers: "read_layers k (Suc (length (nc_hidden_dims (net_config m)))) (take i ?wb) [] [] (tag @ ?c) =
      (if i < length ?wb then None else Some (Inr (net_weights m, net_biases m, tag @ ?c @ hashed_layers k ?ls)))" for i
    using read_layers_take [OF c(3), of i "[]" "[]" "tag @ ?c"] unfolding m(1,3,4) by (simp del: read_layers.simps)
  have m': "m0\<lparr>net_version := net_version m, net_config := net_config m, net_weights := net_weights m,
      net_biases := net_biases m\<rparr> = m\<lparr>net_training_steps := net_training_steps m0\<rparr>" by (cases m0; cases m) simp
  have read2: "read_bytes 2 (take i (le16 (of_nat (length (net_version m))) @ rest)) =
      (if i < 2 then None else Some (le16 (of_nat (length (net_version m))), take (i - 2) rest))" for i rest
    using read_bytes_take [of 2 "le16 (of_nat (length (net_version m)))" i rest] by simp
  have readv: "read_bytes (length (net_version m)) (take i (?v @ rest)) =
      (if i < length (net_version m) then None else Some (?v, take (i - length (net_version m)) rest))" for i rest
    using read_bytes_take [of "length ?v" ?v i rest] by simp
  have len: "length (file_image k checksum m) = 2 + (length (net_version m) + (32 + (4 + length ?c + length ?wb)))"
    using assms(3) by (simp add: file_image_def)
  have len32: "32 = length checksum" using assms(3) by simp
  note stage = net_deserialize_def file_image_def read2 v readv read_bytes_take [OF len32]
    read_block_take [OF c(2)] layers Let_def model_hash_def
  show ?thesis
  proof (cases "j < length (file_image k checksum m)")
    case True
    then show ?thesis unfolding len using c(1) m(2) assms(3)
      by (simp add: stage del: take_append take_all take_all_iff read_layers.simps)
  next
    case False
    then show ?thesis unfolding len using c(1) m(2) m' assms(3)
      by (simp add: stage eq_commute [of checksum] del: take_append take_all take_all_iff read_layers.simps) (intro conjI impI; linarith)
  qed
qed

section \<open>Properties\<close>

text \<open>C37: A saved model and its file. Loading the image of a model, with whatever 32 bytes in the place of the
  hash, makes the loader the saved model in every part but its count of training steps, which the file does
  not hold. Loading succeeds exactly when the bytes are the hash; when they are not, the error is reported
  but the rejected weights stay in place.\<close>
theorem model_file_roundtrip:
  assumes "codec_ok k m" "saveable m" "length checksum = 32"
  shows "net_deserialize k tag (file_image k checksum m) m0 =
    Some (if checksum = model_hash k tag m then Inr () else Inl Checksum_mismatch,
      m\<lparr>net_training_steps := net_training_steps m0\<rparr>)"
  using deserialize_take [OF assms, where tag = tag and j = "length (file_image k checksum m)" and ?m0.0 = m0] by simp

text \<open>A truncated file is a panic. Of no proper prefix of a saved model does loading answer an error, or
  anything else: a slice always reaches past the end.\<close>
theorem truncated_model_file_panics:
  assumes "codec_ok k m" "saveable m" "j < length (net_serialize k tag m)"
  shows "net_deserialize k tag (take j (net_serialize k tag m)) m0 = None"
proof -
  have "length (model_hash k tag m) = 32" using assms(1) by (simp add: codec_ok_def model_hash_def)
  from deserialize_take [OF assms(1,2) this, where tag = tag and j = j and ?m0.0 = m0] assms(3) show ?thesis by (simp add: net_serialize_def)
qed

definition demo_codec :: "DynamicTileTransformerConfig model_codec" where
  "demo_codec = \<lparr>mc_config = (\<lambda>c. [1, 2]), mc_matrix = (\<lambda>w. [3]), mc_vector = (\<lambda>v. [4]),
     mc_config_of = (\<lambda>bs. Some (net_config demo_net)), mc_matrix_of = (\<lambda>bs. Some (hd (net_weights demo_net))),
     mc_vector_of = (\<lambda>bs. Some (hd (net_biases demo_net))), mc_hash = (\<lambda>bs. replicate 32 (hd bs))\<rparr>"

lemma demo_codec_ok: "codec_ok demo_codec demo_net" "saveable demo_net"
  by (simp_all add: codec_ok_def demo_codec_def part_ok_def saveable_def demo_net_def net_new_def tile_config_default_def
      Let_def string_bytes_def)

theorem model_file_roundtrip_witness:
  "net_deserialize demo_codec tile_tag (net_serialize demo_codec tile_tag demo_net) (demo_net\<lparr>net_training_steps := 9\<rparr>)
     = Some (Inr (), demo_net\<lparr>net_training_steps := 9\<rparr>)
   \<and> net_deserialize demo_codec tile_tag (file_image demo_codec (replicate 32 255) demo_net) demo_net
     = Some (Inl Checksum_mismatch, demo_net)"
proof -
  have "length (model_hash demo_codec tile_tag demo_net) = 32" by (simp add: model_hash_def demo_codec_def)
  from model_file_roundtrip [OF demo_codec_ok this, where tag = tile_tag and ?m0.0 = "demo_net\<lparr>net_training_steps := 9\<rparr>"]
  have "net_deserialize demo_codec tile_tag (net_serialize demo_codec tile_tag demo_net) (demo_net\<lparr>net_training_steps := 9\<rparr>)
     = Some (Inr (), demo_net\<lparr>net_training_steps := 9\<rparr>)" by (simp add: net_serialize_def)
  moreover have "replicate 32 255 \<noteq> model_hash demo_codec tile_tag demo_net"
    by (simp add: model_hash_def demo_codec_def tile_tag_def string_bytes_def)
  then have "net_deserialize demo_codec tile_tag (file_image demo_codec (replicate 32 255) demo_net) demo_net
     = Some (Inl Checksum_mismatch, demo_net)"
    using model_file_roundtrip [OF demo_codec_ok, where checksum = "replicate 32 255" and tag = tile_tag and ?m0.0 = demo_net] by simp
  ultimately show ?thesis by blast
qed

theorem truncated_model_file_panics_witness:
  "net_deserialize demo_codec tile_tag (take 40 (net_serialize demo_codec tile_tag demo_net)) demo_net = None"
proof (rule truncated_model_file_panics [OF demo_codec_ok])
  show "40 < length (net_serialize demo_codec tile_tag demo_net)"
    by (simp add: net_serialize_def file_image_def model_hash_def demo_codec_def demo_net_def net_new_def
        tile_config_default_def Let_def)
qed

end
