(* ===== verification/ModelCore.thy ===== *)
theory ModelCore
  imports ModelLaws
begin

text \<open>
  What \<open>src/rust/crates/igpu_ml_core\<close> and \<open>src/rust/crates/igpu_ml_optim\<close> put around a model: the replay
  buffer, the registry, the trainer, the statistics and the engine for continual learning. A lock guards the
  whole of every operation, so an operation is one step. Counters wrap at their width, as a release build does.
\<close>

section \<open>The replay buffer\<close>

record ReplayBuffer =
  rp_buffer :: "SynapseExperience list"
  rp_capacity :: nat

definition replay_new :: "nat \<Rightarrow> ReplayBuffer" where
  "replay_new capacity = \<lparr>rp_buffer = [], rp_capacity = capacity\<rparr>"

definition replay_push :: "SynapseExperience \<Rightarrow> ReplayBuffer \<Rightarrow> ReplayBuffer" where
  "replay_push e b =
     b\<lparr>rp_buffer := (if rp_capacity b \<le> length (rp_buffer b) then tl (rp_buffer b) else rp_buffer b) @ [e]\<rparr>"

definition replay_extend :: "SynapseExperience list \<Rightarrow> ReplayBuffer \<Rightarrow> ReplayBuffer" where
  "replay_extend es b = fold replay_push es b"

text \<open>Rust's cast of a float to an unsigned integer saturates, and makes 0 of a NaN.\<close>

definition f32_as_usize :: "f32 \<Rightarrow> nat" where
  "f32_as_usize x = (case x of NaN \<Rightarrow> 0 | Inf pos \<Rightarrow> if pos then 2 ^ 64 - 1 else 0 | Fin q \<Rightarrow> min (nat \<lfloor>q\<rfloor>) (2 ^ 64 - 1))"

definition sample_index :: "nat \<Rightarrow> nat \<Rightarrow> nat \<Rightarrow> nat" where
  "sample_index len n i =
     (let step = f32_div (rnd32 (of_nat len)) (rnd32 (of_nat n))
      in min (f32_as_usize (f32_mul (rnd32 (of_nat i)) step)) (len - 1))"

definition replay_sample :: "nat \<Rightarrow> ReplayBuffer \<Rightarrow> SynapseExperience list" where
  "replay_sample n b =
     (let len = length (rp_buffer b); n = min n len
      in if len = 0 then [] else map (\<lambda>i. rp_buffer b ! sample_index len n i) [0..<n])"

definition replay_clear :: "ReplayBuffer \<Rightarrow> ReplayBuffer" where
  "replay_clear b = b\<lparr>rp_buffer := []\<rparr>"

section \<open>The registry\<close>

datatype registry_error = ModelNotFound string | ModelAlreadyRegistered string

type_synonym ModelRegistry = "string \<rightharpoonup> model"

fun model_id :: "model \<Rightarrow> string" where
  "model_id (Tile_transformer m) = ''dynamic-tile-transformer''"
| "model_id (Telemetry_optimizer m) = ''telemetry-optimizer''"

definition registry_register :: "model \<Rightarrow> ModelRegistry \<Rightarrow> (registry_error + unit) \<times> ModelRegistry" where
  "registry_register m r =
     (if r (model_id m) \<noteq> None then (Inl (ModelAlreadyRegistered (model_id m)), r)
      else (Inr (), r(model_id m \<mapsto> m)))"

definition registry_infer :: "ml_lib \<Rightarrow> string \<Rightarrow> SynapseFeatureVector \<Rightarrow> ModelRegistry \<Rightarrow> (registry_error + ActionScores) option" where
  "registry_infer lib name f r =
     (case r name of None \<Rightarrow> Some (Inl (ModelNotFound name)) | Some m \<Rightarrow> map_option Inr (model_infer lib m f))"

definition registry_observe :: "ml_lib \<Rightarrow> string \<Rightarrow> SynapseExperience \<Rightarrow> ModelRegistry
    \<Rightarrow> ((registry_error + unit) \<times> ModelRegistry) option" where
  "registry_observe lib name e r =
     (case r name of
        None \<Rightarrow> Some (Inl (ModelNotFound name), r)
      | Some m \<Rightarrow> map_option (\<lambda>(u, m). (Inr (), r(name \<mapsto> m))) (model_update lib m e))"

section \<open>The trainer\<close>

record TrainerConfig =
  tc_batch_size :: nat
  tc_learning_rate :: f32
  tc_l2_lambda :: f32
  tc_max_gradient_norm :: f32
  tc_energy_weight :: f32
  tc_performance_weight :: f32

definition trainer_config_default :: TrainerConfig where
  "trainer_config_default = \<lparr>tc_batch_size = 32, tc_learning_rate = rnd32 (1 / 100), tc_l2_lambda = rnd32 (1 / 1000),
     tc_max_gradient_norm = Fin 1, tc_energy_weight = rnd32 (7 / 10), tc_performance_weight = rnd32 (3 / 10)\<rparr>"

record Trainer =
  tr_config :: TrainerConfig
  tr_step :: u64

definition trainer_new :: "TrainerConfig \<Rightarrow> Trainer" where
  "trainer_new c = \<lparr>tr_config = c, tr_step = 0\<rparr>"

text \<open>An update that fails ends the batch; the updates before it stay.\<close>

fun train_losses :: "('m \<Rightarrow> SynapseExperience \<Rightarrow> SynapseUpdateResult option \<times> 'm) \<Rightarrow> SynapseExperience list \<Rightarrow> f32 \<Rightarrow> 'm
    \<Rightarrow> f32 option \<times> 'm" where
  "train_losses upd [] loss_sum m = (Some loss_sum, m)"
| "train_losses upd (e # es) loss_sum m =
     (case upd m e of
        (None, m) \<Rightarrow> (None, m)
      | (Some r, m) \<Rightarrow> train_losses upd es (f32_add loss_sum (ur_loss r)) m)"

definition train_batch ::
  "('m \<Rightarrow> SynapseExperience \<Rightarrow> SynapseUpdateResult option \<times> 'm) \<Rightarrow> u64 \<Rightarrow> u64 \<Rightarrow> SynapseExperience list \<Rightarrow> Trainer \<Rightarrow> 'm
     \<Rightarrow> (BatchResult option \<times> Trainer) \<times> 'm" where
  "train_batch upd t0 t1 batch tr m =
     (if batch = [] then ((Some \<lparr>bt_avg_loss = Fin 0, bt_samples = 0, bt_duration_us = 0\<rparr>, tr), m)
      else
        (case train_losses upd batch (Fin 0) m of
           (None, m) \<Rightarrow> ((None, tr), m)
         | (Some loss_sum, m) \<Rightarrow>
             ((Some \<lparr>bt_avg_loss = f32_div loss_sum (rnd32 (of_nat (length batch))), bt_samples = length batch,
                 bt_duration_us = (if t0 \<le> t1 then t1 - t0 else 0)\<rparr>,
               tr\<lparr>tr_step := tr_step tr + 1\<rparr>), m)))"

definition trainer_loss :: "Trainer \<Rightarrow> f32 \<Rightarrow> f32 \<Rightarrow> u32 \<Rightarrow> f32" where
  "trainer_loss tr reward energy_joules thermal_events =
     (let energy_term = f32_mul (tc_energy_weight (tr_config tr)) (f32_div (Fin 1) (f32_add (Fin 1) (rust_max energy_joules (Fin 0))));
          perf_term = f32_mul (tc_performance_weight (tr_config tr)) reward;
          thermal_term = f32_mul (f32_of_word thermal_events) (rnd32 (1 / 10))
      in fp_neg (f32_sub (f32_add energy_term perf_term) thermal_term))"

section \<open>Statistics and the engine\<close>

record TelemetryStats =
  ts_total_energy_joules :: f32
  ts_total_thermal_events :: u32
  ts_total_frames :: u64
  ts_avg_cache_hit :: f32
  ts_avg_dvfs_headroom :: f32
  ts_backend_counts :: "u64 list"
  ts_confidence_sum :: f32
  ts_confidence_count :: u64

definition stats_default :: TelemetryStats where
  "stats_default = \<lparr>ts_total_energy_joules = Fin 0, ts_total_thermal_events = 0, ts_total_frames = 0, ts_avg_cache_hit = Fin 0,
     ts_avg_dvfs_headroom = Fin 0, ts_backend_counts = [0, 0, 0], ts_confidence_sum = Fin 0, ts_confidence_count = 0\<rparr>"

definition moving_average :: "f32 \<Rightarrow> f32 \<Rightarrow> f32" where
  "moving_average avg v = f32_add (f32_mul avg (rnd32 (95 / 100))) (f32_mul v (rnd32 (5 / 100)))"

definition stats_observe :: "SynapseExperience \<Rightarrow> TelemetryStats \<Rightarrow> TelemetryStats" where
  "stats_observe e s =
     \<lparr>ts_total_energy_joules = f32_add (ts_total_energy_joules s) (ex_energy_joules e),
      ts_total_thermal_events = ts_total_thermal_events s + ex_thermal_events e,
      ts_total_frames = ts_total_frames s + 1,
      ts_avg_cache_hit = moving_average (ts_avg_cache_hit s) (fv_cache_hit_rate (ex_features e)),
      ts_avg_dvfs_headroom = moving_average (ts_avg_dvfs_headroom s) (fv_dvfs_headroom (ex_features e)),
      ts_backend_counts =
        (let i = unat (ex_action e); cs = ts_backend_counts s in if i < 3 then cs[i := cs ! i + 1] else cs),
      ts_confidence_sum = f32_add (ts_confidence_sum s) (ex_confidence e),
      ts_confidence_count = ts_confidence_count s + 1\<rparr>"

definition avg_confidence :: "TelemetryStats \<Rightarrow> f32" where
  "avg_confidence s =
     (if ts_confidence_count s = 0 then Fin 0 else f32_div (ts_confidence_sum s) (f32_of_word (ts_confidence_count s)))"

definition energy_per_frame :: "TelemetryStats \<Rightarrow> f32" where
  "energy_per_frame s =
     (if ts_total_frames s = 0 then Fin 0 else f32_div (ts_total_energy_joules s) (f32_of_word (ts_total_frames s)))"

definition thermal_rate :: "TelemetryStats \<Rightarrow> f32" where
  "thermal_rate s =
     (if ts_total_frames s = 0 then Fin 0
      else f32_div (f32_of_word (ts_total_thermal_events s)) (f32_of_word (ts_total_frames s)))"

record ContinualLearningConfig =
  lc_replay_capacity :: nat
  lc_replay_sample_ratio :: f32
  lc_energy_weight :: f32
  lc_performance_weight :: f32
  lc_thermal_penalty :: f32
  lc_l2_lambda :: f32
  lc_max_gradient_norm :: f32
  lc_learning_rate :: f32

definition learning_config_default :: ContinualLearningConfig where
  "learning_config_default = \<lparr>lc_replay_capacity = 4096, lc_replay_sample_ratio = rnd32 (3 / 10),
     lc_energy_weight = rnd32 (7 / 10), lc_performance_weight = rnd32 (3 / 10), lc_thermal_penalty = rnd32 (1 / 10),
     lc_l2_lambda = rnd32 (1 / 1000), lc_max_gradient_norm = Fin 1, lc_learning_rate = rnd32 (1 / 100)\<rparr>"

record ContinualLearningEngine =
  le_config :: ContinualLearningConfig
  le_trainer :: Trainer
  le_stats :: TelemetryStats
  le_step :: u64

definition engine_new :: "ContinualLearningConfig \<Rightarrow> ContinualLearningEngine" where
  "engine_new c =
     \<lparr>le_config = c,
      le_trainer = trainer_new \<lparr>tc_batch_size = f32_as_usize (f32_mul (lc_replay_sample_ratio c) (Fin 32)),
        tc_learning_rate = lc_learning_rate c, tc_l2_lambda = lc_l2_lambda c, tc_max_gradient_norm = lc_max_gradient_norm c,
        tc_energy_weight = lc_energy_weight c, tc_performance_weight = lc_performance_weight c\<rparr>,
      le_stats = stats_default, le_step = 0\<rparr>"

definition engine_observe :: "SynapseExperience \<Rightarrow> ContinualLearningEngine \<Rightarrow> ContinualLearningEngine" where
  "engine_observe e l = l\<lparr>le_stats := stats_observe e (le_stats l)\<rparr>"

definition engine_loss :: "ContinualLearningEngine \<Rightarrow> f32 \<Rightarrow> f32 \<Rightarrow> u32 \<Rightarrow> f32" where
  "engine_loss l reward energy_joules thermal_events = trainer_loss (le_trainer l) reward energy_joules thermal_events"

section \<open>Lemmas\<close>

lemma replay_push_window:
  assumes "rp_buffer b = drop (length xs - max (rp_capacity b) 1) xs"
  shows "rp_buffer (replay_push x b) = drop (Suc (length xs) - max (rp_capacity b) 1) (xs @ [x])"
proof (cases "rp_capacity b \<le> length xs")
  case True
  then have "rp_capacity b \<le> length (rp_buffer b)" using assms by auto
  moreover have "tl (drop (length xs - max (rp_capacity b) 1) xs) = drop (Suc (length xs) - max (rp_capacity b) 1) xs"
    using True by (cases "length xs") (auto simp: tl_drop drop_Suc [symmetric] Suc_diff_le max_def not_less_eq_eq)
  ultimately show ?thesis using assms True by (simp add: replay_push_def)
qed (use assms in \<open>simp add: replay_push_def\<close>)

lemma replay_fold_window:
  "rp_buffer (fold replay_push xs (replay_new c)) = drop (length xs - max c 1) xs \<and> rp_capacity (fold replay_push xs (replay_new c)) = c"
proof (induction xs rule: rev_induct)
  case Nil
  then show ?case by (simp add: replay_new_def)
next
  case (snoc x xs)
  let ?b = "fold replay_push xs (replay_new c)"
  have cap: "rp_capacity ?b = c" and buf: "rp_buffer ?b = drop (length xs - max c 1) xs" using snoc by blast+
  have "rp_buffer (replay_push x ?b) = drop (Suc (length xs) - max c 1) (xs @ [x])"
    using replay_push_window [of ?b xs x] cap buf by simp
  moreover have "rp_capacity (replay_push x ?b) = c" using cap by (simp add: replay_push_def)
  ultimately show ?case by simp
qed

lemma f32_as_usize_mono:
  assumes "fp_le x y"
  shows "f32_as_usize x \<le> f32_as_usize y"
proof -
  have "min (nat \<lfloor>p\<rfloor>) k \<le> min (nat \<lfloor>q\<rfloor>) k" if "p \<le> q" for p q :: rat and k
    using nat_mono [OF floor_mono [OF that]] by linarith
  with assms show ?thesis by (cases x; cases y) (simp_all add: f32_as_usize_def)
qed

lemma rnd32_of_nat:
  assumes "n < 2 ^ 64"
  obtains a where "rnd32 (of_nat n) = Fin a" "0 \<le> a" "0 < n \<longrightarrow> 1 \<le> a" "a \<le> 2 ^ 64"
proof -
  have "(of_nat n :: rat) \<le> 2 ^ 64" using assms of_nat_mono [of n "2 ^ 64"] by simp
  then have "fp_le (rnd32 (of_nat n)) (Fin (2 ^ 64))" "fp_le (Fin 0) (rnd32 (of_nat n))"
    "0 < n \<Longrightarrow> fp_le (Fin 1) (rnd32 (of_nat n))"
    using rnd32_mono [of "of_nat n" "2 ^ 64"] rnd32_sign(1) [of "of_nat n"] rnd32_mono [of 1 "of_nat n"] rnd_2_64 by simp_all
  with that show thesis by (cases "rnd32 (of_nat n)") auto
qed

lemma sample_index_mono:
  assumes "i \<le> j" "j < n" "n \<le> len" "len < 2 ^ 64"
  shows "sample_index len n i \<le> sample_index len n j"
proof (rule rnd32_of_nat [OF assms(4)], rule rnd32_of_nat [of n])
  fix p q
  assume p: "rnd32 (of_nat len) = Fin p" "0 \<le> p" "p \<le> 2 ^ 64" and q: "rnd32 (of_nat n) = Fin q" "0 < n \<longrightarrow> 1 \<le> q"
  then have "1 \<le> q" using assms by simp
  then have "p / q \<le> 2 ^ 64" "0 \<le> p / q" using p by (auto simp: divide_le_eq intro: order_trans)
  then have "fp_le (rnd32 (p / q)) (Fin (2 ^ 64))" "fp_le (Fin 0) (rnd32 (p / q))"
    using rnd32_mono [of "p / q" "2 ^ 64"] rnd32_sign(1) rnd_2_64 by simp_all
  then obtain s where s: "rnd32 (p / q) = Fin s" "0 \<le> s" by (cases "rnd32 (p / q)") auto
  obtain a where a: "rnd32 (of_nat i) = Fin a" "0 \<le> a" using rnd32_of_nat [of i] assms by auto
  obtain b where b: "rnd32 (of_nat j) = Fin b" using rnd32_of_nat [of j] assms by auto
  have "a \<le> b" using rnd32_mono [of "of_nat i" "of_nat j"] assms(1) a b by simp
  then have "fp_le (rnd32 (a * s)) (rnd32 (b * s))" using a(2) s(2) by (intro rnd32_mono) (simp_all add: mult_right_mono)
  from f32_as_usize_mono [OF this] show ?thesis using p q a(1) b s \<open>1 \<le> q\<close> by (simp add: sample_index_def Let_def)
qed (use assms in simp_all)

lemma sample_index_all:
  assumes "i < n" "n < 2 ^ 24"
  shows "sample_index n n i = i"
proof -
  have "f32_as_usize (Fin (of_nat i)) = i" using assms by (simp add: f32_as_usize_def)
  then show ?thesis using assms by (simp add: sample_index_def Let_def rnd32_nat)
qed

lemma sample_positions:
  assumes "length (rp_buffer b) < 2 ^ 64"
  shows "\<exists>ix. replay_sample n b = map (\<lambda>i. rp_buffer b ! i) ix \<and> length ix = min n (length (rp_buffer b))
    \<and> sorted ix \<and> list_all (\<lambda>i. i < length (rp_buffer b)) ix"
proof -
  let ?len = "length (rp_buffer b)"
  let ?ix = "map (sample_index ?len (min n ?len)) [0..<min n ?len]"
  have "replay_sample n b = map (\<lambda>i. rp_buffer b ! i) ?ix" by (cases "rp_buffer b") (simp_all add: replay_sample_def Let_def)
  moreover have "sorted ?ix" using assms by (auto simp: sorted_iff_nth_mono intro!: sample_index_mono)
  moreover have "list_all (\<lambda>i. i < ?len) ?ix" by (cases "rp_buffer b") (simp_all add: list_all_iff sample_index_def Let_def min_less_iff_disj)
  ultimately show ?thesis by (intro exI [of _ ?ix]) simp
qed

lemma sample_everything:
  assumes "length (rp_buffer b) \<le> n" "length (rp_buffer b) < 2 ^ 24"
  shows "replay_sample n b = rp_buffer b"
  using assms by (auto simp: replay_sample_def Let_def min_absorb2 sample_index_all intro: nth_equalityI)

lemma moving_average_unit:
  assumes "unit_f32 a" "unit_f32 v"
  shows "unit_f32 (moving_average a v)"
proof (rule unit_f32E [OF assms(1)], rule unit_f32E [OF assms(2)])
  fix p q
  assume p: "a = Fin p" "0 \<le> p" "p \<le> 1" and q: "v = Fin q" "0 \<le> q" "q \<le> 1"
  have c: "rnd32 (95 / 100) = Fin (15938355 / 16777216)" "rnd32 (5 / 100) = Fin (13421773 / 268435456)" by code_simp+
  have r: "rnd32 (15938355 / 16777216) = Fin (15938355 / 16777216)" "rnd32 (13421773 / 268435456) = Fin (13421773 / 268435456)"
    by code_simp+
  have "fp_le (Fin 0) (rnd32 (p * (15938355 / 16777216)))" "fp_le (rnd32 (p * (15938355 / 16777216))) (rnd32 (15938355 / 16777216))"
    by (rule rnd32_sign(1), use p in simp, rule rnd32_mono, use p in simp_all)
  then obtain x where x: "rnd32 (p * (15938355 / 16777216)) = Fin x" "0 \<le> x" "x \<le> 15938355 / 16777216"
    unfolding r by (rule fp_le_between_Fin)
  have "fp_le (Fin 0) (rnd32 (q * (13421773 / 268435456)))" "fp_le (rnd32 (q * (13421773 / 268435456))) (rnd32 (13421773 / 268435456))"
    by (rule rnd32_sign(1), use q in simp, rule rnd32_mono, use q in simp_all)
  then obtain y where y: "rnd32 (q * (13421773 / 268435456)) = Fin y" "0 \<le> y" "y \<le> 13421773 / 268435456"
    unfolding r by (rule fp_le_between_Fin)
  have "fp_le (rnd32 (x + y)) (rnd32 1)" by (rule rnd32_mono) (use x y in simp_all)
  moreover have "fp_le (Fin 0) (rnd32 (x + y))" by (rule rnd32_sign(1)) (use x y in simp)
  ultimately show ?thesis unfolding moving_average_def p(1) q(1) c fp_mul.simps x(1) y(1) by (simp add: unit_f32_def)
qed

lemma fv_validate_unit: "fv_validate f \<Longrightarrow> unit_f32 (fv_cache_hit_rate f) \<and> unit_f32 (fv_dvfs_headroom f)"
  by (auto simp: fv_validate_def fv_to_array_def feature_valid_def split: fp.splits)

definition taken :: "nat \<Rightarrow> SynapseExperience list \<Rightarrow> nat" where
  "taken k es = length (filter (\<lambda>e. unat (ex_action e) = k) es)"

lemma taken_snoc [simp]: "taken k [] = 0" "taken k (es @ [e]) = taken k es + (if unat (ex_action e) = k then 1 else 0)"
  by (simp_all add: taken_def)

lemma stats_counts:
  "let s = fold stats_observe es stats_default in
     ts_total_frames s = of_nat (length es) \<and> ts_confidence_count s = of_nat (length es)
     \<and> ts_total_thermal_events s = sum_list (map ex_thermal_events es)
     \<and> ts_backend_counts s = map (\<lambda>k. of_nat (taken k es)) [0..<3]"
proof (induction es rule: rev_induct)
  case (snoc e es)
  then show ?case
    by (auto simp: Let_def stats_observe_def numeral_3_eq_3 less_Suc_eq)
qed (simp add: stats_default_def numeral_3_eq_3)

lemma stats_averages:
  "list_all (\<lambda>e. fv_validate (ex_features e)) es \<Longrightarrow>
     unit_f32 (ts_avg_cache_hit (fold stats_observe es stats_default)) \<and> unit_f32 (ts_avg_dvfs_headroom (fold stats_observe es stats_default))"
proof (induction es rule: rev_induct)
  case (snoc e es)
  then show ?case using fv_validate_unit [of "ex_features e"] by (simp add: stats_observe_def moving_average_unit)
qed (simp add: stats_default_def)

lemma engine_observes: "fold engine_observe es l = l\<lparr>le_stats := fold stats_observe es (le_stats l)\<rparr>"
  by (induction es arbitrary: l) (simp_all add: engine_observe_def)

lemma train_losses_batch:
  assumes "model_ok m"
  shows "\<exists>v m'. train_losses (mo_update (rust_models lib)) es acc m = (Some v, m') \<and> batch_losses lib es acc m = Some (v, m')
    \<and> model_ok m'"
  using assms
proof (induction es arbitrary: acc m)
  case (Cons e es)
  obtain r m1 where "model_update lib m e = Some (r, m1)" "model_ok m1" using model_update_ok [OF Cons.prems] by blast
  with Cons.IH [of m1 "f32_add acc (ur_loss r)"] show ?case by (simp add: rust_models_def)
qed simp

section \<open>Properties\<close>

text \<open>The replay buffer is a window. After any experiences, pushed one by one or in a row, it holds the last
  ones up to its capacity, in the order of arrival; a capacity of 0 holds one. A sample has as many entries as
  were asked for or are there, each an entry of the buffer and none before an older one; when all are asked for
  it is the whole buffer.\<close>
theorem replay_buffer_window:
  assumes "length es < 2 ^ 64" "b = replay_extend es (replay_new capacity)"
  shows "rp_buffer b = drop (length es - max capacity 1) es
    \<and> (\<exists>ix. replay_sample n b = map (\<lambda>i. rp_buffer b ! i) ix \<and> length ix = min n (length (rp_buffer b))
         \<and> sorted ix \<and> list_all (\<lambda>i. i < length (rp_buffer b)) ix)
    \<and> (length (rp_buffer b) \<le> n \<and> length (rp_buffer b) < 2 ^ 24 \<longrightarrow> replay_sample n b = rp_buffer b)"
proof -
  have buf: "rp_buffer b = drop (length es - max capacity 1) es"
    using replay_fold_window [of es capacity] assms(2) by (simp add: replay_extend_def)
  then have "length (rp_buffer b) < 2 ^ 64" using assms(1) by simp
  from buf sample_positions [OF this] show ?thesis by (simp add: sample_everything)
qed

text \<open>The trainer and the models' own \<open>batch_update\<close> do the same. On a well-shaped model and a batch that is
  not empty both report the same losses and leave the same model, and the trainer counts one step; no update
  of a batch fails.\<close>
theorem trainer_agrees_with_batch_update:
  assumes "model_ok m" "batch \<noteq> []"
  shows "\<exists>r m'. model_batch_update lib t0 t1 batch m = Some (r, m') \<and> model_ok m'
    \<and> train_batch (mo_update (rust_models lib)) t0 t1 batch tr m = ((Some r, tr\<lparr>tr_step := tr_step tr + 1\<rparr>), m')"
  using train_losses_batch [OF assms(1), of lib batch "Fin 0"] assms(2)
  by (auto simp: model_batch_update_def train_batch_def)

text \<open>The engine for continual learning counts and does not learn. Whatever it observes, its trainer and its
  step stay as they were built. Its statistics count the frames, the thermal events and the actions taken,
  modulo the width of the counters, and with valid features its two moving averages stay in [0,1].\<close>
theorem engine_counts_only:
  assumes "list_all (\<lambda>e. fv_validate (ex_features e)) es" "l = fold engine_observe es (engine_new c)"
  shows "le_trainer l = le_trainer (engine_new c) \<and> le_step l = 0
    \<and> ts_total_frames (le_stats l) = of_nat (length es)
    \<and> ts_total_thermal_events (le_stats l) = sum_list (map ex_thermal_events es)
    \<and> ts_backend_counts (le_stats l) = map (\<lambda>k. of_nat (taken k es)) [0..<3]
    \<and> unit_f32 (ts_avg_cache_hit (le_stats l)) \<and> unit_f32 (ts_avg_dvfs_headroom (le_stats l))"
  using stats_counts [of es] stats_averages [OF assms(1)] unfolding assms(2)
  by (simp add: engine_observes engine_new_def Let_def)

lemma demo_features_valid: "fv_validate demo_features"
  by (simp add: demo_features_def fv_validate_def fv_to_array_def feature_valid_def)

lemma demo_net_ok: "model_ok (Tile_transformer demo_net)"
  by (simp add: demo_net_def net_new_ok tile_config_default_def) (simp add: net_new_def wide_enough_def Let_def)

theorem replay_buffer_window_witness:
  "let b = replay_extend [demo_experience (Fin 0), demo_experience (Fin 1), demo_experience (Fin 2)] (replay_new 2) in
     rp_buffer b = [demo_experience (Fin 1), demo_experience (Fin 2)] \<and> replay_sample 5 b = rp_buffer b"
  using replay_buffer_window [OF _ refl, of "[demo_experience (Fin 0), demo_experience (Fin 1), demo_experience (Fin 2)]" 2 5]
  by (simp add: Let_def)

theorem trainer_agrees_with_batch_update_witness:
  "\<exists>r m'. model_batch_update demo_lib 5 9 [demo_experience (Fin 0)] (Tile_transformer demo_net) = Some (r, m') \<and> model_ok m'
    \<and> train_batch (mo_update (rust_models demo_lib)) 5 9 [demo_experience (Fin 0)] (trainer_new trainer_config_default) (Tile_transformer demo_net)
        = ((Some r, (trainer_new trainer_config_default)\<lparr>tr_step := 1\<rparr>), m')"
  using trainer_agrees_with_batch_update [of "Tile_transformer demo_net" "[demo_experience (Fin 0)]" demo_lib 5 9 "trainer_new trainer_config_default"]
  by (simp only: demo_net_ok) (simp add: trainer_new_def)

theorem engine_counts_only_witness:
  "let l = fold engine_observe [demo_experience (Fin 0), demo_experience (Fin 0)] (engine_new learning_config_default) in
     le_step l = 0 \<and> ts_total_frames (le_stats l) = 2 \<and> unit_f32 (ts_avg_cache_hit (le_stats l))"
  using engine_counts_only [OF _ refl, of "[demo_experience (Fin 0), demo_experience (Fin 0)]" learning_config_default] demo_features_valid
  by (simp add: demo_experience_def Let_def)

end
