(* ===== verification/ModelServe.thy ===== *)
theory ModelServe
  imports ModelLaws
begin

text \<open>
  Two more ways to the models: the Python module of \<open>src/rust/crates/igpu_ml_python\<close> and the dashboard of
  \<open>src/rust/crates/igpu_ml_dashboard\<close>. A panic is \<open>None\<close>. Of the web server the handlers that reach a model are
  here, after the library has parsed the request; they hold a lock from end to end, so a request is a step.
  The pages, the report file and the port are the library's.
\<close>

section \<open>The Python module\<close>

definition py_features :: "f32 \<Rightarrow> f32 \<Rightarrow> f32 \<Rightarrow> f32 \<Rightarrow> f32 \<Rightarrow> f32 \<Rightarrow> f32 \<Rightarrow> u8 \<Rightarrow> SynapseFeatureVector" where
  "py_features complexity vertices draws hits dvfs thermal accuracy compute =
     \<lparr>shader_complexity_norm = clamp01 complexity, vertex_count_log_norm = clamp01 vertices,
      draw_call_rate_norm = clamp01 draws, fv_cache_hit_rate = clamp01 hits, fv_dvfs_headroom = clamp01 dvfs,
      fv_thermal_headroom = clamp01 thermal, predictor_accuracy = clamp01 accuracy,
      is_compute_dispatch = (if compute \<noteq> 0 then Fin 1 else Fin 0)\<rparr>"

text \<open>Each call builds a model and drops it.\<close>

definition infer_backend :: "ml_lib \<Rightarrow> string \<Rightarrow> SynapseFeatureVector \<Rightarrow> (string + ActionScores) option" where
  "infer_backend lib name f =
     (case model_named (rust_models lib) name of
        None \<Rightarrow> Some (Inl (''unknown model: '' @ name))
      | Some m \<Rightarrow> map_option Inr (model_infer lib m f))"

definition observe_backend :: "ml_lib \<Rightarrow> string \<Rightarrow> SynapseFeatureVector \<Rightarrow> u8 \<Rightarrow> f32 \<Rightarrow> (string + SynapseUpdateResult) option" where
  "observe_backend lib name f action reward =
     (case model_named (rust_models lib) name of
        None \<Rightarrow> Some (Inl (''unknown model: '' @ name))
      | Some m \<Rightarrow>
          map_option (\<lambda>(r, m). Inr r)
            (model_update lib m \<lparr>ex_features = f, ex_action = ucast action, ex_reward = reward, ex_timestamp_ns = 0,
               ex_session_id = 0, ex_energy_joules = Fin 0, ex_thermal_events = 0, ex_confidence = Fin 0\<rparr>))"

definition list_models :: "string list" where
  "list_models = [''dynamic-tile-transformer'', ''telemetry-optimizer'']"

section \<open>The dashboard\<close>

text \<open>The table of models has one key, so it is the model, once there is one.\<close>

type_synonym dashboard = "model option"

datatype dash_request =
    Api_infer SynapseFeatureVector
  | Api_explain SynapseFeatureVector
  | Api_observe "SynapseFeatureVector option" "u64 option" "f64 option"

datatype dash_response =
    Inference u32 "f32 list" f32 "f32 list"
  | Importances "f32 list"
  | Learned SynapseUpdateResult
  | Bad_request

definition dash_model :: "ml_lib \<Rightarrow> dashboard \<Rightarrow> model" where
  "dash_model lib d = (case d of Some m \<Rightarrow> m | None \<Rightarrow> Tile_transformer (net_new lib tile_config_default 7))"

definition dash_experience :: "u64 \<Rightarrow> SynapseFeatureVector \<Rightarrow> u64 option \<Rightarrow> f64 option \<Rightarrow> SynapseExperience" where
  "dash_experience now f action reward =
     \<lparr>ex_features = f, ex_action = (case action of Some a \<Rightarrow> ucast a | None \<Rightarrow> 0),
      ex_reward = f32_of_f64 (case reward of Some r \<Rightarrow> r | None \<Rightarrow> Fin 0), ex_timestamp_ns = now,
      ex_session_id = 0, ex_energy_joules = Fin 0, ex_thermal_events = 0, ex_confidence = Fin 0\<rparr>"

definition api_infer :: "ml_lib \<Rightarrow> SynapseFeatureVector \<Rightarrow> dashboard \<Rightarrow> (dash_response \<times> dashboard) option" where
  "api_infer lib f d =
     (let m = dash_model lib d
      in case model_infer lib m f of
           None \<Rightarrow> None
         | Some s \<Rightarrow> map_option (\<lambda>x. (Inference (as_chosen s) (as_scores s) (as_confidence s) (me_feature_importances x), Some m))
                     (model_explain lib m f))"

definition api_explain :: "ml_lib \<Rightarrow> SynapseFeatureVector \<Rightarrow> dashboard \<Rightarrow> (dash_response \<times> dashboard) option" where
  "api_explain lib f d =
     (let m = dash_model lib d in map_option (\<lambda>x. (Importances (me_feature_importances x), Some m)) (model_explain lib m f))"

definition api_observe ::
  "ml_lib \<Rightarrow> u64 \<Rightarrow> SynapseFeatureVector option \<Rightarrow> u64 option \<Rightarrow> f64 option \<Rightarrow> dashboard \<Rightarrow> (dash_response \<times> dashboard) option" where
  "api_observe lib now features action reward d =
     (case features of
        None \<Rightarrow> Some (Bad_request, d)
      | Some f \<Rightarrow> map_option (\<lambda>(r, m). (Learned r, Some m)) (model_update lib (dash_model lib d) (dash_experience now f action reward)))"

fun dash_step :: "ml_lib \<Rightarrow> u64 \<times> dash_request \<Rightarrow> dashboard \<Rightarrow> (dash_response \<times> dashboard) option" where
  "dash_step lib (now, Api_infer f) d = api_infer lib f d"
| "dash_step lib (now, Api_explain f) d = api_explain lib f d"
| "dash_step lib (now, Api_observe f a r) d = api_observe lib now f a r d"

fun dash_run :: "ml_lib \<Rightarrow> (u64 \<times> dash_request) list \<Rightarrow> dashboard \<Rightarrow> (dash_response list \<times> dashboard) option" where
  "dash_run lib [] d = Some ([], d)"
| "dash_run lib (q # qs) d =
     (case dash_step lib q d of
        None \<Rightarrow> None
      | Some (r, d) \<Rightarrow> map_option (\<lambda>(rs, d). (r # rs, d)) (dash_run lib qs d))"

section \<open>Reference: one model and what it was shown\<close>

fun lesson_of :: "u64 \<times> dash_request \<Rightarrow> SynapseExperience list" where
  "lesson_of (now, Api_observe (Some f) a r) = [dash_experience now f a r]"
| "lesson_of q = []"

definition taught :: "ml_lib \<Rightarrow> SynapseExperience list \<Rightarrow> model \<Rightarrow> model" where
  "taught lib es m = fold (\<lambda>e m. snd (mo_update (rust_models lib) m e)) es m"

fun dash_answer_ok :: "dash_response \<Rightarrow> bool" where
  "dash_answer_ok (Inference chosen scores confidence importances) \<longleftrightarrow>
     unat chosen < 3 \<and> length scores = 3 \<and> length importances = 8"
| "dash_answer_ok (Importances importances) \<longleftrightarrow> length importances = 8"
| "dash_answer_ok r = True"

section \<open>Lemmas\<close>

lemma net_new_default_ok: "model_ok (Tile_transformer (net_new lib tile_config_default seed))"
  by (simp add: net_new_ok tile_config_default_def) (simp add: net_new_def wide_enough_def Let_def)

lemma clamp01_valid: "x \<noteq> NaN \<Longrightarrow> feature_valid (clamp01 x)"
  by (cases x) (auto simp: clamp01_def fp_clamp_def feature_valid_def)

lemma clamp01_NaN: "\<not> feature_valid (clamp01 NaN)"
  by (simp add: clamp01_def feature_valid_def)

lemma feature_valid_clamp01 [simp]: "feature_valid (clamp01 x) \<longleftrightarrow> x \<noteq> NaN"
  using clamp01_valid clamp01_NaN by blast

lemma infer_invalid: "\<not> fv_validate f \<Longrightarrow> model_infer lib m f = Some oracle_scores"
  by (cases m) (simp_all add: net_infer_def oracle_scores_def)

lemma dash_step_ok:
  assumes "model_ok (dash_model lib d)"
  shows "\<exists>r d'. dash_step lib q d = Some (r, d') \<and> dash_answer_ok r
    \<and> dash_model lib d' = taught lib (lesson_of q) (dash_model lib d) \<and> model_ok (dash_model lib d')"
proof -
  let ?m = "dash_model lib d"
  obtain now rq where q: "q = (now, rq)" by fastforce
  show ?thesis
  proof (cases rq)
    case (Api_infer f)
    obtain s x where "model_infer lib ?m f = Some s" "model_explain lib ?m f = Some x"
      using model_infer_ok [OF assms] model_explain_ok [OF assms] by blast
    with assms model_infer_shape [of lib ?m f s] model_explain_lengths [of lib ?m f x] show ?thesis
      by (simp add: q Api_infer api_infer_def Let_def taught_def dash_model_def scores_shape_def)
  next
    case (Api_explain f)
    obtain x where "model_explain lib ?m f = Some x" using model_explain_ok [OF assms] by blast
    with assms model_explain_lengths [of lib ?m f x] show ?thesis
      by (simp add: q Api_explain api_explain_def Let_def taught_def dash_model_def)
  next
    case (Api_observe f a r)
    show ?thesis
    proof (cases f)
      case None
      then show ?thesis using assms by (simp add: q Api_observe api_observe_def taught_def)
    next
      case (Some g)
      obtain u m' where "model_update lib ?m (dash_experience now g a r) = Some (u, m')" "model_ok m'"
        using model_update_ok [OF assms] by blast
      then show ?thesis by (simp add: q Api_observe Some api_observe_def taught_def rust_models_def dash_model_def)
    qed
  qed
qed

lemma dash_run_ok:
  "model_ok (dash_model lib d) \<Longrightarrow> \<exists>rs d'. dash_run lib qs d = Some (rs, d') \<and> list_all dash_answer_ok rs \<and> length rs = length qs
     \<and> dash_model lib d' = taught lib (concat (map lesson_of qs)) (dash_model lib d)"
proof (induction qs arbitrary: d)
  case Nil
  then show ?case by (simp add: taught_def)
next
  case (Cons q qs)
  obtain r d1 where one: "dash_step lib q d = Some (r, d1)" "dash_answer_ok r"
    "dash_model lib d1 = taught lib (lesson_of q) (dash_model lib d)" "model_ok (dash_model lib d1)"
    using dash_step_ok [OF Cons.prems] by blast
  from Cons.IH [OF one(4)] one show ?case by (auto simp: taught_def)
qed

section \<open>Properties\<close>

text \<open>The dashboard never fails and serves one model. Any requests to a fresh dashboard are all answered, in
  their order, and none panics, so no later request finds the lock poisoned; the answers have the shapes of the
  interface; and the model it is left with is the tile transformer of seed 7, taught the experiences that were
  posted with features, in their order.\<close>
theorem dashboard_serves_one_model:
  "\<exists>rs d. dash_run lib qs None = Some (rs, d) \<and> list_all dash_answer_ok rs \<and> length rs = length qs
     \<and> dash_model lib d = taught lib (concat (map lesson_of qs)) (Tile_transformer (net_new lib tile_config_default 7))"
  using dash_run_ok [of lib None qs] net_new_default_ok by (simp add: dash_model_def)

lemma py_features_valid:
  "fv_validate (py_features a b c d e f g compute) \<longleftrightarrow> NaN \<notin> {a, b, c, d, e, f, g}"
  by (auto simp: fv_validate_def fv_to_array_def py_features_def) (simp_all add: feature_valid_def)

lemma model_named_listed: "model_named (rust_models lib) name = None \<longleftrightarrow> name \<notin> set list_models"
  by (simp add: model_named_def list_models_def)

lemma model_named_ok: "model_named (rust_models lib) name = Some m \<Longrightarrow> model_ok m"
  using new_models_ok by (auto simp: model_named_def split: if_splits)

text \<open>What the Python module answers. A name that it does not list is the only error, no call panics, and every
  answer has the shape of the interface. The features it builds are valid unless an argument is a NaN, however
  large the arguments are; with a NaN, both models give the fallback answer.\<close>
theorem python_inference:
  assumes "features = py_features a b c d e f g compute"
  shows "(case infer_backend lib name features of
            None \<Rightarrow> False
          | Some (Inl msg) \<Rightarrow> name \<notin> set list_models \<and> msg = ''unknown model: '' @ name
          | Some (Inr s) \<Rightarrow> name \<in> set list_models \<and> scores_shape s \<and> (NaN \<in> {a, b, c, d, e, f, g} \<longrightarrow> s = oracle_scores))
    \<and> fv_validate features = (NaN \<notin> {a, b, c, d, e, f, g})
    \<and> observe_backend lib name features action reward \<noteq> None"
proof (cases "model_named (rust_models lib) name")
  case None
  then show ?thesis using model_named_listed [of lib name] py_features_valid [of a b c d e f g compute]
    unfolding assms by (simp add: infer_backend_def observe_backend_def)
next
  case (Some m)
  note ok = model_named_ok [OF Some]
  obtain s where s: "model_infer lib m features = Some s" using model_infer_ok [OF ok] by blast
  have "NaN \<in> {a, b, c, d, e, f, g} \<Longrightarrow> s = oracle_scores"
    using s infer_invalid [of features lib m] py_features_valid [of a b c d e f g compute] unfolding assms by simp
  moreover have "observe_backend lib name features action reward \<noteq> None"
    using model_update_ok [OF ok] Some by (fastforce simp: observe_backend_def)
  ultimately show ?thesis
    using model_infer_shape [OF s] s Some model_named_listed [of lib name] py_features_valid [of a b c d e f g compute]
    by (simp add: infer_backend_def assms)
qed

theorem python_inference_witness:
  "infer_backend demo_lib ''telemetry-optimizer'' (py_features NaN (Fin 2) (Fin 0) (Fin 0) (Fin 0) (Fin 0) (Fin 0) 1)
     = Some (Inr oracle_scores)"
  using python_inference [OF refl, where lib = demo_lib and name = "''telemetry-optimizer''" and a = NaN and b = "Fin 2"
      and c = "Fin 0" and d = "Fin 0" and e = "Fin 0" and f = "Fin 0" and g = "Fin 0" and compute = 1 and action = 0 and reward = "Fin 1"]
  by (auto simp: list_models_def split: option.splits sum.splits)

end
