(* ===== verification/CriticalPath.thy ===== *)
theory CriticalPath
  imports Cli
begin

text \<open>
  The benchmark that gates the build on the cost of a draw, \<open>src/synapse/tools/bench_critical_path.cpp\<close>: the
  stub it measures, the percentiles, the report and the exit code. The two loops' readings of the clock and
  the C library's rendering of a number are arguments. \<open>None\<close> is the failed assertion that there are
  iterations, or, where assertions are off, what comes of having none.
\<close>

section \<open>The stub\<close>

record BenchSignature =
  bs_shader_hash :: u64
  bs_vertex_count :: u32
  bs_draw_call_count :: u32
  bs_shader_instruction_estimate :: u32
  bs_is_compute_dispatch :: bool

definition bench_signature :: BenchSignature where
  "bench_signature = \<lparr>bs_shader_hash = 0x12345ABC, bs_vertex_count = 6000, bs_draw_call_count = 1,
     bs_shader_instruction_estimate = 512, bs_is_compute_dispatch = False\<rparr>"

definition stub_mix :: "u64 \<Rightarrow> u32 \<Rightarrow> u64" where
  "stub_mix h v = h XOR (ucast v + 0x9e3779b9 + push_bit 6 h + drop_bit 2 h)"

definition stub_hash :: "BenchSignature \<Rightarrow> u64" where
  "stub_hash sig =
     stub_mix (stub_mix (stub_mix (bs_shader_hash sig) (bs_vertex_count sig)) (bs_draw_call_count sig))
       (bs_shader_instruction_estimate sig)"

record SynapseCoreBenchStub =
  st_frame_counter :: u64

datatype stub_route = Jit_submit | Oracle_fallback

definition stub_draw_indexed :: "u32 \<Rightarrow> SynapseCoreBenchStub \<Rightarrow> stub_route \<times> SynapseCoreBenchStub" where
  "stub_draw_indexed index_count core =
     (let sig = bench_signature\<lparr>bs_vertex_count := index_count\<rparr>;
          jit_hit = (stub_hash sig AND 3 \<noteq> 0)
      in (if jit_hit then Jit_submit else Oracle_fallback, core\<lparr>st_frame_counter := st_frame_counter core + 1\<rparr>))"

fun stub_draws :: "nat \<Rightarrow> SynapseCoreBenchStub \<Rightarrow> stub_route list \<times> SynapseCoreBenchStub" where
  "stub_draws 0 core = ([], core)"
| "stub_draws (Suc n) core =
     (let (r, core) = stub_draw_indexed 6000 core; (rs, core) = stub_draws n core in (r # rs, core))"

section \<open>Percentiles\<close>

text \<open>The samples are differences of two readings, in nanoseconds.\<close>

definition percentile_index :: "nat \<Rightarrow> f64 \<Rightarrow> nat" where
  "percentile_index n p =
     (case f64_mul (f64_mul p (rnd64 (1 / 100))) (rnd64 (of_nat (n - 1))) of Fin q \<Rightarrow> nat \<lfloor>q\<rfloor> | _ \<Rightarrow> n)"

definition percentile :: "int list \<Rightarrow> f64 \<Rightarrow> f64 option" where
  "percentile xs p =
     (if xs = [] then Some (Fin 0)
      else if percentile_index (length xs) p < length xs then Some (f64_of_int (xs ! percentile_index (length xs) p))
      else None)"

record measurement =
  ms_p50 :: f64
  ms_p99 :: f64
  ms_max :: f64

definition measure_samples :: "int list \<Rightarrow> measurement option" where
  "measure_samples xs =
     (let xs = sort xs
      in case (percentile xs (Fin 50), percentile xs (Fin 99)) of
           (Some p50, Some p99) \<Rightarrow> if xs = [] then None else Some \<lparr>ms_p50 = p50, ms_p99 = p99, ms_max = f64_of_int (last xs)\<rparr>
         | _ \<Rightarrow> None)"

section \<open>The report and the verdict\<close>

definition overhead_pct :: "measurement \<Rightarrow> measurement \<Rightarrow> f64" where
  "overhead_pct b s =
     (if fp_lt (Fin 0) (ms_p50 b) then f64_mul (f64_div (f64_sub (ms_p50 s) (ms_p50 b)) (ms_p50 b)) (Fin 100) else Fin 0)"

definition pass_p99 :: "measurement \<Rightarrow> bool" where
  "pass_p99 s = fp_le (ms_p99 s) (Fin 1000)"

definition pass_overhead :: "measurement \<Rightarrow> measurement \<Rightarrow> bool" where
  "pass_overhead b s = fp_lt (overhead_pct b s) (Fin 20)"

definition nl :: string where
  "nl = [CHR 0x0A]"

definition pad_right :: "nat \<Rightarrow> string \<Rightarrow> string" where
  "pad_right n s = s @ replicate (n - length s) CHR '' ''"

definition pad_left :: "nat \<Rightarrow> string \<Rightarrow> string" where
  "pad_left n s = replicate (n - length s) CHR '' '' @ s"

definition table_row :: "(string \<Rightarrow> f64 \<Rightarrow> string) \<Rightarrow> string \<Rightarrow> measurement \<Rightarrow> string" where
  "table_row fmt name m =
     pad_right 30 name @ ''  '' @ fmt ''%8.1f'' (ms_p50 m) @ ''  '' @ fmt ''%8.1f'' (ms_p99 m) @ ''  '' @ fmt ''%8.1f'' (ms_max m) @ nl"

definition em_dash :: string where
  "em_dash = [CHR 0xE2, CHR 0x80, CHR 0x94]"

definition at_most :: string where
  "at_most = [CHR 0xE2, CHR 0x89, CHR 0xA4]"

definition quoted :: "string \<Rightarrow> string" where
  "quoted s = CHR 0x22 # s @ [CHR 0x22]"

definition json_bool :: "bool \<Rightarrow> string" where
  "json_bool b = (if b then ''true'' else ''false'')"

definition json_fragment :: "(string \<Rightarrow> f64 \<Rightarrow> string) \<Rightarrow> int \<Rightarrow> measurement \<Rightarrow> measurement \<Rightarrow> string" where
  "json_fragment fmt n b s =
     ''{'' @ nl
     @ ''  '' @ quoted ''iterations'' @ '': '' @ show_int n @ '','' @ nl
     @ ''  '' @ quoted ''baseline_p50_ns'' @ '': '' @ fmt ''%.1f'' (ms_p50 b) @ '','' @ nl
     @ ''  '' @ quoted ''baseline_p99_ns'' @ '': '' @ fmt ''%.1f'' (ms_p99 b) @ '','' @ nl
     @ ''  '' @ quoted ''synapse_p50_ns'' @ '':  '' @ fmt ''%.1f'' (ms_p50 s) @ '','' @ nl
     @ ''  '' @ quoted ''synapse_p99_ns'' @ '':  '' @ fmt ''%.1f'' (ms_p99 s) @ '','' @ nl
     @ ''  '' @ quoted ''synapse_max_ns'' @ '':  '' @ fmt ''%.1f'' (ms_max s) @ '','' @ nl
     @ ''  '' @ quoted ''overhead_pct'' @ '':    '' @ fmt ''%.2f'' (overhead_pct b s) @ '','' @ nl
     @ ''  '' @ quoted ''pass_p99_under_1us'' @ '': '' @ json_bool (pass_p99 s) @ '','' @ nl
     @ ''  '' @ quoted ''pass_overhead_under_20pct'' @ '': '' @ json_bool (pass_overhead b s) @ nl
     @ ''}'' @ nl"

definition critical_path_output :: "(string \<Rightarrow> f64 \<Rightarrow> string) \<Rightarrow> int \<Rightarrow> measurement \<Rightarrow> measurement \<Rightarrow> string" where
  "critical_path_output fmt n b s =
     ''=== Project Synapse '' @ em_dash @ '' Critical Path Benchmark ==='' @ nl
     @ ''Iterations : '' @ show_int n @ nl @ nl
     @ pad_right 30 ''Path'' @ ''  '' @ pad_left 8 ''p50 (ns)'' @ ''  '' @ pad_left 8 ''p99 (ns)'' @ ''  '' @ pad_left 8 ''max (ns)'' @ nl
     @ table_row fmt ''Baseline (passthrough)'' b
     @ table_row fmt ''Synapse handle_draw_indexed'' s
     @ nl @ ''--- Acceptance Criteria ---'' @ nl
     @ ''p99 latency '' @ at_most @ '' 1000 ns  : '' @ (if pass_p99 s then ''PASS'' else ''FAIL'') @ ''  (actual '' @ fmt ''%.0f'' (ms_p99 s) @ '' ns)'' @ nl
     @ ''Overhead vs baseline   : +'' @ fmt ''%.1f'' (overhead_pct b s) @ ''%  (p50 delta)'' @ nl
     @ ''Overhead < 20%         : '' @ (if pass_overhead b s then ''PASS'' else ''FAIL [needs optimisation]'') @ nl
     @ nl @ ''--- JSON fragment (report.json > performance.critical_path) ---'' @ nl
     @ json_fragment fmt n b s"

definition critical_path_main ::
  "(string \<Rightarrow> f64 \<Rightarrow> string) \<Rightarrow> string list \<Rightarrow> (nat \<Rightarrow> int) \<Rightarrow> (nat \<Rightarrow> int) \<Rightarrow> (string \<times> int) option" where
  "critical_path_main fmt args baseline synapse =
     (case (if args = [] then Some 10000 else atoi (hd args)) of
        None \<Rightarrow> None
      | Some n \<Rightarrow>
          if n \<le> 0 then None
          else
            (case (measure_samples (map baseline [0..<nat n]), measure_samples (map synapse [0..<nat n])) of
               (Some b, Some s) \<Rightarrow>
                 Some (critical_path_output fmt n b s, if pass_p99 s \<and> pass_overhead b s then 0 else 1)
             | _ \<Rightarrow> None))"

section \<open>Lemmas\<close>

text \<open>A double close to a whole number is rounded to it.\<close>

lemma rne_near: "\<bar>x - of_int m\<bar> < 1 / 4 \<Longrightarrow> rne x = m"
  using rne_bounds [of x] by linarith

lemma rnd64_near:
  assumes "1 / 2 \<le> y" "y < 2 ^ 52" "\<bar>y - of_nat k\<bar> \<le> y / 2 ^ 55"
  shows "rnd64 y = Fin (of_nat k)"
proof -
  let ?e = "ilog2 y"
  have y: "0 < y" using assms(1) by simp
  note bounds = ilog2_bounds [OF y]
  have "(2 :: rat) powi (- 1) \<le> y" using assms(1) by (simp add: power_int_def)
  then have "(2 :: rat) powi (- 1) < 2 powi (?e + 1)" using bounds by linarith
  then have lo: "- 1 \<le> ?e" using powi2_le_iff [of "?e + 1" "- 1"] by linarith
  have "(2 :: rat) powi ?e < 2 powi 52" using bounds assms(2) by (simp add: power_int_def)
  then have hi: "?e < 52" using powi2_le_iff [of 52 ?e] by linarith
  define u where "u = (2 :: rat) powi (?e - 52)"
  have u: "0 < u" by (simp add: u_def)
  obtain j :: nat where j: "52 = ?e + int j" using hi zle_iff_zadd [of ?e 52] by auto
  have "int j + (?e - 52) = 0" using j by simp
  then have ju: "of_int (2 ^ j) * u = 1" unfolding u_def powi2_scale by simp
  then have k: "of_nat k = of_int (int k * 2 ^ j) * u" by simp
  have top: "2 powi (?e + 1) = u * 2 ^ 53" unfolding u_def by (simp add: power_int_add [symmetric] power_int_diff power_int_add)
  have "\<bar>y - of_nat k\<bar> < u / 4" using assms(3) bounds top by simp
  then have "\<bar>y / u - of_int (int k * 2 ^ j)\<bar> < 1 / 4"
    using u unfolding k by (simp add: abs_less_iff field_simps)
  then have "rne (y / u) = int k * 2 ^ j" by (rule rne_near)
  then have mag: "rnd_mag 53 (- 1022) y = of_nat k"
  proof -
    have "rnd_exp (- 1022) y - (int 53 - 1) = ?e - 52" using lo by (simp add: rnd_exp_def)
    then have "rnd_mag 53 (- 1022) y = of_int (rne (y / u)) * u" by (simp only: rnd_mag_def Let_def u_def)
    then show ?thesis by (simp only: \<open>rne (y / u) = int k * 2 ^ j\<close> k)
  qed
  have "(of_nat k :: rat) < 2 powi 1024"
  proof -
    have "of_nat k \<le> 2 * y" using assms(1,3) abs_ge_minus_self [of "y - of_nat k"] by simp
    also have "\<dots> < 2 ^ 53" using assms(2) by simp
    also have "(2 :: rat) ^ 53 = 2 powi 53" by (simp add: power_int_def)
    also have "\<dots> \<le> 2 powi 1024" by simp
    finally show ?thesis .
  qed
  then show ?thesis using y mag by (simp add: rnd64_def rnd_def Let_def)
qed

text \<open>The double nearest to 0.99 in the product \<open>99.0 * 0.01\<close> is below 0.99 by less than 10 to the power of -17.\<close>

lemma p99_factor: "f64_mul (Fin 99) (rnd64 (1 / 100)) = Fin (8917127262193582 / 2 ^ 53)"
  by code_simp

lemma p50_factor: "f64_mul (Fin 50) (rnd64 (1 / 100)) = Fin (1 / 2)"
  by code_simp

lemma rnd64_dyadic: "m < 2 ^ 53 \<Longrightarrow> d \<le> 100 \<Longrightarrow> rnd64 (of_nat m / 2 ^ d) = Fin (of_nat m / 2 ^ d)"
proof -
  assume m: "m < 2 ^ 53" and d: "d \<le> 100"
  have "(of_nat m :: rat) / 2 ^ d \<le> of_nat m" by (simp add: divide_le_eq mult_le_cancel_left1)
  also have "(of_nat m :: rat) < 2 powi 1024"
  proof -
    have "(of_nat m :: rat) < of_nat (2 ^ 53)" using m by (simp only: of_nat_less_iff)
    also have "\<dots> = 2 powi 53" by (simp add: power_int_def)
    also have "\<dots> \<le> 2 powi 1024" by simp
    finally show ?thesis .
  qed
  finally show ?thesis unfolding rnd64_def
    by (intro rnd_exact [where m = "int m" and k = "- int d"]) (use m d in \<open>simp_all add: power_int_minus divide_inverse\<close>)
qed

lemma p50_index: "0 < n \<Longrightarrow> n \<le> 2 ^ 31 \<Longrightarrow> percentile_index n (Fin 50) = (n - 1) div 2"
proof -
  assume "0 < n" "n \<le> 2 ^ 31"
  then have "n - 1 < 2 ^ 53" by simp
  then have "rnd64 (of_nat (n - 1) / 2) = Fin (of_nat (n - 1) / 2)" using rnd64_dyadic [of "n - 1" 1] by simp
  moreover have "\<lfloor>of_nat (n - 1) / (2 :: rat)\<rfloor> = int ((n - 1) div 2)"
    using floor_divide_of_nat_eq [of "n - 1" 2, where 'a = rat] by simp
  ultimately show ?thesis using \<open>n - 1 < 2 ^ 53\<close> by (simp add: percentile_index_def p50_factor rnd64_nat)
qed

lemma p99_index:
  assumes "0 < n" "n \<le> 2 ^ 31"
  shows "percentile_index n (Fin 99) = 99 * (n - 1) div 100"
proof -
  let ?N = "n - 1" and ?c = "8917127262193582 / 2 ^ 53 :: rat"
  let ?k = "99 * ?N div 100" and ?r = "99 * ?N mod 100" and ?y = "?c * of_nat ?N"
  have N: "?N < 2 ^ 31" using assms by simp
  then have Nr: "(of_nat ?N :: rat) \<le> 2 ^ 31" using of_nat_mono [of ?N "2 ^ 31"] by simp
  have split: "(99 :: rat) * of_nat ?N = 100 * of_nat ?k + of_nat ?r"
    using arg_cong [OF mult_div_mod_eq [of 100 "99 * ?N"], of "of_nat :: nat \<Rightarrow> rat"]
    by (simp only: of_nat_add of_nat_mult of_nat_numeral)
  have idx: "percentile_index n (Fin 99) = (case rnd64 ?y of Fin q \<Rightarrow> nat \<lfloor>q\<rfloor> | _ \<Rightarrow> n)"
    using N by (simp add: percentile_index_def p99_factor rnd64_nat)
  show ?thesis
  proof (cases "?r = 0")
    case True
    show ?thesis
    proof (cases "?N = 0")
      case False
      then have "(1 :: rat) \<le> of_nat ?N" by (cases ?N) simp_all
      then have y: "1 / 2 \<le> ?y" "?y < 2 ^ 52" using Nr by simp_all
      have "(of_nat ?k :: rat) = 99 / 100 * of_nat ?N" using split True by simp
      then have "\<bar>?y - of_nat ?k\<bar> = (99 / 100 - ?c) * of_nat ?N" by (simp add: algebra_simps)
      also have "\<dots> \<le> ?y / 2 ^ 55" using mult_right_mono [of "99 / 100 - ?c" "?c / 2 ^ 55" "of_nat ?N"] by simp
      finally have "rnd64 ?y = Fin (of_nat ?k)" by (rule rnd64_near [OF y])
      then show ?thesis unfolding idx by simp
    qed (simp add: idx)
  next
    case False
    then have r: "(1 :: rat) \<le> of_nat ?r" "(of_nat ?r :: rat) \<le> 99"
      using of_nat_mono [of 1 ?r, where 'a = rat] of_nat_mono [of ?r 99, where 'a = rat] by simp_all
    have lo: "of_nat ?k \<le> ?y" using split r(1) Nr by simp
    have hi: "?y \<le> of_nat (128 * ?k + 127) / 2 ^ 7" using split r(2) by simp
    have k: "128 * ?k + 127 < 2 ^ 53" "?k < 2 ^ 53" using N by simp_all
    have seven: "(7 :: nat) \<le> 100" by simp
    have "fp_le (rnd64 (of_nat ?k)) (rnd64 ?y)" by (rule rnd64_mono [OF _ lo]) simp
    moreover have "fp_le (rnd64 ?y) (rnd64 (of_nat (128 * ?k + 127) / 2 ^ 7))" by (rule rnd64_mono [OF _ hi]) simp
    ultimately obtain q where q: "rnd64 ?y = Fin q" "of_nat ?k \<le> q" "q \<le> of_nat (128 * ?k + 127) / 2 ^ 7"
      unfolding rnd64_dyadic [OF k(1), of 7, OF seven] rnd64_nat [OF k(2)] by (rule fp_le_between_Fin)
    then have "\<lfloor>q\<rfloor> = int ?k" by (intro floor_unique) simp_all
    with q show ?thesis unfolding idx by simp
  qed
qed

lemma f64_of_int_exact:
  assumes "\<bar>v\<bar> < 2 ^ 53"
  shows "f64_of_int v = Fin (of_int v)"
proof -
  have "rnd64 (of_nat (nat \<bar>v\<bar>)) = Fin (of_nat (nat \<bar>v\<bar>))" by (rule rnd64_nat) (use assms in \<open>simp add: nat_less_iff\<close>)
  then show ?thesis
    by (cases "0 \<le> v"; cases "rnd64 (of_int v)") (simp_all add: f64_of_int_def rnd64_neg)
qed

lemma f64_of_int_le:
  assumes "0 \<le> t" "t < 2 ^ 52"
  shows "fp_le (f64_of_int v) (Fin (of_int t)) \<longleftrightarrow> v \<le> t"
proof (cases "v \<le> t")
  case True
  show ?thesis
  proof (cases "0 \<le> v")
    case True
    then show ?thesis using f64_of_int_exact [of v] assms \<open>v \<le> t\<close> by simp
  next
    case False
    then have "fp_le (f64_of_int v) (Fin 0)" unfolding f64_of_int_def by (intro rnd64_sign(2)) simp
    then have "fp_le (f64_of_int v) (Fin (of_int t))" by (rule fp_le_trans) (use assms in simp)
    with True show ?thesis by simp
  qed
next
  case False
  then have "(of_int (t + 1) :: rat) \<le> of_int v" by (simp only: of_int_le_iff)
  then have "fp_le (rnd64 (of_int (t + 1))) (rnd64 (of_int v))" using assms by (intro rnd64_mono) simp_all
  then have "fp_le (Fin (of_int (t + 1))) (f64_of_int v)" using f64_of_int_exact [of "t + 1"] assms by (simp add: f64_of_int_def)
  then have "\<not> fp_le (f64_of_int v) (Fin (of_int t))" by (cases "f64_of_int v") auto
  with False show ?thesis by simp
qed

lemma sorted_rank: "sorted ys \<Longrightarrow> k < length ys \<Longrightarrow> ys ! k \<le> t \<longleftrightarrow> k < length (filter (\<lambda>y. y \<le> t) ys)"
proof (induction ys arbitrary: k)
  case (Cons y ys)
  show ?case
  proof (cases "y \<le> t")
    case True
    with Cons show ?thesis by (cases k) simp_all
  next
    case False
    then have "filter (\<lambda>z. z \<le> t) (y # ys) = []" using Cons.prems(1) by (auto simp: filter_empty_conv)
    moreover have "y \<le> (y # ys) ! k" using Cons.prems by (cases k) auto
    ultimately show ?thesis using False by simp
  qed
qed simp

lemma sort_rank: "k < length xs \<Longrightarrow> sort xs ! k \<le> t \<longleftrightarrow> k < length (filter (\<lambda>x. x \<le> t) xs)"
  using sorted_rank [of "sort xs" k t] by (simp add: filter_sort)

lemma fifth: "rnd64 (1 / 5) = Fin (3602879701896397 / 2 ^ 54)"
  by code_simp

lemma overhead_exact:
  fixes mb m :: int
  assumes "ms_p50 b = Fin (of_int mb)" "ms_p50 s = Fin (of_int m)" "\<bar>mb\<bar> < 2 ^ 40" "\<bar>m\<bar> < 2 ^ 40"
  shows "pass_overhead b s \<longleftrightarrow> mb \<le> 0 \<or> 5 * m < 6 * mb"
proof (cases "0 < mb")
  case False
  then show ?thesis using assms(1) by (simp add: pass_overhead_def overhead_pct_def)
next
  case True
  let ?q = "of_int (m - mb) / of_int mb :: rat"
  have "f64_sub (ms_p50 s) (ms_p50 b) = Fin (of_int (m - mb))"
    using f64_of_int_exact [of "m - mb"] assms by (simp add: fp_sub_def f64_of_int_def)
  then have pass: "pass_overhead b s \<longleftrightarrow> fp_lt (f64_mul (rnd64 ?q) (Fin 100)) (Fin 20)"
    using True assms(1) by (simp add: pass_overhead_def overhead_pct_def)
  have mb: "(1 :: rat) \<le> of_int mb" "(of_int mb :: rat) \<le> 2 ^ 40"
    using True assms(3) of_int_le_iff [of mb "2 ^ 40", where 'a = rat] by simp_all
  consider "m - mb < 0" | "0 \<le> m - mb" "5 * m < 6 * mb" | "6 * mb \<le> 5 * m" using True by linarith
  then show ?thesis
  proof cases
    case 1
    then have "fp_le (rnd64 ?q) (Fin 0)" using mb by (intro rnd64_sign(2)) (simp add: divide_le_0_iff)
    then have "fp_lt (f64_mul (rnd64 ?q) (Fin 100)) (Fin 20)"
    proof (cases "rnd64 ?q")
      case (Fin z)
      with \<open>fp_le (rnd64 ?q) (Fin 0)\<close> have "fp_le (rnd64 (z * 100)) (Fin 0)" by (intro rnd64_sign(2)) simp
      with Fin show ?thesis by (cases "rnd64 (z * 100)") auto
    qed auto
    then show ?thesis using 1 True pass by simp
  next
    case 2
    let ?c = "of_nat 7036874417766 / 2 ^ 45 :: rat"
    have "5 * (m - mb) + 1 \<le> mb" using 2(2) by (simp add: algebra_simps)
    then have "5 * of_int (m - mb) + 1 \<le> (of_int mb :: rat)"
      by (metis (mono_tags, lifting) of_int_1 of_int_add of_int_le_iff of_int_mult of_int_numeral)
    then have "?q \<le> ?c" using mb by (simp add: divide_le_eq)
    moreover have "0 \<le> ?q" using 2 mb by simp
    ultimately have "fp_le (Fin 0) (rnd64 ?q)" "fp_le (rnd64 ?q) (rnd64 ?c)" by (simp_all only: rnd64_sign(1) rnd64_mono)
    moreover have "rnd64 ?c = Fin ?c" by (rule rnd64_dyadic) simp_all
    ultimately obtain z where z: "rnd64 ?q = Fin z" "0 \<le> z" "z \<le> ?c" using fp_le_between_Fin by metis
    have "fp_le (rnd64 (z * 100)) (rnd64 (of_nat 703687441776600 / 2 ^ 45))" by (rule rnd64_mono) (use z in simp_all)
    also have "rnd64 (of_nat 703687441776600 / 2 ^ 45) = Fin (of_nat 703687441776600 / 2 ^ 45)" by (rule rnd64_dyadic) simp_all
    finally have "fp_lt (rnd64 (z * 100)) (Fin 20)" by (cases "rnd64 (z * 100)") auto
    then show ?thesis using 2 pass z(1) by simp
  next
    case 3
    then have "of_int (6 * mb) \<le> (of_int (5 * m) :: rat)" by (simp only: of_int_le_iff)
    then have "1 / 5 \<le> ?q" using mb by (simp add: le_divide_eq)
    then have "fp_le (rnd64 (1 / 5)) (rnd64 ?q)" by (intro rnd64_mono) simp_all
    then have "\<not> fp_lt (f64_mul (rnd64 ?q) (Fin 100)) (Fin 20)"
    proof (cases "rnd64 ?q")
      case (Fin z)
      with \<open>fp_le (rnd64 (1 / 5)) (rnd64 ?q)\<close> have "20 \<le> z * 100" by (simp add: fifth)
      then have "fp_le (rnd64 20) (rnd64 (z * 100))" by (intro rnd64_mono) simp_all
      with Fin show ?thesis using rnd64_nat [of 20] by (cases "rnd64 (z * 100)") auto
    qed (auto simp: fifth)
    then show ?thesis using 3 True pass by simp
  qed
qed

lemma measured:
  assumes "xs \<noteq> []" "length xs \<le> 2 ^ 31"
  shows "measure_samples xs = Some \<lparr>ms_p50 = f64_of_int (sort xs ! ((length xs - 1) div 2)),
    ms_p99 = f64_of_int (sort xs ! (99 * (length xs - 1) div 100)), ms_max = f64_of_int (last (sort xs))\<rparr>"
proof -
  have "99 * (length xs - 1) div 100 < length xs" "(length xs - 1) div 2 < length xs" using assms(1) by (cases xs; simp)+
  moreover have "sort xs \<noteq> []" using assms(1) by (metis length_sort length_0_conv)
  ultimately show ?thesis using assms by (simp add: measure_samples_def percentile_def Let_def p50_index p99_index)
qed

text \<open>How many of the first \<open>n\<close> readings are at most a microsecond.\<close>

definition fast_draws :: "nat \<Rightarrow> (nat \<Rightarrow> int) \<Rightarrow> nat" where
  "fast_draws n t = length (filter (\<lambda>i. t i \<le> 1000) [0..<n])"

definition median_of :: "nat \<Rightarrow> (nat \<Rightarrow> int) \<Rightarrow> int" where
  "median_of n t = sort (map t [0..<n]) ! ((n - 1) div 2)"

lemma fast_draws_p99:
  assumes "0 < n"
  shows "sort (map t [0..<n]) ! (99 * (n - 1) div 100) \<le> 1000 \<longleftrightarrow> 99 * (n - 1) div 100 < fast_draws n t"
proof -
  have "99 * (n - 1) div 100 < n" using assms by (cases n) simp_all
  then show ?thesis using sort_rank [of "99 * (n - 1) div 100" "map t [0..<n]" 1000] by (simp add: fast_draws_def filter_map comp_def)
qed

lemma median_bound:
  assumes "0 < n" "\<And>i. i < n \<Longrightarrow> \<bar>t i\<bar> < 2 ^ 40"
  shows "\<bar>median_of n t\<bar> < 2 ^ 40"
proof -
  have "(n - 1) div 2 < length (sort (map t [0..<n]))" using assms(1) by simp
  from nth_mem [OF this] show ?thesis using assms(2) unfolding median_of_def by auto
qed

lemma stub_always_jit: "stub_draw_indexed 6000 core = (Jit_submit, core\<lparr>st_frame_counter := st_frame_counter core + 1\<rparr>)"
proof -
  have "stub_hash (bench_signature\<lparr>bs_vertex_count := 6000\<rparr>) = 0x543e8d2d6651" by code_simp
  then show ?thesis by (simp add: stub_draw_indexed_def Let_def)
qed

section \<open>Properties\<close>

text \<open>C36: The gate in whole numbers. With at least one iteration and readings below eighteen minutes, the benchmark
  ends with a verdict, which no rounding disturbs: it exits with 0 exactly when the number of readings of at most
  a microsecond is greater than 99 hundredths (rounded down) of one less than the number of all readings, and
  the median is less than a fifth above the baseline's median, or the baseline's median is not positive, in
  which case nothing is compared.\<close>
theorem critical_path_gate:
  assumes "(if args = [] then Some 10000 else atoi (hd args)) = Some n" "0 < n"
    and "\<And>i. i < nat n \<Longrightarrow> \<bar>baseline i\<bar> < 2 ^ 40 \<and> \<bar>synapse i\<bar> < 2 ^ 40"
  shows "\<exists>out code. critical_path_main fmt args baseline synapse = Some (out, code) \<and> code \<in> {0, 1}
    \<and> (code = 0 \<longleftrightarrow> 99 * (nat n - 1) div 100 < fast_draws (nat n) synapse
         \<and> (median_of (nat n) baseline \<le> 0 \<or> 5 * median_of (nat n) synapse < 6 * median_of (nat n) baseline))"
proof -
  have n: "0 < nat n" "nat n \<le> 2 ^ 31" using assms(1,2) by (auto simp: atoi_def Let_def in_int_def split: if_splits)
  have ne: "map t [0..<nat n] \<noteq> []" "length (map t [0..<nat n]) \<le> 2 ^ 31" for t :: "nat \<Rightarrow> int" using n by simp_all
  obtain b where b: "measure_samples (map baseline [0..<nat n]) = Some b" "ms_p50 b = Fin (of_int (median_of (nat n) baseline))"
    using measured [OF ne] f64_of_int_exact [of "median_of (nat n) baseline"] median_bound [OF n(1), of baseline] assms(3)
    by (force simp: median_of_def)
  obtain s where s: "measure_samples (map synapse [0..<nat n]) = Some s" "ms_p50 s = Fin (of_int (median_of (nat n) synapse))"
    "ms_p99 s = f64_of_int (sort (map synapse [0..<nat n]) ! (99 * (nat n - 1) div 100))"
    using measured [OF ne] f64_of_int_exact [of "median_of (nat n) synapse"] median_bound [OF n(1), of synapse] assms(3)
    by (force simp: median_of_def)
  have "pass_p99 s \<longleftrightarrow> 99 * (nat n - 1) div 100 < fast_draws (nat n) synapse"
    using f64_of_int_le [of 1000] fast_draws_p99 [OF n(1), of synapse] by (simp add: pass_p99_def s(3))
  moreover have "pass_overhead b s \<longleftrightarrow> median_of (nat n) baseline \<le> 0 \<or> 5 * median_of (nat n) synapse < 6 * median_of (nat n) baseline"
    by (rule overhead_exact [OF b(2) s(2)]) (use median_bound [OF n(1)] assms(3) in auto)
  ultimately show ?thesis using assms(1,2) b(1) s(1) by (simp add: critical_path_main_def)
qed

text \<open>The draws it times are not the core's and take one path: the stub's hash does not depend on anything that
  changes, so every one of them is submitted and none falls back.\<close>
theorem critical_path_one_route:
  "stub_draws n core = (replicate n Jit_submit, core\<lparr>st_frame_counter := st_frame_counter core + of_nat n\<rparr>)"
  by (induction n arbitrary: core) (simp_all add: stub_always_jit Let_def algebra_simps)

text \<open>A clock that does not resolve the empty draw makes any overhead pass.\<close>
theorem critical_path_gate_witness:
  "\<exists>out. critical_path_main (\<lambda>_ _. []) [''100''] (\<lambda>i. 0) (\<lambda>i. if i < 99 then 900 else 5000) = Some (out, 0)"
proof -
  have n: "(if [''100''] = [] then Some 10000 else atoi (hd [''100''])) = Some 100" by code_simp
  have fast: "fast_draws 100 (\<lambda>i. if i < 99 then 900 else 5000) = 99" by code_simp
  have med: "median_of 100 (\<lambda>i. 0) = 0" by (simp add: median_of_def map_replicate_const)
  have bound: "\<bar>0 :: int\<bar> < 2 ^ 40 \<and> \<bar>(if i < 99 then 900 else 5000) :: int\<bar> < 2 ^ 40" for i :: nat by simp
  from critical_path_gate [where baseline = "\<lambda>i. 0" and synapse = "\<lambda>i. if i < 99 then 900 else 5000"
      and fmt = "\<lambda>_ _. []", OF n _ bound] fast med show ?thesis by auto
qed

end
