(* ===== verification/VulkanBench.thy ===== *)
theory VulkanBench
  imports IeeeFloat Prelude
begin

text \<open>
  The three benchmarks that run on a real device, \<open>bench_memory_bandwidth.cpp\<close>, \<open>benchmark_overhead.cpp\<close> and
  \<open>bench_execution_overhead.cpp\<close> of \<open>src/synapse/tools\<close>, as programs over Vulkan. The loader and the driver
  are the record \<open>vk_driver\<close>: the result of each call after the calls before it, what the queries report,
  whether a name resolves, and the time each measured stretch took. A trace holds the calls that make, use or
  destroy an object, in their order; queries and the printed text are left out. \<open>None\<close> is undefined
  behaviour: taking the first of no devices, or calling a pointer that is null.
\<close>

section \<open>The driver\<close>

datatype vk_object =
    Vk_instance | Vk_device | Staging_buffer | Staging_memory | Device_buffer | Device_memory | Command_pool

datatype vk_call =
    Create_instance bool
  | Create_device u32
  | Create_buffer vk_object u64 u32
  | Allocate_memory vk_object u64 u32
  | Bind_memory vk_object vk_object
  | Map_memory vk_object
  | Unmap_memory vk_object
  | Create_command_pool u32
  | Allocate_command_buffer
  | Begin_command
  | Copy_buffer vk_object vk_object u64
  | End_command
  | Queue_submit u32
  | Queue_wait u32
  | Resolve_instance string
  | Resolve_device string
  | Destroy_object vk_object

record vk_driver =
  vd_result :: "vk_call list \<Rightarrow> vk_call \<Rightarrow> int"
  vd_device_count :: nat
  vd_queue_flags :: "u32 list"
  vd_memory_types :: "u32 list"
  vd_requirement :: "vk_object \<Rightarrow> u64"
  vd_maps :: bool
  vd_proc :: "string \<Rightarrow> bool"
  vd_elapsed :: "nat \<Rightarrow> f64"

definition VK_ERROR_LAYER_NOT_PRESENT :: int where
  "VK_ERROR_LAYER_NOT_PRESENT = - 6"

text \<open>\<open>VK_CHECK\<close> returns 1 from \<open>main\<close> when its call does not succeed; other calls are not looked at.\<close>

datatype vk_step = Vk_check vk_call | Vk_call vk_call

fun call_of :: "vk_step \<Rightarrow> vk_call" where
  "call_of (Vk_check c) = c"
| "call_of (Vk_call c) = c"

fun run_steps :: "vk_driver \<Rightarrow> vk_step list \<Rightarrow> vk_call list \<Rightarrow> bool \<times> vk_call list" where
  "run_steps drv [] tr = (True, tr)"
| "run_steps drv (Vk_check c # ss) tr =
     (if vd_result drv tr c = 0 then run_steps drv ss (tr @ [c]) else (False, tr @ [c]))"
| "run_steps drv (Vk_call c # ss) tr = run_steps drv ss (tr @ [c])"

section \<open>What the benchmarks share\<close>

text \<open>Two of the three go on without the layer when the loader does not find it.\<close>

definition instance_steps :: "vk_driver \<Rightarrow> bool \<Rightarrow> vk_step list" where
  "instance_steps drv fallback =
     (if fallback \<and> vd_result drv [] (Create_instance True) = VK_ERROR_LAYER_NOT_PRESENT
      then [Vk_call (Create_instance True), Vk_check (Create_instance False)]
      else [Vk_check (Create_instance True)])"

definition graphics_queue :: "vk_driver \<Rightarrow> nat option" where
  "graphics_queue drv = find (\<lambda>i. vd_queue_flags drv ! i AND 1 \<noteq> 0) [0..<length (vd_queue_flags drv)]"

definition queue_index :: "nat option \<Rightarrow> u32" where
  "queue_index q = (case q of Some i \<Rightarrow> of_nat i | None \<Rightarrow> - 1)"

definition frame_budget_pct :: "f64 \<Rightarrow> f64" where
  "frame_budget_pct avg_ns = f64_mul (f64_div avg_ns (rnd64 (166666667 / 10))) (Fin 100)"

section \<open>Memory bandwidth\<close>

definition BUFFER_SIZE :: u64 where
  "BUFFER_SIZE = 256 * 1024 * 1024"

definition ITERATIONS :: nat where
  "ITERATIONS = 10"

text \<open>The loop over the memory types keeps the last match.\<close>

definition memory_index :: "u32 \<Rightarrow> vk_driver \<Rightarrow> u32" where
  "memory_index flags drv =
     fold (\<lambda>i found. if vd_memory_types drv ! i AND flags = flags then of_nat i else found) [0..<length (vd_memory_types drv)] (- 1)"

definition hostVisibleIdx :: "vk_driver \<Rightarrow> u32" where
  "hostVisibleIdx drv = memory_index 6 drv"

definition deviceLocalIdx :: "vk_driver \<Rightarrow> u32" where
  "deviceLocalIdx drv = memory_index 1 drv"

definition buffer_steps :: "vk_driver \<Rightarrow> vk_object \<Rightarrow> vk_object \<Rightarrow> u32 \<Rightarrow> u32 \<Rightarrow> vk_step list" where
  "buffer_steps drv buf mem usage index =
     [Vk_check (Create_buffer buf BUFFER_SIZE usage), Vk_check (Allocate_memory mem (vd_requirement drv buf) index),
      Vk_check (Bind_memory buf mem)]"

definition fill_steps :: "vk_driver \<Rightarrow> vk_step list" where
  "fill_steps drv = Vk_call (Map_memory Staging_memory) # (if vd_maps drv then [Vk_call (Unmap_memory Staging_memory)] else [])"

definition copy_steps :: "u32 \<Rightarrow> vk_step list" where
  "copy_steps q =
     [Vk_check Begin_command, Vk_call (Copy_buffer Staging_buffer Device_buffer BUFFER_SIZE), Vk_check End_command,
      Vk_check (Queue_submit q), Vk_check (Queue_wait q)]"

definition bandwidth_cleanup :: "vk_step list" where
  "bandwidth_cleanup = map (\<lambda>x. Vk_call (Destroy_object x))
     [Command_pool, Device_buffer, Device_memory, Staging_buffer, Staging_memory, Vk_device, Vk_instance]"

definition bandwidth_steps :: "vk_driver \<Rightarrow> u32 \<Rightarrow> vk_step list" where
  "bandwidth_steps drv q =
     Vk_check (Create_device q)
     # buffer_steps drv Staging_buffer Staging_memory 1 (hostVisibleIdx drv)
     @ fill_steps drv
     @ buffer_steps drv Device_buffer Device_memory 2 (deviceLocalIdx drv)
     @ [Vk_check (Create_command_pool q), Vk_check Allocate_command_buffer]
     @ concat (replicate ITERATIONS (copy_steps q))
     @ bandwidth_cleanup"

record bandwidth_report =
  bw_avg_ms :: f64
  bw_mb_per_sec :: f64
  bw_gbits :: f64

definition bandwidth_result :: "vk_driver \<Rightarrow> bandwidth_report" where
  "bandwidth_result drv =
     (let total_ms = fold (\<lambda>i t. f64_add t (vd_elapsed drv i)) [0..<ITERATIONS] (Fin 0);
          avg_ms = f64_div total_ms (Fin (of_nat ITERATIONS));
          avg_sec = f64_div avg_ms (Fin 1000);
          mb_per_sec = f64_div (f64_div (f64_of_word BUFFER_SIZE) (f64_mul (Fin 1024) (Fin 1024))) avg_sec
      in \<lparr>bw_avg_ms = avg_ms, bw_mb_per_sec = mb_per_sec, bw_gbits = f64_div (f64_mul mb_per_sec (Fin 8)) (Fin 1000)\<rparr>)"

definition bandwidth_main :: "vk_driver \<Rightarrow> (int \<times> vk_call list \<times> bandwidth_report option) option" where
  "bandwidth_main drv =
     (case run_steps drv (instance_steps drv True) [] of
        (False, tr) \<Rightarrow> Some (1, tr, None)
      | (True, tr) \<Rightarrow>
          if vd_device_count drv = 0 then None
          else
            (case graphics_queue drv of
               None \<Rightarrow> Some (1, tr, None)
             | Some q \<Rightarrow>
                 (case run_steps drv (bandwidth_steps drv (of_nat q)) tr of
                    (False, tr) \<Rightarrow> Some (1, tr, None)
                  | (True, tr) \<Rightarrow> Some (0, tr, Some (bandwidth_result drv)))))"

section \<open>Resolution overhead\<close>

definition device_cleanup :: "vk_step list" where
  "device_cleanup = [Vk_call (Destroy_object Vk_device), Vk_call (Destroy_object Vk_instance)]"

definition lookups :: "nat \<Rightarrow> vk_call \<Rightarrow> vk_step list" where
  "lookups n c = replicate n (Vk_call c)"

definition overhead_functions :: "string list" where
  "overhead_functions = [''vkCmdDrawIndexed'', ''vkCmdDraw'', ''vkCmdDispatch'', ''vkCmdPushConstants'', ''vkCmdBindDescriptorSets'',
     ''vkCmdBindPipeline'', ''vkCreateImage'', ''vkDestroyImage'', ''vkFreeCommandBuffers'', ''vkCreateDevice'', ''vkDestroyDevice'']"

text \<open>\<open>bench_gdpa\<close>: a name that does not resolve is looked up once and counts as no time.\<close>

definition gdpa_steps :: "vk_driver \<Rightarrow> string \<Rightarrow> vk_step list" where
  "gdpa_steps drv name =
     Vk_call (Resolve_device name) # (if vd_proc drv name then lookups (100 + 10000) (Resolve_device name) else [])"

definition gdpa_avg :: "vk_driver \<Rightarrow> nat \<Rightarrow> string \<Rightarrow> f64" where
  "gdpa_avg drv i name = (if vd_proc drv name then f64_div (vd_elapsed drv i) (Fin 10000) else Fin 0)"

definition mean_of :: "f64 list \<Rightarrow> f64" where
  "mean_of xs = f64_div (fold (\<lambda>x t. f64_add t x) xs (Fin 0)) (Fin (of_nat (length xs)))"

definition overhead_main :: "vk_driver \<Rightarrow> (int \<times> vk_call list \<times> (f64 \<times> f64) option) option" where
  "overhead_main drv =
     (case run_steps drv (instance_steps drv False) [] of
        (False, tr) \<Rightarrow> Some (1, tr, None)
      | (True, tr) \<Rightarrow>
          if vd_device_count drv = 0 then None
          else
            (case run_steps drv [Vk_check (Create_device (queue_index (graphics_queue drv))),
                Vk_call (Resolve_instance ''vkGetDeviceProcAddr'')] tr of
               (False, tr) \<Rightarrow> Some (1, tr, None)
             | (True, tr) \<Rightarrow>
                 if \<not> vd_proc drv ''vkGetDeviceProcAddr'' then None
                 else
                   let tr = snd (run_steps drv (concat (map (gdpa_steps drv) overhead_functions)
                         @ map (\<lambda>f. Vk_call (Resolve_device f)) [''vkCmdDrawIndexed'', ''vkCmdDraw'', ''vkCmdDispatch'']
                         @ lookups 10000 (Resolve_device ''vkCmdDrawIndexed'') @ device_cleanup) tr);
                       avg = mean_of (map2 (gdpa_avg drv) [0..<length overhead_functions] overhead_functions)
                   in Some (0, tr, Some (avg, frame_budget_pct avg))))"

definition instance_functions :: "string list" where
  "instance_functions = [''vkCreateDevice'', ''vkDestroyDevice'', ''vkCreateImageView'', ''vkDestroyImageView'', ''vkCreateImage'',
     ''vkDestroyImage'', ''vkCreateCommandPool'', ''vkAllocateCommandBuffers'']"

definition device_functions :: "string list" where
  "device_functions = [''vkCmdDrawIndexed'', ''vkCmdDraw'', ''vkCmdDispatch'', ''vkCmdPushConstants'', ''vkCmdBindDescriptorSets'',
     ''vkCmdBindPipeline'', ''vkCreateImage'', ''vkDestroyImage'']"

definition execution_main :: "vk_driver \<Rightarrow> (int \<times> vk_call list \<times> (f64 \<times> f64) option) option" where
  "execution_main drv =
     (case run_steps drv (instance_steps drv True) [] of
        (False, tr) \<Rightarrow> Some (1, tr, None)
      | (True, tr) \<Rightarrow>
          if vd_device_count drv = 0 then None
          else
            (case run_steps drv [Vk_check (Create_device (queue_index (graphics_queue drv))),
                Vk_call (Resolve_instance ''vkGetInstanceProcAddr'')] tr of
               (False, tr) \<Rightarrow> Some (1, tr, None)
             | (True, tr) \<Rightarrow>
                 if \<not> vd_proc drv ''vkGetInstanceProcAddr'' then None
                 else
                   let tr = snd (run_steps drv (concat (map (\<lambda>f. lookups (100 + 10000) (Resolve_instance f)) instance_functions)
                         @ [Vk_call (Resolve_instance ''vkGetDeviceProcAddr'')]) tr)
                   in if \<not> vd_proc drv ''vkGetDeviceProcAddr'' then None
                      else
                        let tr = snd (run_steps drv (concat (map (\<lambda>f. lookups (100 + 10000) (Resolve_device f)) device_functions)
                              @ device_cleanup) tr);
                            timed = (\<lambda>k. map (\<lambda>i. f64_div (vd_elapsed drv i) (Fin 10000)) [k..<k + 8])
                        in Some (0, tr, Some (mean_of (timed 0), mean_of (timed 8)))))"

section \<open>Specification: the lifetime of objects\<close>

text \<open>What a call needs alive. A command buffer lives with its pool.\<close>

fun needs :: "vk_call \<Rightarrow> vk_object list" where
  "needs (Create_instance layer) = []"
| "needs (Create_device q) = [Vk_instance]"
| "needs (Create_buffer b n usage) = [Vk_device]"
| "needs (Allocate_memory m n index) = [Vk_device]"
| "needs (Bind_memory b m) = [Vk_device, b, m]"
| "needs (Map_memory m) = [Vk_device, m]"
| "needs (Unmap_memory m) = [Vk_device, m]"
| "needs (Create_command_pool q) = [Vk_device]"
| "needs (Copy_buffer a b n) = [Command_pool, a, b]"
| "needs (Resolve_instance name) = [Vk_instance]"
| "needs (Resolve_device name) = [Vk_device]"
| "needs (Queue_wait q) = [Vk_device]"
| "needs (Destroy_object x) = [x]"
| "needs c = [Vk_device, Command_pool]"

fun makes :: "vk_call \<Rightarrow> vk_object option" where
  "makes (Create_instance layer) = Some Vk_instance"
| "makes (Create_device q) = Some Vk_device"
| "makes (Create_buffer b n usage) = Some b"
| "makes (Allocate_memory m n index) = Some m"
| "makes (Create_command_pool q) = Some Command_pool"
| "makes c = None"

fun owns :: "vk_object \<Rightarrow> vk_object list" where
  "owns Vk_instance = [Vk_device]"
| "owns Vk_device = [Staging_buffer, Staging_memory, Device_buffer, Device_memory, Command_pool]"
| "owns x = []"

fun destroys :: "vk_call \<Rightarrow> bool" where
  "destroys (Destroy_object x) = True"
| "destroys c = False"

text \<open>One call on the list of live objects: \<open>None\<close> breaks a rule.\<close>

definition life_step :: "bool \<Rightarrow> vk_call \<Rightarrow> vk_object list \<Rightarrow> vk_object list option" where
  "life_step success c live =
     (if \<not> list_all (\<lambda>x. x \<in> set live) (needs c) then None
      else
        (case c of
           Destroy_object x \<Rightarrow> if list_ex (\<lambda>y. y \<in> set live) (owns x) then None else Some (removeAll x live)
         | _ \<Rightarrow>
             (case makes c of
                Some x \<Rightarrow> if \<not> success then Some live else if x \<in> set live then None else Some (x # live)
              | None \<Rightarrow> Some live)))"

fun lifetimes :: "vk_driver \<Rightarrow> vk_call list \<Rightarrow> vk_call list \<Rightarrow> vk_object list \<Rightarrow> vk_object list option" where
  "lifetimes drv tr [] live = Some live"
| "lifetimes drv tr (c # cs) live =
     Option.bind (life_step (vd_result drv tr c = 0) c live) (lifetimes drv (tr @ [c]) cs)"

section \<open>Lemmas\<close>

text \<open>The plan: the lifetimes when every call succeeds.\<close>

fun plan :: "vk_call list \<Rightarrow> vk_object list \<Rightarrow> vk_object list option" where
  "plan [] live = Some live"
| "plan (c # cs) live = Option.bind (life_step True c live) (plan cs)"

fun unchecked_ok :: "vk_step \<Rightarrow> bool" where
  "unchecked_ok (Vk_call c) \<longleftrightarrow> makes c = None"
| "unchecked_ok (Vk_check c) = True"

lemma life_step_none: "makes c = None \<Longrightarrow> life_step a c live = life_step b c live"
  by (cases c) (simp_all add: life_step_def)

lemma life_step_fail: "life_step True c live \<noteq> None \<Longrightarrow> \<exists>live'. life_step False c live = Some live'"
  by (cases c) (auto simp: life_step_def split: if_splits)

lemma run_steps_plan:
  assumes "plan (map call_of ss) live = Some live'" "list_all unchecked_ok ss" "run_steps drv ss tr = (ok, tr')"
  shows "\<exists>cs live1. tr' = tr @ cs \<and> lifetimes drv tr cs live = Some live1 \<and> set cs \<subseteq> call_of ` set ss \<and> (ok \<longrightarrow> live1 = live')"
  using assms
proof (induction ss arbitrary: live tr)
  case Nil
  then show ?case by auto
next
  case (Cons s ss)
  obtain live1 where one: "life_step True (call_of s) live = Some live1" "plan (map call_of ss) live1 = Some live'"
    using Cons.prems(1) by (auto simp: bind_eq_Some_conv)
  show ?case
  proof (cases "run_steps drv ss (tr @ [call_of s]) = (ok, tr') \<and> life_step (vd_result drv tr (call_of s) = 0) (call_of s) live = Some live1")
    case True
    then obtain cs live2 where "tr' = (tr @ [call_of s]) @ cs" "lifetimes drv (tr @ [call_of s]) cs live1 = Some live2"
      "set cs \<subseteq> call_of ` set ss" "ok \<longrightarrow> live2 = live'"
      using Cons.IH [OF one(2) _ conjunct1 [OF True]] Cons.prems(2) by auto
    with True show ?thesis by (intro exI [of _ "call_of s # cs"] exI [of _ live2]) auto
  next
    case False
    then obtain c where s: "s = Vk_check c" "vd_result drv tr c \<noteq> 0"
      using Cons.prems(2,3) one(1) by (cases s) (auto split: if_splits intro: trans [OF life_step_none])
    then obtain live2 where "life_step False c live = Some live2" using life_step_fail [of c live] one(1) by auto
    with s Cons.prems(3) show ?thesis by (intro exI [of _ "[c]"] exI [of _ live2]) auto
  qed
qed

lemma lifetimes_append:
  "lifetimes drv tr (cs @ ds) live = Option.bind (lifetimes drv tr cs live) (lifetimes drv (tr @ cs) ds)"
  by (induction cs arbitrary: tr live) (simp_all split: Option.bind_split)

lemma plan_append: "plan (cs @ ds) live = Option.bind (plan cs live) (plan ds)"
  by (induction cs arbitrary: live) (simp_all split: Option.bind_split)

lemma plan_idle:
  "list_all (\<lambda>c. makes c = None \<and> \<not> destroys c \<and> list_all (\<lambda>x. x \<in> set live) (needs c)) cs \<Longrightarrow> plan cs live = Some live"
proof (induction cs)
  case (Cons c cs)
  then show ?case by (cases c) (simp_all add: life_step_def)
qed simp

lemma run_steps_append:
  "run_steps drv (as @ bs) tr = (case run_steps drv as tr of (True, tr) \<Rightarrow> run_steps drv bs tr | (False, tr) \<Rightarrow> (False, tr))"
  by (induction drv as tr rule: run_steps.induct) simp_all

lemma run_steps_unchecked: "run_steps drv (map Vk_call cs) tr = (True, tr @ cs)"
  by (induction cs arbitrary: tr) simp_all

text \<open>A run that fails has destroyed nothing, when all checks come before the cleanup; one that succeeds has
  followed its plan.\<close>

lemma run_steps_outcome:
  assumes "plan (map call_of as) live = Some live1" "list_all unchecked_ok as" "list_all (\<lambda>s. \<not> destroys (call_of s)) as"
    and "plan ds live1 = Some live2" "list_all (\<lambda>c. makes c = None) ds"
    and "run_steps drv (as @ map Vk_call ds) tr = (ok, tr')"
  obtains cs live' where "tr' = tr @ cs" "lifetimes drv tr cs live = Some live'"
    "ok \<Longrightarrow> live' = live2" "\<not> ok \<Longrightarrow> list_all (\<lambda>c. \<not> destroys c) cs"
proof -
  obtain ok1 tr1 where one: "run_steps drv as tr = (ok1, tr1)" by fastforce
  show thesis
  proof (cases ok1)
    case True
    then have "ok" using assms(6) one by (simp add: run_steps_append run_steps_unchecked)
    have "plan (map call_of (as @ map Vk_call ds)) live = Some live2"
      using assms(1,4) by (simp add: plan_append comp_def)
    moreover have "list_all unchecked_ok (as @ map Vk_call ds)" using assms(2,5) by (auto simp: list_all_iff)
    ultimately show thesis using run_steps_plan [OF _ _ assms(6), of live live2] \<open>ok\<close> that by blast
  next
    case False
    then have res: "\<not> ok" "tr' = tr1" using assms(6) one by (simp_all add: run_steps_append)
    obtain cs live' where "tr1 = tr @ cs" "lifetimes drv tr cs live = Some live'" "set cs \<subseteq> call_of ` set as"
      using run_steps_plan [OF assms(1,2) one] by blast
    with that res assms(3) show thesis by (fastforce simp: list_all_iff)
  qed
qed

lemma instance_outcome:
  assumes "run_steps drv (instance_steps drv fallback) [] = (ok, tr)"
  shows "list_all (\<lambda>c. \<not> destroys c) tr \<and> (\<exists>live. lifetimes drv [] tr [] = Some live \<and> (ok \<longrightarrow> live = [Vk_instance]))"
  using assms by (auto simp: instance_steps_def VK_ERROR_LAYER_NOT_PRESENT_def life_step_def split: if_splits)

lemma bandwidth_plan:
  "\<exists>as. bandwidth_steps drv q = as @ bandwidth_cleanup
     \<and> plan (map call_of as) [Vk_instance] = Some [Command_pool, Device_memory, Device_buffer, Staging_memory, Staging_buffer, Vk_device, Vk_instance]
     \<and> list_all unchecked_ok as \<and> list_all (\<lambda>s. \<not> destroys (call_of s)) as"
  by (intro exI [of _ "Vk_check (Create_device q)
     # buffer_steps drv Staging_buffer Staging_memory 1 (hostVisibleIdx drv)
     @ fill_steps drv
     @ buffer_steps drv Device_buffer Device_memory 2 (deviceLocalIdx drv)
     @ [Vk_check (Create_command_pool q), Vk_check Allocate_command_buffer]
     @ concat (replicate ITERATIONS (copy_steps q))"])
    (simp add: bandwidth_steps_def buffer_steps_def fill_steps_def copy_steps_def ITERATIONS_def numeral_eq_Suc life_step_def)

text \<open>The resolution benchmarks: after the device, lookups alone and the cleanup.\<close>

definition idle_lookup :: "vk_step \<Rightarrow> bool" where
  "idle_lookup s \<longleftrightarrow> (case s of Vk_call (Resolve_instance f) \<Rightarrow> True | Vk_call (Resolve_device f) \<Rightarrow> True | _ \<Rightarrow> False)"

lemma idle_lookups:
  "list_all idle_lookup (lookups n (Resolve_instance f))" "list_all idle_lookup (lookups n (Resolve_device f))"
  "list_all idle_lookup (gdpa_steps drv f)"
  by (simp_all add: lookups_def gdpa_steps_def idle_lookup_def list_all_iff)

lemma idle_concat: "(\<And>f. list_all idle_lookup (g f)) \<Longrightarrow> list_all idle_lookup (concat (map g fs))"
  by (induction fs) simp_all

lemma idle_run:
  assumes "list_all idle_lookup ss"
  shows "run_steps drv ss tr = (True, tr @ map call_of ss) \<and> list_all (\<lambda>c. \<not> destroys c) (map call_of ss)
    \<and> lifetimes drv tr (map call_of ss) [Vk_device, Vk_instance] = Some [Vk_device, Vk_instance]"
  using assms
  by (induction ss arbitrary: tr) (auto simp: idle_lookup_def life_step_def split: vk_step.splits vk_call.splits)

lemma idle_join: "list_all idle_lookup ss \<Longrightarrow> run_steps drv cs (snd (run_steps drv ss tr)) = run_steps drv (ss @ cs) tr"
  using idle_run [of ss drv tr] by (simp add: run_steps_append)

lemma idle_cleanup:
  assumes "list_all idle_lookup ss"
  shows "\<exists>cs. snd (run_steps drv (ss @ device_cleanup) tr) = tr @ cs \<and> lifetimes drv tr cs [Vk_device, Vk_instance] = Some []"
  using idle_run [OF assms, of drv tr]
  by (intro exI [of _ "map call_of ss @ [Destroy_object Vk_device, Destroy_object Vk_instance]"])
    (simp add: run_steps_append device_cleanup_def lifetimes_append life_step_def)

lemma device_outcome:
  assumes "run_steps drv [Vk_check (Create_device q), Vk_call (Resolve_instance f)] tr = (ok, tr')"
  shows "\<exists>cs live. tr' = tr @ cs \<and> list_all (\<lambda>c. \<not> destroys c) cs \<and> lifetimes drv tr cs [Vk_instance] = Some live
    \<and> (ok \<longrightarrow> live = [Vk_device, Vk_instance])"
  using assms by (auto simp: life_step_def split: if_splits)

definition outcome_of :: "(int \<times> vk_call list \<times> 'r option) option \<Rightarrow> (int \<times> vk_call list) option" where
  "outcome_of r = map_option (\<lambda>(code, tr, report). (code, tr)) r"

definition tidy :: "vk_driver \<Rightarrow> int \<times> vk_call list \<Rightarrow> bool" where
  "tidy drv r = (case r of (code, tr) \<Rightarrow>
     code = 0 \<and> lifetimes drv [] tr [] = Some []
     \<or> code = 1 \<and> lifetimes drv [] tr [] \<noteq> None \<and> list_all (\<lambda>c. \<not> destroys c) tr)"

lemma tidy_fail: "lifetimes drv [] tr [] = Some live \<Longrightarrow> list_all (\<lambda>c. \<not> destroys c) tr \<Longrightarrow> tidy drv (1, tr)"
  by (simp add: tidy_def)

lemma tidy_done: "lifetimes drv [] tr [] = Some [] \<Longrightarrow> tidy drv (0, tr)"
  by (simp add: tidy_def)

lemma bandwidth_tidy:
  assumes "outcome_of (bandwidth_main drv) = Some r"
  shows "tidy drv r"
proof -
  obtain ok tr where one: "run_steps drv (instance_steps drv True) [] = (ok, tr)" by fastforce
  from instance_outcome [OF one] obtain live where inst: "list_all (\<lambda>c. \<not> destroys c) tr" "lifetimes drv [] tr [] = Some live"
    "ok \<longrightarrow> live = [Vk_instance]" by blast
  show ?thesis
  proof (cases "ok \<and> vd_device_count drv \<noteq> 0 \<and> graphics_queue drv \<noteq> None")
    case False
    then have "r = (1, tr)" using assms one
      by (cases ok) (auto simp: bandwidth_main_def outcome_of_def split: if_splits option.splits)
    then show ?thesis using tidy_fail [OF inst(2,1)] by simp
  next
    case True
    then obtain q where q: "graphics_queue drv = Some q" by auto
    obtain ok2 tr2 where two: "run_steps drv (bandwidth_steps drv (of_nat q)) tr = (ok2, tr2)" by fastforce
    obtain as where as: "bandwidth_steps drv (of_nat q) = as @ bandwidth_cleanup"
      "plan (map call_of as) [Vk_instance] = Some [Command_pool, Device_memory, Device_buffer, Staging_memory, Staging_buffer, Vk_device, Vk_instance]"
      "list_all unchecked_ok as" "list_all (\<lambda>s. \<not> destroys (call_of s)) as"
      using bandwidth_plan [of drv "of_nat q"] by blast
    let ?ds = "map Destroy_object [Command_pool, Device_buffer, Device_memory, Staging_buffer, Staging_memory, Vk_device, Vk_instance]"
    have ds: "bandwidth_cleanup = map Vk_call ?ds" by (simp add: bandwidth_cleanup_def)
    obtain cs live' where cs: "tr2 = tr @ cs" "lifetimes drv tr cs [Vk_instance] = Some live'"
      "ok2 \<Longrightarrow> live' = []" "\<not> ok2 \<Longrightarrow> list_all (\<lambda>c. \<not> destroys c) cs"
      by (rule run_steps_outcome [OF as(2-4) _ _ two [unfolded as(1) ds], of "[]"])
        (simp_all add: life_step_def)
    have "lifetimes drv [] tr2 [] = Some live'" using inst cs(1,2) True by (simp add: lifetimes_append)
    moreover have "r = ((if ok2 then 0 else 1), tr2)"
      using assms one two True q by (cases ok2) (auto simp: bandwidth_main_def outcome_of_def)
    ultimately show ?thesis using cs inst(1) by (cases ok2) (auto simp: tidy_def)
  qed
qed

lemma resolution_tidy:
  assumes one: "run_steps drv (instance_steps drv fallback) [] = (ok, tr)"
    and two: "run_steps drv [Vk_check (Create_device q), Vk_call (Resolve_instance f)] tr = (ok2, tr2)"
  shows "tidy drv (1, tr)" and "ok \<Longrightarrow> tidy drv (1, tr2)"
    and "ok \<Longrightarrow> ok2 \<Longrightarrow> list_all idle_lookup ss \<Longrightarrow> tidy drv (0, snd (run_steps drv (ss @ device_cleanup) tr2))"
proof -
  from instance_outcome [OF one] obtain live where inst: "list_all (\<lambda>c. \<not> destroys c) tr" "lifetimes drv [] tr [] = Some live"
    "ok \<longrightarrow> live = [Vk_instance]" by blast
  from device_outcome [OF two] obtain cs live2 where dev: "tr2 = tr @ cs" "list_all (\<lambda>c. \<not> destroys c) cs"
    "lifetimes drv tr cs [Vk_instance] = Some live2" "ok2 \<longrightarrow> live2 = [Vk_device, Vk_instance]" by blast
  show "tidy drv (1, tr)" by (rule tidy_fail [OF inst(2,1)])
  have both: "lifetimes drv [] tr2 [] = Some live2" if ok using inst dev that by (simp add: lifetimes_append)
  show "tidy drv (1, tr2)" if ok using tidy_fail [OF both [OF that]] inst(1) dev(1,2) by simp
  show "tidy drv (0, snd (run_steps drv (ss @ device_cleanup) tr2))" if h: ok ok2 "list_all idle_lookup ss"
  proof -
    obtain ds where "snd (run_steps drv (ss @ device_cleanup) tr2) = tr2 @ ds"
      "lifetimes drv tr2 ds [Vk_device, Vk_instance] = Some []" using idle_cleanup [OF h(3)] by blast
    then show ?thesis using both [OF h(1)] dev(4) h(2) by (simp add: tidy_done lifetimes_append)
  qed
qed

lemma overhead_tidy:
  assumes "outcome_of (overhead_main drv) = Some r"
  shows "tidy drv r"
proof -
  obtain ok tr where one: "run_steps drv (instance_steps drv False) [] = (ok, tr)" by fastforce
  obtain ok2 tr2 where two: "run_steps drv [Vk_check (Create_device (queue_index (graphics_queue drv))),
      Vk_call (Resolve_instance ''vkGetDeviceProcAddr'')] tr = (ok2, tr2)" by fastforce
  let ?ss = "concat (map (gdpa_steps drv) overhead_functions)
      @ map (\<lambda>f. Vk_call (Resolve_device f)) [''vkCmdDrawIndexed'', ''vkCmdDraw'', ''vkCmdDispatch'']
      @ lookups 10000 (Resolve_device ''vkCmdDrawIndexed'')"
  have ss: "list_all idle_lookup ?ss" by (simp add: idle_lookups idle_concat) (simp add: idle_lookup_def)
  note tidy = resolution_tidy [OF one two]
  show ?thesis
    using assms tidy(1,2) tidy(3) [OF _ _ ss] one two
    by (auto simp: overhead_main_def outcome_of_def Let_def simp del: run_steps.simps split: if_splits prod.splits bool.splits)
qed

lemma execution_tidy:
  assumes "outcome_of (execution_main drv) = Some r"
  shows "tidy drv r"
proof -
  obtain ok tr where one: "run_steps drv (instance_steps drv True) [] = (ok, tr)" by fastforce
  obtain ok2 tr2 where two: "run_steps drv [Vk_check (Create_device (queue_index (graphics_queue drv))),
      Vk_call (Resolve_instance ''vkGetInstanceProcAddr'')] tr = (ok2, tr2)" by fastforce
  let ?as = "concat (map (\<lambda>f. lookups (100 + 10000) (Resolve_instance f)) instance_functions)
      @ [Vk_call (Resolve_instance ''vkGetDeviceProcAddr'')]"
  let ?bs = "concat (map (\<lambda>f. lookups (100 + 10000) (Resolve_device f)) device_functions)"
  have as: "list_all idle_lookup ?as" by (simp add: idle_lookups idle_concat) (simp add: idle_lookup_def)
  have ss: "list_all idle_lookup (?as @ ?bs)" using as by (simp add: idle_lookups idle_concat)
  have join: "run_steps drv (?bs @ device_cleanup) (snd (run_steps drv ?as tr2)) = run_steps drv ((?as @ ?bs) @ device_cleanup) tr2"
    using idle_join [OF as, of drv "?bs @ device_cleanup" tr2] by (simp only: append_assoc)
  note tidy = resolution_tidy [OF one two]
  show ?thesis
    using assms tidy(1,2) tidy(3) [OF _ _ ss] one two join
    by (auto simp: execution_main_def outcome_of_def Let_def simp del: run_steps.simps split: if_splits prod.splits bool.splits)
qed

section \<open>Properties\<close>

text \<open>C38: The benchmarks on a real device respect the lifetimes of their objects, however the driver answers each call.
  No call ever uses or destroys an object that is not alive, or destroys one whose children are alive. A
  benchmark that ends with 0 has destroyed everything it made; one that ends with 1 has destroyed nothing,
  so whatever it had made by then is left behind.\<close>
theorem benchmarks_respect_lifetimes:
  assumes "result \<in> {outcome_of (bandwidth_main drv), outcome_of (overhead_main drv), outcome_of (execution_main drv)}"
    and "result = Some (code, tr)"
  shows "(code = 0 \<and> lifetimes drv [] tr [] = Some []) \<or>
    (code = 1 \<and> lifetimes drv [] tr [] \<noteq> None \<and> list_all (\<lambda>c. \<not> destroys c) tr)"
  using assms bandwidth_tidy [of drv "(code, tr)"] overhead_tidy [of drv "(code, tr)"] execution_tidy [of drv "(code, tr)"]
  by (auto simp: tidy_def)

definition demo_driver :: vk_driver where
  "demo_driver = \<lparr>vd_result = (\<lambda>tr c. if c = Begin_command \<and> length tr > 20 then - 4 else 0), vd_device_count = 1, vd_queue_flags = [2, 1],
     vd_memory_types = [1, 6, 7], vd_requirement = (\<lambda>x. BUFFER_SIZE), vd_maps = True, vd_proc = (\<lambda>f. True),
     vd_elapsed = (\<lambda>i. Fin 2)\<rparr>"

theorem benchmarks_respect_lifetimes_witness:
  "\<exists>tr. outcome_of (bandwidth_main demo_driver) = Some (1, tr) \<and> lifetimes demo_driver [] tr [] \<noteq> None
    \<and> list_all (\<lambda>c. \<not> destroys c) tr"
proof -
  have out: "map_option fst (outcome_of (bandwidth_main demo_driver)) = Some 1" by code_simp
  then obtain tr where tr: "outcome_of (bandwidth_main demo_driver) = Some (1, tr)" by auto
  from benchmarks_respect_lifetimes [OF _ tr, of demo_driver] show ?thesis using tr by auto
qed

text \<open>The two memory types are chosen apart, each the last that has its flags; when there is none, the index is
  the largest word, and the allocation that follows is made with it all the same.\<close>
theorem memory_index_last:
  "memory_index flags drv = - 1 \<and> (\<forall>i < length (vd_memory_types drv). vd_memory_types drv ! i AND flags \<noteq> flags)
    \<or> (\<exists>i < length (vd_memory_types drv). memory_index flags drv = of_nat i \<and> vd_memory_types drv ! i AND flags = flags
        \<and> (\<forall>j < length (vd_memory_types drv). i < j \<longrightarrow> vd_memory_types drv ! j AND flags \<noteq> flags))"
proof -
  let ?ok = "\<lambda>i. vd_memory_types drv ! i AND flags = flags"
  have "(let r = fold (\<lambda>i found. if ?ok i then of_nat i else found) [0..<n] (- 1 :: u32) in
      r = - 1 \<and> (\<forall>i < n. \<not> ?ok i) \<or> (\<exists>i < n. r = of_nat i \<and> ?ok i \<and> (\<forall>j < n. i < j \<longrightarrow> \<not> ?ok j)))" for n
  proof (induction n)
    case (Suc n)
    show ?case
    proof (cases "?ok n")
      case True
      then show ?thesis by (auto simp: Let_def intro!: exI [of _ n])
    next
      case False
      with Suc show ?thesis by (auto simp: Let_def less_Suc_eq)
    qed
  qed simp
  from this [of "length (vd_memory_types drv)"] show ?thesis by (simp only: memory_index_def Let_def)
qed

end
