(* ===== verification/Spec2Isabelle.thy ===== *)
theory Spec2Isabelle
  imports LayerChain LiveReload SessionLog Cli Watchdog Privacy ModelFile ModelCore ModelServe CriticalPath VulkanBench Paths
begin

text \<open>
  Project Synapse: a verification development for the C++ code under \<open>src/synapse\<close> and the Rust model
  library under \<open>src/rust\<close> that it calls.

  THE PROGRAM. Synapse is a Vulkan layer. The loader gives it every intercepted call of an application
  (\<open>layer_entry.cpp\<close>); the layer keeps a context per device, whose \<open>SynapseCore\<close>
  (\<open>synapse_core.cpp\<close>) decides for every draw and dispatch whether to pass it through (the oracle
  path), to specialise its shader first (JIT) or to describe it as a stream of bytecode packets (HAI).
  The decision comes from a contextual bandit, from the features that are available and from the
  hardware blocklist. Around that decision the core keeps a lifecycle state machine, an atomic
  configuration snapshot reloaded from a file, degradable feature flags, a write-ahead telemetry log
  with crash recovery, caches for shaders and texture data, predictors, power governance and a session
  report written as JSON. A second front end patches Direct3D 12 vtables. A command line tool and a
  simulator of a panning camera exercise the same classes without a driver; benchmarks measure a stub and
  a real device. Behind a C interface a library in Rust holds two neural networks that score the
  backends, with the parts to train and serve them.

  THE MODEL. A class is a record of its fields, an operation a function from the state before to the
  result and the state after; a mutex-protected call is one such function. Exceptions are the left side
  of a sum or \<open>None\<close>. What the program asks of the outside (clocks, random numbers, files, the next
  Vulkan layer, \<open>VirtualProtect\<close>, the number parser of the library, the printing of doubles, thread
  identifiers, the random numbers, summation order, transcendental functions, encoder and hash of the Rust
  libraries) is an argument; what it does to the outside is a trace, the contents of a file or, for the command line tool, a tree of
  files and directories. What crosses an interface whose sides declare it differently is what is written:
  of the \<open>epsilon_greedy\<close> of a model's answer one byte, of which C++ reads four (theory \<open>FfiBridge\<close>).
  Unsigned integers are words of their width and wrap. \<open>float\<close> and \<open>double\<close> are values of \<open>fp\<close>
  (theory \<open>IeeeFloat\<close>): rationals with a rounding function, infinities and NaN; no theorem depends on
  more of rounding than what is proved there. Ordered and unordered maps are association lists with
  distinct keys; iteration order is only relied on where the C++ map is ordered.

  Where several threads meet in shared variables, there is, beside the model of the whole call, a step
  relation whose steps are the single atomic accesses of each thread: \<open>spsc_step\<close> (telemetry ring),
  \<open>sm_step\<close> (state machine), \<open>update_step\<close> (configuration), \<open>cache_race\<close> (JIT cache), \<open>wd_step\<close>
  (watchdog), \<open>compile_step\<close> (shader cache), \<open>load_step\<close> (model slots). They are sequentially
  consistent: reorderings weaker than acquire and release are not modelled.

  THEORIES, bottom up.

  \<^item> \<open>Prelude\<close>: word types, association lists, byte encodings, lemmas on lists and words.
    \<open>Refine\<close>: runs of operations, the states a step relation reaches, the interfaces \<open>simulation\<close>
    and \<open>step_invariant\<close>. \<open>Text\<close>: decimal printing. \<open>Paths\<close>: the names of the program's files.
    \<open>IeeeFloat\<close>: binary32 and binary64; \<open>FloatBits\<close>: the values of 32-bit words, and a word for every float.
    \<open>Ring\<close>: the interface \<open>bounded_fifo\<close> of a bounded queue, with what every client may rely on.
  \<^item> \<open>AtomicState\<close> (\<open>atomic/atomic_state.h\<close>), \<open>AtomicConfig\<close> (\<open>atomic/atomic_config.h\<close>),
    \<open>Degradation\<close> (\<open>atomic/graceful_degradation.h\<close>), \<open>Wal\<close> (\<open>atomic/atomic_telemetry.h\<close>),
    \<open>SchemaMigration\<close> (\<open>protocol/schema_migration.h\<close>), \<open>CrashRecovery\<close>
    (\<open>recovery/crash_recovery.h\<close>), \<open>Watchdog\<close> (\<open>recovery/watchdog.h\<close>): the production modules.
  \<^item> \<open>Umd\<close> (\<open>synapse_umd.h\<close>): telemetry ring, analyzer, scheduler, hook. \<open>ItsCache\<close>
    (\<open>its_cache_controller.h\<close>), \<open>Jit\<close> (\<open>hash_utils.h\<close>, \<open>jit_specialization_cache.h\<close>,
    \<open>synapse_jit_backend.h\<close>), \<open>Hai\<close> (\<open>synapse_hai_builder.h\<close>, \<open>hai_frontend_sim.h\<close>,
    \<open>push_constant_optimizer.h\<close>), \<open>Streaming\<close> (\<open>descriptor_tracker.h\<close>, \<open>sync_manager.h\<close>,
    \<open>synapse_sync_manager.h\<close>, \<open>predictive_engine.h\<close>,
    \<open>pgro_smoothing_engine\<close>, \<open>thermal_aware_arbiter\<close>), \<open>Residency\<close> (\<open>its_engine_hardened.h\<close> in each
    of its builds, and \<open>tools/simulate_panning.cpp\<close>), \<open>Ml\<close> and \<open>MlCheckpoint\<close> (\<open>ml/\<close>), \<open>FfiBridge\<close>
    (\<open>ml/ffi_model_bridge.h\<close> and the store of models in \<open>src/rust/crates/igpu_ml_ffi\<close>), \<open>PowerGov\<close>
    (\<open>platform_config.h\<close>, \<open>power_estimator.h\<close>, \<open>dvfs_controller\<close>, \<open>forecasting_profiler.cpp\<close>,
    \<open>its_confidence_aggregator.h\<close>), \<open>Profile\<close> (\<open>personal/user_profile.h\<close>), \<open>Privacy\<close>
    (\<open>personal/privacy_telemetry.h\<close>), \<open>HotReload\<close> (\<open>hotreload/\<close>), \<open>D3d12\<close>
    (\<open>synapse_d3d12_helper_dll.cpp\<close>, \<open>synapse_d3d12_layer.cpp\<close>), \<open>TelemetryTypes\<close>
    (\<open>telemetry_types.h\<close>) and \<open>JsonReport\<close> (\<open>json_report_writer.cpp\<close>).
  \<^item> \<open>Core\<close> (\<open>synapse_core.cpp\<close>) composes them: one definition per intercepted call, construction,
    destruction, configuration reload, recovery and report. \<open>CoreFiles\<close> adds what the core does with
    files and with the helper library. \<open>Layer\<close> (\<open>layer_entry.cpp\<close>,
    \<open>hardware/hardware_blocklist.h\<close>) puts one core behind each device; its \<open>intercept_step\<close> is any call of the
    application or turn of a core's thread. \<open>LayerChain\<close>: the loader's chain of
    links, and several layers on top of each other. \<open>TestApi\<close> (\<open>testing/\<close>)
    observes a core. \<open>CoreShape\<close> (what every call of the core keeps), \<open>LiveReload\<close> (the core under
    its watcher thread) and \<open>SessionLog\<close> (the log file a session of calls leaves) are the properties of
    the composition. \<open>Cli\<close>: \<open>tools/synapse_cli.cpp\<close>. \<open>CriticalPath\<close>: \<open>tools/bench_critical_path.cpp\<close>.
    \<open>VulkanBench\<close>: the three benchmarks on a real device, \<open>tools/bench_memory_bandwidth.cpp\<close>,
    \<open>tools/benchmark_overhead.cpp\<close> and \<open>tools/bench_execution_overhead.cpp\<close>.
  \<^item> \<open>NeuralNet\<close>: the two models (\<open>igpu_ml_models\<close>), written once for both, and as the models of \<open>FfiBridge\<close>.
    \<open>ModelLaws\<close>: what holds of them and of a program that uses them. \<open>ModelFile\<close>: saving and loading.
    \<open>ModelCore\<close>: replay buffer, registry, trainer, statistics and engine (\<open>igpu_ml_core\<close>, \<open>igpu_ml_optim\<close>).
    \<open>ModelServe\<close>: the Python module and the handlers of the dashboard (\<open>igpu_ml_python\<close>, \<open>igpu_ml_dashboard\<close>).

  INTERFACES. \<open>simulation\<close> is the contract of a component that answers: it answers every run of legal
  operations as a simpler one does on the abstraction of its state, and keeps its invariant. The
  synaptic cache (against recency lists), the synchronisation manager (against fences without flags),
  the shader cache (against a map) and the model bridges (against private models) are interpretations.
  \<open>bounded_fifo\<close> is what a producer and a consumer may assume of a ring (it answers as a list of
  bounded length does); it is itself a \<open>simulation\<close>, and both rings of the program are
  interpretations. \<open>slot_patcher\<close> is what a component that overwrites function pointers promises (the
  memory under the patches is what it was); the helper's hook table and the queue interceptor are
  interpretations. \<open>step_invariant\<close> is an invariant of a step relation; the state machine, the
  configuration and the telemetry ring are interpretations. \<open>quiet_invariant\<close> is a property of the core
  that depends on none of the parts a draw, a dispatch or a bind changes freely, and \<open>call_invariant\<close>
  one that survives logging too: from a few laws follows that every intercepted call and every session
  keeps it. The shape of the core's data, a dormant streaming engine, a block on draw telemetry and the
  identity of the log are interpretations. \<open>reloading\<close> is a client of the file watcher; a client that records what it is given
  and the core itself are interpretations.

  WHAT IS SHOWN. Invariants: the audit log of the state machine, the published configuration, the
  accounting of a whole session, prediction counters, the shape of every table of the core, the
  accounting of the residency engine. Refinements and equivalences: the synaptic cache
  is least-recently-used within its budget, the JIT cache is direct-mapped, the shader cache is a map,
  the telemetry ring is a queue under every interleaving of its accesses, the synchronisation manager's
  dirty flag is sound, the helper restores memory, the simulator decodes what the encoder wrote.
  Round trips: log records through the file and through a crash, the log of a whole session of calls, recovery metadata and its legacy form,
  push-constant deltas, floats, checkpoints word for word, model files, configuration files, JSON strings. Termination and
  errors: the migration search is total, sound and complete; migration throws only without a path.
  Bounds: features and plans stay in range for every input; the scores of a model are a softmax and its choice
  their greatest. Types: the networks keep the shape of their configuration through every program of bridges, so no
  foreign function panics. The dashboard serves one model; the trainer and the models' own batches agree. The
  gate on the critical path in whole numbers, whatever the rounding of its percentiles; the lifetimes of Vulkan
  objects in the benchmarks for every driver. Layers on top of each other reach the driver. Liveness: a recovered feature, a stalled
  shim, and a configuration file whose last edit is in force after the watcher's next turn. The exit
  status of the command line tool and what it does to the file tree, for every command line, exceptions
  included. A blocklisted device draws through whatever is called between its creation and the draw. Where the code does not do what its comments or its callers expect, the
  theorem states what it does do: the second session's verdict in \<open>Wal\<close>, the parameters of a JIT draw
  in \<open>Core\<close>, streaming that never starts in \<open>CoreShape\<close>, a lost last batch and a running session taken
  for a crashed one in \<open>SessionLog\<close>, the constant verdicts of the simulation in \<open>Residency\<close> and of the
  benchmark in \<open>Cli\<close>, calls forwarded twice in \<open>Layer\<close>, the confused slots in \<open>D3d12\<close>, the deadlock
  in \<open>Privacy\<close>, lost updates in \<open>HotReload\<close> and \<open>AtomicConfig\<close>, models that do not learn from rewards in
  \<open>ModelLaws\<close>, rejected weights that stay and truncated files that panic in \<open>ModelFile\<close>, an engine that only
  counts in \<open>ModelCore\<close>, and a gate that passes when its clock is coarse in \<open>CriticalPath\<close>.

  BOUNDS AND FUEL. Loops are structural or come with a measure (breadth-first search, eviction, hook
  shifting, packet decoding). A call through a vtable slot is a partial function, because a
  trampoline can call itself; that a call returns is stated as equality with \<open>Some\<close>. Theorems that
  compare counters bound the number of events by the width of the counter, and say so.

  NOT MODELLED. What the kernel answers when the residency engine asks for a fence (\<open>sync_wait\<close>,
  \<open>D3DKMTWaitFenceSyncObject\<close>): the branches that ask are modelled, the answer is an argument.
  \<open>compute_checksum\<close> of the configuration, which hashes padding bytes and is never called. What a lock poisoned by a panic in another thread of
  the dashboard answers (the handlers never panic); its pages, report file and port, and how the web library parses
  requests. The deletion of a replaced shader cache after its grace period, and so use after that deletion.
  The bytes of \<open>user_profile.dat\<close>, a raw image of an object with \<open>std::string\<close>s: the object written is modelled.
  Symbolic links and other names of one file, in the tree of the command line tool.
  Data races on plain variables, which have no defined behaviour. The text the benchmarks on a real device print,
  and the timing loops around the log and the hooks. Tests, and the vendored Vulkan headers.
\<close>

end
